(* ===== verification/Prelude.thy ===== *)
theory Prelude
  imports Main "HOL-Library.AList" "HOL-Library.Word" "HOL-Library.Multiset"
begin

text \<open>
  Shared vocabulary of the development.

  \<^item> How a C++ operation can end: \<open>'a res\<close> is either a value (\<open>Inr\<close>) or the reason
    why the operation never returns one (\<open>Inl\<close>): an exception thrown by
    \<open>LOG_FATAL\<close>, a failed \<open>assert\<close> (the build defines \<open>DEBUG\<close> and is a Debug build, so
    assertions and \<open>LOG_DEBUG\<close> arguments are evaluated), undefined behaviour
    (an out-of-range vector access, a null dereference, a read of an uninitialised
    variable) or a loop that does not end.
  \<^item> \<open>uint64_t\<close> and \<open>uint32_t\<close>: natural numbers, with the wrap-around of every
    addition and subtraction written out (\<open>add64\<close>, \<open>sub64\<close>, \<open>add32\<close>).
  \<^item> \<open>std::vector\<close> accesses with their bounds, and \<open>std::unordered_map\<close> as an
    association list in iteration order (\<open>AList.update\<close>, \<open>AList.delete\<close>, \<open>map_of\<close>).
  \<^item> The locale \<open>run_relation\<close>: a reflexive and transitive relation between the states
    before and after an operation, with the rules that carry it through sequencing and
    through loops.
\<close>

declare One_nat_def [simp del]

section \<open>Ways to end\<close>

datatype failure =
    Fatal string          \<comment> \<open>\<open>LOG_FATAL\<close>: throws \<open>std::runtime_error\<close>\<close>
  | AssertFailed string   \<comment> \<open>\<open>assert\<close>: aborts\<close>
  | Undefined string      \<comment> \<open>undefined behaviour\<close>
  | Diverges              \<comment> \<open>a loop or recursion that does not end\<close>

type_synonym 'a res = "failure + 'a"

named_theorems res_simps "rewriting of computations that may fail"
named_theorems wf_intros "introduction rules for well-formedness predicates"

fun bindr :: "'a res \<Rightarrow> ('a \<Rightarrow> 'b res) \<Rightarrow> 'b res" where
  "bindr (Inl e) f = Inl e"
| "bindr (Inr x) f = f x"

definition assertr :: "string \<Rightarrow> bool \<Rightarrow> unit res" where
  "assertr msg b = (if b then Inr () else Inl (AssertFailed msg))"

lemma bindr_eq_Inr [res_simps]: "bindr m f = Inr y \<longleftrightarrow> (\<exists>x. m = Inr x \<and> f x = Inr y)"
  by (cases m) auto

lemma bindr_eq_Inl [res_simps]:
  "bindr m f = Inl e \<longleftrightarrow> m = Inl e \<or> (\<exists>x. m = Inr x \<and> f x = Inl e)"
  by (cases m) auto

lemma bindr_assoc [simp]: "bindr (bindr m f) g = bindr m (\<lambda>x. bindr (f x) g)"
  by (cases m) auto

lemma bindr_Inr_right [simp]: "bindr m Inr = m"
  by (cases m) auto

lemma bindr_cong [fundef_cong]:
  "m = m' \<Longrightarrow> (\<And>x. m' = Inr x \<Longrightarrow> f x = f' x) \<Longrightarrow> bindr m f = bindr m' f'"
  by (cases m') auto

lemma bindr_if [res_simps]: "bindr (if b then m else n) f = (if b then bindr m f else bindr n f)"
  by simp

lemma assertr_eq_Inr [simp]: "assertr msg b = Inr u \<longleftrightarrow> b"
  by (simp add: assertr_def)

lemma assertr_eq_Inl [simp]: "assertr msg b = Inl e \<longleftrightarrow> \<not> b \<and> e = AssertFailed msg"
  by (auto simp: assertr_def)

lemma assertr_True [simp]: "assertr msg True = Inr ()"
  by (simp add: assertr_def)

text \<open>A \<open>for\<close> loop over a container whose body may fail.\<close>

fun for_each :: "('a \<Rightarrow> 's \<Rightarrow> 's res) \<Rightarrow> 'a list \<Rightarrow> 's \<Rightarrow> 's res" where
  "for_each f [] s = Inr s"
| "for_each f (x # xs) s = bindr (f x s) (for_each f xs)"

lemma for_each_append:
  "for_each f (xs @ ys) s = bindr (for_each f xs s) (for_each f ys)"
proof (induction xs arbitrary: s)
  case (Cons x xs)
  then show ?case by (cases "f x s") simp_all
qed simp

lemma for_each_invariant:
  assumes "for_each f xs s = Inr s'" and "P s"
    and "\<And>x s s'. x \<in> set xs \<Longrightarrow> P s \<Longrightarrow> f x s = Inr s' \<Longrightarrow> P s'"
  shows "P s'"
  using assms
proof (induction xs arbitrary: s)
  case (Cons x xs)
  then obtain t where t: "f x s = Inr t" "for_each f xs t = Inr s'"
    by (auto simp: res_simps)
  with Cons.prems have "P t" by (auto intro: Cons.prems(3))
  with t(2) Cons.prems(3) show ?case by (auto intro: Cons.IH)
qed simp

lemma for_each_total:
  assumes "P s" and "\<And>x s. x \<in> set xs \<Longrightarrow> P s \<Longrightarrow> \<exists>s'. f x s = Inr s' \<and> P s'"
  shows "\<exists>s'. for_each f xs s = Inr s' \<and> P s'"
  using assms
proof (induction xs arbitrary: s)
  case (Cons x xs)
  from Cons.prems obtain t where t: "f x s = Inr t" "P t" by force
  with Cons.prems(2) have "\<exists>s'. for_each f xs t = Inr s' \<and> P s'" by (auto intro: Cons.IH)
  with t(1) show ?case by simp
qed simp

text \<open>The same with a result per element.\<close>

fun mapr :: "('a \<Rightarrow> 'b res) \<Rightarrow> 'a list \<Rightarrow> 'b list res" where
  "mapr f [] = Inr []"
| "mapr f (x # xs) = bindr (f x) (\<lambda>y. bindr (mapr f xs) (\<lambda>ys. Inr (y # ys)))"

lemma mapr_Inr: "(\<And>x. x \<in> set xs \<Longrightarrow> f x = Inr (g x)) \<Longrightarrow> mapr f xs = Inr (map g xs)"
  by (induction xs) auto

section \<open>Relations between the states before and after an operation\<close>

text \<open>
  Every handler is a sequence of smaller operations. A property of the form ``the state
  after is related to the state before'' (the term never decreases, the log below the
  commit index is kept) is proved for the smallest operations and composed by these
  rules. \<open>ok\<close> is an invariant that the operations may rely on and keep.
\<close>

locale run_relation =
  fixes ok :: "'s \<Rightarrow> bool"
    and rel :: "'s \<Rightarrow> 's \<Rightarrow> bool"
  assumes rel_refl: "ok s \<Longrightarrow> rel s s"
    and rel_trans: "rel s t \<Longrightarrow> rel t u \<Longrightarrow> rel s u"
    and rel_ok: "ok s \<Longrightarrow> rel s t \<Longrightarrow> ok t"
begin

lemma seq:
  assumes "ok s" and "bindr (f s) g = Inr u"
    and "\<And>t. f s = Inr t \<Longrightarrow> rel s t"
    and "\<And>t. ok t \<Longrightarrow> f s = Inr t \<Longrightarrow> g t = Inr u \<Longrightarrow> rel t u"
  shows "rel s u"
proof -
  from assms(2) obtain t where t: "f s = Inr t" "g t = Inr u"
    by (auto simp: res_simps)
  with assms have "rel s t" by blast
  moreover from this assms(1) have "ok t" by (rule rel_ok [rotated])
  ultimately show ?thesis using t assms(4) by (blast intro: rel_trans)
qed

lemma loop:
  assumes "ok s" and "for_each f xs s = Inr u"
    and "\<And>x t v. x \<in> set xs \<Longrightarrow> ok t \<Longrightarrow> f x t = Inr v \<Longrightarrow> rel t v"
  shows "rel s u"
proof -
  have "ok u \<and> rel s u"
  proof (rule for_each_invariant [OF assms(2)])
    show "ok s \<and> rel s s" using assms(1) by (simp add: rel_refl)
  next
    fix x t v
    assume "x \<in> set xs" "ok t \<and> rel s t" "f x t = Inr v"
    then show "ok v \<and> rel s v" using assms(3) by (blast intro: rel_trans rel_ok)
  qed
  then show ?thesis by simp
qed

end

section \<open>Unsigned integers\<close>

type_synonym u64 = nat
type_synonym u32 = nat

definition u64_max :: nat where "u64_max = 18446744073709551615"

definition u32_max :: nat where "u32_max = 4294967295"

definition add64 :: "u64 \<Rightarrow> u64 \<Rightarrow> u64" where
  "add64 a b = (a + b) mod (u64_max + 1)"

definition sub64 :: "u64 \<Rightarrow> u64 \<Rightarrow> u64" where
  "sub64 a b = (a + (u64_max + 1) - b) mod (u64_max + 1)"

definition add32 :: "u32 \<Rightarrow> u32 \<Rightarrow> u32" where
  "add32 a b = (a + b) mod (u32_max + 1)"

definition cast32 :: "nat \<Rightarrow> u32" where
  "cast32 n = n mod (u32_max + 1)"

lemmas word_defs = u64_max_def u32_max_def add64_def sub64_def add32_def cast32_def

lemma u64_max_pow: "u64_max = 2 ^ 64 - 1"
  by (simp add: u64_max_def)

lemma u32_max_pow: "u32_max = 2 ^ 32 - 1"
  by (simp add: u32_max_def)

lemma u32_max_less_u64_max: "u32_max < u64_max"
  by (simp add: u64_max_def u32_max_def)

lemma add64_id [simp]: "a + b \<le> u64_max \<Longrightarrow> add64 a b = a + b"
  by (simp add: add64_def)

lemma sub64_id [simp]: "b \<le> a \<Longrightarrow> a \<le> u64_max \<Longrightarrow> sub64 a b = a - b"
proof -
  assume "b \<le> a" "a \<le> u64_max"
  then have "a + (u64_max + 1) - b = (a - b) + (u64_max + 1)" "a - b < u64_max + 1" by auto
  then show ?thesis unfolding sub64_def by (simp only: mod_add_self2 mod_less)
qed

lemma sub64_wraps: "a < b \<Longrightarrow> b \<le> u64_max \<Longrightarrow> sub64 a b = a + u64_max + 1 - b"
  by (simp add: sub64_def)

lemma add64_bound [simp]: "add64 a b \<le> u64_max"
proof -
  have "(a + b) mod (u64_max + 1) < u64_max + 1" by (rule mod_less_divisor) simp
  then show ?thesis unfolding add64_def by linarith
qed

lemma sub64_bound [simp]: "sub64 a b \<le> u64_max"
proof -
  have "(a + (u64_max + 1) - b) mod (u64_max + 1) < u64_max + 1" by (rule mod_less_divisor) simp
  then show ?thesis unfolding sub64_def by linarith
qed

lemma add32_id [simp]: "a + b \<le> u32_max \<Longrightarrow> add32 a b = a + b"
  by (simp add: add32_def)

lemma cast32_id [simp]: "n \<le> u32_max \<Longrightarrow> cast32 n = n"
  by (simp add: cast32_def)

lemma cast32_bound [simp]: "cast32 n \<le> u32_max"
proof -
  have "n mod (u32_max + 1) < u32_max + 1" by (rule mod_less_divisor) simp
  then show ?thesis unfolding cast32_def by linarith
qed

lemma add32_bound [simp]: "add32 a b \<le> u32_max"
proof -
  have "(a + b) mod (u32_max + 1) < u32_max + 1" by (rule mod_less_divisor) simp
  then show ?thesis unfolding add32_def by linarith
qed

section \<open>Vectors\<close>

definition vec_at :: "'a list \<Rightarrow> nat \<Rightarrow> 'a res" where
  "vec_at xs i = (if i < length xs then Inr (xs ! i) else Inl (Undefined ''vector index''))"

text \<open>\<open>v.erase(v.begin() + i, v.begin() + j)\<close>.\<close>

definition vec_erase :: "'a list \<Rightarrow> nat \<Rightarrow> nat \<Rightarrow> 'a list res" where
  "vec_erase xs i j =
     (if i \<le> j \<and> j \<le> length xs then Inr (take i xs @ drop j xs)
      else Inl (Undefined ''vector erase range''))"

text \<open>The elements of \<open>v\<close> from iterator \<open>begin() + i\<close> up to \<open>begin() + j\<close>.\<close>

definition vec_range :: "'a list \<Rightarrow> nat \<Rightarrow> nat \<Rightarrow> 'a list res" where
  "vec_range xs i j =
     (if i \<le> j \<and> j \<le> length xs then Inr (take (j - i) (drop i xs))
      else Inl (Undefined ''vector range''))"

lemma vec_at_in_range [simp]: "i < length xs \<Longrightarrow> vec_at xs i = Inr (xs ! i)"
  by (simp add: vec_at_def)

lemma vec_at_eq_Inr [res_simps]: "vec_at xs i = Inr x \<longleftrightarrow> i < length xs \<and> x = xs ! i"
  by (auto simp: vec_at_def)

lemma vec_erase_in_range [simp]:
  "i \<le> j \<Longrightarrow> j \<le> length xs \<Longrightarrow> vec_erase xs i j = Inr (take i xs @ drop j xs)"
  by (simp add: vec_erase_def)

lemma vec_range_in_range [simp]:
  "i \<le> j \<Longrightarrow> j \<le> length xs \<Longrightarrow> vec_range xs i j = Inr (take (j - i) (drop i xs))"
  by (simp add: vec_range_def)

lemma take_drop_1_Cons [simp]: "take 1 (x # xs) = [x]" "drop 1 (x # xs) = xs"
  by (simp_all add: One_nat_def)

lemma take_or_all:
  "(if k < length xs then f (take k xs) else if length xs = k then f xs else y) =
   (if k \<le> length xs then f (take k xs) else y)"
  by auto

section \<open>Maps in iteration order\<close>

lemma map_of_eq_None_keys: "map_of m k = None \<longleftrightarrow> k \<notin> fst ` set m"
  by (auto simp: map_of_eq_None_iff)

lemma length_update_new:
  "k \<notin> fst ` set m \<Longrightarrow> length (AList.update k v m) = Suc (length m)"
  by (induction m) auto

lemma length_update_old:
  "k \<in> fst ` set m \<Longrightarrow> length (AList.update k v m) = length m"
  by (induction m) auto

lemma update_new_append:
  "k \<notin> fst ` set m \<Longrightarrow> AList.update k v m = m @ [(k, v)]"
  by (induction m) auto

lemma keys_update_old: "k \<in> fst ` set m \<Longrightarrow> map fst (AList.update k v m) = map fst m"
  by (induction m) auto

lemma length_filter_values_update_new:
  "k \<notin> fst ` set m \<Longrightarrow>
   length (filter (P \<circ> snd) (AList.update k v m)) =
   length (filter (P \<circ> snd) m) + (if P v then 1 else 0)"
  by (induction m) auto

end
