(* ===== verification/Proto.thy ===== *)
theory Proto
  imports Prelude
begin

text \<open>
  The data that nodes exchange and store: \<open>src/raft-kv/raft/proto.h\<close> and \<open>proto.cpp\<close>,
  the result codes of \<open>src/raft-kv/common/status.h\<close>, and the free functions of
  \<open>src/raft-kv/raft/util.cpp\<close>.

  \<open>MessageType\<close> and \<open>EntryType\<close> are \<open>uint8_t\<close> with named constants: the datatypes have
  one constructor per constant and one for every other byte that can arrive on the wire.
\<close>

section \<open>Result codes\<close>

datatype status =
    StatusOK
  | NotFound string
  | NotSupported string
  | InvalidArgument string
  | IOError string

definition is_ok :: "status \<Rightarrow> bool" where
  "is_ok s \<longleftrightarrow> s = StatusOK"

definition is_not_found :: "status \<Rightarrow> bool" where
  "is_not_found s \<longleftrightarrow> (case s of NotFound _ \<Rightarrow> True | _ \<Rightarrow> False)"

lemma is_ok_StatusOK [simp]: "is_ok StatusOK"
  by (simp add: is_ok_def)

lemma not_is_ok_error [simp]:
  "\<not> is_ok (NotFound x)" "\<not> is_ok (NotSupported x)"
  "\<not> is_ok (InvalidArgument x)" "\<not> is_ok (IOError x)"
  by (simp_all add: is_ok_def)

section \<open>Messages and entries\<close>

type_synonym byte = "8 word"

datatype message_type =
    MsgHup | MsgBeat | MsgProp | MsgApp | MsgAppResp | MsgVote | MsgVoteResp
  | MsgSnap | MsgHeartbeat | MsgHeartbeatResp | MsgUnreachable | MsgSnapStatus
  | MsgCheckQuorum | MsgTransferLeader | MsgTimeoutNow | MsgReadIndex
  | MsgReadIndexResp | MsgPreVote | MsgPreVoteResp | MsgTypeSize
  | MsgInvalid nat \<comment> \<open>any byte from 20 on\<close>

fun msg_type_code :: "message_type \<Rightarrow> nat" where
  "msg_type_code MsgHup = 0"
| "msg_type_code MsgBeat = 1"
| "msg_type_code MsgProp = 2"
| "msg_type_code MsgApp = 3"
| "msg_type_code MsgAppResp = 4"
| "msg_type_code MsgVote = 5"
| "msg_type_code MsgVoteResp = 6"
| "msg_type_code MsgSnap = 7"
| "msg_type_code MsgHeartbeat = 8"
| "msg_type_code MsgHeartbeatResp = 9"
| "msg_type_code MsgUnreachable = 10"
| "msg_type_code MsgSnapStatus = 11"
| "msg_type_code MsgCheckQuorum = 12"
| "msg_type_code MsgTransferLeader = 13"
| "msg_type_code MsgTimeoutNow = 14"
| "msg_type_code MsgReadIndex = 15"
| "msg_type_code MsgReadIndexResp = 16"
| "msg_type_code MsgPreVote = 17"
| "msg_type_code MsgPreVoteResp = 18"
| "msg_type_code MsgTypeSize = 19"
| "msg_type_code (MsgInvalid n) = n"

fun msg_type_to_string :: "message_type \<Rightarrow> string res" where
  "msg_type_to_string MsgHup = Inr ''MsgHup''"
| "msg_type_to_string MsgBeat = Inr ''MsgBeat''"
| "msg_type_to_string MsgProp = Inr ''MsgProp''"
| "msg_type_to_string MsgApp = Inr ''MsgApp''"
| "msg_type_to_string MsgAppResp = Inr ''MsgAppResp''"
| "msg_type_to_string MsgVote = Inr ''MsgVote''"
| "msg_type_to_string MsgVoteResp = Inr ''MsgVoteResp''"
| "msg_type_to_string MsgSnap = Inr ''MsgSnap''"
| "msg_type_to_string MsgHeartbeat = Inr ''MsgHeartbeat''"
| "msg_type_to_string MsgHeartbeatResp = Inr ''MsgHeartbeatResp''"
| "msg_type_to_string MsgUnreachable = Inr ''MsgUnreachable''"
| "msg_type_to_string MsgSnapStatus = Inr ''MsgSnapStatus''"
| "msg_type_to_string MsgCheckQuorum = Inr ''MsgCheckQuorum''"
| "msg_type_to_string MsgTransferLeader = Inr ''MsgTransferLeader''"
| "msg_type_to_string MsgTimeoutNow = Inr ''MsgTimeoutNow''"
| "msg_type_to_string MsgReadIndex = Inr ''MsgReadIndex''"
| "msg_type_to_string MsgReadIndexResp = Inr ''MsgReadIndexResp''"
| "msg_type_to_string MsgPreVote = Inr ''MsgPreVote''"
| "msg_type_to_string MsgPreVoteResp = Inr ''MsgPreVoteResp''"
| "msg_type_to_string MsgTypeSize = Inr ''MsgTypeSize''"
| "msg_type_to_string (MsgInvalid n) = Inl (Fatal ''invalid msg type'')"

datatype entry_type =
    EntryNormal
  | EntryConfChange
  | EntryInvalid nat \<comment> \<open>any byte from 2 on\<close>

fun entry_type_code :: "entry_type \<Rightarrow> nat" where
  "entry_type_code EntryNormal = 0"
| "entry_type_code EntryConfChange = 1"
| "entry_type_code (EntryInvalid n) = n"

fun entry_type_to_string :: "entry_type \<Rightarrow> string res" where
  "entry_type_to_string EntryNormal = Inr ''EntryNormal''"
| "entry_type_to_string EntryConfChange = Inr ''EntryConfChange''"
| "entry_type_to_string (EntryInvalid n) = Inl (Fatal ''invalid entry type'')"

record entry =
  e_type :: entry_type
  e_term :: u64
  e_index :: u64
  e_data :: "byte list"

definition new_entry :: entry where
  "new_entry = \<lparr>e_type = EntryNormal, e_term = 0, e_index = 0, e_data = []\<rparr>"

record conf_state =
  cs_nodes :: "u64 list"
  cs_learners :: "u64 list"

record snapshot_metadata =
  sm_conf_state :: conf_state
  sm_index :: u64
  sm_term :: u64

record snapshot =
  snap_data :: "byte list"
  snap_metadata :: snapshot_metadata

definition new_conf_state :: conf_state where
  "new_conf_state = \<lparr>cs_nodes = [], cs_learners = []\<rparr>"

definition new_snapshot :: snapshot where
  "new_snapshot =
     \<lparr>snap_data = [],
      snap_metadata = \<lparr>sm_conf_state = new_conf_state, sm_index = 0, sm_term = 0\<rparr>\<rparr>"

abbreviation snap_index :: "snapshot \<Rightarrow> u64" where
  "snap_index s \<equiv> sm_index (snap_metadata s)"

abbreviation snap_term :: "snapshot \<Rightarrow> u64" where
  "snap_term s \<equiv> sm_term (snap_metadata s)"

definition snapshot_is_empty :: "snapshot \<Rightarrow> bool" where
  "snapshot_is_empty s \<longleftrightarrow> snap_index s = 0"

definition snapshot_equal :: "snapshot \<Rightarrow> snapshot \<Rightarrow> bool" where
  "snapshot_equal s t \<longleftrightarrow>
     snap_data s = snap_data t \<and>
     (sm_index (snap_metadata s) = sm_index (snap_metadata t) \<and>
      (cs_nodes (sm_conf_state (snap_metadata s)) = cs_nodes (sm_conf_state (snap_metadata t)) \<and>
       cs_learners (sm_conf_state (snap_metadata s)) = cs_learners (sm_conf_state (snap_metadata t))) \<and>
      sm_term (snap_metadata s) = sm_term (snap_metadata t))"

record message =
  m_type :: message_type
  m_to :: u64
  m_from :: u64
  m_term :: u64
  m_log_term :: u64
  m_index :: u64
  m_entries :: "entry list"
  m_commit :: u64
  m_snapshot :: snapshot
  m_reject :: bool
  m_reject_hint :: u64
  m_context :: "byte list"

definition new_message :: message where
  "new_message =
     \<lparr>m_type = MsgHup, m_to = 0, m_from = 0, m_term = 0, m_log_term = 0, m_index = 0,
      m_entries = [], m_commit = 0, m_snapshot = new_snapshot, m_reject = False,
      m_reject_hint = 0, m_context = []\<rparr>"

definition message_is_local_msg :: "message \<Rightarrow> bool" where
  "message_is_local_msg m \<longleftrightarrow>
     m_type m = MsgHup \<or> m_type m = MsgBeat \<or> m_type m = MsgUnreachable \<or>
     m_type m = MsgSnapStatus \<or> m_type m = MsgCheckQuorum"

definition message_is_response_msg :: "message \<Rightarrow> bool" where
  "message_is_response_msg m \<longleftrightarrow>
     m_type m = MsgAppResp \<or> m_type m = MsgVoteResp \<or> m_type m = MsgHeartbeatResp \<or>
     m_type m = MsgUnreachable \<or> m_type m = MsgPreVoteResp"

record hard_state =
  hs_term :: u64
  hs_vote :: u64
  hs_commit :: u64

definition new_hard_state :: hard_state where
  "new_hard_state = \<lparr>hs_term = 0, hs_vote = 0, hs_commit = 0\<rparr>"

definition hard_state_is_empty :: "hard_state \<Rightarrow> bool" where
  "hard_state_is_empty hs \<longleftrightarrow> hs_term hs = 0 \<and> hs_vote hs = 0 \<and> hs_commit hs = 0"

definition hard_state_equal :: "hard_state \<Rightarrow> hard_state \<Rightarrow> bool" where
  "hard_state_equal a b \<longleftrightarrow>
     hs_term a = hs_term b \<and> hs_vote a = hs_vote b \<and> hs_commit a = hs_commit b"

datatype conf_change_type =
    ConfChangeAddNode
  | ConfChangeRemoveNode
  | ConfChangeUpdateNode
  | ConfChangeAddLearnerNode
  | ConfChangeInvalid nat \<comment> \<open>any byte from 4 on\<close>

record conf_change =
  cc_id :: u64
  cc_type :: conf_change_type
  cc_node_id :: u64
  cc_context :: "byte list"

lemma hard_state_equal_iff [simp]: "hard_state_equal a b \<longleftrightarrow> a = b"
  by (cases a; cases b) (simp add: hard_state_equal_def)

lemma snapshot_equal_iff [simp]: "snapshot_equal s t \<longleftrightarrow> s = t"
proof (cases s; cases t)
  fix d m d' m'
  assume "s = \<lparr>snap_data = d, snap_metadata = m\<rparr>" "t = \<lparr>snap_data = d', snap_metadata = m'\<rparr>"
  then show ?thesis
    by (cases m; cases m'; cases "sm_conf_state m"; cases "sm_conf_state m'")
      (auto simp: snapshot_equal_def)
qed

section \<open>Serialised sizes\<close>

definition u8_serialize_size :: "nat \<Rightarrow> u32" where
  "u8_serialize_size d = (if d < 2 ^ 7 then 1 else 2)"

definition u64_serialize_size :: "u64 \<Rightarrow> u32" where
  "u64_serialize_size d =
     (if d < 2 ^ 8 then (if d < 2 ^ 7 then 1 else 2)
      else if d < 2 ^ 16 then 3
      else if d < 2 ^ 32 then 5
      else 9)"

definition data_serialize_size :: "u32 \<Rightarrow> u32" where
  "data_serialize_size len =
     (if len \<le> 255 then add32 2 len
      else if len \<le> 65535 then add32 3 len
      else add32 5 len)"

definition serialize_size :: "entry \<Rightarrow> u32" where
  "serialize_size e =
     add32 (add32 (add32 (add32 1 (u8_serialize_size (entry_type_code (e_type e))))
       (u64_serialize_size (e_term e))) (u64_serialize_size (e_index e)))
       (data_serialize_size (cast32 (length (e_data e))))"

definition payload_size :: "entry \<Rightarrow> u32" where
  "payload_size e = cast32 (length (e_data e))"

lemma serialize_size_bound [simp]: "serialize_size e \<le> u32_max"
  by (simp add: serialize_size_def)

section \<open>Free functions of util.cpp\<close>

fun vote_resp_msg_type :: "message_type \<Rightarrow> message_type res" where
  "vote_resp_msg_type MsgVote = Inr MsgVoteResp"
| "vote_resp_msg_type MsgPreVote = Inr MsgPreVoteResp"
| "vote_resp_msg_type t = Inl (Fatal ''not a vote message'')"

text \<open>The loop of \<open>entry_limit_size\<close>: \<open>sz\<close> is the running total \<open>size\<close> of what is kept.\<close>

fun entry_limit_from :: "u64 \<Rightarrow> u64 \<Rightarrow> entry list \<Rightarrow> entry list" where
  "entry_limit_from max_size sz [] = []"
| "entry_limit_from max_size sz (e # es) =
     (let sz' = add64 sz (serialize_size e) in
      if sz' > max_size then [] else e # entry_limit_from max_size sz' es)"

definition entry_limit_size :: "u64 \<Rightarrow> entry list \<Rightarrow> entry list" where
  "entry_limit_size max_size entries =
     (case entries of
        [] \<Rightarrow> []
      | e # es \<Rightarrow> e # entry_limit_from max_size (serialize_size e) es)"

definition is_must_sync :: "hard_state \<Rightarrow> hard_state \<Rightarrow> nat \<Rightarrow> bool" where
  "is_must_sync st prevst entsnum \<longleftrightarrow>
     entsnum \<noteq> 0 \<or> hs_vote st \<noteq> hs_vote prevst \<or> hs_term st \<noteq> hs_term prevst"

section \<open>Runs of consecutive entries\<close>

fun contig :: "u64 \<Rightarrow> entry list \<Rightarrow> bool" where
  "contig n [] = True"
| "contig n (e # es) = (e_index e = n \<and> contig (Suc n) es)"

lemma contig_iff: "contig n es \<longleftrightarrow> (\<forall>i < length es. e_index (es ! i) = n + i)"
proof (induction es arbitrary: n)
  case (Cons e es)
  show ?case
    by (auto simp: Cons.IH less_Suc_eq_0_disj nth_Cons split: nat.splits)
qed simp

lemma contig_nth: "contig n es \<Longrightarrow> i < length es \<Longrightarrow> e_index (es ! i) = n + i"
  by (simp add: contig_iff)

lemma contig_append [simp]: "contig n (xs @ ys) \<longleftrightarrow> contig n xs \<and> contig (n + length xs) ys"
  by (induction xs arbitrary: n) auto

lemma contig_take [intro, simp]: "contig n es \<Longrightarrow> contig n (take k es)"
  by (simp add: contig_iff)

lemma contig_drop: "contig n es \<Longrightarrow> k \<le> length es \<Longrightarrow> contig (n + k) (drop k es)"
  by (simp add: contig_iff add.assoc)

lemma contig_last: "contig n es \<Longrightarrow> es \<noteq> [] \<Longrightarrow> e_index (last es) = n + (length es - 1)"
  by (simp add: last_conv_nth contig_nth)

lemma contig_hd: "contig n es \<Longrightarrow> es \<noteq> [] \<Longrightarrow> e_index (hd es) = n"
  by (cases es) auto

section \<open>What entry_limit_size keeps\<close>

definition total_size :: "entry list \<Rightarrow> nat" where
  "total_size es = sum_list (map serialize_size es)"

lemma total_size_simps [simp]:
  "total_size [] = 0" "total_size (e # es) = serialize_size e + total_size es"
  "total_size (xs @ ys) = total_size xs + total_size ys"
  by (simp_all add: total_size_def)

lemma entry_limit_from_prefix: "\<exists>n. entry_limit_from m s es = take n es"
proof (induction es arbitrary: s)
  case (Cons e es)
  then obtain n where "entry_limit_from m (add64 s (serialize_size e)) es = take n es" by blast
  then have "entry_limit_from m s (e # es) = take (Suc n) (e # es) \<or>
             entry_limit_from m s (e # es) = take 0 (e # es)"
    by (simp add: Let_def)
  then show ?case by blast
qed simp

lemma entry_limit_size_prefix: "\<exists>n. entry_limit_size m es = take n es"
proof (cases es)
  case (Cons e rest)
  obtain n where "entry_limit_from m (serialize_size e) rest = take n rest"
    using entry_limit_from_prefix by blast
  with Cons have "entry_limit_size m es = take (Suc n) es" by (simp add: entry_limit_size_def)
  then show ?thesis by blast
qed (simp add: entry_limit_size_def)

lemma entry_limit_size_Nil_iff [simp]: "entry_limit_size m es = [] \<longleftrightarrow> es = []"
  by (cases es) (simp_all add: entry_limit_size_def)

lemma entry_limit_size_length: "length (entry_limit_size m es) \<le> length es"
  using entry_limit_size_prefix [of m es] by auto

lemma entry_limit_size_take:
  "entry_limit_size m es = take (length (entry_limit_size m es)) es"
  using entry_limit_size_prefix [of m es] by (metis length_take take_take min.idem take_all_iff linorder_le_cases min_def)

lemma entry_limit_from_total:
  assumes "s + total_size es \<le> u64_max" and "s \<le> m"
  shows "s + total_size (entry_limit_from m s es) \<le> m"
  using assms
proof (induction es arbitrary: s)
  case (Cons e es)
  then show ?case by (simp add: Let_def not_less add.assoc [symmetric])
qed simp

lemma entry_limit_from_maximal:
  assumes "s + total_size es \<le> u64_max"
    and "length (entry_limit_from m s es) < length es"
  shows "m < s + total_size (take (Suc (length (entry_limit_from m s es))) es)"
  using assms
proof (induction es arbitrary: s)
  case (Cons e es)
  show ?case
  proof (cases "add64 s (serialize_size e) > m")
    case True
    with Cons.prems show ?thesis by (simp add: Let_def)
  next
    case False
    with Cons.prems Cons.IH [of "s + serialize_size e"] show ?thesis
      by (simp add: Let_def not_less add.assoc)
  qed
qed simp

end
