(* ===== verification/Abstract_Log.thy ===== *)
theory Abstract_Log
  imports Proto
begin

text \<open>
  The abstract log that storage and raft log implement: a base point (index and term of
  the last entry covered by a snapshot or by compaction) followed by entries with
  consecutive indices. The locale \<open>log_provider\<close> is the contract of the C++ interface
  \<open>kv::Storage\<close> (\<open>src/raft-kv/raft/storage.h\<close>): what its read operations return, as
  functions of that abstract log.
\<close>

section \<open>The abstract log\<close>

record alog =
  al_base :: u64
  al_bterm :: u64
  al_ents :: "entry list"

definition alog_wf :: "alog \<Rightarrow> bool" where
  "alog_wf a \<longleftrightarrow> contig (Suc (al_base a)) (al_ents a) \<and> al_base a + length (al_ents a) < u64_max"

definition alog_last :: "alog \<Rightarrow> u64" where
  "alog_last a = al_base a + length (al_ents a)"

definition alog_entry :: "alog \<Rightarrow> u64 \<Rightarrow> entry option" where
  "alog_entry a i =
     (if al_base a < i \<and> i \<le> alog_last a then Some (al_ents a ! (i - Suc (al_base a))) else None)"

definition alog_term_at :: "alog \<Rightarrow> u64 \<Rightarrow> u64" where
  "alog_term_at a i =
     (if i = al_base a then al_bterm a
      else case alog_entry a i of None \<Rightarrow> 0 | Some e \<Rightarrow> e_term e)"

definition alog_slice :: "alog \<Rightarrow> u64 \<Rightarrow> u64 \<Rightarrow> entry list" where
  "alog_slice a low high = take (high - low) (drop (low - Suc (al_base a)) (al_ents a))"

text \<open>Replace everything from index \<open>n\<close> on by \<open>es\<close>.\<close>

definition alog_splice :: "alog \<Rightarrow> u64 \<Rightarrow> entry list \<Rightarrow> alog" where
  "alog_splice a n es = a\<lparr>al_ents := take (n - Suc (al_base a)) (al_ents a) @ es\<rparr>"

lemma alog_entry_in:
  "al_base a < i \<Longrightarrow> i \<le> alog_last a \<Longrightarrow> alog_entry a i = Some (al_ents a ! (i - Suc (al_base a)))"
  by (simp add: alog_entry_def)

lemma alog_entry_None_iff: "alog_entry a i = None \<longleftrightarrow> i \<le> al_base a \<or> alog_last a < i"
  by (auto simp: alog_entry_def)

lemma alog_term_at_in:
  "al_base a < i \<Longrightarrow> i \<le> alog_last a \<Longrightarrow>
   alog_term_at a i = e_term (al_ents a ! (i - Suc (al_base a)))"
  by (simp add: alog_term_at_def alog_entry_def)

lemma alog_term_at_out:
  "i < al_base a \<or> alog_last a < i \<Longrightarrow> alog_term_at a i = 0"
  by (auto simp: alog_term_at_def alog_entry_def alog_last_def)

lemma alog_entry_index:
  assumes "alog_wf a" and "alog_entry a i = Some e"
  shows "e_index e = i"
proof -
  from assms(2) have i: "al_base a < i" "i \<le> alog_last a" "e = al_ents a ! (i - Suc (al_base a))"
    by (auto simp: alog_entry_def split: if_splits)
  with assms(1) show ?thesis
    by (simp add: alog_wf_def alog_last_def contig_iff)
qed

lemma alog_entry_ext:
  "alog_entry a i = alog_entry b i \<Longrightarrow> al_base a < i \<Longrightarrow> al_base b < i \<Longrightarrow>
   alog_term_at a i = alog_term_at b i"
  by (simp add: alog_term_at_def)

section \<open>Splicing\<close>

lemma alog_splice_base [simp]:
  "al_base (alog_splice a n es) = al_base a" "al_bterm (alog_splice a n es) = al_bterm a"
  by (simp_all add: alog_splice_def)

lemma alog_splice_last:
  "al_base a < n \<Longrightarrow> n \<le> Suc (alog_last a) \<Longrightarrow>
   alog_last (alog_splice a n es) = n + length es - 1"
  by (simp add: alog_splice_def alog_last_def)

lemma alog_splice_wf:
  assumes "alog_wf a" "contig n es" "al_base a < n" "n \<le> Suc (alog_last a)"
    and "n + length es \<le> u64_max"
  shows "alog_wf (alog_splice a n es)"
proof -
  have "length (take (n - Suc (al_base a)) (al_ents a)) = n - Suc (al_base a)"
    using assms by (simp add: alog_last_def)
  with assms show ?thesis
    by (auto simp: alog_wf_def alog_splice_def alog_last_def)
qed

lemma alog_splice_entry_below:
  "i < n \<Longrightarrow> al_base a < n \<Longrightarrow> n \<le> Suc (alog_last a) \<Longrightarrow>
   alog_entry (alog_splice a n es) i = alog_entry a i"
  by (auto simp: alog_entry_def alog_splice_last) (auto simp: alog_splice_def alog_last_def nth_append)

lemma alog_splice_entry_above:
  assumes "n \<le> i" "al_base a < n" "n \<le> Suc (alog_last a)"
  shows "alog_entry (alog_splice a n es) i = (if i < n + length es then Some (es ! (i - n)) else None)"
proof -
  have len: "length (take (n - Suc (al_base a)) (al_ents a)) = n - Suc (al_base a)"
    using assms by (simp add: alog_last_def)
  have "i - Suc (al_base a) - (n - Suc (al_base a)) = i - n"
    using assms by simp
  with len assms show ?thesis
    by (simp add: alog_entry_def alog_splice_last) (auto simp: alog_splice_def nth_append)
qed

lemma alog_splice_term_below:
  "i < n \<Longrightarrow> al_base a < n \<Longrightarrow> n \<le> Suc (alog_last a) \<Longrightarrow>
   alog_term_at (alog_splice a n es) i = alog_term_at a i"
  by (simp add: alog_term_at_def alog_splice_entry_below)

lemma alog_splice_same:
  assumes "al_base a < n" "n + length es \<le> Suc (alog_last a)"
    and "\<And>i. i < length es \<Longrightarrow> alog_entry a (n + i) = Some (es ! i)"
  shows "take (length es) (drop (n - Suc (al_base a)) (al_ents a)) = es"
proof (rule nth_equalityI)
  show "length (take (length es) (drop (n - Suc (al_base a)) (al_ents a))) = length es"
    using assms(1,2) by (simp add: alog_last_def)
  fix i
  assume "i < length (take (length es) (drop (n - Suc (al_base a)) (al_ents a)))"
  then have "i < length es" by simp
  with assms show "take (length es) (drop (n - Suc (al_base a)) (al_ents a)) ! i = es ! i"
    by (force simp: alog_entry_def alog_last_def split: if_splits)
qed

section \<open>Slices\<close>

lemma alog_slice_length:
  "al_base a < low \<Longrightarrow> high \<le> Suc (alog_last a) \<Longrightarrow> length (alog_slice a low high) = high - low"
  by (simp add: alog_slice_def alog_last_def)

lemma alog_slice_nth:
  assumes "al_base a < low" "high \<le> Suc (alog_last a)" "i < high - low"
  shows "alog_entry a (low + i) = Some (alog_slice a low high ! i)"
proof -
  have "low + i - Suc (al_base a) = low - Suc (al_base a) + i" using assms by simp
  with assms show ?thesis
    by (simp add: alog_slice_def alog_entry_def alog_last_def)
qed

lemma alog_slice_contig:
  assumes "alog_wf a" "al_base a < low" "low \<le> high" "high \<le> Suc (alog_last a)"
  shows "contig low (alog_slice a low high)"
proof -
  have "contig (Suc (al_base a) + (low - Suc (al_base a))) (drop (low - Suc (al_base a)) (al_ents a))"
    using assms by (intro contig_drop) (auto simp: alog_wf_def alog_last_def)
  with assms show ?thesis by (simp add: alog_slice_def)
qed

lemma alog_slice_split:
  assumes "low \<le> mid" "mid \<le> high"  "al_base a < low"
  shows "alog_slice a low high = alog_slice a low mid @ alog_slice a mid high"
proof -
  let ?d = "drop (low - Suc (al_base a)) (al_ents a)"
  have "take (high - low) ?d = take (mid - low) ?d @ take (high - mid) (drop (mid - low) ?d)"
    using assms by (metis take_add add.commute Nat.add_diff_assoc2 le_add_diff_inverse2)
  moreover have "drop (mid - low) ?d = drop (mid - Suc (al_base a)) (al_ents a)"
    using assms by simp
  ultimately show ?thesis by (simp add: alog_slice_def)
qed

section \<open>The contract of a storage\<close>

locale log_provider =
  fixes invar :: "'s \<Rightarrow> bool"
    and abs :: "'s \<Rightarrow> alog"
    and first_index :: "'s \<Rightarrow> (status \<times> u64) res"
    and last_index :: "'s \<Rightarrow> (status \<times> u64) res"
    and term_of :: "u64 \<Rightarrow> 's \<Rightarrow> (status \<times> u64 option) res"
    and entries :: "u64 \<Rightarrow> u64 \<Rightarrow> u64 \<Rightarrow> entry list \<Rightarrow> 's \<Rightarrow> (status \<times> entry list) res"
  assumes abs_wf: "invar s \<Longrightarrow> alog_wf (abs s)"
    and first_law: "invar s \<Longrightarrow> first_index s = Inr (StatusOK, Suc (al_base (abs s)))"
    and last_law: "invar s \<Longrightarrow> last_index s = Inr (StatusOK, alog_last (abs s))"
    and term_law: "invar s \<Longrightarrow> al_base (abs s) \<le> i \<Longrightarrow> i \<le> alog_last (abs s) \<Longrightarrow>
      term_of i s = Inr (StatusOK, Some (alog_term_at (abs s) i))"
    and entries_law: "invar s \<Longrightarrow> al_base (abs s) < low \<Longrightarrow> low < high \<Longrightarrow>
      high \<le> Suc (alog_last (abs s)) \<Longrightarrow>
      entries low high max_size [] s =
        Inr (StatusOK, entry_limit_size max_size (alog_slice (abs s) low high))"
begin

lemma last_bound: "invar s \<Longrightarrow> alog_last (abs s) < u64_max"
  using abs_wf by (auto simp: alog_wf_def alog_last_def)

lemma entries_cases:
  assumes "invar s" "al_base (abs s) < low" "low < high" "high \<le> Suc (alog_last (abs s))"
  shows "\<exists>es. entries low high m [] s = Inr (StatusOK, es) \<and> es \<noteq> [] \<and>
    es = take (length es) (alog_slice (abs s) low high) \<and> length es \<le> high - low"
proof -
  let ?es = "entry_limit_size m (alog_slice (abs s) low high)"
  have "length (alog_slice (abs s) low high) = high - low"
    using assms by (simp add: alog_slice_length)
  moreover from this assms have "alog_slice (abs s) low high \<noteq> []" by force
  ultimately have "?es \<noteq> []" "length ?es \<le> high - low"
    using entry_limit_size_length [of m "alog_slice (abs s) low high"] by auto
  moreover have "?es = take (length ?es) (alog_slice (abs s) low high)"
    by (rule entry_limit_size_take)
  ultimately show ?thesis using entries_law [OF assms, of m] by auto
qed

end

end
