(* ===== verification/Storage.thy ===== *)
theory Storage
  imports Abstract_Log
begin

text \<open>
  \<open>MemoryStorage\<close>: \<open>src/raft-kv/raft/storage.h\<close> and \<open>storage.cpp\<close>. Entry 0 of
  \<open>entries_\<close> is a dummy that carries the index and term of the last compacted entry.
  Every operation takes the mutex for its whole body and touches no other object, so an
  operation is one function on the record. Operations that fill an out-parameter take
  the vector they append to and return it; an out-parameter that is not written is
  \<open>None\<close>.
\<close>

section \<open>State and operations\<close>

record memory_storage =
  ms_hard_state :: hard_state
  ms_snapshot :: snapshot
  ms_entries :: "entry list"

definition new_memory_storage :: memory_storage where
  "new_memory_storage =
     \<lparr>ms_hard_state = new_hard_state, ms_snapshot = new_snapshot, ms_entries = [new_entry]\<rparr>"

definition storage_initial_state :: "memory_storage \<Rightarrow> status \<times> hard_state \<times> conf_state" where
  "storage_initial_state ms =
     (StatusOK, ms_hard_state ms, sm_conf_state (snap_metadata (ms_snapshot ms)))"

definition storage_set_hard_state :: "hard_state \<Rightarrow> memory_storage \<Rightarrow> memory_storage" where
  "storage_set_hard_state hs ms = ms\<lparr>ms_hard_state := hs\<rparr>"

definition storage_last_index_impl :: "memory_storage \<Rightarrow> u64 res" where
  "storage_last_index_impl ms =
     bindr (vec_at (ms_entries ms) 0) (\<lambda>d.
     Inr (sub64 (add64 (e_index d) (length (ms_entries ms))) 1))"

definition storage_first_index_impl :: "memory_storage \<Rightarrow> u64 res" where
  "storage_first_index_impl ms =
     bindr (vec_at (ms_entries ms) 0) (\<lambda>d. Inr (add64 (e_index d) 1))"

definition storage_last_index :: "memory_storage \<Rightarrow> (status \<times> u64) res" where
  "storage_last_index ms = bindr (storage_last_index_impl ms) (\<lambda>i. Inr (StatusOK, i))"

definition storage_first_index :: "memory_storage \<Rightarrow> (status \<times> u64) res" where
  "storage_first_index ms = bindr (storage_first_index_impl ms) (\<lambda>i. Inr (StatusOK, i))"

definition storage_snapshot :: "memory_storage \<Rightarrow> status \<times> snapshot" where
  "storage_snapshot ms = (StatusOK, ms_snapshot ms)"

definition storage_entries ::
  "u64 \<Rightarrow> u64 \<Rightarrow> u64 \<Rightarrow> entry list \<Rightarrow> memory_storage \<Rightarrow> (status \<times> entry list) res" where
  "storage_entries low high max_size acc ms =
     bindr (assertr ''low < high'' (low < high)) (\<lambda>_.
     bindr (vec_at (ms_entries ms) 0) (\<lambda>d.
     let offset = e_index d in
     if low < offset then
       Inr (InvalidArgument ''requested index is unavailable due to campaction'', acc)
     else
       bindr (storage_last_index_impl ms) (\<lambda>last.
       if high > add64 last 1 then Inl (Fatal ''entries' hi is out of bound last_index'')
       else if length (ms_entries ms) = 1 then
         Inr (InvalidArgument ''request entry at index is unavailable'', acc)
       else
         bindr (vec_range (ms_entries ms) (sub64 low offset) (sub64 high offset)) (\<lambda>es.
         Inr (StatusOK, entry_limit_size max_size (acc @ es))))))"

definition storage_term :: "u64 \<Rightarrow> memory_storage \<Rightarrow> (status \<times> u64 option) res" where
  "storage_term i ms =
     bindr (vec_at (ms_entries ms) 0) (\<lambda>d.
     let offset = e_index d in
     if i < offset then
       Inr (InvalidArgument ''requested index is unavailable due to compaction'', None)
     else if sub64 i offset \<ge> length (ms_entries ms) then
       Inr (InvalidArgument ''requested entry at index is unavailable'', None)
     else
       bindr (vec_at (ms_entries ms) (sub64 i offset)) (\<lambda>e.
       Inr (StatusOK, Some (e_term e))))"

definition storage_compact :: "u64 \<Rightarrow> memory_storage \<Rightarrow> (status \<times> memory_storage) res" where
  "storage_compact compact_index ms =
     bindr (vec_at (ms_entries ms) 0) (\<lambda>d.
     let offset = e_index d in
     if compact_index \<le> offset then
       Inr (InvalidArgument ''requested idnex is unavailable due to compaction'', ms)
     else
       bindr (storage_last_index_impl ms) (\<lambda>last_idx.
       if compact_index > last_idx then Inl (Fatal ''compact is out of lastindex'')
       else
         let i = sub64 compact_index offset in
         bindr (vec_at (ms_entries ms) i) (\<lambda>e.
         let es = (ms_entries ms)[0 := d\<lparr>e_index := e_index e, e_term := e_term e\<rparr>] in
         bindr (vec_erase es 1 (add64 i 1)) (\<lambda>es'.
         Inr (StatusOK, ms\<lparr>ms_entries := es'\<rparr>)))))"

definition storage_append :: "entry list \<Rightarrow> memory_storage \<Rightarrow> (status \<times> memory_storage) res" where
  "storage_append ents ms =
     (case ents of
        [] \<Rightarrow> Inr (StatusOK, ms)
      | e0 # _ \<Rightarrow>
        bindr (storage_first_index_impl ms) (\<lambda>first.
        let last = sub64 (add64 (e_index e0) (length ents)) 1 in
        if last < first then Inr (StatusOK, ms)
        else
          bindr (if first > e_index e0 then vec_erase ents 0 (sub64 first (e_index e0)) else Inr ents)
          (\<lambda>ents.
          bindr (vec_at ents 0) (\<lambda>e.
          bindr (vec_at (ms_entries ms) 0) (\<lambda>d.
          let offset = sub64 (e_index e) (e_index d) in
          if length (ms_entries ms) > offset then
            Inr (StatusOK, ms\<lparr>ms_entries := take offset (ms_entries ms) @ ents\<rparr>)
          else if length (ms_entries ms) = offset then
            Inr (StatusOK, ms\<lparr>ms_entries := ms_entries ms @ ents\<rparr>)
          else Inl (Fatal ''missing log entry''))))))"

definition storage_create_snapshot ::
  "u64 \<Rightarrow> conf_state option \<Rightarrow> byte list \<Rightarrow> memory_storage \<Rightarrow>
   (status \<times> snapshot \<times> memory_storage) res" where
  "storage_create_snapshot idx cs data ms =
     (if idx \<le> snap_index (ms_snapshot ms) then
        Inr (InvalidArgument ''request index is older than the existing snapshot'', new_snapshot, ms)
      else
        bindr (vec_at (ms_entries ms) 0) (\<lambda>d.
        let offset = e_index d in
        bindr (storage_last_index_impl ms) (\<lambda>last.
        if idx > last then Inl (Fatal ''snaphot is out of bound lastindex'')
        else
          bindr (vec_at (ms_entries ms) (sub64 idx offset)) (\<lambda>e.
          let meta = (snap_metadata (ms_snapshot ms))\<lparr>sm_index := idx, sm_term := e_term e\<rparr>;
              meta' = (case cs of None \<Rightarrow> meta | Some c \<Rightarrow> meta\<lparr>sm_conf_state := c\<rparr>);
              snap = \<lparr>snap_data = data, snap_metadata = meta'\<rparr>
          in Inr (StatusOK, snap, ms\<lparr>ms_snapshot := snap\<rparr>)))))"

definition storage_apply_snapshot :: "snapshot \<Rightarrow> memory_storage \<Rightarrow> status \<times> memory_storage" where
  "storage_apply_snapshot snap ms =
     (if snap_index (ms_snapshot ms) \<ge> snap_index snap then
        (InvalidArgument ''requested index is older than the existing snapshot'', ms)
      else
        (StatusOK,
         ms\<lparr>ms_snapshot := snap,
            ms_entries := [new_entry\<lparr>e_term := snap_term snap, e_index := snap_index snap\<rparr>]\<rparr>))"

section \<open>Well-formedness and abstraction\<close>

definition storage_abs :: "memory_storage \<Rightarrow> alog" where
  "storage_abs ms =
     \<lparr>al_base = e_index (hd (ms_entries ms)), al_bterm = e_term (hd (ms_entries ms)),
      al_ents = tl (ms_entries ms)\<rparr>"

definition storage_wf :: "memory_storage \<Rightarrow> bool" where
  "storage_wf ms \<longleftrightarrow> ms_entries ms \<noteq> [] \<and> alog_wf (storage_abs ms)"

lemma storage_wfE:
  assumes "storage_wf ms"
  obtains d es where "ms_entries ms = d # es" "contig (Suc (e_index d)) es"
    "e_index d + length es < u64_max"
    "storage_abs ms = \<lparr>al_base = e_index d, al_bterm = e_term d, al_ents = es\<rparr>"
proof -
  from assms obtain d es where "ms_entries ms = d # es"
    by (cases "ms_entries ms") (auto simp: storage_wf_def)
  with assms that show ?thesis
    by (simp add: storage_wf_def storage_abs_def alog_wf_def)
qed

lemma new_memory_storage_wf [wf_intros]: "storage_wf new_memory_storage"
  by (simp add: storage_wf_def storage_abs_def new_memory_storage_def alog_wf_def new_entry_def
      u64_max_def)

lemma storage_last_index_impl_wf [simp]:
  "storage_wf ms \<Longrightarrow> storage_last_index_impl ms = Inr (alog_last (storage_abs ms))"
  by (erule storage_wfE) (simp add: storage_last_index_impl_def alog_last_def)

lemma storage_first_index_impl_wf [simp]:
  "storage_wf ms \<Longrightarrow> storage_first_index_impl ms = Inr (Suc (al_base (storage_abs ms)))"
  by (erule storage_wfE) (simp add: storage_first_index_impl_def)

lemma dummy_nth_term:
  assumes "storage_abs ms = \<lparr>al_base = e_index d, al_bterm = e_term d, al_ents = es\<rparr>"
    and "al_base (storage_abs ms) \<le> i" "i \<le> alog_last (storage_abs ms)"
  shows "e_term ((d # es) ! (i - e_index d)) = alog_term_at (storage_abs ms) i"
proof (cases "i = e_index d")
  case False
  then have "i - e_index d = Suc (i - Suc (e_index d))" using assms by simp
  with False assms show ?thesis by (simp add: alog_term_at_in)
qed (use assms in \<open>simp add: alog_term_at_def\<close>)

lemma storage_term_in:
  assumes "storage_wf ms" "al_base (storage_abs ms) \<le> i" "i \<le> alog_last (storage_abs ms)"
  shows "storage_term i ms = Inr (StatusOK, Some (alog_term_at (storage_abs ms) i))"
proof -
  obtain d es where d: "ms_entries ms = d # es" "e_index d + length es < u64_max"
    and a: "storage_abs ms = \<lparr>al_base = e_index d, al_bterm = e_term d, al_ents = es\<rparr>"
    using assms(1) by (rule storage_wfE)
  with assms have "storage_term i ms = Inr (StatusOK, Some (e_term ((d # es) ! (i - e_index d))))"
    by (simp add: storage_term_def Let_def alog_last_def)
  with assms a show ?thesis using dummy_nth_term [of ms d es i] by simp
qed

lemma storage_entries_in:
  assumes "storage_wf ms" "al_base (storage_abs ms) < low" "low < high"
    "high \<le> Suc (alog_last (storage_abs ms))"
  shows "storage_entries low high m [] ms =
    Inr (StatusOK, entry_limit_size m (alog_slice (storage_abs ms) low high))"
proof -
  obtain d es where d: "ms_entries ms = d # es" "contig (Suc (e_index d)) es"
    "e_index d + length es < u64_max"
    and a: "storage_abs ms = \<lparr>al_base = e_index d, al_bterm = e_term d, al_ents = es\<rparr>"
    using assms(1) by (rule storage_wfE)
  from assms d a have "es \<noteq> []" by (auto simp: alog_last_def)
  moreover have "low - e_index d = Suc (low - Suc (e_index d))"
    using assms a by simp
  ultimately show ?thesis using assms d a
    by (simp add: storage_entries_def alog_last_def alog_slice_def Let_def)
qed

interpretation ms: log_provider storage_wf storage_abs storage_first_index storage_last_index
  storage_term storage_entries
proof unfold_locales
  show "alog_wf (storage_abs s)" if "storage_wf s" for s
    using that by (simp add: storage_wf_def)
  show "storage_first_index s = Inr (StatusOK, Suc (al_base (storage_abs s)))"
    and "storage_last_index s = Inr (StatusOK, alog_last (storage_abs s))"
    if "storage_wf s" for s
    using that by (simp_all add: storage_first_index_def storage_last_index_def)
qed (rule storage_term_in storage_entries_in; assumption)+

section \<open>Appending\<close>

text \<open>
  The part of the new entries that is not yet compacted replaces everything from its
  first index on; a batch that starts beyond the end of the log is a fatal error.
\<close>

lemma storage_append_nonempty:
  "ents \<noteq> [] \<Longrightarrow> storage_append ents ms =
     bindr (storage_first_index_impl ms) (\<lambda>first.
       if sub64 (add64 (e_index (hd ents)) (length ents)) 1 < first then Inr (StatusOK, ms)
       else
         bindr (if first > e_index (hd ents)
                then vec_erase ents 0 (sub64 first (e_index (hd ents))) else Inr ents)
         (\<lambda>ents.
         bindr (vec_at ents 0) (\<lambda>e.
         bindr (vec_at (ms_entries ms) 0) (\<lambda>d.
         let offset = sub64 (e_index e) (e_index d) in
         if length (ms_entries ms) > offset then
           Inr (StatusOK, ms\<lparr>ms_entries := take offset (ms_entries ms) @ ents\<rparr>)
         else if length (ms_entries ms) = offset then
           Inr (StatusOK, ms\<lparr>ms_entries := ms_entries ms @ ents\<rparr>)
         else Inl (Fatal ''missing log entry'')))))"
  by (cases ents) (simp_all only: storage_append_def list.case list.sel Let_def list.simps simp_thms)

lemma storage_append_spec:
  assumes wf: "storage_wf ms" and c: "contig n ents" and ne: "ents \<noteq> []"
    and b: "n + length ents \<le> u64_max"
  shows "storage_append ents ms =
    (let a = storage_abs ms; first = Suc (al_base a) in
     if n + length ents \<le> first then Inr (StatusOK, ms)
     else if n \<le> Suc (alog_last a) then
       Inr (StatusOK, ms\<lparr>ms_entries :=
         take (max n first - al_base a) (ms_entries ms) @ drop (first - n) ents\<rparr>)
     else Inl (Fatal ''missing log entry''))"
proof -
  obtain d es where d: "ms_entries ms = d # es" "e_index d + length es < u64_max"
    and a: "storage_abs ms = \<lparr>al_base = e_index d, al_bterm = e_term d, al_ents = es\<rparr>"
    using wf by (rule storage_wfE)
  have hdn: "e_index (hd ents) = n" using c ne by (rule contig_hd)
  let ?first = "Suc (e_index d)"
  have first: "storage_first_index_impl ms = Inr ?first"
    using wf a by simp
  have last: "sub64 (add64 n (length ents)) 1 = n + length ents - 1"
    using b ne by (cases ents) simp_all
  note unfold = storage_append_nonempty [OF ne] hdn first last bindr.simps
  show ?thesis
  proof (cases "n + length ents \<le> ?first")
    case True
    then have "n + length ents - 1 < ?first" using ne by (cases ents) auto
    with True a show ?thesis unfolding unfold by (simp add: Let_def)
  next
    case False
    let ?ents = "drop (?first - n) ents"
    have erase: "(if ?first > n then vec_erase ents 0 (sub64 ?first n) else Inr ents) = Inr ?ents"
      using False d by simp
    have k: "?first - n < length ents" using False ne by (cases ents) auto
    then have hd: "vec_at ?ents 0 = Inr (ents ! (?first - n))" by simp
    have idx: "e_index (ents ! (?first - n)) = max n ?first"
      using c k by (simp add: contig_nth max_def)
    have off: "sub64 (max n ?first) (e_index d) = max n ?first - e_index d"
      using b d False by simp
    have "storage_append ents ms =
      (if length (d # es) > max n ?first - e_index d
       then Inr (StatusOK, ms\<lparr>ms_entries := take (max n ?first - e_index d) (d # es) @ ?ents\<rparr>)
       else if length (d # es) = max n ?first - e_index d
       then Inr (StatusOK, ms\<lparr>ms_entries := (d # es) @ ?ents\<rparr>)
       else Inl (Fatal ''missing log entry''))"
    proof -
      have "\<not> n + length ents - 1 < ?first" using False by simp
      moreover have "vec_at (ms_entries ms) 0 = Inr d" using d by simp
      ultimately show ?thesis unfolding unfold erase
        by (simp only: bindr.simps hd idx off Let_def d(1) if_False)
    qed
    then have "storage_append ents ms =
      (if max n ?first - e_index d \<le> length (d # es)
       then Inr (StatusOK, ms\<lparr>ms_entries := take (max n ?first - e_index d) (d # es) @ ?ents\<rparr>)
       else Inl (Fatal ''missing log entry''))"
      unfolding take_or_all [where f = "\<lambda>l. Inr (StatusOK, ms\<lparr>ms_entries := l @ ?ents\<rparr>)"] .
    moreover have "n \<le> Suc (e_index d + length es) \<longleftrightarrow> max n ?first - e_index d \<le> length (d # es)"
      by auto
    ultimately show ?thesis
      unfolding Let_def d(1) using False a by (simp only: alog_last_def alog.simps if_False)
  qed
qed

lemma storage_append_refines:
  assumes wf: "storage_wf ms" and c: "contig n ents" and b: "n + length ents \<le> u64_max"
    and lo: "al_base (storage_abs ms) < n" and hi: "n \<le> Suc (alog_last (storage_abs ms))"
    and ne: "ents \<noteq> []"
  shows "\<exists>ms'. storage_append ents ms = Inr (StatusOK, ms') \<and> storage_wf ms' \<and>
    storage_abs ms' = alog_splice (storage_abs ms) n ents \<and>
    ms_hard_state ms' = ms_hard_state ms \<and> ms_snapshot ms' = ms_snapshot ms"
proof -
  obtain d es where d: "ms_entries ms = d # es"
    and a: "storage_abs ms = \<lparr>al_base = e_index d, al_bterm = e_term d, al_ents = es\<rparr>"
    using wf by (rule storage_wfE)
  let ?ms' = "ms\<lparr>ms_entries := take (n - e_index d) (d # es) @ ents\<rparr>"
  have "storage_append ents ms = Inr (StatusOK, ?ms')"
  proof -
    have "\<not> n + length ents \<le> Suc (e_index d)" "max n (Suc (e_index d)) = n"
      using lo ne a by (cases ents; simp)+
    then show ?thesis using storage_append_spec [OF wf c ne b] lo hi d a by (simp add: Let_def)
  qed
  moreover have abs: "storage_abs ?ms' = alog_splice (storage_abs ms) n ents"
  proof -
    have "n - e_index d = Suc (n - Suc (e_index d))" using lo a by simp
    then show ?thesis by (simp add: storage_abs_def alog_splice_def d)
  qed
  moreover have "alog_wf (alog_splice (storage_abs ms) n ents)"
    using ms.abs_wf [OF wf] c lo hi b by (intro alog_splice_wf)
  moreover have "storage_wf ?ms'"
    using abs calculation(3) lo a by (simp add: storage_wf_def)
  ultimately show ?thesis by auto
qed

section \<open>Compaction and snapshots\<close>

lemma storage_compact_refines:
  assumes wf: "storage_wf ms"
    and lo: "al_base (storage_abs ms) < i" and hi: "i \<le> alog_last (storage_abs ms)"
  shows "\<exists>ms'. storage_compact i ms = Inr (StatusOK, ms') \<and> storage_wf ms' \<and>
    al_base (storage_abs ms') = i \<and> al_bterm (storage_abs ms') = alog_term_at (storage_abs ms) i \<and>
    alog_last (storage_abs ms') = alog_last (storage_abs ms) \<and>
    (\<forall>j > i. alog_entry (storage_abs ms') j = alog_entry (storage_abs ms) j) \<and>
    ms_hard_state ms' = ms_hard_state ms \<and> ms_snapshot ms' = ms_snapshot ms"
proof -
  obtain d es where d: "ms_entries ms = d # es" "contig (Suc (e_index d)) es"
    "e_index d + length es < u64_max"
    and a: "storage_abs ms = \<lparr>al_base = e_index d, al_bterm = e_term d, al_ents = es\<rparr>"
    using wf by (rule storage_wfE)
  let ?k = "i - Suc (e_index d)"
  let ?e = "es ! ?k"
  let ?ms' = "ms\<lparr>ms_entries := d\<lparr>e_index := e_index ?e, e_term := e_term ?e\<rparr> # drop (Suc ?k) es\<rparr>"
  have k: "i - e_index d = Suc ?k" "?k < length es"
    using lo hi a by (auto simp: alog_last_def)
  then have idx: "e_index ?e = i" using d lo a by (simp add: contig_nth)
  have "storage_compact i ms = Inr (StatusOK, ?ms')"
    using wf d a lo hi k by (simp add: storage_compact_def Let_def alog_last_def)
  moreover have abs: "storage_abs ?ms' =
      \<lparr>al_base = i, al_bterm = e_term ?e, al_ents = drop (Suc ?k) es\<rparr>"
    by (simp add: storage_abs_def idx)
  moreover have "contig (Suc (e_index d) + Suc ?k) (drop (Suc ?k) es)"
    using d k by (intro contig_drop) auto
  then have "storage_wf ?ms'"
    using abs d k lo a by (simp add: storage_wf_def alog_wf_def)
  moreover have "alog_last (storage_abs ?ms') = alog_last (storage_abs ms)"
    using abs a k lo by (simp add: alog_last_def)
  moreover have "alog_entry (storage_abs ?ms') j = alog_entry (storage_abs ms) j" if "j > i" for j
  proof -
    have "Suc ?k + (j - Suc i) = j - Suc (e_index d)" using that lo a by simp
    with that abs a k lo show ?thesis by (simp add: alog_entry_def alog_last_def)
  qed
  moreover have "e_term ?e = alog_term_at (storage_abs ms) i"
    using lo hi a by (simp add: alog_term_at_in)
  ultimately show ?thesis by auto
qed

lemma storage_create_snapshot_refines:
  assumes wf: "storage_wf ms" and new: "snap_index (ms_snapshot ms) < i"
    and lo: "al_base (storage_abs ms) \<le> i" and hi: "i \<le> alog_last (storage_abs ms)"
  shows "\<exists>snap ms'. storage_create_snapshot i cs data ms = Inr (StatusOK, snap, ms') \<and>
    ms_snapshot ms' = snap \<and> snap_index snap = i \<and>
    snap_term snap = alog_term_at (storage_abs ms) i \<and> snap_data snap = data \<and>
    storage_abs ms' = storage_abs ms \<and> storage_wf ms'"
proof -
  obtain d es where d: "ms_entries ms = d # es" "e_index d + length es < u64_max"
    and a: "storage_abs ms = \<lparr>al_base = e_index d, al_bterm = e_term d, al_ents = es\<rparr>"
    using wf by (rule storage_wfE)
  have "vec_at (d # es) (sub64 i (e_index d)) = Inr ((d # es) ! (i - e_index d))"
    using lo hi a d by (simp add: alog_last_def)
  moreover have "e_term ((d # es) ! (i - e_index d)) = alog_term_at (storage_abs ms) i"
    using lo hi a by (intro dummy_nth_term)
  ultimately show ?thesis using wf new d a hi
    by (auto simp: storage_create_snapshot_def Let_def storage_abs_def storage_wf_def
        split: option.splits)
qed

lemma storage_apply_snapshot_refines:
  assumes "snap_index (ms_snapshot ms) < snap_index snap" "snap_index snap < u64_max"
  shows "\<exists>ms'. storage_apply_snapshot snap ms = (StatusOK, ms') \<and> storage_wf ms' \<and>
    storage_abs ms' = \<lparr>al_base = snap_index snap, al_bterm = snap_term snap, al_ents = []\<rparr> \<and>
    ms_snapshot ms' = snap \<and> ms_hard_state ms' = ms_hard_state ms"
  using assms
  by (simp add: storage_apply_snapshot_def storage_wf_def storage_abs_def alog_wf_def)

end
