(* ===== verification/Unstable.thy ===== *)
theory Unstable
  imports Abstract_Log
begin

text \<open>
  The part of the log that is not yet in stable storage: \<open>src/raft-kv/raft/unstable.h\<close>
  and \<open>unstable.cpp\<close>. An out-parameter pair \<open>(value, ok)\<close> is an option; the value
  is 0 and unused when \<open>ok\<close> is false.
\<close>

record unstable =
  u_snapshot :: "snapshot option"
  u_entries :: "entry list"
  u_offset :: u64

definition new_unstable :: "u64 \<Rightarrow> unstable" where
  "new_unstable offset = \<lparr>u_snapshot = None, u_entries = [], u_offset = offset\<rparr>"

definition unstable_maybe_first_index :: "unstable \<Rightarrow> u64 option" where
  "unstable_maybe_first_index u =
     (case u_snapshot u of Some s \<Rightarrow> Some (add64 (snap_index s) 1) | None \<Rightarrow> None)"

definition unstable_maybe_last_index :: "unstable \<Rightarrow> u64 option" where
  "unstable_maybe_last_index u =
     (if u_entries u \<noteq> [] then Some (sub64 (add64 (u_offset u) (length (u_entries u))) 1)
      else case u_snapshot u of Some s \<Rightarrow> Some (snap_index s) | None \<Rightarrow> None)"

definition unstable_maybe_term :: "u64 \<Rightarrow> unstable \<Rightarrow> u64 option res" where
  "unstable_maybe_term idx u =
     (if idx < u_offset u then
        (case u_snapshot u of
           None \<Rightarrow> Inr None
         | Some s \<Rightarrow> if snap_index s = idx then Inr (Some (snap_term s)) else Inr None)
      else case unstable_maybe_last_index u of
        None \<Rightarrow> Inr None
      | Some li \<Rightarrow>
          if idx > li then Inr None
          else bindr (vec_at (u_entries u) (sub64 idx (u_offset u))) (\<lambda>e. Inr (Some (e_term e))))"

definition unstable_stable_to :: "u64 \<Rightarrow> u64 \<Rightarrow> unstable \<Rightarrow> unstable res" where
  "unstable_stable_to idx t u =
     bindr (unstable_maybe_term idx u) (\<lambda>gt.
     case gt of
       None \<Rightarrow> Inr u
     | Some gt \<Rightarrow>
         if gt = t \<and> idx \<ge> u_offset u then
           bindr (vec_erase (u_entries u) 0 (add64 (sub64 idx (u_offset u)) 1)) (\<lambda>es.
           Inr (u\<lparr>u_entries := es, u_offset := add64 idx 1\<rparr>))
         else Inr u)"

definition unstable_stable_snap_to :: "u64 \<Rightarrow> unstable \<Rightarrow> unstable" where
  "unstable_stable_snap_to idx u =
     (case u_snapshot u of
        Some s \<Rightarrow> if snap_index s = idx then u\<lparr>u_snapshot := None\<rparr> else u
      | None \<Rightarrow> u)"

definition unstable_restore :: "snapshot \<Rightarrow> unstable \<Rightarrow> unstable" where
  "unstable_restore s u =
     u\<lparr>u_offset := add64 (snap_index s) 1, u_entries := [], u_snapshot := Some s\<rparr>"

definition unstable_slice ::
  "u64 \<Rightarrow> u64 \<Rightarrow> entry list \<Rightarrow> unstable \<Rightarrow> entry list res" where
  "unstable_slice low high acc u =
     bindr (assertr ''high > low'' (high > low)) (\<lambda>_.
     let upper = add64 (u_offset u) (length (u_entries u)) in
     if low < u_offset u \<or> high > upper then Inl (Fatal ''unstable.slice out of bound'')
     else
       bindr (vec_range (u_entries u) (sub64 low (u_offset u)) (sub64 high (u_offset u))) (\<lambda>es.
       Inr (acc @ es)))"

definition unstable_truncate_and_append :: "entry list \<Rightarrow> unstable \<Rightarrow> unstable res" where
  "unstable_truncate_and_append ents u =
     (if ents = [] then Inr u
      else
        let after = e_index (hd ents) in
        if after = add64 (length (u_entries u)) (u_offset u) then
          Inr (u\<lparr>u_entries := u_entries u @ ents\<rparr>)
        else if after \<le> u_offset u then
          Inr (u\<lparr>u_offset := after, u_entries := ents\<rparr>)
        else
          bindr (unstable_slice (u_offset u) after [] u) (\<lambda>es.
          Inr (u\<lparr>u_entries := es @ ents\<rparr>)))"

section \<open>Well-formedness and the effect of each operation\<close>

definition unstable_wf :: "unstable \<Rightarrow> bool" where
  "unstable_wf u \<longleftrightarrow>
     contig (u_offset u) (u_entries u) \<and> u_offset u + length (u_entries u) \<le> u64_max \<and>
     0 < u_offset u \<and>
     (case u_snapshot u of None \<Rightarrow> True | Some s \<Rightarrow> snap_index s < u_offset u)"

lemma unstable_wfD:
  assumes "unstable_wf u"
  shows "contig (u_offset u) (u_entries u)" "u_offset u + length (u_entries u) \<le> u64_max"
    "0 < u_offset u" "u_snapshot u = Some s \<Longrightarrow> snap_index s < u_offset u"
  using assms by (auto simp: unstable_wf_def)

lemma new_unstable_wf [wf_intros]: "0 < n \<Longrightarrow> n \<le> u64_max \<Longrightarrow> unstable_wf (new_unstable n)"
  by (simp add: unstable_wf_def new_unstable_def)

lemma unstable_maybe_first_index_wf:
  "unstable_wf u \<Longrightarrow> unstable_maybe_first_index u = map_option (\<lambda>s. Suc (snap_index s)) (u_snapshot u)"
  by (auto simp: unstable_maybe_first_index_def unstable_wf_def split: option.splits)

lemma unstable_maybe_last_index_wf:
  assumes "unstable_wf u"
  shows "unstable_maybe_last_index u =
    (if u_entries u \<noteq> [] then Some (u_offset u + length (u_entries u) - 1)
     else map_option snap_index (u_snapshot u))"
  using unstable_wfD(2,3) [OF assms]
  by (auto simp: unstable_maybe_last_index_def split: option.splits)

lemma unstable_maybe_term_wf:
  assumes "unstable_wf u"
  shows "unstable_maybe_term i u =
    Inr (if i < u_offset u then
           (case u_snapshot u of Some s \<Rightarrow> if snap_index s = i then Some (snap_term s) else None
            | None \<Rightarrow> None)
         else if i < u_offset u + length (u_entries u) then
           Some (e_term (u_entries u ! (i - u_offset u)))
         else None)"
proof (cases "i < u_offset u")
  case False
  show ?thesis
  proof (cases "u_entries u = []")
    case True
    with False assms show ?thesis
      by (auto simp: unstable_maybe_term_def unstable_maybe_last_index_def unstable_wf_def
          split: option.splits)
  next
    case ne: False
    then have "0 < length (u_entries u)" by simp
    with False ne unstable_wfD(2,3) [OF assms] show ?thesis
      by (auto simp: unstable_maybe_term_def unstable_maybe_last_index_wf [OF assms])
  qed
qed (simp add: unstable_maybe_term_def split: option.splits)

lemma unstable_stable_to_wf:
  assumes "unstable_wf u"
  shows "unstable_stable_to i t u =
    (if u_offset u \<le> i \<and> i < u_offset u + length (u_entries u) \<and>
        e_term (u_entries u ! (i - u_offset u)) = t
     then Inr (u\<lparr>u_entries := drop (Suc i - u_offset u) (u_entries u), u_offset := Suc i\<rparr>)
     else Inr u)"
proof (cases "u_offset u \<le> i \<and> i < u_offset u + length (u_entries u)")
  case True
  then have "i - u_offset u + 1 \<le> u64_max" "Suc i - u_offset u \<le> length (u_entries u)"
    using unstable_wfD(2) [OF assms] by linarith+
  moreover from this True have "add64 (sub64 i (u_offset u)) 1 = Suc i - u_offset u"
    "add64 i 1 = Suc i"
    using unstable_wfD(2) [OF assms] by simp_all
  moreover note True
  ultimately show ?thesis
    by (simp add: unstable_stable_to_def unstable_maybe_term_wf [OF assms])
next
  case False
  then show ?thesis
    by (auto simp: unstable_stable_to_def unstable_maybe_term_wf [OF assms] split: option.splits)
qed

lemma unstable_slice_wf:
  assumes "unstable_wf u" "u_offset u \<le> low" "low < high"
    "high \<le> u_offset u + length (u_entries u)"
  shows "unstable_slice low high acc u =
    Inr (acc @ take (high - low) (drop (low - u_offset u) (u_entries u)))"
  using assms unstable_wfD(2) [OF assms(1)]
  by (simp add: unstable_slice_def Let_def)

text \<open>
  Appending a batch that starts at \<open>n\<close>: entries below \<open>n\<close> stay, everything else is
  replaced; a batch that would leave a gap is a fatal error.
\<close>

lemma unstable_truncate_and_append_wf:
  assumes wf: "unstable_wf u" and c: "contig n ents" and ne: "ents \<noteq> []"
  shows "unstable_truncate_and_append ents u =
    (if n \<le> u_offset u + length (u_entries u) then
       Inr (u\<lparr>u_offset := min n (u_offset u),
             u_entries := take (n - u_offset u) (u_entries u) @ ents\<rparr>)
     else Inl (Fatal ''unstable.slice out of bound''))"
proof -
  have n: "e_index (hd ents) = n" using c ne by (rule contig_hd)
  have add: "add64 (length (u_entries u)) (u_offset u) = u_offset u + length (u_entries u)"
    "add64 (u_offset u) (length (u_entries u)) = u_offset u + length (u_entries u)"
    using unstable_wfD(2) [OF wf] by simp_all
  consider "n = u_offset u + length (u_entries u)" | "n \<le> u_offset u" "n \<noteq> u_offset u + length (u_entries u)"
    | "u_offset u < n" "n < u_offset u + length (u_entries u)"
    | "u_offset u + length (u_entries u) < n"
    by linarith
  then show ?thesis
  proof cases
    case 3
    then have "unstable_slice (u_offset u) n [] u = Inr (take (n - u_offset u) (u_entries u))"
      using unstable_slice_wf [OF wf, of "u_offset u" n "[]"] by simp
    with 3 n ne add show ?thesis
      by (simp add: unstable_truncate_and_append_def Let_def)
  qed (use n ne add in \<open>simp_all add: unstable_truncate_and_append_def unstable_slice_def Let_def\<close>)
qed

lemma unstable_restore_wf [wf_intros]:
  "snap_index s < u64_max \<Longrightarrow> unstable_wf (unstable_restore s u)"
  by (simp add: unstable_restore_def unstable_wf_def)

lemma unstable_restore_sel:
  "snap_index s < u64_max \<Longrightarrow> u_offset (unstable_restore s u) = Suc (snap_index s)"
  "u_entries (unstable_restore s u) = []" "u_snapshot (unstable_restore s u) = Some s"
  by (simp_all add: unstable_restore_def)

end
