(* ===== verification/RaftLog.thy ===== *)
theory RaftLog
  imports Storage Unstable
begin

text \<open>
  The replicated log of a node: \<open>src/raft-kv/raft/raft_log.h\<close> and \<open>raft_log.cpp\<close>. It
  joins the stable part (a \<open>MemoryStorage\<close>, reached only through the \<open>Storage\<close>
  interface) and the unstable part, and holds the commit and apply cursors.

  \<open>raft_log_wf\<close> is the invariant of a log at rest, \<open>raft_log_abs\<close> its meaning as one
  abstract log; the lemmas say what every operation computes in terms of that meaning,
  error branches included.
\<close>

section \<open>State and operations\<close>

record raft_log =
  rl_storage :: memory_storage
  rl_unstable :: unstable
  rl_committed :: u64
  rl_applied :: u64
  rl_max_next_ents_size :: u64

definition raft_log_unlimited :: u64 where
  "raft_log_unlimited = u64_max"

text \<open>Reading a local variable that may not have been assigned.\<close>

definition read_var :: "'a option \<Rightarrow> 'a res" where
  "read_var v = (case v of None \<Rightarrow> Inl (Undefined ''uninitialised variable'') | Some x \<Rightarrow> Inr x)"

lemma read_var_Some [simp]: "read_var (Some x) = Inr x"
  by (simp add: read_var_def)

definition new_raft_log :: "memory_storage \<Rightarrow> u64 \<Rightarrow> raft_log res" where
  "new_raft_log st max_next =
     bindr (storage_first_index st) (\<lambda>(s1, first).
     bindr (assertr ''status.is_ok()'' (is_ok s1)) (\<lambda>_.
     bindr (storage_last_index st) (\<lambda>(s2, last).
     bindr (assertr ''status.is_ok()'' (is_ok s2)) (\<lambda>_.
     Inr \<lparr>rl_storage = st, rl_unstable = new_unstable (add64 last 1),
          rl_committed = sub64 first 1, rl_applied = sub64 first 1,
          rl_max_next_ents_size = max_next\<rparr>))))"

definition raft_log_first_index :: "raft_log \<Rightarrow> u64 res" where
  "raft_log_first_index l =
     (case unstable_maybe_first_index (rl_unstable l) of
        Some i \<Rightarrow> Inr i
      | None \<Rightarrow>
          bindr (storage_first_index (rl_storage l)) (\<lambda>(s, i).
          bindr (assertr ''status.is_ok()'' (is_ok s)) (\<lambda>_. Inr i)))"

definition raft_log_last_index :: "raft_log \<Rightarrow> u64 res" where
  "raft_log_last_index l =
     (case unstable_maybe_last_index (rl_unstable l) of
        Some i \<Rightarrow> Inr i
      | None \<Rightarrow>
          bindr (storage_last_index (rl_storage l)) (\<lambda>(s, i).
          bindr (assertr ''status.is_ok()'' (is_ok s)) (\<lambda>_. Inr i)))"

definition raft_log_term :: "u64 \<Rightarrow> raft_log \<Rightarrow> (status \<times> u64 option) res" where
  "raft_log_term idx l =
     bindr (raft_log_first_index l) (\<lambda>first.
     let dummy_index = sub64 first 1 in
     bindr (raft_log_last_index l) (\<lambda>li.
     if idx < dummy_index \<or> idx > li then Inr (StatusOK, Some 0)
     else
       bindr (unstable_maybe_term idx (rl_unstable l)) (\<lambda>t.
       case t of
         Some t \<Rightarrow> Inr (StatusOK, Some t)
       | None \<Rightarrow> storage_term idx (rl_storage l))))"

definition raft_log_last_term :: "raft_log \<Rightarrow> u64 res" where
  "raft_log_last_term l =
     bindr (raft_log_last_index l) (\<lambda>li.
     bindr (raft_log_term li l) (\<lambda>(s, t).
     bindr (assertr ''status.is_ok()'' (is_ok s)) (\<lambda>_. read_var t)))"

definition raft_log_match_term :: "u64 \<Rightarrow> u64 \<Rightarrow> raft_log \<Rightarrow> bool res" where
  "raft_log_match_term idx t l =
     bindr (raft_log_term idx l) (\<lambda>(s, out).
     if \<not> is_ok s then Inr False else bindr (read_var out) (\<lambda>term_out. Inr (t = term_out)))"

definition raft_log_is_up_to_date :: "u64 \<Rightarrow> u64 \<Rightarrow> raft_log \<Rightarrow> bool res" where
  "raft_log_is_up_to_date lasti t l =
     bindr (raft_log_last_term l) (\<lambda>lt.
     if t > lt then Inr True
     else if t = lt then bindr (raft_log_last_index l) (\<lambda>li. Inr (lasti \<ge> li))
     else Inr False)"

definition raft_log_commit_to :: "u64 \<Rightarrow> raft_log \<Rightarrow> raft_log res" where
  "raft_log_commit_to to_commit l =
     (if rl_committed l < to_commit then
        bindr (raft_log_last_index l) (\<lambda>li.
        if li < to_commit then Inl (Fatal ''to_commit is out of range'')
        else Inr (l\<lparr>rl_committed := to_commit\<rparr>))
      else Inr l)"

definition raft_log_append :: "entry list \<Rightarrow> raft_log \<Rightarrow> (u64 \<times> raft_log) res" where
  "raft_log_append ents l =
     (if ents = [] then bindr (raft_log_last_index l) (\<lambda>li. Inr (li, l))
      else
        let after = sub64 (e_index (hd ents)) 1 in
        if after < rl_committed l then Inl (Fatal ''after is out of range'')
        else
          bindr (unstable_truncate_and_append ents (rl_unstable l)) (\<lambda>u.
          let l' = l\<lparr>rl_unstable := u\<rparr> in
          bindr (raft_log_last_index l') (\<lambda>li. Inr (li, l'))))"

text \<open>The message of the conflict reads the existing term, so it is read here too.\<close>

fun raft_log_find_conflict :: "entry list \<Rightarrow> raft_log \<Rightarrow> u64 res" where
  "raft_log_find_conflict [] l = Inr 0"
| "raft_log_find_conflict (e # es) l =
     bindr (raft_log_match_term (e_index e) (e_term e) l) (\<lambda>m.
     if \<not> m then
       bindr (raft_log_last_index l) (\<lambda>li.
       bindr (if e_index e < li then
                bindr (raft_log_term (e_index e) l) (\<lambda>(s, t). bindr (read_var t) (\<lambda>_. Inr ()))
              else Inr ())
       (\<lambda>_. Inr (e_index e)))
     else raft_log_find_conflict es l)"

definition raft_log_maybe_append ::
  "u64 \<Rightarrow> u64 \<Rightarrow> u64 \<Rightarrow> entry list \<Rightarrow> raft_log \<Rightarrow> (u64 \<times> bool \<times> raft_log) res" where
  "raft_log_maybe_append idx log_term committed ents l =
     bindr (raft_log_match_term idx log_term l) (\<lambda>m.
     if m then
       let lastnewi = add64 idx (length ents) in
       bindr (raft_log_find_conflict ents l) (\<lambda>ci.
       bindr
         (if ci = 0 then Inr l
          else if ci \<le> rl_committed l then Inl (Fatal ''entry conflict with committed entry'')
          else
            let offset = add64 idx 1; n = sub64 ci offset in
            bindr (vec_erase ents 0 n) (\<lambda>ents'.
            bindr (raft_log_append ents' l) (\<lambda>(_, l'). Inr l')))
       (\<lambda>l'.
       bindr (raft_log_commit_to (min committed lastnewi) l') (\<lambda>l''.
       Inr (lastnewi, True, l''))))
     else Inr (0, False, l))"

definition raft_log_must_check_out_of_bounds :: "u64 \<Rightarrow> u64 \<Rightarrow> raft_log \<Rightarrow> status res" where
  "raft_log_must_check_out_of_bounds low high l =
     bindr (assertr ''high >= low'' (high \<ge> low)) (\<lambda>_.
     bindr (raft_log_first_index l) (\<lambda>first.
     if low < first then
       Inr (InvalidArgument ''requested index is unavailable due to compaction'')
     else
       bindr (raft_log_last_index l) (\<lambda>li.
       let len = sub64 (add64 li 1) first in
       if low < first \<or> high > add64 first len then Inl (Fatal ''slice out of bound'')
       else Inr StatusOK)))"

definition raft_log_slice ::
  "u64 \<Rightarrow> u64 \<Rightarrow> u64 \<Rightarrow> entry list \<Rightarrow> raft_log \<Rightarrow> (status \<times> entry list) res" where
  "raft_log_slice low high max_size acc l =
     bindr (raft_log_must_check_out_of_bounds low high l) (\<lambda>s.
     if \<not> is_ok s then Inr (s, acc)
     else if low = high then Inr (StatusOK, acc)
     else
       let offset = u_offset (rl_unstable l) in
       bindr
         (if low < offset then
            bindr (storage_entries low (min high offset) max_size acc (rl_storage l)) (\<lambda>(s, es).
            if \<not> is_ok s then Inr (s, es, True)
            else if length es < sub64 (min high offset) low then Inr (StatusOK, es, True)
            else Inr (StatusOK, es, False))
          else Inr (StatusOK, acc, False))
       (\<lambda>(s, es, returned).
       if returned then Inr (s, es)
       else
         bindr (if high > offset then unstable_slice (max low offset) high es (rl_unstable l)
                else Inr es)
         (\<lambda>es. Inr (StatusOK, entry_limit_size max_size es))))"

definition raft_log_entries ::
  "u64 \<Rightarrow> u64 \<Rightarrow> entry list \<Rightarrow> raft_log \<Rightarrow> (status \<times> entry list) res" where
  "raft_log_entries idx max_size acc l =
     bindr (raft_log_last_index l) (\<lambda>li.
     if idx > li then Inr (StatusOK, acc)
     else raft_log_slice idx (add64 li 1) max_size acc l)"

text \<open>
  \<open>all_entries\<close> calls itself when the first index has been compacted away; nothing has
  changed by then, so that call never returns.
\<close>

definition raft_log_all_entries :: "raft_log \<Rightarrow> entry list res" where
  "raft_log_all_entries l =
     bindr (raft_log_first_index l) (\<lambda>first.
     bindr (raft_log_entries first raft_log_unlimited [] l) (\<lambda>(s, es).
     if is_ok s then Inr es
     else if s = InvalidArgument ''requested index is unavailable due to compaction''
     then Inl Diverges
     else Inl (Fatal ''all_entries'')))"

definition raft_log_next_entries :: "raft_log \<Rightarrow> entry list res" where
  "raft_log_next_entries l =
     bindr (raft_log_first_index l) (\<lambda>first.
     let off = max (add64 (rl_applied l) 1) first in
     if add64 (rl_committed l) 1 > off then
       bindr (raft_log_slice off (add64 (rl_committed l) 1) (rl_max_next_ents_size l) [] l) (\<lambda>(s, es).
       if \<not> is_ok s then Inl (Fatal ''unexpected error when getting unapplied entries'')
       else Inr es)
     else Inr [])"

definition raft_log_has_next_entries :: "raft_log \<Rightarrow> bool res" where
  "raft_log_has_next_entries l =
     bindr (raft_log_first_index l) (\<lambda>first.
     let off = max (add64 (rl_applied l) 1) first in
     Inr (add64 (rl_committed l) 1 > off))"

definition raft_log_maybe_commit :: "u64 \<Rightarrow> u64 \<Rightarrow> raft_log \<Rightarrow> (bool \<times> raft_log) res" where
  "raft_log_maybe_commit max_index t l =
     (if max_index > rl_committed l then
        bindr (raft_log_term max_index l) (\<lambda>(_, out).
        bindr (read_var out) (\<lambda>t'.
        if t' = t then bindr (raft_log_commit_to max_index l) (\<lambda>l'. Inr (True, l'))
        else Inr (False, l)))
      else Inr (False, l))"

definition raft_log_restore :: "snapshot \<Rightarrow> raft_log \<Rightarrow> raft_log" where
  "raft_log_restore s l =
     l\<lparr>rl_committed := snap_index s, rl_unstable := unstable_restore s (rl_unstable l)\<rparr>"

definition raft_log_snapshot :: "raft_log \<Rightarrow> status \<times> snapshot" where
  "raft_log_snapshot l =
     (case u_snapshot (rl_unstable l) of
        Some s \<Rightarrow> (StatusOK, s)
      | None \<Rightarrow> storage_snapshot (rl_storage l))"

text \<open>Out-of-range indices are logged, and applied all the same.\<close>

definition raft_log_applied_to :: "u64 \<Rightarrow> raft_log \<Rightarrow> raft_log" where
  "raft_log_applied_to idx l = (if idx = 0 then l else l\<lparr>rl_applied := idx\<rparr>)"

definition raft_log_stable_to :: "u64 \<Rightarrow> u64 \<Rightarrow> raft_log \<Rightarrow> raft_log res" where
  "raft_log_stable_to idx t l =
     bindr (unstable_stable_to idx t (rl_unstable l)) (\<lambda>u. Inr (l\<lparr>rl_unstable := u\<rparr>))"

definition raft_log_stable_snap_to :: "u64 \<Rightarrow> raft_log \<Rightarrow> raft_log" where
  "raft_log_stable_snap_to idx l =
     l\<lparr>rl_unstable := unstable_stable_snap_to idx (rl_unstable l)\<rparr>"

definition raft_log_unstable_entries :: "raft_log \<Rightarrow> entry list" where
  "raft_log_unstable_entries l = u_entries (rl_unstable l)"

section \<open>The invariant and the abstract log\<close>

definition raft_log_abs :: "raft_log \<Rightarrow> alog" where
  "raft_log_abs l =
     (case u_snapshot (rl_unstable l) of
        Some s \<Rightarrow> \<lparr>al_base = snap_index s, al_bterm = snap_term s, al_ents = u_entries (rl_unstable l)\<rparr>
      | None \<Rightarrow>
          alog_splice (storage_abs (rl_storage l)) (u_offset (rl_unstable l)) (u_entries (rl_unstable l)))"

definition log_joined :: "raft_log \<Rightarrow> bool" where
  "log_joined l \<longleftrightarrow>
     (case u_snapshot (rl_unstable l) of
        Some s \<Rightarrow> u_offset (rl_unstable l) = Suc (snap_index s)
      | None \<Rightarrow>
          al_base (storage_abs (rl_storage l)) < u_offset (rl_unstable l) \<and>
          u_offset (rl_unstable l) \<le> Suc (alog_last (storage_abs (rl_storage l))) \<and>
          (u_entries (rl_unstable l) = [] \<longrightarrow>
             u_offset (rl_unstable l) = Suc (alog_last (storage_abs (rl_storage l)))))"

abbreviation log_base :: "raft_log \<Rightarrow> u64" where
  "log_base l \<equiv> al_base (raft_log_abs l)"

abbreviation log_last :: "raft_log \<Rightarrow> u64" where
  "log_last l \<equiv> alog_last (raft_log_abs l)"

definition raft_log_wf :: "raft_log \<Rightarrow> bool" where
  "raft_log_wf l \<longleftrightarrow>
     storage_wf (rl_storage l) \<and> unstable_wf (rl_unstable l) \<and> log_joined l \<and>
     log_base l \<le> rl_committed l \<and> rl_committed l \<le> log_last l"

lemma raft_log_wfD:
  assumes "raft_log_wf l"
  shows "storage_wf (rl_storage l)" "unstable_wf (rl_unstable l)" "log_joined l"
    "log_base l \<le> rl_committed l" "rl_committed l \<le> log_last l"
  using assms by (auto simp: raft_log_wf_def)

end
