(* ===== verification/RaftLog_Refine.thy ===== *)
theory RaftLog_Refine
  imports RaftLog
begin

text \<open>
  What the operations of the raft log compute, in terms of the abstract log
  \<open>raft_log_abs\<close>. All facts about the stable part come from the contract of the storage
  interface, through its interpretation \<open>ms\<close>.
\<close>

section \<open>Reading\<close>

lemma raft_log_abs_wf:
  assumes "raft_log_wf l"
  shows "alog_wf (raft_log_abs l)"
proof (cases "u_snapshot (rl_unstable l)")
  case None
  have j: "al_base (storage_abs (rl_storage l)) < u_offset (rl_unstable l)"
    "u_offset (rl_unstable l) \<le> Suc (alog_last (storage_abs (rl_storage l)))"
    using raft_log_wfD(3) [OF assms] None by (simp_all add: log_joined_def)
  show ?thesis
    using None alog_splice_wf [OF ms.abs_wf unstable_wfD(1) j unstable_wfD(2)]
      raft_log_wfD(1,2) [OF assms]
    by (simp add: raft_log_abs_def)
next
  case (Some s)
  have "u_offset (rl_unstable l) = Suc (snap_index s)"
    using raft_log_wfD(3) [OF assms] Some by (simp add: log_joined_def)
  with Some unstable_wfD(1,2) [OF raft_log_wfD(2) [OF assms]] show ?thesis
    by (simp add: raft_log_abs_def alog_wf_def)
qed

lemma log_last_bound: "raft_log_wf l \<Longrightarrow> log_last l < u64_max"
  using raft_log_abs_wf by (auto simp: alog_wf_def alog_last_def)

lemma log_base_le_last: "log_base l \<le> log_last l"
  by (simp add: alog_last_def)

text \<open>Everything from the unstable offset on is in the unstable part, all before it is stable.\<close>

lemma log_last_offset:
  assumes "raft_log_wf l"
  shows "log_last l = u_offset (rl_unstable l) + length (u_entries (rl_unstable l)) - 1"
proof (cases "u_snapshot (rl_unstable l)")
  case None
  with raft_log_wfD(3) [OF assms] show ?thesis
    by (simp add: raft_log_abs_def log_joined_def alog_splice_last)
next
  case (Some s)
  with raft_log_wfD(3) [OF assms] show ?thesis
    by (simp add: raft_log_abs_def log_joined_def alog_last_def)
qed

lemma log_base_lt_offset: "raft_log_wf l \<Longrightarrow> log_base l < u_offset (rl_unstable l)"
  using raft_log_wfD(3) [of l]
  by (auto simp: raft_log_abs_def log_joined_def split: option.splits)

lemma log_entry_unstable:
  assumes "raft_log_wf l" "u_offset (rl_unstable l) \<le> i"
  shows "alog_entry (raft_log_abs l) i =
    (if i < u_offset (rl_unstable l) + length (u_entries (rl_unstable l))
     then Some (u_entries (rl_unstable l) ! (i - u_offset (rl_unstable l))) else None)"
proof (cases "u_snapshot (rl_unstable l)")
  case None
  with assms raft_log_wfD(3) [OF assms(1)] show ?thesis
    by (simp add: raft_log_abs_def log_joined_def alog_splice_entry_above)
next
  case (Some s)
  with assms raft_log_wfD(3) [OF assms(1)] show ?thesis
    by (auto simp: raft_log_abs_def log_joined_def alog_entry_def alog_last_def)
qed

lemma log_entry_stable:
  assumes "raft_log_wf l" "i < u_offset (rl_unstable l)" "log_base l < i"
  shows "u_snapshot (rl_unstable l) = None"
    and "alog_entry (raft_log_abs l) i = alog_entry (storage_abs (rl_storage l)) i"
  using assms raft_log_wfD(3) [OF assms(1)]
  by (auto simp: raft_log_abs_def log_joined_def alog_splice_entry_below split: option.splits)

lemma raft_log_first_index_wf [simp]:
  assumes "raft_log_wf l"
  shows "raft_log_first_index l = Inr (Suc (log_base l))"
  using raft_log_wfD(1,2) [OF assms]
  by (auto simp: raft_log_first_index_def unstable_maybe_first_index_wf ms.first_law raft_log_abs_def
      split: option.splits)

lemma raft_log_last_index_wf [simp]:
  assumes "raft_log_wf l"
  shows "raft_log_last_index l = Inr (log_last l)"
proof (cases "u_entries (rl_unstable l) = []")
  case True
  with raft_log_wfD(1,2,3) [OF assms] show ?thesis
    by (auto simp: raft_log_last_index_def unstable_maybe_last_index_wf ms.last_law raft_log_abs_def
        log_joined_def alog_last_def alog_splice_def split: option.splits)
next
  case False
  with raft_log_wfD(2) [OF assms] log_last_offset [OF assms] show ?thesis
    by (simp add: raft_log_last_index_def unstable_maybe_last_index_wf)
qed

lemma raft_log_term_wf [simp]:
  assumes wf: "raft_log_wf l"
  shows "raft_log_term i l = Inr (StatusOK, Some (alog_term_at (raft_log_abs l) i))"
proof -
  let ?u = "rl_unstable l" and ?a = "raft_log_abs l"
  have b: "sub64 (Suc (log_base l)) 1 = log_base l"
    using log_last_bound [OF wf] log_base_le_last [of l] by simp
  consider "i < log_base l \<or> i > log_last l" | "u_offset ?u \<le> i" "i \<le> log_last l"
    | "log_base l \<le> i" "i < u_offset ?u" by linarith
  then show ?thesis
  proof cases
    case 1
    then show ?thesis using wf b by (simp add: raft_log_term_def alog_term_at_out)
  next
    case 2
    then have lt: "i < u_offset ?u + length (u_entries ?u)"
      using log_last_offset [OF wf] unstable_wfD(3) [OF raft_log_wfD(2) [OF wf]] by linarith
    have "log_base l < i" using log_base_lt_offset [OF wf] 2 by simp
    with 2 lt wf b show ?thesis
      by (simp add: raft_log_term_def unstable_maybe_term_wf [OF raft_log_wfD(2) [OF wf]]
          alog_term_at_def log_entry_unstable)
  next
    case 3
    then have le: "i \<le> log_last l"
      using log_last_offset [OF wf] by linarith
    have mt: "unstable_maybe_term i ?u = Inr (case u_snapshot ?u of
        Some s \<Rightarrow> if snap_index s = i then Some (snap_term s) else None | None \<Rightarrow> None)"
      using 3 by (simp add: unstable_maybe_term_wf [OF raft_log_wfD(2) [OF wf]])
    show ?thesis
    proof (cases "u_snapshot ?u")
      case (Some s)
      then have "log_base l = snap_index s" "u_offset ?u = Suc (snap_index s)"
        using raft_log_wfD(3) [OF wf] by (simp_all add: raft_log_abs_def log_joined_def)
      with 3 have "i = snap_index s" by simp
      with Some le b wf mt show ?thesis
        by (simp add: raft_log_term_def alog_term_at_def raft_log_abs_def)
    next
      case None
      let ?s = "storage_abs (rl_storage l)"
      have base: "log_base l = al_base ?s" "al_bterm ?a = al_bterm ?s"
        using None by (simp_all add: raft_log_abs_def)
      have "i \<le> alog_last ?s"
        using 3 None raft_log_wfD(3) [OF wf] by (simp add: log_joined_def)
      then have "storage_term i (rl_storage l) = Inr (StatusOK, Some (alog_term_at ?s i))"
        using 3 base raft_log_wfD(1) [OF wf] by (simp add: ms.term_law)
      moreover have "alog_term_at ?s i = alog_term_at ?a i"
        using 3 base log_entry_stable(2) [OF wf] by (auto simp: alog_term_at_def)
      ultimately show ?thesis
        using 3 None le b wf mt by (simp add: raft_log_term_def)
    qed
  qed
qed

lemma raft_log_match_term_wf [simp]:
  "raft_log_wf l \<Longrightarrow> raft_log_match_term i t l = Inr (t = alog_term_at (raft_log_abs l) i)"
  by (simp add: raft_log_match_term_def)

lemma raft_log_last_term_wf [simp]:
  "raft_log_wf l \<Longrightarrow> raft_log_last_term l = Inr (alog_term_at (raft_log_abs l) (log_last l))"
  by (simp add: raft_log_last_term_def)

lemma raft_log_is_up_to_date_wf:
  assumes "raft_log_wf l"
  shows "raft_log_is_up_to_date i t l =
    Inr (alog_term_at (raft_log_abs l) (log_last l) < t \<or>
         alog_term_at (raft_log_abs l) (log_last l) = t \<and> log_last l \<le> i)"
  using assms by (auto simp: raft_log_is_up_to_date_def)

section \<open>Slices\<close>

lemma entry_limit_from_append:
  "length (entry_limit_from m s xs) < length xs \<Longrightarrow>
   entry_limit_from m s (xs @ ys) = entry_limit_from m s xs"
  by (induction xs arbitrary: s) (auto simp: Let_def split: if_splits)

lemma entry_limit_size_append:
  "length (entry_limit_size m xs) < length xs \<Longrightarrow>
   entry_limit_size m (xs @ ys) = entry_limit_size m xs"
  by (cases xs) (simp_all add: entry_limit_size_def entry_limit_from_append)

lemma entry_limit_from_idem: "entry_limit_from m s (entry_limit_from m s xs) = entry_limit_from m s xs"
  by (induction xs arbitrary: s) (auto simp: Let_def)

lemma entry_limit_size_idem [simp]:
  "entry_limit_size m (entry_limit_size m xs) = entry_limit_size m xs"
  by (cases xs) (simp_all add: entry_limit_size_def entry_limit_from_idem)

lemma log_slice_unstable:
  assumes "raft_log_wf l" "u_offset (rl_unstable l) \<le> low" "high \<le> Suc (log_last l)"
  shows "alog_slice (raft_log_abs l) low high =
    take (high - low) (drop (low - u_offset (rl_unstable l)) (u_entries (rl_unstable l)))"
proof (cases "u_snapshot (rl_unstable l)")
  case None
  let ?a = "storage_abs (rl_storage l)" and ?n = "u_offset (rl_unstable l)"
  have j: "al_base ?a < ?n" "?n \<le> Suc (alog_last ?a)"
    using raft_log_wfD(3) [OF assms(1)] None by (simp_all add: log_joined_def)
  then have "length (take (?n - Suc (al_base ?a)) (al_ents ?a)) = ?n - Suc (al_base ?a)"
    by (simp add: alog_last_def)
  with None assms(2) j show ?thesis
    by (simp add: raft_log_abs_def alog_slice_def alog_splice_def)
next
  case (Some s)
  with assms raft_log_wfD(3) [OF assms(1)] show ?thesis
    by (simp add: raft_log_abs_def log_joined_def alog_slice_def)
qed

lemma log_slice_stable:
  assumes "raft_log_wf l" "log_base l < low" "low \<le> high" "high \<le> u_offset (rl_unstable l)"
  shows "alog_slice (raft_log_abs l) low high = alog_slice (storage_abs (rl_storage l)) low high"
proof (cases "u_snapshot (rl_unstable l)")
  case None
  let ?a = "storage_abs (rl_storage l)" and ?n = "u_offset (rl_unstable l)"
  let ?t = "take (?n - Suc (al_base ?a)) (al_ents ?a)"
  have j: "al_base ?a < ?n" "?n \<le> Suc (alog_last ?a)" "al_base ?a < low"
    using raft_log_wfD(3) [OF assms(1)] assms None
    by (simp_all add: log_joined_def raft_log_abs_def)
  have "length ?t = ?n - Suc (al_base ?a)" using j by (simp add: alog_last_def)
  then have "take (high - low) (drop (low - Suc (al_base ?a)) (?t @ u_entries (rl_unstable l))) =
    take (high - low) (drop (low - Suc (al_base ?a)) ?t)"
    using assms j by simp
  also have "\<dots> = take (high - low) (drop (low - Suc (al_base ?a)) (al_ents ?a))"
    using assms j by (simp add: drop_take)
  finally show ?thesis
    using None by (simp add: raft_log_abs_def alog_slice_def alog_splice_def)
next
  case (Some s)
  with assms raft_log_wfD(3) [OF assms(1)] show ?thesis
    by (simp add: raft_log_abs_def log_joined_def alog_slice_def)
qed

lemma raft_log_must_check_wf:
  assumes "raft_log_wf l"
  shows "raft_log_must_check_out_of_bounds low high l =
    (if high < low then Inl (AssertFailed ''high >= low'')
     else if low \<le> log_base l then
       Inr (InvalidArgument ''requested index is unavailable due to compaction'')
     else if Suc (log_last l) < high then Inl (Fatal ''slice out of bound'')
     else Inr StatusOK)"
proof -
  have "sub64 (add64 (log_last l) 1) (Suc (log_base l)) = log_last l - log_base l"
    "add64 (Suc (log_base l)) (log_last l - log_base l) = Suc (log_last l)"
    using log_last_bound [OF assms] log_base_le_last [of l] by simp_all
  with assms show ?thesis
    by (auto simp: raft_log_must_check_out_of_bounds_def assertr_def Let_def)
qed

lemma raft_log_slice_wf:
  assumes wf: "raft_log_wf l" and lo: "log_base l < low" and le: "low \<le> high"
    and hi: "high \<le> Suc (log_last l)"
  shows "raft_log_slice low high m [] l =
    Inr (StatusOK, entry_limit_size m (alog_slice (raft_log_abs l) low high))"
proof (cases "low = high")
  case True
  with wf lo hi show ?thesis
    by (simp add: raft_log_slice_def raft_log_must_check_wf alog_slice_def entry_limit_size_def)
next
  case False
  let ?u = "rl_unstable l" and ?a = "raft_log_abs l" and ?s = "storage_abs (rl_storage l)"
  let ?o = "u_offset (rl_unstable l)"
  have chk: "raft_log_must_check_out_of_bounds low high l = Inr StatusOK"
    using wf lo le hi by (simp add: raft_log_must_check_wf)
  have ub: "Suc (log_last l) = ?o + length (u_entries ?u)"
    using log_last_offset [OF wf] unstable_wfD(3) [OF raft_log_wfD(2) [OF wf]] by simp
  have ul: "unstable_slice (max low ?o) high acc ?u = Inr (acc @ alog_slice ?a (max low ?o) high)"
    if "?o < high" for acc
    using that False le hi ub unstable_slice_wf [OF raft_log_wfD(2) [OF wf], of "max low ?o" high acc]
      log_slice_unstable [OF wf, of "max low ?o" high] by simp
  show ?thesis
  proof (cases "low < ?o")
    case False
    with \<open>low \<noteq> high\<close> le ul [of "[]"] chk show ?thesis
      by (simp add: raft_log_slice_def Let_def max_absorb1)
  next
    case low: True
    let ?m = "min high ?o"
    let ?p = "alog_slice ?a low ?m"
    have p: "low < ?m" "?m \<le> Suc (alog_last ?s)" "al_base ?s < low" "low < ?o"
      using raft_log_wfD(3) [OF wf] log_entry_stable(1) [OF wf low lo] lo low le \<open>low \<noteq> high\<close>
      by (auto simp: log_joined_def raft_log_abs_def)
    have st: "storage_entries low ?m m [] (rl_storage l) = Inr (StatusOK, entry_limit_size m ?p)"
      using ms.entries_law [OF raft_log_wfD(1) [OF wf] p(3,1,2)] log_slice_stable [OF wf lo, of ?m] p
      by simp
    have len: "length ?p = ?m - low" "sub64 ?m low = ?m - low"
      using p lo hi ub log_last_bound [OF wf] by (simp_all add: alog_slice_length)
    have split: "alog_slice ?a low high = ?p @ alog_slice ?a ?m high"
      using p lo by (intro alog_slice_split) auto
    show ?thesis
    proof (cases "length (entry_limit_size m ?p) < ?m - low")
      case True
      with split len have "entry_limit_size m (alog_slice ?a low high) = entry_limit_size m ?p"
        by (simp add: entry_limit_size_append)
      with True low \<open>low \<noteq> high\<close> chk st len show ?thesis by (simp add: raft_log_slice_def Let_def)
    next
      case False
      then have full: "entry_limit_size m ?p = ?p"
        using len entry_limit_size_take [of m ?p] entry_limit_size_length [of m ?p] by simp
      show ?thesis
      proof (cases "?o < high")
        case True
        then have "alog_slice ?a (max low ?o) high = alog_slice ?a ?m high"
          using low by (simp add: max_def min_def)
        with True full split ul [OF True, of ?p] False low \<open>low \<noteq> high\<close> chk st len show ?thesis
          by (simp add: raft_log_slice_def Let_def)
      next
        case False
        then have "?m = high" by simp
        with full False \<open>\<not> length (entry_limit_size m ?p) < ?m - low\<close> low \<open>low \<noteq> high\<close> chk st len
        show ?thesis by (simp add: raft_log_slice_def Let_def)
      qed
    qed
  qed
qed

lemma raft_log_slice_compacted:
  "raft_log_wf l \<Longrightarrow> low \<le> log_base l \<Longrightarrow> low \<le> high \<Longrightarrow>
   raft_log_slice low high m acc l =
     Inr (InvalidArgument ''requested index is unavailable due to compaction'', acc)"
  by (simp add: raft_log_slice_def raft_log_must_check_wf)

lemma raft_log_entries_wf:
  assumes "raft_log_wf l"
  shows "raft_log_entries i m [] l =
    (if log_last l < i then Inr (StatusOK, [])
     else if i \<le> log_base l then
       Inr (InvalidArgument ''requested index is unavailable due to compaction'', [])
     else Inr (StatusOK, entry_limit_size m (alog_slice (raft_log_abs l) i (Suc (log_last l)))))"
proof -
  have "add64 (log_last l) 1 = Suc (log_last l)" using log_last_bound [OF assms] by simp
  with assms show ?thesis
    by (simp add: raft_log_entries_def raft_log_slice_compacted raft_log_slice_wf)
qed

end
