(* ===== verification/RaftLog_Update.thy ===== *)
theory RaftLog_Update
  imports RaftLog_Refine
begin

text \<open>
  What the updating operations of the raft log do to the abstract log: appending, finding
  a conflict, \<open>maybe_append\<close>, committing, restoring from a snapshot, moving entries to the
  stable part. \<open>log_advances\<close> is the relation that all of them respect: committed entries
  are never changed and never lost, and the commit index never moves back. \<open>log_keeps\<close> adds that
  the storage and the applied index stay.
\<close>

section \<open>Appending\<close>

text \<open>Appending and committing leave the rest of the log alone.\<close>

definition log_frame :: "raft_log \<Rightarrow> raft_log \<Rightarrow> bool" where
  "log_frame l l' \<longleftrightarrow>
     rl_applied l' = rl_applied l \<and> rl_storage l' = rl_storage l \<and>
     rl_max_next_ents_size l' = rl_max_next_ents_size l \<and>
     u_snapshot (rl_unstable l') = u_snapshot (rl_unstable l)"

lemma raft_log_append_gap:
  assumes "raft_log_wf l" "contig n ents" "ents \<noteq> []" "0 < n" "n + length ents \<le> u64_max"
    "rl_committed l < n" "Suc (log_last l) < n"
  shows "raft_log_append ents l = Inl (Fatal ''unstable.slice out of bound'')"
proof -
  have "u_offset (rl_unstable l) + length (u_entries (rl_unstable l)) < n"
    using assms(7) log_last_offset [OF assms(1)] by simp
  moreover have "sub64 n 1 = n - 1" using assms by simp
  ultimately show ?thesis
    using assms contig_hd [OF assms(2,3)]
    by (simp add: raft_log_append_def unstable_truncate_and_append_wf [OF raft_log_wfD(2) assms(2,3)])
qed

lemma raft_log_append_committed:
  assumes "contig n ents" "ents \<noteq> []" "0 < n" "n \<le> u64_max" "n \<le> rl_committed l"
  shows "raft_log_append ents l = Inl (Fatal ''after is out of range'')"
proof -
  have "sub64 n 1 < rl_committed l" using assms by simp
  then show ?thesis using assms contig_hd [OF assms(1,2)] by (simp add: raft_log_append_def)
qed

lemma alog_splice_splice:
  assumes "al_base a < n" "n \<le> m" "m \<le> Suc (alog_last a)"
  shows "alog_splice (alog_splice a m es) n fs = alog_splice a n fs"
  using assms by (simp add: alog_splice_def min_def alog_last_def)

lemma alog_splice_splice_above:
  assumes "al_base a < m" "m \<le> n" "n \<le> m + length es" "m \<le> Suc (alog_last a)"
  shows "alog_splice (alog_splice a m es) n fs = alog_splice a m (take (n - m) es @ fs)"
proof -
  have "length (take (m - Suc (al_base a)) (al_ents a)) = m - Suc (al_base a)"
    using assms by (simp add: alog_last_def)
  moreover have "n - Suc (al_base a) - (m - Suc (al_base a)) = n - m" using assms by simp
  ultimately show ?thesis using assms by (simp add: alog_splice_def)
qed

text \<open>The stored log after an append, in both layouts of the unstable part.\<close>

lemma raft_log_abs_append:
  assumes wf: "raft_log_wf l" and n: "rl_committed l < n" "n \<le> Suc (log_last l)"
    and l': "l' = l\<lparr>rl_unstable := (rl_unstable l)\<lparr>u_offset := min n (u_offset (rl_unstable l)),
      u_entries := take (n - u_offset (rl_unstable l)) (u_entries (rl_unstable l)) @ ents\<rparr>\<rparr>"
    and ne: "ents \<noteq> []"
  shows "raft_log_abs l' = alog_splice (raft_log_abs l) n ents \<and> log_joined l'"
proof (cases "u_snapshot (rl_unstable l)")
  case None
  let ?a = "storage_abs (rl_storage l)" and ?u = "rl_unstable l"
  have j: "al_base ?a < u_offset ?u" "u_offset ?u \<le> Suc (alog_last ?a)"
    using None raft_log_wfD(3) [OF wf] by (simp_all add: log_joined_def)
  have b: "al_base ?a < n"
    using raft_log_wfD(4) [OF wf] n None by (simp add: raft_log_abs_def)
  have up: "n \<le> u_offset ?u + length (u_entries ?u)"
    using n(2) log_last_offset [OF wf] j by simp
  show ?thesis
  proof (cases "n \<le> u_offset ?u")
    case True
    with None l' j b ne show ?thesis
      by (simp add: raft_log_abs_def log_joined_def min_def alog_splice_splice)
  next
    case False
    with None l' j b ne up show ?thesis
      by (simp add: raft_log_abs_def log_joined_def min_def alog_splice_splice_above)
  qed
next
  case (Some s)
  then have o: "u_offset (rl_unstable l) = Suc (snap_index s)"
    using raft_log_wfD(3) [OF wf] by (simp add: log_joined_def)
  moreover have "snap_index s < n"
    using raft_log_wfD(4) [OF wf] n Some by (simp add: raft_log_abs_def)
  ultimately show ?thesis
    using Some l' by (simp add: raft_log_abs_def log_joined_def alog_splice_def min_def)
qed

lemma raft_log_append_wf:
  assumes wf: "raft_log_wf l" and c: "contig n ents" and ne: "ents \<noteq> []"
    and b: "n + length ents \<le> u64_max" and n: "rl_committed l < n" "n \<le> Suc (log_last l)"
  shows "\<exists>l'. raft_log_append ents l = Inr (n + length ents - 1, l') \<and> raft_log_wf l' \<and>
    raft_log_abs l' = alog_splice (raft_log_abs l) n ents \<and>
    rl_committed l' = rl_committed l \<and> log_frame l l'"
proof -
  let ?u = "rl_unstable l"
  let ?u' = "?u\<lparr>u_offset := min n (u_offset ?u), u_entries := take (n - u_offset ?u) (u_entries ?u) @ ents\<rparr>"
  let ?l' = "l\<lparr>rl_unstable := ?u'\<rparr>"
  have abs: "raft_log_abs ?l' = alog_splice (raft_log_abs l) n ents" "log_joined ?l'"
    using raft_log_abs_append [OF wf n refl ne] by simp_all
  have base: "log_base l < n" using raft_log_wfD(4) [OF wf] n by simp
  have up: "n \<le> u_offset ?u + length (u_entries ?u)"
    using n(2) log_last_offset [OF wf] unstable_wfD(3) [OF raft_log_wfD(2) [OF wf]] by simp
  have "alog_last (alog_splice (raft_log_abs l) n ents) = n + length ents - 1"
    using base n(2) by (rule alog_splice_last)
  moreover have "unstable_wf ?u'"
  proof -
    have "contig (u_offset ?u) (take (n - u_offset ?u) (u_entries ?u))"
      using unstable_wfD(1) [OF raft_log_wfD(2) [OF wf]] by (simp add: contig_take)
    then have "contig (min n (u_offset ?u)) (take (n - u_offset ?u) (u_entries ?u) @ ents)"
    proof (cases "n \<le> u_offset ?u")
      case False
      then have "u_offset ?u + min (length (u_entries ?u)) (n - u_offset ?u) = n" using up by simp
      with False c unstable_wfD(1) [OF raft_log_wfD(2) [OF wf]] show ?thesis
        by (simp add: min_absorb2 contig_take)
    qed (use c in \<open>simp add: min_absorb1\<close>)
    moreover have "snap_index s < n" if "u_snapshot ?u = Some s" for s
      using that base by (simp add: raft_log_abs_def)
    ultimately show ?thesis
      using raft_log_wfD(2) [OF wf] b n up by (auto simp: unstable_wf_def split: option.splits)
  qed
  moreover have "n \<le> n + length ents - 1" using ne by (cases ents) auto
  ultimately have wf': "raft_log_wf ?l'" "log_last ?l' = n + length ents - 1"
    using wf abs n by (auto simp: raft_log_wf_def)
  have "unstable_truncate_and_append ents ?u = Inr ?u'"
    using up unstable_truncate_and_append_wf [OF raft_log_wfD(2) [OF wf] c ne] by simp
  moreover have "\<not> sub64 n 1 < rl_committed l" using n b by simp
  ultimately have "raft_log_append ents l = Inr (n + length ents - 1, ?l')"
    using ne contig_hd [OF c ne] raft_log_last_index_wf [OF wf'(1)] wf'(2)
    by (simp add: raft_log_append_def)
  with wf' abs show ?thesis by (auto simp: log_frame_def)
qed

section \<open>Finding conflicts\<close>

text \<open>
  \<open>find_conflict\<close> gives the index of the first entry of the batch whose term differs from
  the log's (0 when there is none).
\<close>

definition conflict_index :: "alog \<Rightarrow> entry list \<Rightarrow> u64" where
  "conflict_index a es =
     (case find (\<lambda>e. e_term e \<noteq> alog_term_at a (e_index e)) es of None \<Rightarrow> 0 | Some e \<Rightarrow> e_index e)"

lemma raft_log_find_conflict_wf:
  "raft_log_wf l \<Longrightarrow> raft_log_find_conflict es l = Inr (conflict_index (raft_log_abs l) es)"
  by (induction es) (auto simp: conflict_index_def)

lemma find_contig:
  assumes "contig n es" "find P es = Some e"
  shows "\<exists>k < length es. e = es ! k \<and> e_index e = n + k \<and> P e \<and> (\<forall>j < k. \<not> P (es ! j))"
  using assms by (auto simp: find_Some_iff contig_nth)

lemma conflict_index_cases:
  assumes c: "contig n es" and n: "0 < n"
  obtains (none) "conflict_index a es = 0"
      "\<And>j. j < length es \<Longrightarrow> e_term (es ! j) = alog_term_at a (n + j)"
    | (some) k where "k < length es" "conflict_index a es = n + k"
      "e_term (es ! k) \<noteq> alog_term_at a (n + k)"
      "\<And>j. j < k \<Longrightarrow> e_term (es ! j) = alog_term_at a (n + j)"
proof (cases "find (\<lambda>e. e_term e \<noteq> alog_term_at a (e_index e)) es")
  case None
  have 0: "conflict_index a es = 0" using None by (simp add: conflict_index_def)
  have *: "\<forall>e \<in> set es. e_term e = alog_term_at a (e_index e)"
    using None by (auto simp: find_None_iff)
  show ?thesis using 0
  proof (rule none)
    fix j assume "j < length es"
    with * show "e_term (es ! j) = alog_term_at a (n + j)"
      using c nth_mem [of j es] by (force simp: contig_nth)
  qed
next
  case (Some e)
  then obtain k where k: "k < length es" "e = es ! k" "e_index e = n + k"
    "e_term e \<noteq> alog_term_at a (e_index e)"
    "\<forall>j < k. e_term (es ! j) = alog_term_at a (e_index (es ! j))"
    using find_contig [OF c Some] by auto
  have "e_term (es ! j) = alog_term_at a (n + j)" if "j < k" for j
    using k(1,5) that c by (simp add: contig_nth)
  then show ?thesis
    using Some k by (intro some [of k]) (simp_all add: conflict_index_def)
qed

section \<open>Committing\<close>

lemma raft_log_commit_to_wf:
  assumes "raft_log_wf l"
  shows "raft_log_commit_to i l =
    (if log_last l < i then Inl (Fatal ''to_commit is out of range'')
     else Inr (l\<lparr>rl_committed := max (rl_committed l) i\<rparr>))"
  using assms raft_log_wfD(5) [OF assms] by (simp add: raft_log_commit_to_def max_def)

lemma log_upd_cursor [simp]:
  "raft_log_abs (l\<lparr>rl_committed := i\<rparr>) = raft_log_abs l"
  "raft_log_abs (l\<lparr>rl_applied := i\<rparr>) = raft_log_abs l"
  "log_joined (l\<lparr>rl_committed := i\<rparr>) = log_joined l"
  "log_joined (l\<lparr>rl_applied := i\<rparr>) = log_joined l"
  by (simp_all add: raft_log_abs_def log_joined_def split: option.split)

lemma raft_log_wf_commit [wf_intros]:
  "raft_log_wf l \<Longrightarrow> rl_committed l \<le> i \<Longrightarrow> i \<le> log_last l \<Longrightarrow> raft_log_wf (l\<lparr>rl_committed := i\<rparr>)"
  by (simp add: raft_log_wf_def)

lemma raft_log_wf_applied [wf_intros]: "raft_log_wf l \<Longrightarrow> raft_log_wf (raft_log_applied_to i l)"
  by (simp add: raft_log_wf_def raft_log_applied_to_def)

text \<open>A leader commits an index only when the entry there is of the given term.\<close>

lemma raft_log_maybe_commit_wf:
  assumes "raft_log_wf l" "0 < t"
  shows "raft_log_maybe_commit i t l =
    (if rl_committed l < i \<and> alog_term_at (raft_log_abs l) i = t
     then Inr (True, l\<lparr>rl_committed := i\<rparr>) else Inr (False, l))"
proof -
  have "i \<le> log_last l" if "alog_term_at (raft_log_abs l) i = t"
    using that assms(2) by (metis alog_term_at_out not_le less_irrefl)
  with assms(1) show ?thesis
    by (auto simp: raft_log_maybe_commit_def raft_log_commit_to_wf max_def)
qed

section \<open>Appending from a leader\<close>

lemma raft_log_maybe_append_reject:
  "raft_log_wf l \<Longrightarrow> t \<noteq> alog_term_at (raft_log_abs l) i \<Longrightarrow>
   raft_log_maybe_append i t c es l = Inr (0, False, l)"
  by (simp add: raft_log_maybe_append_def)

definition appended :: "u64 \<Rightarrow> entry list \<Rightarrow> alog \<Rightarrow> alog" where
  "appended i es a =
     (let ci = conflict_index a es in
      if ci = 0 then a else alog_splice a ci (drop (ci - Suc i) es))"

lemma appended_last:
  assumes c: "contig (Suc i) es" and nz: "\<forall>e \<in> set es. 0 < e_term e"
    and i: "al_base a \<le> i" "i \<le> alog_last a"
  shows "i + length es \<le> alog_last (appended i es a)"
    and "conflict_index a es \<noteq> 0 \<Longrightarrow> conflict_index a es \<le> Suc (alog_last a)"
proof -
  have pos: "Suc i + j \<le> alog_last a" if "j < length es" "e_term (es ! j) = alog_term_at a (Suc i + j)" for j
  proof (rule ccontr)
    assume "\<not> ?thesis"
    then have "alog_term_at a (Suc i + j) = 0" by (simp add: alog_term_at_out)
    with that nz show False by (metis nth_mem less_irrefl)
  qed
  have "i + length es \<le> alog_last (appended i es a) \<and>
    (conflict_index a es \<noteq> 0 \<longrightarrow> conflict_index a es \<le> Suc (alog_last a))"
  proof (cases rule: conflict_index_cases [OF c, of a, case_names zero none some])
    case none
    have "i + length es \<le> alog_last a"
      using none(2) [of "length es - 1"] pos [of "length es - 1"] i by (cases es) auto
    with none(1) show ?thesis by (simp add: appended_def)
  next
    case (some k)
    have k: "Suc i + k \<le> Suc (alog_last a)"
      using some(4) [of "k - 1"] pos [of "k - 1"] some(1) i by (cases k) auto
    have "alog_last (alog_splice a (Suc i + k) (drop k es)) = Suc i + k + length (drop k es) - 1"
      using k i by (intro alog_splice_last) auto
    with k some(1,2) i show ?thesis by (simp add: appended_def)
  qed simp
  then show "i + length es \<le> alog_last (appended i es a)"
    and "conflict_index a es \<noteq> 0 \<Longrightarrow> conflict_index a es \<le> Suc (alog_last a)" by simp_all
qed

lemma raft_log_maybe_append_conflict:
  "raft_log_wf l \<Longrightarrow> t = alog_term_at (raft_log_abs l) i \<Longrightarrow>
   0 < conflict_index (raft_log_abs l) es \<Longrightarrow> conflict_index (raft_log_abs l) es \<le> rl_committed l \<Longrightarrow>
   raft_log_maybe_append i t c es l = Inl (Fatal ''entry conflict with committed entry'')"
  by (simp add: raft_log_maybe_append_def raft_log_find_conflict_wf)

lemma raft_log_maybe_append_wf:
  assumes wf: "raft_log_wf l" and c: "contig (Suc i) es" and nz: "\<forall>e \<in> set es. 0 < e_term e"
    and b: "i + length es < u64_max" and i: "log_base l \<le> i" "i \<le> log_last l"
    and t: "t = alog_term_at (raft_log_abs l) i"
    and ok: "conflict_index (raft_log_abs l) es = 0 \<or> rl_committed l < conflict_index (raft_log_abs l) es"
  shows "\<exists>l'. raft_log_maybe_append i t cm es l = Inr (i + length es, True, l') \<and> raft_log_wf l' \<and>
    raft_log_abs l' = appended i es (raft_log_abs l) \<and>
    rl_committed l' = max (rl_committed l) (min cm (i + length es)) \<and> log_frame l l'"
proof -
  let ?a = "raft_log_abs l"
  let ?ci = "conflict_index ?a es"
  note al = appended_last [OF c nz i]
  have lni: "add64 i (length es) = i + length es" using b by simp
  define grow where "grow = (if ?ci = 0 then Inr l
      else if ?ci \<le> rl_committed l then Inl (Fatal ''entry conflict with committed entry'')
      else bindr (vec_erase es 0 (sub64 ?ci (add64 i 1))) (\<lambda>ents'.
           bindr (raft_log_append ents' l) (\<lambda>(_, l'). Inr l')))"
  have "\<exists>l1. grow = Inr l1 \<and> raft_log_wf l1 \<and> raft_log_abs l1 = appended i es ?a \<and>
      rl_committed l1 = rl_committed l \<and> log_frame l l1"
  proof (cases rule: conflict_index_cases [OF c, of ?a, case_names zero none some])
    case none
    then show ?thesis using wf by (intro exI [of _ l]) (simp add: grow_def appended_def log_frame_def)
  next
    case (some k)
    then have ci: "?ci = Suc i + k" "rl_committed l < Suc i + k" "Suc i + k \<le> Suc (log_last l)"
      using ok al(2) by auto
    have "vec_erase es 0 (sub64 ?ci (add64 i 1)) = Inr (drop k es)"
      using ci(1) some(1) b by simp
    moreover have "contig (Suc i + k) (drop k es)" "drop k es \<noteq> []"
      "Suc i + k + length (drop k es) \<le> u64_max"
      using some(1) b contig_drop [OF c, of k] by simp_all
    from raft_log_append_wf [OF wf this ci(2,3)] obtain l1 where
      "raft_log_append (drop k es) l = Inr (Suc i + k + length (drop k es) - 1, l1)"
      "raft_log_wf l1" "raft_log_abs l1 = alog_splice ?a (Suc i + k) (drop k es)"
      "rl_committed l1 = rl_committed l" "log_frame l l1" by blast
    ultimately show ?thesis using ci some(1) by (intro exI [of _ l1]) (simp add: grow_def appended_def)
  qed simp
  then obtain l1 where l1: "grow = Inr l1" "raft_log_wf l1" "raft_log_abs l1 = appended i es ?a"
    and f: "rl_committed l1 = rl_committed l" "log_frame l l1" by blast
  have le: "min cm (i + length es) \<le> log_last l1" using al(1) l1(3) by simp
  let ?l2 = "l1\<lparr>rl_committed := max (rl_committed l1) (min cm (i + length es))\<rparr>"
  have "raft_log_wf ?l2"
    using le raft_log_wfD(5) [OF l1(2)] by (intro raft_log_wf_commit l1(2)) simp_all
  moreover have "raft_log_maybe_append i t cm es l =
      bindr grow (\<lambda>l'. bindr (raft_log_commit_to (min cm (i + length es)) l') (\<lambda>l''.
        Inr (i + length es, True, l'')))"
    unfolding raft_log_maybe_append_def raft_log_match_term_wf [OF wf]
      raft_log_find_conflict_wf [OF wf] t grow_def by (simp only: bindr.simps Let_def lni if_True simp_thms)
  then have "raft_log_maybe_append i t cm es l = Inr (i + length es, True, ?l2)"
    using l1(1) raft_log_commit_to_wf [OF l1(2), of "min cm (i + length es)"] le leD [OF le]
    by (simp only: bindr.simps if_False)
  ultimately show ?thesis using l1(3) f by (auto simp: log_frame_def)
qed

section \<open>Log matching\<close>

text \<open>
  Two logs match when an entry with the same index and term in both implies that the logs
  agree up to that index. A follower whose log matches the leader's, and that accepts a
  batch taken from the leader's log, agrees with the leader up to the end of the batch.
\<close>

definition log_match :: "alog \<Rightarrow> alog \<Rightarrow> bool" where
  "log_match a b \<longleftrightarrow>
     (\<forall>i e e' j. alog_entry a i = Some e \<longrightarrow> alog_entry b i = Some e' \<longrightarrow> e_term e = e_term e' \<longrightarrow>
        j \<le> i \<longrightarrow> al_base a < j \<longrightarrow> al_base b < j \<longrightarrow> alog_entry a j = alog_entry b j)"

lemma log_match_term:
  assumes "log_match a b" "al_base a < i" "i \<le> alog_last a" "al_base b < i" "i \<le> alog_last b"
    "alog_term_at a i = alog_term_at b i" "j \<le> i" "al_base a < j" "al_base b < j"
  shows "alog_entry a j = alog_entry b j"
proof -
  obtain e e' where e: "alog_entry a i = Some e" "alog_entry b i = Some e'"
    using assms(2-5) by (simp add: alog_entry_def)
  with assms(2,4,6) have "e_term e = e_term e'" by (simp add: alog_term_at_def)
  with e assms(1,7-9) show ?thesis unfolding log_match_def by blast
qed

lemma appended_base [simp]:
  "al_base (appended i es a) = al_base a"
  by (simp add: appended_def Let_def)

lemma appended_agrees:
  assumes m: "log_match a b" and es: "es = alog_slice b (Suc i) high" "Suc i \<le> high" "high \<le> Suc (alog_last b)"
    and wfb: "alog_wf b" and nz: "\<forall>e \<in> set es. 0 < e_term e"
    and i: "al_base a \<le> i" "i \<le> alog_last a" "al_base b \<le> i"
    and t: "alog_term_at a i = alog_term_at b i"
    and j: "al_base a < j" "al_base b < j" "j < high"
  shows "alog_entry (appended i es a) j = alog_entry b j"
proof -
  have c: "contig (Suc i) es" and len: "length es = high - Suc i"
    using es i wfb by (auto intro: alog_slice_contig simp: alog_slice_length)
  have nth: "alog_entry b (Suc i + k) = Some (es ! k)" if "k < length es" for k
    using that es i len alog_slice_nth [of b "Suc i" high k] by simp
  then have tb: "alog_term_at b (Suc i + k) = e_term (es ! k)" if "k < length es" for k
    using that i by (simp add: alog_term_at_def)
  have upto: "alog_entry a j = alog_entry b j" if "j \<le> i"
    using that m i j t es by (intro log_match_term [OF m, of i j]) auto
  have agree: "alog_entry a (Suc i + k) = alog_entry b (Suc i + k)"
    if k: "k < length es" "e_term (es ! k) = alog_term_at a (Suc i + k)" for k
  proof -
    have "Suc i + k \<le> alog_last a"
      using k nz alog_term_at_out [of "Suc i + k" a] by (metis not_le nth_mem less_irrefl)
    then show ?thesis
      using k i es len tb by (intro log_match_term [OF m, of "Suc i + k"]) auto
  qed
  show ?thesis
  proof (cases rule: conflict_index_cases [OF c, of a, case_names zero none some])
    case none
    then have "alog_entry a j = alog_entry b j"
      using upto agree [of "j - Suc i"] len j by (cases "j \<le> i") auto
    with none show ?thesis by (simp add: appended_def)
  next
    case (some k)
    have sp: "appended i es a = alog_splice a (Suc i + k) (drop k es)"
      using some by (simp add: appended_def)
    have b: "al_base a < Suc i + k" "Suc i + k \<le> Suc (alog_last a)"
      using appended_last(2) [OF c nz i(1,2)] some i by auto
    show ?thesis
    proof (cases "j < Suc i + k")
      case True
      then have "alog_entry a j = alog_entry b j"
        using upto agree [of "j - Suc i"] some(1) some(4) [of "j - Suc i"] len j by (cases "j \<le> i") auto
      with True b sp show ?thesis by (simp add: alog_splice_entry_below)
    next
      case False
      then have "Suc i + (k + (j - (Suc i + k))) = j" "k + (j - (Suc i + k)) < length es"
        using j len by auto
      with False b sp nth [of "k + (j - (Suc i + k))"] j len some(1) show ?thesis
        by (simp add: alog_splice_entry_above)
    qed
  qed simp
qed

section \<open>Committed entries are kept\<close>

text \<open>
  \<open>log_synced\<close>: nothing is applied before it is committed, and the snapshot that storage
  has is committed and older than a snapshot that is still to be persisted. The raft log
  does not enforce it by itself, but every operation keeps it.
\<close>

definition log_synced :: "raft_log \<Rightarrow> bool" where
  "log_synced l \<longleftrightarrow>
     rl_applied l \<le> rl_committed l \<and> snap_index (ms_snapshot (rl_storage l)) \<le> rl_committed l \<and>
     (case u_snapshot (rl_unstable l) of
        None \<Rightarrow> True
      | Some s \<Rightarrow> snap_index (ms_snapshot (rl_storage l)) < snap_index s)"

lemma log_synced_mono:
  "log_frame l l' \<Longrightarrow> rl_committed l \<le> rl_committed l' \<Longrightarrow> log_synced l \<Longrightarrow> log_synced l'"
  by (auto simp: log_frame_def log_synced_def split: option.splits)

definition log_advances :: "raft_log \<Rightarrow> raft_log \<Rightarrow> bool" where
  "log_advances l l' \<longleftrightarrow>
     raft_log_wf l' \<and> rl_committed l \<le> rl_committed l' \<and> log_base l \<le> log_base l' \<and>
     (\<forall>i. log_base l' < i \<and> i \<le> rl_committed l \<longrightarrow>
        alog_entry (raft_log_abs l') i = alog_entry (raft_log_abs l) i) \<and>
     (log_synced l \<longrightarrow> log_synced l')"

text \<open>The raft library itself changes neither the storage nor the applied index; its caller does.\<close>

definition log_keeps :: "raft_log \<Rightarrow> raft_log \<Rightarrow> bool" where
  "log_keeps l l' \<longleftrightarrow> log_advances l l' \<and> rl_storage l' = rl_storage l \<and> rl_applied l' = rl_applied l"

lemmas log_keeps_defs = log_keeps_def log_advances_def

interpretation la: run_relation raft_log_wf log_advances
  by unfold_locales (auto simp: log_advances_def)

interpretation lk: run_relation raft_log_wf log_keeps
  by unfold_locales (auto simp: log_keeps_defs)

lemma log_keeps_splice:
  assumes "raft_log_wf l" "raft_log_wf l'" "raft_log_abs l' = alog_splice (raft_log_abs l) n es"
    "rl_committed l < n" "n \<le> Suc (log_last l)" "rl_committed l \<le> rl_committed l'" "log_frame l l'"
  shows "log_keeps l l'"
  using assms raft_log_wfD(4) [OF assms(1)] log_synced_mono [OF assms(7,6)]
  by (auto simp: log_keeps_defs log_frame_def alog_splice_entry_below)

lemma log_keeps_same_abs:
  "raft_log_wf l' \<Longrightarrow> raft_log_abs l' = raft_log_abs l \<Longrightarrow> rl_committed l \<le> rl_committed l' \<Longrightarrow>
   log_frame l l' \<Longrightarrow> log_keeps l l'"
  using log_synced_mono by (auto simp: log_keeps_defs log_frame_def)

lemma raft_log_append_keeps:
  assumes "raft_log_wf l" "contig n es" "n + length es \<le> u64_max" "0 < n" "raft_log_append es l = Inr (li, l')"
  shows "log_keeps l l'"
proof (cases "es = []")
  case True
  with assms show ?thesis by (auto simp: raft_log_append_def lk.rel_refl)
next
  case False
  have n: "rl_committed l < n"
    using raft_log_append_committed [OF assms(2) False assms(4), of l] assms(3,5)
    by (cases "n \<le> rl_committed l") simp_all
  then have n2: "n \<le> Suc (log_last l)"
    using raft_log_append_gap [OF assms(1,2) False assms(4,3)] assms(5)
    by (cases "Suc (log_last l) < n") simp_all
  from raft_log_append_wf [OF assms(1,2) False assms(3) n n2] assms(5)
  have "raft_log_wf l'" "raft_log_abs l' = alog_splice (raft_log_abs l) n es"
    "rl_committed l' = rl_committed l" "log_frame l l'" by auto
  with assms(1) n n2 show ?thesis by (intro log_keeps_splice) simp_all
qed

lemma raft_log_commit_to_keeps:
  "raft_log_wf l \<Longrightarrow> raft_log_commit_to i l = Inr l' \<Longrightarrow> log_keeps l l'"
  using raft_log_wfD(5) [of l]
  by (auto simp: raft_log_commit_to_wf log_frame_def split: if_splits
      intro!: log_keeps_same_abs raft_log_wf_commit)

lemma raft_log_maybe_commit_keeps:
  "raft_log_wf l \<Longrightarrow> raft_log_maybe_commit i t l = Inr (b, l') \<Longrightarrow> log_keeps l l'"
  by (auto simp: raft_log_maybe_commit_def res_simps split: if_splits
      intro: raft_log_commit_to_keeps lk.rel_refl)

lemma appended_keeps:
  assumes "raft_log_wf l" "raft_log_wf l'" "raft_log_abs l' = appended i es (raft_log_abs l)"
    "contig (Suc i) es" "\<forall>e \<in> set es. 0 < e_term e" "log_base l \<le> i" "i \<le> log_last l"
    "conflict_index (raft_log_abs l) es = 0 \<or> rl_committed l < conflict_index (raft_log_abs l) es"
    "rl_committed l \<le> rl_committed l'" "log_frame l l'"
  shows "log_keeps l l'"
proof (cases "conflict_index (raft_log_abs l) es = 0")
  case True
  with assms show ?thesis by (intro log_keeps_same_abs) (simp_all add: appended_def)
next
  case False
  with assms appended_last(2) [OF assms(4-7)] show ?thesis
    by (intro log_keeps_splice [where n = "conflict_index (raft_log_abs l) es"])
      (simp_all add: appended_def Let_def)
qed

section \<open>Restoring from a snapshot\<close>

lemma raft_log_restore_wf:
  assumes "raft_log_wf l" "snap_index s < u64_max"
  shows "raft_log_wf (raft_log_restore s l)"
    and "raft_log_abs (raft_log_restore s l) =
      \<lparr>al_base = snap_index s, al_bterm = snap_term s, al_ents = []\<rparr>"
    and "rl_committed (raft_log_restore s l) = snap_index s"
  using assms unstable_restore_wf [OF assms(2), of "rl_unstable l"]
  by (simp_all add: raft_log_restore_def raft_log_wf_def raft_log_abs_def log_joined_def
      unstable_restore_sel alog_last_def)

lemma raft_log_restore_keeps:
  assumes "raft_log_wf l" "snap_index s < u64_max" "rl_committed l < snap_index s"
  shows "log_keeps l (raft_log_restore s l)"
proof -
  have "log_synced l \<Longrightarrow> log_synced (raft_log_restore s l)"
    using assms(3) by (auto simp: log_synced_def raft_log_restore_def unstable_restore_def)
  with raft_log_restore_wf [OF assms(1,2)] assms raft_log_wfD(4) [OF assms(1)] show ?thesis
    by (auto simp: log_keeps_defs raft_log_restore_def)
qed

section \<open>Entries to apply\<close>

lemma raft_log_next_entries_wf:
  assumes wf: "raft_log_wf l" and ap: "rl_applied l \<le> rl_committed l"
  shows "raft_log_next_entries l =
    Inr (entry_limit_size (rl_max_next_ents_size l)
      (alog_slice (raft_log_abs l) (Suc (max (rl_applied l) (log_base l))) (Suc (rl_committed l))))"
    and "raft_log_has_next_entries l = Inr (max (rl_applied l) (log_base l) < rl_committed l)"
proof -
  have c: "rl_committed l < u64_max"
    using raft_log_wfD(5) [OF wf] log_last_bound [OF wf] by simp
  then have a: "max (add64 (rl_applied l) 1) (Suc (log_base l)) = Suc (max (rl_applied l) (log_base l))"
    "add64 (rl_committed l) 1 = Suc (rl_committed l)"
    using ap by simp_all
  show "raft_log_has_next_entries l = Inr (max (rl_applied l) (log_base l) < rl_committed l)"
    using wf by (simp add: raft_log_has_next_entries_def Let_def a del: max_less_iff_conj)
  show "raft_log_next_entries l = Inr (entry_limit_size (rl_max_next_ents_size l)
      (alog_slice (raft_log_abs l) (Suc (max (rl_applied l) (log_base l))) (Suc (rl_committed l))))"
  proof (cases "max (rl_applied l) (log_base l) < rl_committed l")
    case True
    then have "log_base l < Suc (max (rl_applied l) (log_base l))"
      "Suc (max (rl_applied l) (log_base l)) \<le> Suc (rl_committed l)" "Suc (rl_committed l) \<le> Suc (log_last l)"
      using raft_log_wfD(5) [OF wf] by simp_all
    note raft_log_slice_wf [OF wf this, of "rl_max_next_ents_size l"]
    with True show ?thesis using wf
      by (simp add: raft_log_next_entries_def Let_def a del: max_less_iff_conj)
  next
    case False
    then have "Suc (rl_committed l) - Suc (max (rl_applied l) (log_base l)) = 0" by linarith
    with False wf show ?thesis
      by (simp add: raft_log_next_entries_def Let_def a alog_slice_def entry_limit_size_def
          del: max_less_iff_conj)
  qed
qed

section \<open>Moving entries to stable storage\<close>

text \<open>
  The application appends the unstable entries to the storage and then calls
  \<open>stable_to\<close> with the last of them; for a pending snapshot it applies the snapshot to
  the storage and calls \<open>stable_snap_to\<close>. Neither changes the log as a whole.
\<close>

definition set_storage :: "memory_storage \<Rightarrow> raft_log \<Rightarrow> raft_log" where
  "set_storage st l = l\<lparr>rl_storage := st\<rparr>"

lemma raft_log_persist:
  assumes wf: "raft_log_wf l" and ns: "u_snapshot (rl_unstable l) = None"
    and ne: "u_entries (rl_unstable l) \<noteq> []"
  shows "\<exists>st' l'. storage_append (raft_log_unstable_entries l) (rl_storage l) = Inr (StatusOK, st') \<and>
    raft_log_stable_to (log_last l) (alog_term_at (raft_log_abs l) (log_last l)) (set_storage st' l) = Inr l' \<and>
    raft_log_wf l' \<and> raft_log_abs l' = raft_log_abs l \<and> raft_log_unstable_entries l' = [] \<and>
    storage_abs st' = raft_log_abs l \<and> rl_committed l' = rl_committed l"
proof -
  let ?u = "rl_unstable l" and ?a = "storage_abs (rl_storage l)"
  have j: "al_base ?a < u_offset ?u" "u_offset ?u \<le> Suc (alog_last ?a)"
    using raft_log_wfD(3) [OF wf] ns by (simp_all add: log_joined_def)
  have abs: "raft_log_abs l = alog_splice ?a (u_offset ?u) (u_entries ?u)"
    using ns by (simp add: raft_log_abs_def)
  from storage_append_refines [OF raft_log_wfD(1) [OF wf] unstable_wfD(1,2) [OF raft_log_wfD(2) [OF wf]] j ne]
  obtain st' where st': "storage_append (u_entries ?u) (rl_storage l) = Inr (StatusOK, st')"
    "storage_wf st'" "storage_abs st' = raft_log_abs l" using abs by auto
  let ?n = "length (u_entries ?u)" and ?last = "log_last l"
  have n: "0 < ?n" using ne by simp
  have last: "?last = u_offset ?u + ?n - 1" by (rule log_last_offset [OF wf])
  have o: "u_offset ?u \<le> ?last" "?last < u_offset ?u + ?n" "Suc ?last - u_offset ?u = ?n"
    using last n unstable_wfD(3) [OF raft_log_wfD(2) [OF wf]] by linarith+
  have "alog_term_at (raft_log_abs l) ?last = e_term (u_entries ?u ! (?last - u_offset ?u))"
    using log_entry_unstable [OF wf o(1)] o(2) log_base_lt_offset [OF wf] o(1)
    by (simp add: alog_term_at_def)
  then have "unstable_stable_to ?last (alog_term_at (raft_log_abs l) ?last) ?u =
      Inr (?u\<lparr>u_entries := [], u_offset := Suc ?last\<rparr>)"
    using o by (simp add: unstable_stable_to_wf [OF raft_log_wfD(2) [OF wf]])
  moreover define l' where "l' = l\<lparr>rl_storage := st', rl_unstable := ?u\<lparr>u_entries := [], u_offset := Suc ?last\<rparr>\<rparr>"
  ultimately have s: "raft_log_stable_to ?last (alog_term_at (raft_log_abs l) ?last) (set_storage st' l) = Inr l'"
    by (simp add: raft_log_stable_to_def set_storage_def)
  have abs': "raft_log_abs l' = raft_log_abs l"
    using ns st'(3) by (simp add: l'_def raft_log_abs_def [of "l\<lparr>rl_storage := _, rl_unstable := _\<rparr>"]
        alog_splice_def alog_last_def)
  have "raft_log_wf l'"
    unfolding raft_log_wf_def abs'
    using st' ns raft_log_wfD(4,5) [OF wf] log_last_bound [OF wf] log_base_le_last [of l]
    by (simp add: l'_def unstable_wf_def log_joined_def)
  with st' s abs' show ?thesis
    by (auto simp: raft_log_unstable_entries_def l'_def)
qed

lemma raft_log_persist_snapshot:
  assumes wf: "raft_log_wf l" and s: "u_snapshot (rl_unstable l) = Some s"
    and new: "snap_index (ms_snapshot (rl_storage l)) < snap_index s"
    and none: "u_entries (rl_unstable l) = []"
  shows "\<exists>st'. storage_apply_snapshot s (rl_storage l) = (StatusOK, st') \<and>
    (let l' = raft_log_stable_snap_to (snap_index s) (set_storage st' l) in
     raft_log_wf l' \<and> raft_log_abs l' = raft_log_abs l \<and> u_snapshot (rl_unstable l') = None)"
proof -
  have o: "u_offset (rl_unstable l) = Suc (snap_index s)"
    using raft_log_wfD(3) [OF wf] s by (simp add: log_joined_def)
  then have "snap_index s < u64_max" using unstable_wfD(2) [OF raft_log_wfD(2) [OF wf]] by simp
  from storage_apply_snapshot_refines [OF new this] obtain st' where
    st': "storage_apply_snapshot s (rl_storage l) = (StatusOK, st')" "storage_wf st'"
    "storage_abs st' = \<lparr>al_base = snap_index s, al_bterm = snap_term s, al_ents = []\<rparr>" by auto
  let ?l' = "raft_log_stable_snap_to (snap_index s) (set_storage st' l)"
  have abs': "raft_log_abs ?l' = raft_log_abs l"
    using s none st'(3)
    by (simp add: raft_log_abs_def raft_log_stable_snap_to_def unstable_stable_snap_to_def
        set_storage_def alog_splice_def)
  moreover have "raft_log_wf ?l'"
    unfolding raft_log_wf_def abs' using raft_log_wfD(2,4,5) [OF wf] st' s none o
    by (simp add: raft_log_stable_snap_to_def unstable_stable_snap_to_def set_storage_def unstable_wf_def
        log_joined_def alog_last_def)
  moreover have "u_snapshot (rl_unstable ?l') = None"
    using s by (simp add: raft_log_stable_snap_to_def unstable_stable_snap_to_def set_storage_def)
  ultimately show ?thesis using st'(1) by auto
qed

section \<open>Construction\<close>

lemma new_raft_log_wf:
  assumes "storage_wf st"
  shows "\<exists>l. new_raft_log st m = Inr l \<and> raft_log_wf l \<and> raft_log_abs l = storage_abs st \<and>
    rl_committed l = al_base (storage_abs st) \<and> rl_applied l = al_base (storage_abs st) \<and>
    rl_storage l = st \<and> u_entries (rl_unstable l) = [] \<and> u_snapshot (rl_unstable l) = None"
proof -
  let ?a = "storage_abs st"
  have b: "alog_last ?a < u64_max" "al_base ?a \<le> alog_last ?a"
    using ms.last_bound [OF assms] by (simp_all add: alog_last_def)
  then have e: "add64 (alog_last ?a) 1 = Suc (alog_last ?a)" "sub64 (Suc (al_base ?a)) 1 = al_base ?a"
    by simp_all
  let ?l = "\<lparr>rl_storage = st, rl_unstable = new_unstable (Suc (alog_last ?a)),
      rl_committed = al_base ?a, rl_applied = al_base ?a, rl_max_next_ents_size = m\<rparr>"
  have abs: "raft_log_abs ?l = ?a"
    by (simp add: raft_log_abs_def new_unstable_def alog_splice_def alog_last_def)
  have "new_raft_log st m = Inr ?l"
    using assms e by (simp add: new_raft_log_def ms.first_law ms.last_law)
  moreover have "raft_log_wf ?l"
    unfolding raft_log_wf_def abs using assms b
    by (simp add: log_joined_def new_unstable_wf new_unstable_def [of "Suc _"] unstable_wf_def)
  ultimately show ?thesis using abs by (auto simp: new_unstable_def)
qed

end
