(* ===== verification/Progress.thy ===== *)
theory Progress
  imports Prelude
begin

text \<open>
  A leader's view of one follower: \<open>src/raft-kv/raft/progress.h\<close> and \<open>progress.cpp\<close>.
  \<open>InFlights\<close> is a ring buffer that grows by doubling up to its capacity; the locale
  \<open>window\<close> is what the rest of the program relies on: a bounded queue of indices from
  which a prefix is released.
\<close>

section \<open>Ring buffer of messages in flight\<close>

record inflights =
  if_start :: u32
  if_count :: u64
  if_size :: u32
  if_buffer :: "u64 list"

definition new_inflights :: "u64 \<Rightarrow> inflights" where
  "new_inflights max_inflights_msgs =
     \<lparr>if_start = 0, if_count = 0, if_size = cast32 max_inflights_msgs, if_buffer = []\<rparr>"

definition inflights_reset :: "inflights \<Rightarrow> inflights" where
  "inflights_reset f = f\<lparr>if_start := 0, if_count := 0\<rparr>"

definition inflights_is_full :: "inflights \<Rightarrow> bool" where
  "inflights_is_full f \<longleftrightarrow> if_size f = if_count f"

text \<open>\<open>vector::resize\<close>: new elements are 0.\<close>

definition vec_resize :: "nat \<Rightarrow> u64 list \<Rightarrow> u64 list" where
  "vec_resize n xs = take n xs @ replicate (n - length xs) 0"

definition inflights_new_size :: "inflights \<Rightarrow> u32" where
  "inflights_new_size f =
     (let new_size = cast32 (length (if_buffer f) * 2) in
      if new_size = 0 then 1 else if new_size > if_size f then if_size f else new_size)"

definition inflights_add :: "u64 \<Rightarrow> inflights \<Rightarrow> inflights res" where
  "inflights_add x f =
     (if inflights_is_full f then Inl (Fatal ''cannot add into a full inflights'')
      else
        let next = add64 (if_start f) (if_count f);
            next = (if next \<ge> if_size f then sub64 next (if_size f) else next);
            buffer = (if next \<ge> length (if_buffer f)
                      then vec_resize (inflights_new_size f) (if_buffer f) else if_buffer f)
        in
        if next < length buffer then
          Inr (f\<lparr>if_buffer := buffer[next := x], if_count := add64 (if_count f) 1\<rparr>)
        else Inl (Undefined ''buffer[next]''))"

text \<open>The loop of \<open>free_to\<close>: \<open>fuel\<close> is the number of turns left, \<open>count - i\<close>.\<close>

fun inflights_scan :: "u64 \<Rightarrow> inflights \<Rightarrow> nat \<Rightarrow> nat \<Rightarrow> u32 \<Rightarrow> (nat \<times> u32) res" where
  "inflights_scan to f 0 i idx = Inr (i, idx)"
| "inflights_scan to f (Suc left) i idx =
     bindr (vec_at (if_buffer f) idx) (\<lambda>b.
     if to < b then Inr (i, idx)
     else
       let idx = add32 idx 1;
           idx = (if idx \<ge> if_size f then idx - if_size f else idx)
       in inflights_scan to f left (Suc i) idx)"

definition inflights_free_to :: "u64 \<Rightarrow> inflights \<Rightarrow> inflights res" where
  "inflights_free_to to f =
     (if if_count f = 0 then Inr f
      else
        bindr (vec_at (if_buffer f) (if_start f)) (\<lambda>b.
        if to < b then Inr f
        else
          bindr (inflights_scan to f (if_count f) 0 (if_start f)) (\<lambda>(i, idx).
          let count = sub64 (if_count f) i in
          Inr (f\<lparr>if_count := count, if_start := (if count = 0 then 0 else idx)\<rparr>))))"

text \<open>The argument is the position \<open>start\<close> in the buffer, not the index stored there.\<close>

definition inflights_free_first_one :: "inflights \<Rightarrow> inflights res" where
  "inflights_free_first_one f = inflights_free_to (if_start f) f"

subsection \<open>The contract of a window\<close>

locale window =
  fixes invar :: "'w \<Rightarrow> bool"
    and contents :: "'w \<Rightarrow> u64 list"
    and capacity :: "'w \<Rightarrow> nat"
    and full :: "'w \<Rightarrow> bool"
    and add :: "u64 \<Rightarrow> 'w \<Rightarrow> 'w res"
    and free_to :: "u64 \<Rightarrow> 'w \<Rightarrow> 'w res"
    and reset :: "'w \<Rightarrow> 'w"
  assumes bounded: "invar w \<Longrightarrow> length (contents w) \<le> capacity w"
    and full_law: "invar w \<Longrightarrow> full w \<longleftrightarrow> length (contents w) = capacity w"
    and add_law: "invar w \<Longrightarrow> \<not> full w \<Longrightarrow>
      \<exists>w'. add x w = Inr w' \<and> invar w' \<and> contents w' = contents w @ [x] \<and> capacity w' = capacity w"
    and free_law: "invar w \<Longrightarrow>
      \<exists>w'. free_to x w = Inr w' \<and> invar w' \<and> contents w' = dropWhile (\<lambda>y. y \<le> x) (contents w) \<and>
        capacity w' = capacity w"
    and reset_law: "invar w \<Longrightarrow> invar (reset w) \<and> contents (reset w) = [] \<and> capacity (reset w) = capacity w"
begin

lemma dropWhile_sorted_filter:
  "sorted (xs :: u64 list) \<Longrightarrow> dropWhile (\<lambda>y. y \<le> x) xs = filter (\<lambda>y. x < y) xs"
proof (induction xs)
  case (Cons y ys)
  then have "x < y \<Longrightarrow> filter (\<lambda>z. x < z) ys = ys"
    by (auto simp: filter_id_conv intro: order.strict_trans2)
  with Cons show ?case by auto
qed simp

text \<open>
  Indices are added in ascending order. Then an acknowledgement of \<open>x\<close> releases
  exactly the messages up to \<open>x\<close>.
\<close>

lemma free_sorted:
  assumes "invar w" "sorted (contents w)" "free_to x w = Inr w'"
  shows "invar w'" "sorted (contents w')" "contents w' = filter (\<lambda>y. x < y) (contents w)"
  using free_law [OF assms(1), of x] assms(2,3) dropWhile_sorted_filter [OF assms(2), of x]
  by (auto simp: sorted_wrt_filter)

lemma add_sorted:
  assumes "invar w" "sorted (contents w)" "\<forall>y \<in> set (contents w). y \<le> x" "add x w = Inr w'" "\<not> full w"
  shows "invar w'" "sorted (contents w')"
  using add_law [OF assms(1,5), of x] assms(2-4) by (auto simp: sorted_append)

lemma free_makes_room:
  assumes "invar w" "0 < capacity w" "\<forall>y \<in> set (contents w). y \<le> x"
  shows "\<exists>w'. free_to x w = Inr w' \<and> contents w' = [] \<and> \<not> full w'"
proof -
  have "dropWhile (\<lambda>y. y \<le> x) (contents w) = []" using assms(3) by (simp add: dropWhile_eq_Nil_conv)
  with free_law [OF assms(1), of x] obtain w' where
    "free_to x w = Inr w'" "invar w'" "contents w' = []" "capacity w' = capacity w" by auto
  with assms(2) full_law [of w'] show ?thesis by auto
qed

end

subsection \<open>The ring buffer is a window\<close>

definition inflights_wf :: "inflights \<Rightarrow> bool" where
  "inflights_wf f \<longleftrightarrow>
     2 * if_size f \<le> u32_max \<and> if_count f \<le> if_size f \<and> length (if_buffer f) \<le> if_size f \<and>
     (if_start f = 0 \<or> if_start f < if_size f) \<and>
     (if_start f + if_count f \<le> length (if_buffer f) \<or> length (if_buffer f) = if_size f)"

definition inflights_contents :: "inflights \<Rightarrow> u64 list" where
  "inflights_contents f =
     map (\<lambda>i. if_buffer f ! ((if_start f + i) mod if_size f)) [0..<if_count f]"

lemma inflights_contents_length [simp]: "length (inflights_contents f) = if_count f"
  by (simp add: inflights_contents_def)

lemma new_inflights_wf [wf_intros]:
  "2 * n \<le> u32_max \<Longrightarrow> inflights_wf (new_inflights n)"
  "inflights_contents (new_inflights n) = []"
  by (simp_all add: inflights_wf_def new_inflights_def inflights_contents_def)

lemma ring_pos:
  assumes "inflights_wf f" "i < if_count f"
  shows "(if_start f + i) mod if_size f < length (if_buffer f)"
proof (cases "length (if_buffer f) = if_size f")
  case True
  with assms show ?thesis by (auto simp: inflights_wf_def)
next
  case False
  with assms have "if_start f + i < length (if_buffer f)" "length (if_buffer f) \<le> if_size f"
    by (auto simp: inflights_wf_def)
  then show ?thesis by simp
qed

lemma ring_distinct:
  assumes "i < c" "c < (n::nat)"
  shows "(s + i) mod n \<noteq> (s + c) mod n"
proof
  assume "(s + i) mod n = (s + c) mod n"
  then have "n dvd (s + c) - (s + i)" using assms mod_eq_dvd_iff_nat [of "s + i" "s + c" n] by simp
  then have "n dvd c - i" by simp
  with assms show False by (auto dest: dvd_imp_le)
qed

lemma ring_step:
  "(if (p::nat) \<ge> n then p - n else p) = p mod n" if "p < 2 * n"
  using that by (auto simp: le_mod_geq)

lemma inflights_grow:
  assumes "inflights_wf f" "length (if_buffer f) < if_size f"
  shows "length (if_buffer f) < inflights_new_size f" "inflights_new_size f \<le> if_size f"
  using assms by (auto simp: inflights_new_size_def inflights_wf_def Let_def)

lemma inflights_add_wf:
  assumes wf: "inflights_wf f" and nf: "\<not> inflights_is_full f"
  shows "\<exists>f'. inflights_add x f = Inr f' \<and> inflights_wf f' \<and>
    inflights_contents f' = inflights_contents f @ [x] \<and> if_size f' = if_size f"
proof -
  let ?p = "if_start f + if_count f" and ?n = "if_size f" and ?b = "if_buffer f"
  have c: "if_count f < ?n" "if_start f < ?n" "?p < 2 * ?n" "2 * ?n \<le> u32_max"
    using wf nf by (auto simp: inflights_wf_def inflights_is_full_def)
  define k where "k = ?p mod ?n"
  have kn: "k < ?n" using c by (simp add: k_def)
  define b' where "b' = (if length ?b \<le> k then vec_resize (inflights_new_size f) ?b else ?b)"
  have grow: "?p = length ?b \<and> length ?b < ?n" if "length ?b \<le> k"
  proof -
    have "?p \<le> length ?b" "length ?b < ?n" using that kn wf by (auto simp: inflights_wf_def)
    moreover from this have "k = ?p" by (simp add: k_def)
    ultimately show ?thesis using that by simp
  qed
  have "k < length b' \<and> length b' \<le> ?n \<and> (\<forall>j < length ?b. b' ! j = ?b ! j) \<and>
    (Suc ?p \<le> length b' \<or> length b' = ?n)"
  proof (cases "length ?b \<le> k")
    case True
    with grow have "?p = length ?b" "length ?b < ?n" "k = length ?b" by (auto simp: k_def)
    with inflights_grow [OF wf] True show ?thesis by (auto simp: b'_def vec_resize_def nth_append)
  next
    case False
    have "?p < ?n \<Longrightarrow> k = ?p" by (simp add: k_def)
    with False wf show ?thesis by (auto simp: b'_def inflights_wf_def)
  qed
  then have b': "k < length b'" "length b' \<le> ?n" "\<And>j. j < length ?b \<Longrightarrow> b' ! j = ?b ! j"
    "Suc ?p \<le> length b' \<or> length b' = ?n" by auto
  let ?f' = "f\<lparr>if_buffer := b'[k := x], if_count := Suc (if_count f)\<rparr>"
  have "inflights_add x f = Inr ?f'"
  proof -
    have "if_start f + if_count f \<le> u64_max" "if_count f + 1 \<le> u64_max"
      using c u32_max_less_u64_max by linarith+
    then have "(if add64 (if_start f) (if_count f) \<ge> ?n then sub64 (add64 (if_start f) (if_count f)) ?n
        else add64 (if_start f) (if_count f)) = k" "add64 (if_count f) 1 = Suc (if_count f)"
      unfolding k_def ring_step [OF c(3), symmetric] by simp_all
    with nf b'(1) show ?thesis by (simp add: inflights_add_def Let_def b'_def)
  qed
  moreover have "inflights_wf ?f'" using wf b' c by (auto simp: inflights_wf_def)
  moreover have "inflights_contents ?f' = inflights_contents f @ [x]"
  proof -
    have "b'[k := x] ! ((if_start f + i) mod ?n) = ?b ! ((if_start f + i) mod ?n)" if "i < if_count f" for i
      using ring_pos [OF wf that] ring_distinct [OF that c(1), of "if_start f"] b'(3) by (simp add: k_def)
    moreover have "b'[k := x] ! k = x" using b'(1) by simp
    ultimately show ?thesis by (simp add: inflights_contents_def k_def)
  qed
  ultimately show ?thesis by auto
qed

lemma inflights_scan_wf:
  assumes wf: "inflights_wf f" and "0 < if_count f" and "i + left = if_count f"
    and "idx = (if_start f + i) mod if_size f"
  shows "inflights_scan to f left i idx =
    (let n = length (takeWhile (\<lambda>y. y \<le> to) (drop i (inflights_contents f)))
     in Inr (i + n, (if_start f + i + n) mod if_size f))"
  using assms(3,4)
proof (induction left arbitrary: i idx)
  case (Suc left)
  have i: "i < if_count f" using Suc.prems by simp
  have at: "vec_at (if_buffer f) idx = Inr (inflights_contents f ! i)"
    using ring_pos [OF wf i] Suc.prems(2) i by (simp add: inflights_contents_def)
  have d: "drop i (inflights_contents f) = inflights_contents f ! i # drop (Suc i) (inflights_contents f)"
    using i by (intro Cons_nth_drop_Suc [symmetric]) simp
  have s: "0 < if_size f" "2 * if_size f \<le> u32_max" using wf i by (auto simp: inflights_wf_def)
  then have lt: "idx < if_size f" using Suc.prems(2) by simp
  then have "idx + 1 < 2 * if_size f" "add32 idx 1 = idx + 1" using s by simp_all
  then have "(if add32 idx 1 \<ge> if_size f then add32 idx 1 - if_size f else add32 idx 1) = (idx + 1) mod if_size f"
    unfolding ring_step [OF \<open>idx + 1 < _\<close>, symmetric] by simp
  also have "\<dots> = (if_start f + Suc i) mod if_size f"
    unfolding Suc.prems(2) by (simp only: mod_add_left_eq add_Suc_right Suc_eq_plus1 add.assoc)
  finally have nx: "(if add32 idx 1 \<ge> if_size f then add32 idx 1 - if_size f else add32 idx 1) =
      (if_start f + Suc i) mod if_size f" .
  have ih: "inflights_scan to f left (Suc i) ((if_start f + Suc i) mod if_size f) =
    (let n = length (takeWhile (\<lambda>y. y \<le> to) (drop (Suc i) (inflights_contents f)))
     in Inr (Suc i + n, (if_start f + Suc i + n) mod if_size f))"
    using Suc.prems(1) by (intro Suc.IH) simp_all
  show ?case
    unfolding inflights_scan.simps at bindr.simps d Let_def nx ih
    using Suc.prems(2) by simp
qed simp

lemma inflights_free_to_wf:
  assumes wf: "inflights_wf f"
  shows "\<exists>f'. inflights_free_to to f = Inr f' \<and> inflights_wf f' \<and>
    inflights_contents f' = dropWhile (\<lambda>y. y \<le> to) (inflights_contents f) \<and> if_size f' = if_size f"
proof (cases "if_count f = 0")
  case True
  with wf show ?thesis by (auto simp: inflights_free_to_def inflights_contents_def)
next
  case False
  let ?c = "inflights_contents f" and ?n = "if_size f"
  have s: "if_start f < ?n" "0 < ?n" "if_count f \<le> ?n" "?n \<le> u32_max"
    using wf False by (auto simp: inflights_wf_def)
  have hd: "vec_at (if_buffer f) (if_start f) = Inr (?c ! 0)"
    using ring_pos [OF wf, of 0] False s by (simp add: inflights_contents_def)
  show ?thesis
  proof (cases "to < ?c ! 0")
    case True
    then have "dropWhile (\<lambda>y. y \<le> to) ?c = ?c" using False by (cases ?c) auto
    with True hd False wf show ?thesis by (auto simp: inflights_free_to_def)
  next
    case ge: False
    define k where "k = length (takeWhile (\<lambda>y. y \<le> to) ?c)"
    have kc: "k \<le> if_count f" using length_takeWhile_le [of _ ?c] by (simp add: k_def)
    have sub: "sub64 (if_count f) k = if_count f - k"
      using kc s u32_max_less_u64_max by simp
    let ?f' = "f\<lparr>if_count := if_count f - k,
      if_start := (if if_count f - k = 0 then 0 else (if_start f + k) mod ?n)\<rparr>"
    have "inflights_free_to to f = Inr ?f'"
      using False ge hd s inflights_scan_wf [OF wf, of 0 "if_count f" "if_start f" to] sub
      by (simp add: inflights_free_to_def Let_def k_def)
    moreover have "inflights_wf ?f'"
    proof (cases "length (if_buffer f) = ?n")
      case False
      with wf have "if_start f + if_count f \<le> length (if_buffer f)" "length (if_buffer f) < ?n"
        by (auto simp: inflights_wf_def)
      with wf kc show ?thesis by (auto simp: inflights_wf_def)
    qed (use wf kc s in \<open>auto simp: inflights_wf_def\<close>)
    moreover have "inflights_contents ?f' = drop k ?c"
      by (rule nth_equalityI) (auto simp: inflights_contents_def mod_add_left_eq add.assoc)
    then have "inflights_contents ?f' = dropWhile (\<lambda>y. y \<le> to) ?c"
      by (simp add: dropWhile_eq_drop k_def)
    ultimately show ?thesis by auto
  qed
qed

interpretation ifw: window inflights_wf inflights_contents if_size inflights_is_full
  inflights_add inflights_free_to inflights_reset
proof unfold_locales
  fix w :: inflights and x
  assume wf: "inflights_wf w"
  then show "length (inflights_contents w) \<le> if_size w"
    "inflights_is_full w \<longleftrightarrow> length (inflights_contents w) = if_size w"
    "inflights_wf (inflights_reset w) \<and> inflights_contents (inflights_reset w) = [] \<and>
      if_size (inflights_reset w) = if_size w"
    by (auto simp: inflights_wf_def inflights_is_full_def inflights_reset_def inflights_contents_def)
  show "\<exists>w'. inflights_free_to x w = Inr w' \<and> inflights_wf w' \<and>
      inflights_contents w' = dropWhile (\<lambda>y. y \<le> x) (inflights_contents w) \<and> if_size w' = if_size w"
    using wf by (rule inflights_free_to_wf)
  show "\<exists>w'. inflights_add x w = Inr w' \<and> inflights_wf w' \<and>
      inflights_contents w' = inflights_contents w @ [x] \<and> if_size w' = if_size w"
    if "\<not> inflights_is_full w"
    using wf that by (rule inflights_add_wf)
qed

section \<open>Progress of a follower\<close>

datatype progress_state = ProgressStateProbe | ProgressStateReplicate | ProgressStateSnapshot

record progress =
  pr_match :: u64
  pr_next :: u64
  pr_state :: progress_state
  pr_paused :: bool
  pr_pending_snapshot :: u64
  pr_recent_active :: bool
  pr_inflights :: inflights
  pr_is_learner :: bool

definition progress_state_to_string :: "progress_state \<Rightarrow> string" where
  "progress_state_to_string s =
     (case s of
        ProgressStateProbe \<Rightarrow> ''ProgressStateProbe''
      | ProgressStateReplicate \<Rightarrow> ''ProgressStateReplicate''
      | ProgressStateSnapshot \<Rightarrow> ''ProgressStateSnapshot'')"

definition new_progress :: "u64 \<Rightarrow> progress" where
  "new_progress max_inflights =
     \<lparr>pr_match = 0, pr_next = 0, pr_state = ProgressStateProbe, pr_paused = False,
      pr_pending_snapshot = 0, pr_recent_active = False,
      pr_inflights = new_inflights max_inflights, pr_is_learner = False\<rparr>"

definition progress_reset_state :: "progress_state \<Rightarrow> progress \<Rightarrow> progress" where
  "progress_reset_state st p =
     p\<lparr>pr_paused := False, pr_pending_snapshot := 0, pr_state := st,
       pr_inflights := inflights_reset (pr_inflights p)\<rparr>"

definition progress_become_replicate :: "progress \<Rightarrow> progress" where
  "progress_become_replicate p =
     (let p = progress_reset_state ProgressStateReplicate p in
      p\<lparr>pr_next := add64 (pr_match p) 1\<rparr>)"

definition progress_become_probe :: "progress \<Rightarrow> progress" where
  "progress_become_probe p =
     (if pr_state p = ProgressStateSnapshot then
        let pending = pr_pending_snapshot p;
            p = progress_reset_state ProgressStateProbe p
        in p\<lparr>pr_next := max (add64 (pr_match p) 1) (add64 pending 1)\<rparr>
      else
        let p = progress_reset_state ProgressStateProbe p in
        p\<lparr>pr_next := add64 (pr_match p) 1\<rparr>)"

definition progress_become_snapshot :: "u64 \<Rightarrow> progress \<Rightarrow> progress" where
  "progress_become_snapshot snapshoti p =
     (progress_reset_state ProgressStateSnapshot p)\<lparr>pr_pending_snapshot := snapshoti\<rparr>"

definition progress_is_paused :: "progress \<Rightarrow> bool" where
  "progress_is_paused p =
     (case pr_state p of
        ProgressStateProbe \<Rightarrow> pr_paused p
      | ProgressStateReplicate \<Rightarrow> inflights_is_full (pr_inflights p)
      | ProgressStateSnapshot \<Rightarrow> True)"

definition progress_set_pause :: "progress \<Rightarrow> progress" where
  "progress_set_pause p = p\<lparr>pr_paused := True\<rparr>"

definition progress_resume :: "progress \<Rightarrow> progress" where
  "progress_resume p = p\<lparr>pr_paused := False\<rparr>"

definition progress_maybe_update :: "u64 \<Rightarrow> progress \<Rightarrow> bool \<times> progress" where
  "progress_maybe_update n p =
     (let update = pr_match p < n;
          p = (if pr_match p < n then progress_resume (p\<lparr>pr_match := n\<rparr>) else p);
          p = (if pr_next p < add64 n 1 then p\<lparr>pr_next := add64 n 1\<rparr> else p)
      in (update, p))"

definition progress_optimistic_update :: "u64 \<Rightarrow> progress \<Rightarrow> progress" where
  "progress_optimistic_update n p = p\<lparr>pr_next := add64 n 1\<rparr>"

definition progress_maybe_decreases_to :: "u64 \<Rightarrow> u64 \<Rightarrow> progress \<Rightarrow> bool \<times> progress" where
  "progress_maybe_decreases_to rejected li p =
     (if pr_state p = ProgressStateReplicate then
        (if rejected \<le> pr_match p then (False, p)
         else (True, p\<lparr>pr_next := add64 (pr_match p) 1\<rparr>))
      else if sub64 (pr_next p) 1 \<noteq> rejected then (False, p)
      else
        let p = p\<lparr>pr_next := min rejected (add64 li 1)\<rparr>;
            p = (if pr_next p < 1 then p\<lparr>pr_next := 1\<rparr> else p)
        in (True, progress_resume p))"

definition progress_need_snapshot_abort :: "progress \<Rightarrow> bool" where
  "progress_need_snapshot_abort p \<longleftrightarrow>
     pr_state p = ProgressStateSnapshot \<and> pr_match p \<ge> pr_pending_snapshot p"

definition progress_snapshot_failure :: "progress \<Rightarrow> progress" where
  "progress_snapshot_failure p = p\<lparr>pr_pending_snapshot := 0\<rparr>"

subsection \<open>Well-formedness and the effect of the operations\<close>

definition progress_wf :: "progress \<Rightarrow> bool" where
  "progress_wf p \<longleftrightarrow>
     inflights_wf (pr_inflights p) \<and> 1 \<le> pr_next p \<and> pr_next p \<le> u64_max \<and> pr_match p < u64_max \<and>
     (pr_state p = ProgressStateReplicate \<longrightarrow> pr_match p < pr_next p)"

lemma progress_reset_state_wf:
  "progress_wf p \<Longrightarrow> inflights_wf (pr_inflights (progress_reset_state st p))"
  by (simp add: progress_wf_def progress_reset_state_def ifw.reset_law)

lemma progress_become_wf [wf_intros]:
  "progress_wf p \<Longrightarrow> progress_wf (progress_become_replicate p)"
  "progress_wf p \<Longrightarrow> progress_wf (progress_become_probe p)"
  "progress_wf p \<Longrightarrow> progress_wf (progress_become_snapshot i p)"
  by (auto simp: progress_wf_def progress_become_replicate_def progress_become_probe_def
      progress_become_snapshot_def progress_reset_state_def ifw.reset_law Let_def)

lemma progress_flag_wf [wf_intros]:
  "progress_wf p \<Longrightarrow> progress_wf (progress_set_pause p)"
  "progress_wf p \<Longrightarrow> progress_wf (progress_resume p)"
  "progress_wf p \<Longrightarrow> progress_wf (p\<lparr>pr_recent_active := b\<rparr>)"
  "progress_wf p \<Longrightarrow> progress_wf (progress_snapshot_failure p)"
  by (auto simp: progress_wf_def progress_set_pause_def progress_resume_def progress_snapshot_failure_def
      u64_max_def)

lemma progress_inflights_wf [wf_intros]:
  "progress_wf p \<Longrightarrow> inflights_wf f \<Longrightarrow> progress_wf (p\<lparr>pr_inflights := f\<rparr>)"
  by (simp add: progress_wf_def)

lemma progress_maybe_update_wf:
  assumes "progress_wf p" "n < u64_max" "progress_maybe_update n p = (b, p')"
  shows "progress_wf p'" "b \<longleftrightarrow> pr_match p < n" "pr_match p' = max (pr_match p) n"
    "pr_next p' = max (pr_next p) (Suc n)" "pr_state p' = pr_state p" "pr_inflights p' = pr_inflights p"
  using assms
  by (auto simp: progress_wf_def progress_maybe_update_def progress_resume_def Let_def split: if_splits)

lemma progress_optimistic_update_wf [wf_intros]:
  "progress_wf p \<Longrightarrow> n < u64_max \<Longrightarrow> pr_match p \<le> n \<Longrightarrow> progress_wf (progress_optimistic_update n p)"
  by (simp add: progress_wf_def progress_optimistic_update_def)

text \<open>
  A rejection that is not stale moves \<open>next\<close> back, below the rejected index in probe
  state, and never below 1: probing ends.
\<close>

lemma progress_maybe_decreases_to_wf:
  assumes "progress_wf p" "li < u64_max" "progress_maybe_decreases_to r li p = (b, p')"
  shows "progress_wf p'" "\<not> b \<Longrightarrow> p' = p"
    "b \<Longrightarrow> pr_state p \<noteq> ProgressStateReplicate \<Longrightarrow>
       r = pr_next p - 1 \<and> pr_next p' = max 1 (min r (Suc li)) \<and> (pr_next p' < pr_next p \<or> pr_next p' = 1)"
    "b \<Longrightarrow> pr_state p = ProgressStateReplicate \<Longrightarrow> pr_match p < r \<and> pr_next p' = Suc (pr_match p)"
    "pr_match p' = pr_match p"
  using assms
  by (auto simp: progress_wf_def progress_maybe_decreases_to_def progress_resume_def Let_def
      split: if_splits)

end
