(* ===== verification/Config.thy ===== *)
theory Config
  imports Storage
begin

text \<open>
  The configuration of a raft node: \<open>src/raft-kv/raft/config.h\<close> and \<open>config.cpp\<close>.
  \<open>validate\<close> also fills in two defaults, so it returns the configuration it leaves behind.
\<close>

datatype read_only_option = ReadOnlySafe | ReadOnlyLeaseBased

record config =
  c_id :: u64
  c_peers :: "u64 list"
  c_learners :: "u64 list"
  c_election_tick :: u32
  c_heartbeat_tick :: u32
  c_storage :: memory_storage
  c_applied :: u64
  c_max_size_per_msg :: u64
  c_max_committed_size_per_ready :: u64
  c_max_uncommitted_entries_size :: u64
  c_max_inflight_msgs :: u64
  c_check_quorum :: bool
  c_pre_vote :: bool
  c_read_only_option :: read_only_option
  c_disable_proposal_forwarding :: bool

definition new_config :: "memory_storage \<Rightarrow> config" where
  "new_config st =
     \<lparr>c_id = 0, c_peers = [], c_learners = [], c_election_tick = 0, c_heartbeat_tick = 0,
      c_storage = st, c_applied = 0, c_max_size_per_msg = 0, c_max_committed_size_per_ready = 0,
      c_max_uncommitted_entries_size = 0, c_max_inflight_msgs = 0, c_check_quorum = False,
      c_pre_vote = False, c_read_only_option = ReadOnlySafe,
      c_disable_proposal_forwarding = False\<rparr>"

definition config_validate :: "config \<Rightarrow> status \<times> config" where
  "config_validate c =
     (if c_id c = 0 then (InvalidArgument ''cannot use none as id'', c)
      else if c_heartbeat_tick c \<le> 0 then
        (InvalidArgument ''heartbeat tick must be greater than 0'', c)
      else if c_election_tick c \<le> c_heartbeat_tick c then
        (InvalidArgument ''election tick must be greaer than heartbeat tick'', c)
      else
        let c = (if c_max_uncommitted_entries_size c = 0
                 then c\<lparr>c_max_uncommitted_entries_size := u64_max\<rparr> else c);
            c = (if c_max_committed_size_per_ready c = 0
                 then c\<lparr>c_max_committed_size_per_ready := c_max_size_per_msg c\<rparr> else c)
        in
        if c_max_inflight_msgs c \<le> 0 then
          (InvalidArgument ''max inflight messages must be greater than 0'', c)
        else if c_read_only_option c = ReadOnlyLeaseBased \<and> \<not> c_check_quorum c then
          (InvalidArgument ''check_quorum must be enabled when read_only_option is ReadOnlyLeaseBased'', c)
        else (StatusOK, c))"

definition config_valid :: "config \<Rightarrow> bool" where
  "config_valid c \<longleftrightarrow>
     c_id c \<noteq> 0 \<and> 0 < c_heartbeat_tick c \<and> c_heartbeat_tick c < c_election_tick c \<and>
     0 < c_max_inflight_msgs c \<and> (c_read_only_option c = ReadOnlyLeaseBased \<longrightarrow> c_check_quorum c)"

lemma config_validate_ok_iff: "fst (config_validate c) = StatusOK \<longleftrightarrow> config_valid c"
  by (simp add: config_validate_def config_valid_def Let_def)

lemma config_validate_result:
  assumes "config_validate c = (StatusOK, c')"
  shows "config_valid c'" and "0 < c_max_uncommitted_entries_size c'"
    and "c_storage c' = c_storage c"
    and "c_max_committed_size_per_ready c = 0 \<Longrightarrow>
      c_max_committed_size_per_ready c' = c_max_size_per_msg c"
  using assms
  by (auto simp: config_validate_def config_valid_def Let_def u64_max_def split: if_splits)

end
