(* ===== verification/ReadOnly.thy ===== *)
theory ReadOnly
  imports Config
begin

text \<open>
  Pending linearizable reads: \<open>src/raft-kv/raft/readonly.h\<close> and \<open>readonly.cpp\<close>. A request
  is identified by the bytes of its first entry; \<open>read_index_queue\<close> keeps the order of
  arrival. The set of acknowledging nodes is a list without repetitions.
\<close>

record read_state =
  rs_index :: u64
  rs_request_ctx :: "byte list"

definition read_state_equal :: "read_state \<Rightarrow> read_state \<Rightarrow> bool" where
  "read_state_equal a b = (if rs_index a \<noteq> rs_index b then False else rs_request_ctx a = rs_request_ctx b)"

record read_index_status =
  ris_req :: message
  ris_index :: u64
  ris_acks :: "u64 list"

record read_only =
  ro_option :: read_only_option
  ro_pending :: "(byte list \<times> read_index_status) list"
  ro_queue :: "byte list list"

definition new_read_only :: "read_only_option \<Rightarrow> read_only" where
  "new_read_only opt = \<lparr>ro_option = opt, ro_pending = [], ro_queue = []\<rparr>"

definition read_only_last_pending_request_ctx :: "byte list \<Rightarrow> read_only \<Rightarrow> byte list" where
  "read_only_last_pending_request_ctx ctx r =
     (if ro_queue r = [] then ctx else ctx @ last (ro_queue r))"

definition read_only_recv_ack :: "message \<Rightarrow> read_only \<Rightarrow> u32 \<times> read_only" where
  "read_only_recv_ack msg r =
     (case map_of (ro_pending r) (m_context msg) of
        None \<Rightarrow> (0, r)
      | Some rs \<Rightarrow>
          let rs = rs\<lparr>ris_acks := List.insert (m_from msg) (ris_acks rs)\<rparr> in
          (cast32 (length (ris_acks rs) + 1),
           r\<lparr>ro_pending := AList.update (m_context msg) rs (ro_pending r)\<rparr>))"

text \<open>
  The search loop of \<open>advance\<close>: the statuses passed and, when the context is found, how
  many queue positions they take.
\<close>

fun read_only_collect ::
  "byte list \<Rightarrow> (byte list \<times> read_index_status) list \<Rightarrow> byte list list \<Rightarrow>
   (read_index_status list \<times> bool) res" where
  "read_only_collect ctx pend [] = Inr ([], False)"
| "read_only_collect ctx pend (okctx # q) =
     (case map_of pend okctx of
        None \<Rightarrow> Inl (Fatal ''cannot find corresponding read state from pending map'')
      | Some rs \<Rightarrow>
          if okctx = ctx then Inr ([rs], True)
          else bindr (read_only_collect ctx pend q) (\<lambda>(rss, found). Inr (rs # rss, found)))"

definition read_only_forget ::
  "read_index_status \<Rightarrow> (byte list \<times> read_index_status) list \<Rightarrow>
   (byte list \<times> read_index_status) list res" where
  "read_only_forget rs pend =
     bindr (vec_at (m_entries (ris_req rs)) 0) (\<lambda>e. Inr (AList.delete (e_data e) pend))"

definition read_only_advance :: "message \<Rightarrow> read_only \<Rightarrow> (read_index_status list \<times> read_only) res" where
  "read_only_advance msg r =
     bindr (read_only_collect (m_context msg) (ro_pending r) (ro_queue r)) (\<lambda>(rss, found).
     if found then
       bindr (for_each read_only_forget rss (ro_pending r)) (\<lambda>pend.
       Inr (rss, r\<lparr>ro_queue := drop (length rss) (ro_queue r), ro_pending := pend\<rparr>))
     else Inr (rss, r))"

definition read_only_add_request :: "u64 \<Rightarrow> message \<Rightarrow> read_only \<Rightarrow> read_only res" where
  "read_only_add_request i msg r =
     bindr (vec_at (m_entries msg) 0) (\<lambda>e.
     let ctx = e_data e in
     if map_of (ro_pending r) ctx \<noteq> None then Inr r
     else
       let status = \<lparr>ris_req = msg, ris_index = i, ris_acks = []\<rparr> in
       Inr (r\<lparr>ro_pending := AList.update ctx status (ro_pending r), ro_queue := ro_queue r @ [ctx]\<rparr>))"

section \<open>The queue and the map agree\<close>

definition read_only_wf :: "read_only \<Rightarrow> bool" where
  "read_only_wf r \<longleftrightarrow>
     distinct (ro_queue r) \<and> fst ` set (ro_pending r) = set (ro_queue r) \<and>
     distinct (map fst (ro_pending r)) \<and>
     (\<forall>(k, rs) \<in> set (ro_pending r).
        distinct (ris_acks rs) \<and> m_entries (ris_req rs) \<noteq> [] \<and> e_data (hd (m_entries (ris_req rs))) = k)"

lemma new_read_only_wf [wf_intros]: "read_only_wf (new_read_only opt)"
  by (simp add: read_only_wf_def new_read_only_def)

lemma read_only_wfD:
  assumes "read_only_wf r" "map_of (ro_pending r) k = Some rs"
  shows "distinct (ris_acks rs)" "m_entries (ris_req rs) \<noteq> []" "e_data (hd (m_entries (ris_req rs))) = k"
  using assms map_of_SomeD [OF assms(2)] by (auto simp: read_only_wf_def)

lemma read_only_pending_iff:
  "read_only_wf r \<Longrightarrow> (map_of (ro_pending r) k \<noteq> None) = (k \<in> set (ro_queue r))"
  by (auto simp: read_only_wf_def map_of_eq_None_keys)

lemma set_update_subset: "set (AList.update k v m) \<subseteq> insert (k, v) (set m)"
  by (induction m) auto

lemma read_only_add_request_wf:
  assumes "read_only_wf r" "m_entries msg = e # es"
  shows "\<exists>r'. read_only_add_request i msg r = Inr r' \<and> read_only_wf r' \<and>
    ro_queue r' = (if e_data e \<in> set (ro_queue r) then ro_queue r else ro_queue r @ [e_data e])"
proof (cases "e_data e \<in> set (ro_queue r)")
  case True
  with assms read_only_pending_iff [OF assms(1), of "e_data e"] show ?thesis
    by (auto simp: read_only_add_request_def Let_def)
next
  case False
  then have n: "map_of (ro_pending r) (e_data e) = None"
    using read_only_pending_iff [OF assms(1), of "e_data e"] by auto
  let ?rs = "\<lparr>ris_req = msg, ris_index = i, ris_acks = []\<rparr>"
  have "read_only_wf (r\<lparr>ro_pending := AList.update (e_data e) ?rs (ro_pending r),
      ro_queue := ro_queue r @ [e_data e]\<rparr>)"
    using assms False n set_update_subset [of "e_data e" ?rs "ro_pending r"]
    by (auto simp: read_only_wf_def distinct_update update_new_append map_of_eq_None_keys)
  with assms False n show ?thesis
    by (auto simp: read_only_add_request_def Let_def)
qed

lemma read_only_recv_ack_wf:
  assumes wf: "read_only_wf r" and ack: "read_only_recv_ack msg r = (n, r')"
  shows "read_only_wf r'" "ro_queue r' = ro_queue r"
    "m_context msg \<notin> set (ro_queue r) \<Longrightarrow> n = 0"
proof -
  show "m_context msg \<notin> set (ro_queue r) \<Longrightarrow> n = 0"
    using ack read_only_pending_iff [OF wf, of "m_context msg"] by (auto simp: read_only_recv_ack_def)
  show "ro_queue r' = ro_queue r"
    using ack by (auto simp: read_only_recv_ack_def Let_def split: option.splits)
  show "read_only_wf r'"
  proof (cases "map_of (ro_pending r) (m_context msg)")
    case None
    with wf ack show ?thesis by (simp add: read_only_recv_ack_def)
  next
    case (Some rs)
    let ?rs = "rs\<lparr>ris_acks := List.insert (m_from msg) (ris_acks rs)\<rparr>"
    have k: "m_context msg \<in> fst ` set (ro_pending r)" using map_of_SomeD [OF Some] by force
    have r': "r' = r\<lparr>ro_pending := AList.update (m_context msg) ?rs (ro_pending r)\<rparr>"
      using Some ack by (simp add: read_only_recv_ack_def Let_def)
    have "map fst (AList.update (m_context msg) ?rs (ro_pending r)) = map fst (ro_pending r)"
      using k by (rule keys_update_old)
    then have "fst ` set (AList.update (m_context msg) ?rs (ro_pending r)) = set (ro_queue r)"
      using wf unfolding read_only_wf_def by (metis list.set_map)
    moreover have "distinct (map fst (AList.update (m_context msg) ?rs (ro_pending r)))"
      using wf by (intro distinct_update) (simp add: read_only_wf_def)
    moreover have "distinct (ro_queue r)" using wf by (simp add: read_only_wf_def)
    moreover have "distinct (ris_acks v) \<and> m_entries (ris_req v) \<noteq> [] \<and> e_data (hd (m_entries (ris_req v))) = k"
      if "(k, v) \<in> set (AList.update (m_context msg) ?rs (ro_pending r))" for k v
    proof (cases "(k, v) = (m_context msg, ?rs)")
      case True
      with read_only_wfD [OF wf Some] show ?thesis by simp
    next
      case False
      with subsetD [OF set_update_subset that] have "(k, v) \<in> set (ro_pending r)"
        by (simp only: insert_iff simp_thms)
      with wf show ?thesis by (auto simp: read_only_wf_def)
    qed
    ultimately show ?thesis unfolding r' read_only_wf_def by auto
  qed
qed

text \<open>
  \<open>advance\<close> on a pending context releases, in order of arrival, that request and all
  that came before it.
\<close>

definition upto_ctx :: "byte list \<Rightarrow> byte list list \<Rightarrow> byte list list" where
  "upto_ctx ctx q = takeWhile (\<lambda>k. k \<noteq> ctx) q @ (if ctx \<in> set q then [ctx] else [])"

lemma read_only_collect_wf:
  assumes "set q \<subseteq> fst ` set pend"
  shows "read_only_collect ctx pend q =
    Inr (map (\<lambda>k. the (map_of pend k)) (upto_ctx ctx q), ctx \<in> set q)"
  using assms
proof (induction q)
  case (Cons k q)
  then obtain rs where "map_of pend k = Some rs"
    by (metis list.set_intros(1) map_of_eq_None_keys not_None_eq subsetD)
  with Cons show ?case by (auto simp: upto_ctx_def)
qed (simp add: upto_ctx_def)

lemma for_each_forget:
  assumes "\<And>k. k \<in> set ks \<Longrightarrow> m_entries (ris_req (st k)) \<noteq> [] \<and> e_data (hd (m_entries (ris_req (st k)))) = k"
  shows "for_each read_only_forget (map st ks) pend = Inr (fold AList.delete ks pend)"
  using assms
proof (induction ks arbitrary: pend)
  case (Cons k ks)
  then have "vec_at (m_entries (ris_req (st k))) 0 = Inr (hd (m_entries (ris_req (st k))))"
    by (simp add: hd_conv_nth)
  with Cons show ?case by (simp add: read_only_forget_def)
qed simp

lemma set_fold_delete: "set (fold AList.delete ks m) = {x \<in> set m. fst x \<notin> set ks}"
  by (induction ks arbitrary: m) (auto simp: AList.delete_eq)

lemma distinct_fold_delete: "distinct (map fst m) \<Longrightarrow> distinct (map fst (fold AList.delete ks m))"
  by (induction ks arbitrary: m) (auto simp: distinct_delete)

lemma upto_ctx_drop:
  assumes "ctx \<in> set q"
  shows "q = upto_ctx ctx q @ drop (length (upto_ctx ctx q)) q"
proof -
  obtain ys zs where q: "q = ys @ ctx # zs" "ctx \<notin> set ys" using assms by (meson split_list_first)
  then have "takeWhile (\<lambda>k. k \<noteq> ctx) q = ys" by (auto simp: takeWhile_append)
  with q show ?thesis by (simp add: upto_ctx_def)
qed

lemma read_only_advance_wf:
  assumes wf: "read_only_wf r" and p: "m_context msg \<in> set (ro_queue r)"
  shows "\<exists>r'. read_only_advance msg r =
      Inr (map (\<lambda>k. the (map_of (ro_pending r) k)) (upto_ctx (m_context msg) (ro_queue r)), r') \<and>
    read_only_wf r' \<and> ro_queue r = upto_ctx (m_context msg) (ro_queue r) @ ro_queue r'"
proof -
  let ?ks = "upto_ctx (m_context msg) (ro_queue r)" and ?st = "\<lambda>k. the (map_of (ro_pending r) k)"
  have q: "ro_queue r = ?ks @ drop (length ?ks) (ro_queue r)" by (rule upto_ctx_drop [OF p])
  then have sub: "set ?ks \<subseteq> set (ro_queue r)" by (metis set_append Un_upper1)
  have st: "m_entries (ris_req (?st k)) \<noteq> [] \<and> e_data (hd (m_entries (ris_req (?st k)))) = k"
    if "k \<in> set ?ks" for k
    using that sub read_only_pending_iff [OF wf, of k] read_only_wfD [OF wf] by fastforce
  let ?r' = "r\<lparr>ro_queue := drop (length ?ks) (ro_queue r), ro_pending := fold AList.delete ?ks (ro_pending r)\<rparr>"
  have "read_only_advance msg r = Inr (map ?st ?ks, ?r')"
    using wf p by (simp add: read_only_advance_def read_only_collect_wf read_only_wf_def
        for_each_forget [where st = ?st, OF st] length_map)
  moreover have "read_only_wf ?r'"
  proof -
    have d: "distinct (?ks @ drop (length ?ks) (ro_queue r))" using wf q by (simp add: read_only_wf_def)
    have "fst ` {x \<in> set (ro_pending r). fst x \<notin> set ?ks} = set (drop (length ?ks) (ro_queue r))"
    proof -
      have "fst ` {x \<in> set (ro_pending r). fst x \<notin> set ?ks} = fst ` set (ro_pending r) - set ?ks" by auto
      also have "\<dots> = set (?ks @ drop (length ?ks) (ro_queue r)) - set ?ks"
        using wf q by (simp add: read_only_wf_def)
      also have "\<dots> = set (drop (length ?ks) (ro_queue r))" using d by auto
      finally show ?thesis .
    qed
    with wf d show ?thesis by (auto simp: read_only_wf_def set_fold_delete distinct_fold_delete)
  qed
  ultimately show ?thesis using q by (intro exI [of _ ?r']) simp
qed

end
