(* ===== verification/Raft_State.thy ===== *)
theory Raft_State
  imports RaftLog_Update Progress ReadOnly
begin

text \<open>
  The state of a raft node and the operations below the message handlers:
  \<open>src/raft-kv/raft/raft.h\<close>, \<open>raft.cpp\<close>, \<open>src/raft-kv/common/random_device.h\<close> and the
  enumerations of \<open>ready.h\<close>.

  \<^item> \<open>prs_\<close> and \<open>learner_prs_\<close> are association lists; their order stands for the
    unspecified iteration order of \<open>std::unordered_map\<close>. Each \<open>ProgressPtr\<close> is reachable
    from one map only, so the progress is stored in the map itself.
  \<^item> \<open>step_\<close> and \<open>tick_\<close> are \<open>std::function\<close>s that are only ever bound to the member
    functions named by \<open>step_fn\<close> and \<open>tick_fn\<close>; calling an empty one throws.
  \<^item> The numbers drawn from \<open>std::mt19937\<close> are a list of arbitrary naturals in the state,
    brought into the range of the distribution when drawn.
  \<^item> The arguments of log lines are part of the model where evaluating them can fail.
\<close>

section \<open>State\<close>

datatype raft_state = Follower | Candidate | Leader | PreCandidate

record soft_state =
  ss_lead :: u64
  ss_state :: raft_state

definition soft_state_equal :: "soft_state \<Rightarrow> soft_state \<Rightarrow> bool" where
  "soft_state_equal a b \<longleftrightarrow> ss_lead a = ss_lead b \<and> ss_state a = ss_state b"

datatype step_fn = StepLeader | StepCandidate | StepFollower

datatype tick_fn = TickElection | TickHeartbeat

record random_device =
  rd_min :: u32
  rd_max :: u32
  rd_draws :: "nat list"

definition random_device_gen :: "random_device \<Rightarrow> u32 \<times> random_device" where
  "random_device_gen d =
     (case rd_draws d of
        [] \<Rightarrow> (rd_min d, d)
      | x # xs \<Rightarrow> (rd_min d + x mod (rd_max d - rd_min d + 1), d\<lparr>rd_draws := xs\<rparr>))"

record raft =
  r_id :: u64
  r_term :: u64
  r_vote :: u64
  r_read_states :: "read_state list"
  r_log :: raft_log
  r_max_msg_size :: u64
  r_max_uncommitted_size :: u64
  r_max_inflight :: u64
  r_prs :: "(u64 \<times> progress) list"
  r_learner_prs :: "(u64 \<times> progress) list"
  r_match_buf :: "u64 list"
  r_state :: raft_state
  r_is_learner :: bool
  r_votes :: "(u64 \<times> bool) list"
  r_msgs :: "message list"
  r_lead :: u64
  r_lead_transferee :: u64
  r_pending_conf_index :: u64
  r_uncommitted_size :: u64
  r_read_only :: read_only
  r_election_elapsed :: u32
  r_heartbeat_elapsed :: u32
  r_check_quorum :: bool
  r_pre_vote :: bool
  r_heartbeat_timeout :: u32
  r_election_timeout :: u32
  r_randomized_election_timeout :: u32
  r_disable_proposal_forwarding :: bool
  r_tick :: "tick_fn option"
  r_step :: "step_fn option"
  r_random_device :: random_device

section \<open>Progress of the peers\<close>

definition raft_quorum :: "raft \<Rightarrow> u32" where
  "raft_quorum r = cast32 (length (r_prs r) div 2 + 1)"

definition raft_get_progress :: "u64 \<Rightarrow> raft \<Rightarrow> progress option" where
  "raft_get_progress i r =
     (case map_of (r_prs r) i of
        Some p \<Rightarrow> Some p
      | None \<Rightarrow> map_of (r_learner_prs r) i)"

text \<open>Dereferencing the pointer \<open>get_progress\<close> returns, and writing through it.\<close>

definition raft_deref_progress :: "u64 \<Rightarrow> raft \<Rightarrow> progress res" where
  "raft_deref_progress i r =
     (case raft_get_progress i r of
        Some p \<Rightarrow> Inr p
      | None \<Rightarrow> Inl (Undefined ''null ProgressPtr''))"

definition raft_put_progress :: "u64 \<Rightarrow> progress \<Rightarrow> raft \<Rightarrow> raft" where
  "raft_put_progress i p r =
     (if map_of (r_prs r) i \<noteq> None then r\<lparr>r_prs := AList.update i p (r_prs r)\<rparr>
      else r\<lparr>r_learner_prs := AList.update i p (r_learner_prs r)\<rparr>)"

definition raft_set_progress :: "u64 \<Rightarrow> u64 \<Rightarrow> u64 \<Rightarrow> bool \<Rightarrow> raft \<Rightarrow> raft res" where
  "raft_set_progress i mt nx is_learner r =
     (let p = (new_progress (r_max_inflight r))\<lparr>pr_next := nx, pr_match := mt\<rparr> in
      if \<not> is_learner then
        Inr (r\<lparr>r_learner_prs := AList.delete i (r_learner_prs r),
               r_prs := AList.update i p (r_prs r)\<rparr>)
      else if map_of (r_prs r) i \<noteq> None then
        Inl (Fatal ''unexpected changing from voter to learner'')
      else Inr (r\<lparr>r_learner_prs := AList.update i (p\<lparr>pr_is_learner := True\<rparr>) (r_learner_prs r)\<rparr>))"

definition raft_del_progress :: "u64 \<Rightarrow> raft \<Rightarrow> raft" where
  "raft_del_progress i r =
     r\<lparr>r_prs := AList.delete i (r_prs r), r_learner_prs := AList.delete i (r_learner_prs r)\<rparr>"

text \<open>The identifiers in the order in which \<open>for_each_progress\<close> visits them.\<close>

definition raft_progress_ids :: "raft \<Rightarrow> u64 list" where
  "raft_progress_ids r = map fst (r_prs r) @ map fst (r_learner_prs r)"

definition raft_nodes :: "raft \<Rightarrow> u64 list" where
  "raft_nodes r = sort (map fst (r_prs r))"

definition raft_learner_nodes :: "raft \<Rightarrow> u64 list" where
  "raft_learner_nodes r = sort (map fst (r_learner_prs r))"

definition raft_promotable :: "raft \<Rightarrow> bool" where
  "raft_promotable r \<longleftrightarrow> map_of (r_prs r) (r_id r) \<noteq> None"

definition raft_soft_state :: "raft \<Rightarrow> soft_state" where
  "raft_soft_state r = \<lparr>ss_lead = r_lead r, ss_state = r_state r\<rparr>"

definition raft_hard_state :: "raft \<Rightarrow> hard_state" where
  "raft_hard_state r = \<lparr>hs_term = r_term r, hs_vote = r_vote r, hs_commit = rl_committed (r_log r)\<rparr>"

definition raft_past_election_timeout :: "raft \<Rightarrow> bool" where
  "raft_past_election_timeout r \<longleftrightarrow> r_election_elapsed r \<ge> r_randomized_election_timeout r"

definition raft_abort_leader_transfer :: "raft \<Rightarrow> raft" where
  "raft_abort_leader_transfer r = r\<lparr>r_lead_transferee := 0\<rparr>"

definition raft_check_quorum_active :: "raft \<Rightarrow> bool" where
  "raft_check_quorum_active r \<longleftrightarrow>
     length (filter (\<lambda>(i, p). i = r_id r \<or> pr_recent_active p \<and> \<not> pr_is_learner p)
       (r_prs r @ r_learner_prs r)) \<ge> raft_quorum r"

text \<open>Log lines that print the position of the log.\<close>

definition raft_log_line :: "raft \<Rightarrow> unit res" where
  "raft_log_line r =
     bindr (raft_log_last_term (r_log r)) (\<lambda>_. bindr (raft_log_last_index (r_log r)) (\<lambda>_. Inr ()))"

section \<open>Timers and term changes\<close>

definition raft_reset_randomized_election_timeout :: "raft \<Rightarrow> raft res" where
  "raft_reset_randomized_election_timeout r =
     (let (x, d) = random_device_gen (r_random_device r);
          t = add32 (r_election_timeout r) x
      in bindr (assertr ''randomized_election_timeout_ <= 2 * election_timeout_''
                  (t \<le> cast32 (2 * r_election_timeout r))) (\<lambda>_.
         Inr (r\<lparr>r_random_device := d, r_randomized_election_timeout := t\<rparr>)))"

definition raft_reset_progress :: "raft \<Rightarrow> u64 \<times> progress \<Rightarrow> (u64 \<times> progress) res" where
  "raft_reset_progress r = (\<lambda>(i, p).
     bindr (raft_log_last_index (r_log r)) (\<lambda>li.
     let q = (new_progress (r_max_inflight r))\<lparr>pr_next := add64 li 1, pr_is_learner := pr_is_learner p\<rparr> in
     Inr (i, if i = r_id r then q\<lparr>pr_match := li\<rparr> else q)))"

definition raft_reset :: "u64 \<Rightarrow> raft \<Rightarrow> raft res" where
  "raft_reset t r =
     (let r = (if r_term r \<noteq> t then r\<lparr>r_term := t, r_vote := 0\<rparr> else r);
          r = r\<lparr>r_lead := 0, r_election_elapsed := 0, r_heartbeat_elapsed := 0\<rparr>
      in
      bindr (raft_reset_randomized_election_timeout r) (\<lambda>r.
      let r = (raft_abort_leader_transfer r)\<lparr>r_votes := []\<rparr> in
      bindr (mapr (raft_reset_progress r) (r_prs r)) (\<lambda>prs.
      bindr (mapr (raft_reset_progress r) (r_learner_prs r)) (\<lambda>lprs.
      Inr (r\<lparr>r_prs := prs, r_learner_prs := lprs, r_pending_conf_index := 0, r_uncommitted_size := 0,
             r_read_only := (r_read_only r)\<lparr>ro_pending := [], ro_queue := []\<rparr>\<rparr>)))))"

definition raft_become_follower :: "u64 \<Rightarrow> u64 \<Rightarrow> raft \<Rightarrow> raft res" where
  "raft_become_follower t lead r =
     bindr (raft_reset t (r\<lparr>r_step := Some StepFollower\<rparr>)) (\<lambda>r.
     Inr (r\<lparr>r_tick := Some TickElection, r_lead := lead, r_state := Follower\<rparr>))"

definition raft_become_candidate :: "raft \<Rightarrow> raft res" where
  "raft_become_candidate r =
     (if r_state r = Leader then Inl (Fatal ''invalid transition [leader->candidate]'')
      else
        bindr (raft_reset (add64 (r_term r) 1) (r\<lparr>r_step := Some StepCandidate\<rparr>)) (\<lambda>r.
        Inr (r\<lparr>r_tick := Some TickElection, r_vote := r_id r, r_state := Candidate\<rparr>)))"

definition raft_become_pre_candidate :: "raft \<Rightarrow> raft res" where
  "raft_become_pre_candidate r =
     (if r_state r = Leader then Inl (Fatal ''invalid transition [leader->pre_candidate]'')
      else
        Inr (r\<lparr>r_step := Some StepCandidate, r_votes := [], r_tick := Some TickElection,
               r_lead := 0, r_state := PreCandidate\<rparr>))"

definition raft_load_state :: "hard_state \<Rightarrow> raft \<Rightarrow> raft res" where
  "raft_load_state st r =
     bindr (if hs_commit st < rl_committed (r_log r) then Inr True
            else bindr (raft_log_last_index (r_log r)) (\<lambda>li. Inr (hs_commit st > li))) (\<lambda>bad.
     if bad then Inl (Fatal ''state.commit is out of range'')
     else Inr (r\<lparr>r_log := (r_log r)\<lparr>rl_committed := hs_commit st\<rparr>,
                 r_term := hs_term st, r_vote := hs_vote st\<rparr>))"

section \<open>Sending\<close>

text \<open>
  The last guard compares the message's term, not its type, with \<open>MsgProp\<close>; the term is 0
  there, so it is always true.
\<close>

definition raft_send :: "message \<Rightarrow> raft \<Rightarrow> raft res" where
  "raft_send msg r =
     (let msg = msg\<lparr>m_from := r_id r\<rparr> in
      bindr
        (if m_type msg \<in> {MsgVote, MsgVoteResp, MsgPreVote, MsgPreVoteResp} then
           (if m_term msg = 0 then Inl (Fatal ''term should be set when sending'') else Inr msg)
         else if m_term msg \<noteq> 0 then Inl (Fatal ''term should not be set when sending'')
         else if m_term msg \<noteq> msg_type_code MsgProp \<and> m_type msg \<noteq> MsgReadIndex
         then Inr (msg\<lparr>m_term := r_term r\<rparr>) else Inr msg)
      (\<lambda>msg. Inr (r\<lparr>r_msgs := r_msgs r @ [msg]\<rparr>)))"

definition raft_read_messages :: "raft \<Rightarrow> message list \<times> raft" where
  "raft_read_messages r = (r_msgs r, r\<lparr>r_msgs := []\<rparr>)"

definition raft_send_heartbeat :: "u64 \<Rightarrow> byte list \<Rightarrow> raft \<Rightarrow> raft res" where
  "raft_send_heartbeat to ctx r =
     bindr (raft_deref_progress to r) (\<lambda>p.
     raft_send (new_message\<lparr>m_to := to, m_type := MsgHeartbeat,
       m_commit := min (pr_match p) (rl_committed (r_log r)), m_context := ctx\<rparr>) r)"

definition raft_send_timeout_now :: "u64 \<Rightarrow> raft \<Rightarrow> raft res" where
  "raft_send_timeout_now to r = raft_send (new_message\<lparr>m_to := to, m_type := MsgTimeoutNow\<rparr>) r"

definition raft_bcast_heartbeat_with_ctx :: "byte list \<Rightarrow> raft \<Rightarrow> raft res" where
  "raft_bcast_heartbeat_with_ctx ctx r =
     for_each (\<lambda>i r. if i = r_id r then Inr r else raft_send_heartbeat i ctx r) (raft_progress_ids r) r"

definition raft_bcast_heartbeat :: "raft \<Rightarrow> raft res" where
  "raft_bcast_heartbeat r =
     raft_bcast_heartbeat_with_ctx (read_only_last_pending_request_ctx [] (r_read_only r)) r"

text \<open>
  \<open>maybe_send_append\<close>, its two ways to fill the message (a snapshot or entries) as
  separate definitions.
\<close>

definition raft_fill_snapshot ::
  "u64 \<Rightarrow> progress \<Rightarrow> message \<Rightarrow> raft \<Rightarrow> (bool \<times> raft) res" where
  "raft_fill_snapshot to p msg r =
     (if \<not> pr_recent_active p then Inr (False, r)
      else
        let (s, snap) = raft_log_snapshot (r_log r) in
        if \<not> is_ok s then Inl (Fatal ''snapshot error'')
        else if snapshot_is_empty snap then Inl (Fatal ''need non-empty snapshot'')
        else
          bindr (raft_log_first_index (r_log r)) (\<lambda>_.
          let p = progress_become_snapshot (snap_index snap) p in
          bindr (raft_send (msg\<lparr>m_type := MsgSnap, m_snapshot := snap\<rparr>) (raft_put_progress to p r)) (\<lambda>r.
          Inr (True, r))))"

definition raft_track_entries :: "entry list \<Rightarrow> progress \<Rightarrow> progress res" where
  "raft_track_entries es p =
     (if es = [] then Inr p
      else
        case pr_state p of
          ProgressStateReplicate \<Rightarrow>
            let li = e_index (last es);
                p = progress_optimistic_update li p
            in bindr (inflights_add li (pr_inflights p)) (\<lambda>f. Inr (p\<lparr>pr_inflights := f\<rparr>))
        | ProgressStateProbe \<Rightarrow> Inr (progress_set_pause p)
        | ProgressStateSnapshot \<Rightarrow> Inl (Fatal ''is sending append in unhandled state''))"

definition raft_maybe_send_append :: "u64 \<Rightarrow> bool \<Rightarrow> raft \<Rightarrow> (bool \<times> raft) res" where
  "raft_maybe_send_append to send_if_empty r =
     bindr (raft_deref_progress to r) (\<lambda>p.
     if progress_is_paused p then Inr (False, r)
     else
       let msg = new_message\<lparr>m_to := to\<rparr> in
       bindr (raft_log_term (sub64 (pr_next p) 1) (r_log r)) (\<lambda>(status_term, t).
       let t = (case t of None \<Rightarrow> 0 | Some t \<Rightarrow> t) in
       bindr (raft_log_entries (pr_next p) (r_max_msg_size r) [] (r_log r)) (\<lambda>(status_entries, es).
       if es = [] \<and> \<not> send_if_empty then Inr (False, r)
       else if \<not> is_ok status_term \<or> \<not> is_ok status_entries then raft_fill_snapshot to p msg r
       else
         let msg = msg\<lparr>m_type := MsgApp, m_index := sub64 (pr_next p) 1, m_log_term := t,
                       m_entries := es, m_commit := rl_committed (r_log r)\<rparr> in
         bindr (raft_track_entries es p) (\<lambda>p.
         bindr (raft_send msg (raft_put_progress to p r)) (\<lambda>r. Inr (True, r))))))"

definition raft_send_append :: "u64 \<Rightarrow> raft \<Rightarrow> raft res" where
  "raft_send_append to r = bindr (raft_maybe_send_append to True r) (\<lambda>(_, r). Inr r)"

definition raft_bcast_append :: "raft \<Rightarrow> raft res" where
  "raft_bcast_append r =
     for_each (\<lambda>i r. if i = r_id r then Inr r else raft_send_append i r) (raft_progress_ids r) r"

text \<open>The loop \<open>while (maybe_send_append(to, false)) {}\<close>.\<close>

fun raft_send_all :: "nat \<Rightarrow> u64 \<Rightarrow> raft \<Rightarrow> raft res" where
  "raft_send_all 0 to r = Inl Diverges"
| "raft_send_all (Suc fuel) to r =
     bindr (raft_maybe_send_append to False r) (\<lambda>(sent, r).
     if sent then raft_send_all fuel to r else Inr r)"

definition raft_send_fuel :: "u64 \<Rightarrow> raft \<Rightarrow> nat" where
  "raft_send_fuel to r =
     (case raft_get_progress to r of
        None \<Rightarrow> 1
      | Some p \<Rightarrow> if_size (pr_inflights p) + 2)"

section \<open>Committing and appending\<close>

definition raft_maybe_commit :: "raft \<Rightarrow> (bool \<times> raft) res" where
  "raft_maybe_commit r =
     (let buf = sort (map (pr_match \<circ> snd) (r_prs r));
          r = r\<lparr>r_match_buf := buf\<rparr>
      in
      bindr (vec_at buf (sub64 (length buf) (raft_quorum r))) (\<lambda>mci.
      bindr (raft_log_maybe_commit mci (r_term r) (r_log r)) (\<lambda>(b, l).
      Inr (b, r\<lparr>r_log := l\<rparr>))))"

definition raft_payload :: "entry list \<Rightarrow> u32" where
  "raft_payload es = foldl (\<lambda>s e. add32 s (payload_size e)) 0 es"

definition raft_increase_uncommitted_size :: "entry list \<Rightarrow> raft \<Rightarrow> bool \<times> raft" where
  "raft_increase_uncommitted_size es r =
     (let s = raft_payload es in
      if r_uncommitted_size r > 0 \<and> add64 (r_uncommitted_size r) s > r_max_uncommitted_size r
      then (False, r)
      else (True, r\<lparr>r_uncommitted_size := add64 (r_uncommitted_size r) s\<rparr>))"

definition raft_reduce_uncommitted_size :: "entry list \<Rightarrow> raft \<Rightarrow> raft" where
  "raft_reduce_uncommitted_size es r =
     (if r_uncommitted_size r = 0 then r
      else
        let s = raft_payload es in
        if s > r_uncommitted_size r then r\<lparr>r_uncommitted_size := 0\<rparr>
        else r\<lparr>r_uncommitted_size := r_uncommitted_size r - s\<rparr>)"

text \<open>The entries as the leader stamps them.\<close>

fun raft_stamp :: "u64 \<Rightarrow> u64 \<Rightarrow> nat \<Rightarrow> entry list \<Rightarrow> entry list" where
  "raft_stamp t li i [] = []"
| "raft_stamp t li i (e # es) =
     \<lparr>e_type = e_type e, e_term = t, e_index = add64 (add64 li i) 1, e_data = e_data e\<rparr>
     # raft_stamp t li (Suc i) es"

definition raft_append_entry :: "entry list \<Rightarrow> raft \<Rightarrow> (bool \<times> raft) res" where
  "raft_append_entry entries r =
     bindr (raft_log_last_index (r_log r)) (\<lambda>li.
     let ents = raft_stamp (r_term r) li 0 entries;
         (ok, r) = raft_increase_uncommitted_size ents r
     in
     if \<not> ok then Inr (False, r)
     else
       bindr (raft_log_append ents (r_log r)) (\<lambda>(li, l).
       let r = r\<lparr>r_log := l\<rparr> in
       bindr (raft_deref_progress (r_id r) r) (\<lambda>p.
       let r = raft_put_progress (r_id r) (snd (progress_maybe_update li p)) r in
       bindr (raft_maybe_commit r) (\<lambda>(_, r). Inr (True, r)))))"

definition raft_become_leader :: "raft \<Rightarrow> raft res" where
  "raft_become_leader r =
     (if r_state r = Follower then Inl (Fatal ''invalid transition [follower -> leader]'')
      else
        bindr (raft_reset (r_term r) (r\<lparr>r_step := Some StepLeader\<rparr>)) (\<lambda>r.
        let r = r\<lparr>r_tick := Some TickHeartbeat, r_lead := r_id r, r_state := Leader\<rparr> in
        bindr (case map_of (r_prs r) (r_id r) of
                 None \<Rightarrow> Inl (AssertFailed ''it != prs_.end()'')
               | Some p \<Rightarrow> Inr (raft_put_progress (r_id r) (progress_become_replicate p) r)) (\<lambda>r.
        bindr (raft_log_last_index (r_log r)) (\<lambda>li.
        let r = r\<lparr>r_pending_conf_index := li\<rparr> in
        bindr (raft_append_entry [new_entry] r) (\<lambda>(ok, r).
        if \<not> ok then Inl (Fatal ''empty entry was dropped'')
        else Inr (raft_reduce_uncommitted_size [new_entry] r))))))"

end
