(* ===== verification/Raft.thy ===== *)
theory Raft
  imports Raft_State
begin

text \<open>
  The message handlers of a raft node (\<open>src/raft-kv/raft/raft.cpp\<close>): elections, the three
  step functions, \<open>step\<close>, the tick functions, configuration changes and the constructor.
\<close>

section \<open>Elections\<close>

datatype campaign_type = kCampaignPreElection | kCampaignElection | kCampaignTransfer

definition kCampaignTransfer_bytes :: "byte list" where
  "kCampaignTransfer_bytes = map of_char ''kCampaignTransfer''"

definition num_of_pending_conf :: "entry list \<Rightarrow> u32" where
  "num_of_pending_conf es = cast32 (length (filter (\<lambda>e. e_type e = EntryConfChange) es))"

definition raft_poll :: "u64 \<Rightarrow> message_type \<Rightarrow> bool \<Rightarrow> raft \<Rightarrow> (u32 \<times> raft) res" where
  "raft_poll i t v r =
     bindr (msg_type_to_string t) (\<lambda>_.
     let r = (if map_of (r_votes r) i = None
              then r\<lparr>r_votes := AList.update i v (r_votes r)\<rparr> else r)
     in Inr (cast32 (length (filter snd (r_votes r))), r))"

text \<open>The vote requests; the context of a transfer is computed but not put into the message.\<close>

definition raft_request_vote :: "message_type \<Rightarrow> u64 \<Rightarrow> u64 \<Rightarrow> raft \<Rightarrow> raft res" where
  "raft_request_vote vote_msg t i r =
     (if i = r_id r then Inr r
      else
        bindr (raft_log_line r) (\<lambda>_.
        bindr (msg_type_to_string vote_msg) (\<lambda>_.
        bindr (raft_log_last_index (r_log r)) (\<lambda>li.
        bindr (raft_log_last_term (r_log r)) (\<lambda>lt.
        raft_send (new_message\<lparr>m_term := t, m_to := i, m_type := vote_msg,
          m_index := li, m_log_term := lt\<rparr>) r)))))"

definition raft_campaign_election :: "raft \<Rightarrow> raft res" where
  "raft_campaign_election r =
     bindr (raft_become_candidate r) (\<lambda>r.
     bindr (vote_resp_msg_type MsgVote) (\<lambda>resp.
     bindr (raft_poll (r_id r) resp True r) (\<lambda>(n, r).
     if raft_quorum r = n then raft_become_leader r
     else for_each (raft_request_vote MsgVote (r_term r)) (map fst (r_prs r)) r)))"

definition raft_campaign :: "campaign_type \<Rightarrow> raft \<Rightarrow> raft res" where
  "raft_campaign ct r =
     (if ct = kCampaignPreElection then
        bindr (raft_become_pre_candidate r) (\<lambda>r.
        bindr (vote_resp_msg_type MsgPreVote) (\<lambda>resp.
        bindr (raft_poll (r_id r) resp True r) (\<lambda>(n, r).
        if raft_quorum r = n then raft_campaign_election r
        else for_each (raft_request_vote MsgPreVote (add64 (r_term r) 1)) (map fst (r_prs r)) r)))
      else raft_campaign_election r)"

section \<open>Requests from a leader\<close>

definition raft_handle_append_entries :: "message \<Rightarrow> raft \<Rightarrow> raft res" where
  "raft_handle_append_entries msg r =
     (if m_index msg < rl_committed (r_log r) then
        raft_send (new_message\<lparr>m_to := m_from msg, m_type := MsgAppResp,
          m_index := rl_committed (r_log r)\<rparr>) r
      else
        bindr (raft_log_maybe_append (m_index msg) (m_log_term msg) (m_commit msg) (m_entries msg) (r_log r))
        (\<lambda>(li, ok, l).
        let r = r\<lparr>r_log := l\<rparr> in
        if ok then
          raft_send (new_message\<lparr>m_to := m_from msg, m_type := MsgAppResp, m_index := li\<rparr>) r
        else
          bindr (raft_log_term (m_index msg) (r_log r)) (\<lambda>_.
          bindr (raft_log_last_index (r_log r)) (\<lambda>hint.
          raft_send (new_message\<lparr>m_to := m_from msg, m_type := MsgAppResp, m_index := m_index msg,
            m_reject := True, m_reject_hint := hint\<rparr>) r))))"

text \<open>The context of the heartbeat is assigned to itself and not copied to the response.\<close>

definition raft_handle_heartbeat :: "message \<Rightarrow> raft \<Rightarrow> raft res" where
  "raft_handle_heartbeat msg r =
     bindr (raft_log_commit_to (m_commit msg) (r_log r)) (\<lambda>l.
     raft_send (new_message\<lparr>m_to := m_from msg, m_type := MsgHeartbeatResp\<rparr>) (r\<lparr>r_log := l\<rparr>))"

text \<open>The log line after each restored node reads the node's own progress.\<close>

definition raft_restore_node :: "bool \<Rightarrow> u64 \<Rightarrow> raft \<Rightarrow> raft res" where
  "raft_restore_node is_learner node r =
     bindr (raft_log_last_index (r_log r)) (\<lambda>li.
     let nx = add64 li 1;
         mt = (if node = r_id r then sub64 nx 1 else 0);
         r = (if node = r_id r then r\<lparr>r_is_learner := is_learner\<rparr> else r)
     in
     bindr (raft_set_progress node mt nx is_learner r) (\<lambda>r.
     bindr (raft_deref_progress (r_id r) r) (\<lambda>_. Inr r)))"

definition raft_restore :: "snapshot \<Rightarrow> raft \<Rightarrow> (bool \<times> raft) res" where
  "raft_restore s r =
     (if snap_index s \<le> rl_committed (r_log r) then Inr (False, r)
      else
        bindr (raft_log_match_term (snap_index s) (snap_term s) (r_log r)) (\<lambda>m.
        if m then
          bindr (raft_log_line r) (\<lambda>_.
          bindr (raft_log_commit_to (snap_index s) (r_log r)) (\<lambda>l. Inr (False, r\<lparr>r_log := l\<rparr>)))
        else if \<not> r_is_learner r \<and> r_id r \<in> set (cs_learners (sm_conf_state (snap_metadata s))) then
          Inr (False, r)
        else
          bindr (raft_log_line r) (\<lambda>_.
          let r = r\<lparr>r_log := raft_log_restore s (r_log r), r_prs := [], r_learner_prs := []\<rparr> in
          bindr (for_each (raft_restore_node False) (cs_nodes (sm_conf_state (snap_metadata s))) r) (\<lambda>r.
          bindr (for_each (raft_restore_node True) (cs_learners (sm_conf_state (snap_metadata s))) r) (\<lambda>r.
          Inr (True, r))))))"

text \<open>The index of the response is written into the request, so the response carries 0.\<close>

definition raft_handle_snapshot :: "message \<Rightarrow> raft \<Rightarrow> raft res" where
  "raft_handle_snapshot msg r =
     bindr (raft_restore (m_snapshot msg) r) (\<lambda>(ok, r).
     bindr (if ok then bindr (raft_log_last_index (r_log r)) (\<lambda>_. Inr ()) else Inr ()) (\<lambda>_.
     raft_send (new_message\<lparr>m_to := m_from msg, m_type := MsgAppResp\<rparr>) r))"

section \<open>Leader\<close>

text \<open>
  Proposed configuration changes: only one may be pending; further ones become empty
  normal entries.
\<close>

fun raft_filter_conf :: "nat \<Rightarrow> entry list \<Rightarrow> raft \<Rightarrow> (entry list \<times> raft) res" where
  "raft_filter_conf i [] r = Inr ([], r)"
| "raft_filter_conf i (e # es) r =
     bindr
       (if e_type e = EntryConfChange then
          if r_pending_conf_index r > rl_applied (r_log r) then
            bindr (entry_type_to_string (e_type e)) (\<lambda>_.
            Inr (e\<lparr>e_type := EntryNormal, e_index := 0, e_term := 0, e_data := []\<rparr>, r))
          else
            bindr (raft_log_last_index (r_log r)) (\<lambda>li.
            Inr (e, r\<lparr>r_pending_conf_index := add64 (add64 li i) 1\<rparr>))
        else Inr (e, r))
     (\<lambda>(e, r). bindr (raft_filter_conf (Suc i) es r) (\<lambda>(es, r). Inr (e # es, r)))"

definition proposal_dropped :: status where
  "proposal_dropped = InvalidArgument ''raft proposal dropped''"

definition raft_leader_prop :: "message \<Rightarrow> raft \<Rightarrow> (status \<times> raft) res" where
  "raft_leader_prop msg r =
     (if m_entries msg = [] then Inl (Fatal ''stepped empty MsgProp'')
      else if map_of (r_prs r) (r_id r) = None then Inr (proposal_dropped, r)
      else if r_lead_transferee r \<noteq> 0 then Inr (proposal_dropped, r)
      else
        bindr (raft_filter_conf 0 (m_entries msg) r) (\<lambda>(es, r).
        bindr (raft_append_entry es r) (\<lambda>(ok, r).
        if \<not> ok then Inr (proposal_dropped, r)
        else bindr (raft_bcast_append r) (\<lambda>r. Inr (StatusOK, r)))))"

text \<open>The lease-based answer is addressed to the sender of the fresh message, node 0.\<close>

definition raft_leader_read_index :: "message \<Rightarrow> raft \<Rightarrow> raft res" where
  "raft_leader_read_index msg r =
     (if raft_quorum r > 1 then
        bindr (raft_log_term (rl_committed (r_log r)) (r_log r)) (\<lambda>(_, t).
        if (case t of None \<Rightarrow> 0 | Some t \<Rightarrow> t) \<noteq> r_term r then Inr r
        else
          case ro_option (r_read_only r) of
            ReadOnlySafe \<Rightarrow>
              bindr (read_only_add_request (rl_committed (r_log r)) msg (r_read_only r)) (\<lambda>ro.
              bindr (vec_at (m_entries msg) 0) (\<lambda>e.
              raft_bcast_heartbeat_with_ctx (e_data e) (r\<lparr>r_read_only := ro\<rparr>)))
          | ReadOnlyLeaseBased \<Rightarrow>
              if m_from msg = 0 \<or> m_from msg = r_id r then
                bindr (vec_at (m_entries msg) 0) (\<lambda>e.
                Inr (r\<lparr>r_read_states := r_read_states r @
                  [\<lparr>rs_index = rl_committed (r_log r), rs_request_ctx = e_data e\<rparr>]\<rparr>))
              else
                raft_send (new_message\<lparr>m_to := m_from new_message, m_type := MsgReadIndexResp,
                  m_index := rl_committed (r_log r), m_entries := m_entries msg\<rparr>) r)
      else
        bindr (vec_at (m_entries msg) 0) (\<lambda>e.
        Inr (r\<lparr>r_read_states := r_read_states r @
          [\<lparr>rs_index = rl_committed (r_log r), rs_request_ctx = e_data e\<rparr>]\<rparr>)))"

text \<open>An acknowledged append: the sender's flow control, then committing and sending on.\<close>

definition progress_acked :: "u64 \<Rightarrow> progress \<Rightarrow> progress res" where
  "progress_acked i p =
     (if pr_state p = ProgressStateProbe then Inr (progress_become_replicate p)
      else if pr_state p = ProgressStateSnapshot \<and> progress_need_snapshot_abort p
      then Inr (progress_become_probe p)
      else if pr_state p = ProgressStateReplicate
      then bindr (inflights_free_to i (pr_inflights p)) (\<lambda>f. Inr (p\<lparr>pr_inflights := f\<rparr>))
      else Inr p)"

definition raft_leader_acked :: "u64 \<Rightarrow> bool \<Rightarrow> raft \<Rightarrow> raft res" where
  "raft_leader_acked from old_paused r =
     bindr (raft_maybe_commit r) (\<lambda>(committed, r).
     bindr (if committed then raft_bcast_append r
            else if old_paused then raft_send_append from r else Inr r) (\<lambda>r.
     bindr (raft_send_all (raft_send_fuel from r) from r) (\<lambda>r.
     if from = r_lead_transferee r then
       bindr (raft_deref_progress from r) (\<lambda>p.
       bindr (raft_log_last_index (r_log r)) (\<lambda>li.
       if pr_match p = li then raft_send_timeout_now from r else Inr r))
     else Inr r)))"

definition raft_leader_app_resp :: "message \<Rightarrow> progress \<Rightarrow> raft \<Rightarrow> raft res" where
  "raft_leader_app_resp msg p r =
     (let from = m_from msg; p = p\<lparr>pr_recent_active := True\<rparr> in
      if m_reject msg then
        let (ok, p) = progress_maybe_decreases_to (m_index msg) (m_reject_hint msg) p in
        if ok then
          let p = (if pr_state p = ProgressStateReplicate then progress_become_probe p else p) in
          raft_send_append from (raft_put_progress from p r)
        else Inr (raft_put_progress from p r)
      else
        let old_paused = progress_is_paused p;
            (updated, p) = progress_maybe_update (m_index msg) p
        in
        if \<not> updated then Inr (raft_put_progress from p r)
        else
          bindr (progress_acked (m_index msg) p) (\<lambda>p.
          raft_leader_acked from old_paused (raft_put_progress from p r)))"

definition raft_answer_read :: "read_index_status \<Rightarrow> raft \<Rightarrow> raft res" where
  "raft_answer_read rs r =
     (let req = ris_req rs in
      if m_from req = 0 \<or> m_from req = r_id r then
        bindr (vec_at (m_entries req) 0) (\<lambda>e.
        Inr (r\<lparr>r_read_states := r_read_states r @
          [\<lparr>rs_index = ris_index rs, rs_request_ctx = e_data e\<rparr>]\<rparr>))
      else
        raft_send (new_message\<lparr>m_to := m_from req, m_type := MsgReadIndexResp,
          m_index := ris_index rs, m_entries := m_entries req\<rparr>) r)"

definition progress_heartbeat_acked :: "progress \<Rightarrow> progress res" where
  "progress_heartbeat_acked p =
     (let p = progress_resume (p\<lparr>pr_recent_active := True\<rparr>) in
      if pr_state p = ProgressStateReplicate \<and> inflights_is_full (pr_inflights p)
      then bindr (inflights_free_first_one (pr_inflights p)) (\<lambda>f. Inr (p\<lparr>pr_inflights := f\<rparr>))
      else Inr p)"

definition raft_leader_read_ack :: "message \<Rightarrow> raft \<Rightarrow> raft res" where
  "raft_leader_read_ack msg r =
     (if ro_option (r_read_only r) \<noteq> ReadOnlySafe \<or> m_context msg = [] then Inr r
      else
        let (ack_count, ro) = read_only_recv_ack msg (r_read_only r);
            r = r\<lparr>r_read_only := ro\<rparr>
        in
        if ack_count < raft_quorum r then Inr r
        else
          bindr (read_only_advance msg (r_read_only r)) (\<lambda>(rss, ro).
          for_each raft_answer_read rss (r\<lparr>r_read_only := ro\<rparr>)))"

definition raft_leader_heartbeat_resp :: "message \<Rightarrow> progress \<Rightarrow> raft \<Rightarrow> raft res" where
  "raft_leader_heartbeat_resp msg p r =
     bindr (progress_heartbeat_acked p) (\<lambda>p.
     let r = raft_put_progress (m_from msg) p r in
     bindr (raft_log_last_index (r_log r)) (\<lambda>li.
     bindr (if pr_match p < li then raft_send_append (m_from msg) r else Inr r)
     (raft_leader_read_ack msg)))"

definition raft_leader_snap_status :: "message \<Rightarrow> progress \<Rightarrow> raft \<Rightarrow> raft" where
  "raft_leader_snap_status msg p r =
     (if pr_state p \<noteq> ProgressStateSnapshot then r
      else
        let p = (if \<not> m_reject msg then progress_become_probe p
                 else progress_become_probe (progress_snapshot_failure p))
        in raft_put_progress (m_from msg) (progress_set_pause p) r)"

definition raft_leader_unreachable :: "message \<Rightarrow> progress \<Rightarrow> raft \<Rightarrow> raft" where
  "raft_leader_unreachable msg p r =
     (if pr_state p = ProgressStateReplicate
      then raft_put_progress (m_from msg) (progress_become_probe p) r else r)"

definition raft_leader_transfer :: "message \<Rightarrow> progress \<Rightarrow> raft \<Rightarrow> raft res" where
  "raft_leader_transfer msg p r =
     (if pr_is_learner p then Inr r
      else
        let lead_transferee = m_from msg; last_lead_transferee = r_lead_transferee r in
        if last_lead_transferee \<noteq> 0 \<and> last_lead_transferee = lead_transferee then Inr r
        else
          let r = (if last_lead_transferee \<noteq> 0 then raft_abort_leader_transfer r else r) in
          if lead_transferee = r_id r then Inr r
          else
            let r = r\<lparr>r_election_elapsed := 0, r_lead_transferee := lead_transferee\<rparr> in
            bindr (raft_log_last_index (r_log r)) (\<lambda>li.
            if pr_match p = li then raft_send_timeout_now lead_transferee r
            else raft_send_append lead_transferee r))"

definition with_ok :: "raft res \<Rightarrow> (status \<times> raft) res" where
  "with_ok m = bindr m (\<lambda>r. Inr (StatusOK, r))"

definition raft_step_leader :: "message \<Rightarrow> raft \<Rightarrow> (status \<times> raft) res" where
  "raft_step_leader msg r =
     (if m_type msg = MsgBeat then with_ok (raft_bcast_heartbeat r)
      else if m_type msg = MsgCheckQuorum then
        (if \<not> raft_check_quorum_active r then with_ok (raft_become_follower (r_term r) 0 r)
         else Inr (StatusOK, r))
      else if m_type msg = MsgProp then raft_leader_prop msg r
      else if m_type msg = MsgReadIndex then with_ok (raft_leader_read_index msg r)
      else
        case raft_get_progress (m_from msg) r of
          None \<Rightarrow> Inr (StatusOK, r)
        | Some p \<Rightarrow>
            if m_type msg = MsgAppResp then with_ok (raft_leader_app_resp msg p r)
            else if m_type msg = MsgHeartbeatResp then with_ok (raft_leader_heartbeat_resp msg p r)
            else if m_type msg = MsgSnapStatus then Inr (StatusOK, raft_leader_snap_status msg p r)
            else if m_type msg = MsgUnreachable then Inr (StatusOK, raft_leader_unreachable msg p r)
            else if m_type msg = MsgTransferLeader then with_ok (raft_leader_transfer msg p r)
            else Inr (StatusOK, r))"

section \<open>Candidate and follower\<close>

definition raft_candidate_vote_resp :: "message \<Rightarrow> raft \<Rightarrow> raft res" where
  "raft_candidate_vote_resp msg r =
     bindr (raft_poll (m_from msg) (m_type msg) (\<not> m_reject msg) r) (\<lambda>(gr, r).
     bindr (msg_type_to_string (m_type msg)) (\<lambda>_.
     if raft_quorum r = gr then
       (if r_state r = PreCandidate then raft_campaign kCampaignElection r
        else
          bindr (assertr ''state_ == RaftState::Candidate'' (r_state r = Candidate)) (\<lambda>_.
          bindr (raft_become_leader r) raft_bcast_append))
     else if raft_quorum r = sub64 (length (r_votes r)) gr then raft_become_follower (r_term r) 0 r
     else Inr r))"

definition raft_step_candidate :: "message \<Rightarrow> raft \<Rightarrow> (status \<times> raft) res" where
  "raft_step_candidate msg r =
     (if m_type msg = MsgProp then Inr (proposal_dropped, r)
      else if m_type msg = MsgApp then
        with_ok (bindr (raft_become_follower (m_term msg) (m_from msg) r) (raft_handle_append_entries msg))
      else if m_type msg = MsgHeartbeat then
        with_ok (bindr (raft_become_follower (m_term msg) (m_from msg) r) (raft_handle_heartbeat msg))
      else if m_type msg = MsgSnap then
        with_ok (bindr (raft_become_follower (m_term msg) (m_from msg) r) (raft_handle_snapshot msg))
      else if m_type msg = MsgPreVoteResp \<or> m_type msg = MsgVoteResp then
        with_ok (raft_candidate_vote_resp msg r)
      else Inr (StatusOK, r))"

definition raft_step_follower :: "message \<Rightarrow> raft \<Rightarrow> (status \<times> raft) res" where
  "raft_step_follower msg r =
     (if m_type msg = MsgProp then
        (if r_lead r = 0 then Inr (proposal_dropped, r)
         else if r_disable_proposal_forwarding r then Inr (proposal_dropped, r)
         else with_ok (raft_send (msg\<lparr>m_to := r_lead r\<rparr>) r))
      else if m_type msg = MsgApp then
        with_ok (raft_handle_append_entries msg (r\<lparr>r_election_elapsed := 0, r_lead := m_from msg\<rparr>))
      else if m_type msg = MsgHeartbeat then
        with_ok (raft_handle_heartbeat msg (r\<lparr>r_election_elapsed := 0, r_lead := m_from msg\<rparr>))
      else if m_type msg = MsgSnap then
        with_ok (raft_handle_snapshot msg (r\<lparr>r_election_elapsed := 0, r_lead := m_from msg\<rparr>))
      else if m_type msg = MsgTransferLeader then
        (if r_lead r = 0 then Inr (StatusOK, r)
         else with_ok (raft_send (msg\<lparr>m_to := r_lead r\<rparr>) r))
      else if m_type msg = MsgTimeoutNow then
        (if raft_promotable r then with_ok (raft_campaign kCampaignTransfer r) else Inr (StatusOK, r))
      else if m_type msg = MsgReadIndex then
        (if r_lead r = 0 then Inr (StatusOK, r)
         else with_ok (raft_send (msg\<lparr>m_to := r_lead r\<rparr>) r))
      else if m_type msg = MsgReadIndexResp then
        (case m_entries msg of
           [e] \<Rightarrow> Inr (StatusOK, r\<lparr>r_read_states := r_read_states r @
                        [\<lparr>rs_index = m_index msg, rs_request_ctx = e_data e\<rparr>]\<rparr>)
         | _ \<Rightarrow> Inr (StatusOK, r))
      else Inr (StatusOK, r))"

definition raft_call_step :: "message \<Rightarrow> raft \<Rightarrow> (status \<times> raft) res" where
  "raft_call_step msg r =
     (case r_step r of
        None \<Rightarrow> Inl (Fatal ''std::bad_function_call'')
      | Some StepLeader \<Rightarrow> raft_step_leader msg r
      | Some StepCandidate \<Rightarrow> raft_step_candidate msg r
      | Some StepFollower \<Rightarrow> raft_step_follower msg r)"

section \<open>Step\<close>

definition raft_step_hup :: "raft \<Rightarrow> raft res" where
  "raft_step_hup r =
     (if r_state r \<noteq> Leader then
        bindr (raft_log_slice (add64 (rl_applied (r_log r)) 1) (add64 (rl_committed (r_log r)) 1)
                 raft_log_unlimited [] (r_log r)) (\<lambda>(s, es).
        if \<not> is_ok s then Inl (Fatal ''unexpected error getting unapplied entries'')
        else if num_of_pending_conf es > 0 \<and> rl_committed (r_log r) > rl_applied (r_log r) then Inr r
        else if r_pre_vote r then raft_campaign kCampaignPreElection r
        else raft_campaign kCampaignElection r)
      else Inr r)"

definition raft_can_vote :: "message \<Rightarrow> raft \<Rightarrow> bool" where
  "raft_can_vote msg r \<longleftrightarrow>
     r_vote r = m_from msg \<or> (r_vote r = 0 \<and> r_lead r = 0) \<or>
     (m_type msg = MsgPreVote \<and> m_term msg > r_term r)"

definition raft_step_vote :: "message \<Rightarrow> raft \<Rightarrow> raft res" where
  "raft_step_vote msg r =
     (if r_is_learner r then
        bindr (raft_log_line r) (\<lambda>_. bindr (msg_type_to_string (m_type msg)) (\<lambda>_. Inr r))
      else
        bindr (if raft_can_vote msg r
               then raft_log_is_up_to_date (m_index msg) (m_log_term msg) (r_log r)
               else Inr False) (\<lambda>grant.
        bindr (raft_log_line r) (\<lambda>_.
        bindr (msg_type_to_string (m_type msg)) (\<lambda>_.
        bindr (vote_resp_msg_type (m_type msg)) (\<lambda>resp.
        if grant then
          bindr (raft_send (new_message\<lparr>m_to := m_from msg, m_term := m_term msg, m_type := resp\<rparr>) r) (\<lambda>r.
          if m_type msg = MsgVote then Inr (r\<lparr>r_election_elapsed := 0, r_vote := m_from msg\<rparr>) else Inr r)
        else
          raft_send (new_message\<lparr>m_to := m_from msg, m_term := r_term r, m_type := resp,
            m_reject := True\<rparr>) r)))))"

text \<open>The switch on the type, after the term of the message has been dealt with.\<close>

definition raft_step_type :: "message \<Rightarrow> raft \<Rightarrow> (status \<times> raft) res" where
  "raft_step_type msg r =
     (if m_type msg = MsgHup then with_ok (raft_step_hup r)
      else if m_type msg = MsgVote \<or> m_type msg = MsgPreVote then with_ok (raft_step_vote msg r)
      else raft_call_step msg r)"

definition raft_in_lease :: "raft \<Rightarrow> bool" where
  "raft_in_lease r \<longleftrightarrow>
     r_check_quorum r \<and> r_lead r \<noteq> 0 \<and> r_election_elapsed r < r_election_timeout r"

definition raft_step_higher :: "message \<Rightarrow> raft \<Rightarrow> (status \<times> raft) res" where
  "raft_step_higher msg r =
     (if (m_type msg = MsgVote \<or> m_type msg = MsgPreVote) \<and>
         \<not> m_context msg = kCampaignTransfer_bytes \<and> raft_in_lease r then
        bindr (raft_log_line r) (\<lambda>_. bindr (msg_type_to_string (m_type msg)) (\<lambda>_. Inr (StatusOK, r)))
      else if m_type msg = MsgPreVote then raft_step_type msg r
      else if m_type msg = MsgPreVoteResp \<and> \<not> m_reject msg then raft_step_type msg r
      else
        bindr (msg_type_to_string (m_type msg)) (\<lambda>_.
        bindr (if m_type msg = MsgApp \<or> m_type msg = MsgHeartbeat \<or> m_type msg = MsgSnap
               then raft_become_follower (m_term msg) (m_from msg) r
               else raft_become_follower (m_term msg) 0 r)
        (raft_step_type msg)))"

definition raft_step_lower :: "message \<Rightarrow> raft \<Rightarrow> (status \<times> raft) res" where
  "raft_step_lower msg r =
     (if (r_check_quorum r \<or> r_pre_vote r) \<and> (m_type msg = MsgHeartbeat \<or> m_type msg = MsgApp) then
        with_ok (raft_send (new_message\<lparr>m_to := m_from msg, m_type := MsgAppResp\<rparr>) r)
      else if m_type msg = MsgPreVote then
        bindr (raft_log_line r) (\<lambda>_.
        with_ok (raft_send (new_message\<lparr>m_to := m_from msg, m_type := MsgPreVoteResp,
          m_reject := True, m_term := r_term r\<rparr>) r))
      else bindr (msg_type_to_string (m_type msg)) (\<lambda>_. Inr (StatusOK, r)))"

definition raft_step :: "message \<Rightarrow> raft \<Rightarrow> (status \<times> raft) res" where
  "raft_step msg r =
     (if m_term msg = 0 then raft_step_type msg r
      else if m_term msg > r_term r then raft_step_higher msg r
      else if m_term msg < r_term r then raft_step_lower msg r
      else raft_step_type msg r)"

section \<open>Ticks\<close>

definition raft_tick_election :: "raft \<Rightarrow> raft res" where
  "raft_tick_election r =
     (let r = r\<lparr>r_election_elapsed := add32 (r_election_elapsed r) 1\<rparr> in
      if raft_promotable r \<and> raft_past_election_timeout r then
        let r = r\<lparr>r_election_elapsed := 0\<rparr> in
        bindr (raft_step (new_message\<lparr>m_from := r_id r, m_type := MsgHup\<rparr>) r) (\<lambda>(_, r). Inr r)
      else Inr r)"

definition raft_tick_timeout :: "raft \<Rightarrow> raft res" where
  "raft_tick_timeout r =
     (if r_election_elapsed r \<ge> r_election_timeout r then
        let r = r\<lparr>r_election_elapsed := 0\<rparr> in
        bindr
          (if r_check_quorum r then
             bindr (raft_step (new_message\<lparr>m_from := r_id r, m_type := MsgCheckQuorum\<rparr>) r)
             (\<lambda>(_, r). Inr r)
           else Inr r)
        (\<lambda>r. Inr (if r_state r = Leader \<and> r_lead_transferee r \<noteq> 0
                 then raft_abort_leader_transfer r else r))
      else Inr r)"

definition raft_tick_beat :: "raft \<Rightarrow> raft res" where
  "raft_tick_beat r =
     (if r_state r \<noteq> Leader then Inr r
      else if r_heartbeat_elapsed r \<ge> r_heartbeat_timeout r then
        let r = r\<lparr>r_heartbeat_elapsed := 0\<rparr> in
        bindr (raft_step (new_message\<lparr>m_from := r_id r, m_type := MsgBeat\<rparr>) r) (\<lambda>(_, r). Inr r)
      else Inr r)"

definition raft_tick_heartbeat :: "raft \<Rightarrow> raft res" where
  "raft_tick_heartbeat r =
     (let r = r\<lparr>r_heartbeat_elapsed := add32 (r_heartbeat_elapsed r) 1,
                r_election_elapsed := add32 (r_election_elapsed r) 1\<rparr>
      in bindr (raft_tick_timeout r) raft_tick_beat)"

definition raft_tick :: "raft \<Rightarrow> raft res" where
  "raft_tick r =
     (case r_tick r of
        None \<Rightarrow> Inr r
      | Some TickElection \<Rightarrow> raft_tick_election r
      | Some TickHeartbeat \<Rightarrow> raft_tick_heartbeat r)"

section \<open>Configuration changes\<close>

definition raft_mark_active :: "u64 \<Rightarrow> bool \<Rightarrow> raft \<Rightarrow> raft res" where
  "raft_mark_active i is_learner r =
     (let r = (if r_id r = i then r\<lparr>r_is_learner := is_learner\<rparr> else r) in
      bindr (raft_deref_progress i r) (\<lambda>p.
      Inr (raft_put_progress i (p\<lparr>pr_recent_active := True\<rparr>) r)))"

definition raft_add_node_or_learner :: "u64 \<Rightarrow> bool \<Rightarrow> raft \<Rightarrow> raft res" where
  "raft_add_node_or_learner i is_learner r =
     (case raft_get_progress i r of
        None \<Rightarrow>
          bindr (raft_log_last_index (r_log r)) (\<lambda>li.
          bindr (raft_set_progress i 0 (add64 li 1) is_learner r) (raft_mark_active i is_learner))
      | Some p \<Rightarrow>
          if is_learner \<and> \<not> pr_is_learner p then Inr r
          else if is_learner = pr_is_learner p then Inr r
          else
            raft_mark_active i is_learner
              (r\<lparr>r_learner_prs := AList.delete i (r_learner_prs r),
                 r_prs := AList.update i (p\<lparr>pr_is_learner := False\<rparr>) (r_prs r)\<rparr>))"

definition raft_add_node :: "u64 \<Rightarrow> raft \<Rightarrow> raft res" where
  "raft_add_node i r = raft_add_node_or_learner i False r"

definition raft_remove_node :: "u64 \<Rightarrow> raft \<Rightarrow> raft res" where
  "raft_remove_node i r =
     (let r = raft_del_progress i r in
      if r_prs r = [] \<and> r_learner_prs r = [] then Inr r
      else
        bindr (raft_maybe_commit r) (\<lambda>(committed, r).
        bindr (if committed then raft_bcast_append r else Inr r) (\<lambda>r.
        Inr (if r_state r = Leader \<and> r_lead_transferee r = i then raft_abort_leader_transfer r else r))))"

section \<open>Construction\<close>

definition raft_initial :: "config \<Rightarrow> nat list \<Rightarrow> raft_log \<Rightarrow> raft" where
  "raft_initial c draws l =
     \<lparr>r_id = c_id c, r_term = 0, r_vote = 0, r_read_states = [], r_log = l,
      r_max_msg_size = c_max_size_per_msg c,
      r_max_uncommitted_size = c_max_uncommitted_entries_size c,
      r_max_inflight = c_max_inflight_msgs c, r_prs = [], r_learner_prs = [], r_match_buf = [],
      r_state = Follower, r_is_learner = False, r_votes = [], r_msgs = [], r_lead = 0,
      r_lead_transferee = 0, r_pending_conf_index = 0, r_uncommitted_size = 0,
      r_read_only = new_read_only (c_read_only_option c), r_election_elapsed = 0,
      r_heartbeat_elapsed = 0, r_check_quorum = c_check_quorum c, r_pre_vote = c_pre_vote c,
      r_heartbeat_timeout = c_heartbeat_tick c, r_election_timeout = c_election_tick c,
      r_randomized_election_timeout = 0,
      r_disable_proposal_forwarding = c_disable_proposal_forwarding c, r_tick = None, r_step = None,
      r_random_device = \<lparr>rd_min = 0, rd_max = c_election_tick c, rd_draws = draws\<rparr>\<rparr>"

definition raft_init_peer :: "u64 \<Rightarrow> raft \<Rightarrow> raft res" where
  "raft_init_peer i r =
     Inr (r\<lparr>r_prs := AList.update i ((new_progress (r_max_inflight r))\<lparr>pr_next := 1\<rparr>) (r_prs r)\<rparr>)"

definition raft_init_learner :: "u64 \<Rightarrow> raft \<Rightarrow> raft res" where
  "raft_init_learner i r =
     (if map_of (r_prs r) i \<noteq> None then Inl (Fatal ''node is in both learner and peer list'')
      else
        Inr (r\<lparr>r_learner_prs := AList.update i
                 ((new_progress (r_max_inflight r))\<lparr>pr_next := 1, pr_is_learner := True\<rparr>) (r_learner_prs r),
               r_is_learner := (if r_id r = i then True else r_is_learner r)\<rparr>))"

definition new_raft :: "config \<Rightarrow> nat list \<Rightarrow> raft res" where
  "new_raft c draws =
     bindr (new_raft_log (c_storage c) (c_max_committed_size_per_ready c)) (\<lambda>l.
     let (s, hs, cs) = storage_initial_state (c_storage c); r = raft_initial c draws l in
     if \<not> is_ok s then Inl (Fatal ''initial_state'')
     else
       bindr
         (if cs_nodes cs \<noteq> [] \<or> cs_learners cs \<noteq> [] then
            if c_peers c \<noteq> [] \<or> c_learners c \<noteq> [] then
              Inl (Fatal ''cannot specify both newRaft(peers, learners) and ConfState.(Nodes, Learners)'')
            else Inr (cs_nodes cs, cs_learners cs)
          else Inr (c_peers c, c_learners c))
       (\<lambda>(peers, learners).
       bindr (for_each raft_init_peer peers r) (\<lambda>r.
       bindr (for_each raft_init_learner learners r) (\<lambda>r.
       bindr (if \<not> hard_state_is_empty hs then raft_load_state hs r else Inr r) (\<lambda>r.
       let r = (if c_applied c > 0 then r\<lparr>r_log := raft_log_applied_to (c_applied c) (r_log r)\<rparr> else r) in
       bindr (raft_become_follower (r_term r) 0 r) (\<lambda>r.
       bindr (raft_log_line r) (\<lambda>_. Inr r)))))))"

end
