(* ===== verification/Raft_Invariant.thy ===== *)
theory Raft_Invariant
  imports Raft
begin

text \<open>
  The invariant \<open>raft_wf\<close> of a node and two relations between the states before and after
  an operation: \<open>raft_quiet\<close> (only messages, flow control and pending reads change) and
  \<open>raft_grows\<close> (the term never decreases, a vote is never changed within a term, committed
  entries are kept). Both are run relations, so they compose over sequences and loops.
\<close>

section \<open>Invariant\<close>

fun step_of :: "raft_state \<Rightarrow> step_fn" where
  "step_of Follower = StepFollower"
| "step_of Candidate = StepCandidate"
| "step_of PreCandidate = StepCandidate"
| "step_of Leader = StepLeader"

fun tick_of :: "raft_state \<Rightarrow> tick_fn" where
  "tick_of Leader = TickHeartbeat"
| "tick_of _ = TickElection"

definition mode_wf :: "raft \<Rightarrow> bool" where
  "mode_wf r \<longleftrightarrow> r_step r = Some (step_of (r_state r)) \<and> r_tick r = Some (tick_of (r_state r))"

definition timer_wf :: "raft \<Rightarrow> bool" where
  "timer_wf r \<longleftrightarrow>
     rd_min (r_random_device r) = 0 \<and> rd_max (r_random_device r) = r_election_timeout r \<and>
     2 * r_election_timeout r \<le> u32_max"

definition peers_wf :: "raft \<Rightarrow> bool" where
  "peers_wf r \<longleftrightarrow>
     distinct (map fst (r_prs r) @ map fst (r_learner_prs r)) \<and>
     list_all (\<lambda>(i, p). progress_wf p) (r_prs r @ r_learner_prs r)"

lemma peers_wf_iff:
  "peers_wf r \<longleftrightarrow>
     distinct (map fst (r_prs r) @ map fst (r_learner_prs r)) \<and>
     (\<forall>i p. (i, p) \<in> set (r_prs r) \<or> (i, p) \<in> set (r_learner_prs r) \<longrightarrow> progress_wf p)"
  by (auto simp: peers_wf_def list_all_iff)

definition raft_base_wf :: "raft \<Rightarrow> bool" where
  "raft_base_wf r \<longleftrightarrow>
     raft_log_wf (r_log r) \<and> peers_wf r \<and> read_only_wf (r_read_only r) \<and> timer_wf r \<and>
     2 * r_max_inflight r \<le> u32_max"

definition raft_wf :: "raft \<Rightarrow> bool" where
  "raft_wf r \<longleftrightarrow> raft_base_wf r \<and> mode_wf r"

lemma raft_wfD:
  assumes "raft_wf r"
  shows "raft_log_wf (r_log r)" "peers_wf r" "read_only_wf (r_read_only r)" "mode_wf r" "timer_wf r"
    "2 * r_max_inflight r \<le> u32_max" "raft_base_wf r"
  using assms by (simp_all add: raft_wf_def raft_base_wf_def)

text \<open>Fields the invariant does not mention.\<close>

lemma raft_base_wf_upd [simp]:
  "raft_base_wf (r\<lparr>r_step := x0\<rparr>) = raft_base_wf r"
  "raft_base_wf (r\<lparr>r_tick := x1\<rparr>) = raft_base_wf r"
  "raft_base_wf (r\<lparr>r_vote := x2\<rparr>) = raft_base_wf r"
  "raft_base_wf (r\<lparr>r_state := x3\<rparr>) = raft_base_wf r"
  "raft_base_wf (r\<lparr>r_lead := x4\<rparr>) = raft_base_wf r"
  "raft_base_wf (r\<lparr>r_votes := x5\<rparr>) = raft_base_wf r"
  "raft_base_wf (r\<lparr>r_msgs := x6\<rparr>) = raft_base_wf r"
  "raft_base_wf (r\<lparr>r_term := x7\<rparr>) = raft_base_wf r"
  "raft_base_wf (r\<lparr>r_election_elapsed := x8\<rparr>) = raft_base_wf r"
  "raft_base_wf (r\<lparr>r_heartbeat_elapsed := x9\<rparr>) = raft_base_wf r"
  "raft_base_wf (r\<lparr>r_pending_conf_index := x10\<rparr>) = raft_base_wf r"
  "raft_base_wf (r\<lparr>r_lead_transferee := x11\<rparr>) = raft_base_wf r"
  "raft_base_wf (r\<lparr>r_read_states := x12\<rparr>) = raft_base_wf r"
  "raft_base_wf (r\<lparr>r_is_learner := x13\<rparr>) = raft_base_wf r"
  "raft_base_wf (r\<lparr>r_match_buf := x14\<rparr>) = raft_base_wf r"
  "raft_base_wf (r\<lparr>r_uncommitted_size := x15\<rparr>) = raft_base_wf r"
  by (simp_all add: raft_base_wf_def peers_wf_def timer_wf_def)

lemma mode_wf_upd [simp]:
  "mode_wf (r\<lparr>r_vote := x2\<rparr>) = mode_wf r"
  "mode_wf (r\<lparr>r_lead := x4\<rparr>) = mode_wf r"
  "mode_wf (r\<lparr>r_votes := x5\<rparr>) = mode_wf r"
  "mode_wf (r\<lparr>r_msgs := x6\<rparr>) = mode_wf r"
  "mode_wf (r\<lparr>r_term := x7\<rparr>) = mode_wf r"
  "mode_wf (r\<lparr>r_election_elapsed := x8\<rparr>) = mode_wf r"
  "mode_wf (r\<lparr>r_heartbeat_elapsed := x9\<rparr>) = mode_wf r"
  "mode_wf (r\<lparr>r_pending_conf_index := x10\<rparr>) = mode_wf r"
  "mode_wf (r\<lparr>r_lead_transferee := x11\<rparr>) = mode_wf r"
  "mode_wf (r\<lparr>r_read_states := x12\<rparr>) = mode_wf r"
  "mode_wf (r\<lparr>r_is_learner := x13\<rparr>) = mode_wf r"
  "mode_wf (r\<lparr>r_match_buf := x14\<rparr>) = mode_wf r"
  "mode_wf (r\<lparr>r_uncommitted_size := x15\<rparr>) = mode_wf r"
  "mode_wf (r\<lparr>r_log := y\<rparr>) = mode_wf r"
  "mode_wf (r\<lparr>r_read_only := z\<rparr>) = mode_wf r"
  by (simp_all add: mode_wf_def)

lemma raft_base_wf_read_only:
  "raft_base_wf r \<Longrightarrow> read_only_wf ro \<Longrightarrow> raft_base_wf (r\<lparr>r_read_only := ro\<rparr>)"
  by (simp add: raft_base_wf_def peers_wf_def timer_wf_def)

lemma new_progress_wf:
  assumes "2 * m \<le> u32_max" "1 \<le> nx" "nx \<le> u64_max" "mt < u64_max"
  shows "progress_wf ((new_progress m)\<lparr>pr_next := nx, pr_match := mt\<rparr>)"
    "progress_wf ((new_progress m)\<lparr>pr_next := nx, pr_is_learner := b\<rparr>)"
    "progress_wf ((new_progress m)\<lparr>pr_next := nx, pr_is_learner := b, pr_match := mt\<rparr>)"
    "progress_wf ((new_progress m)\<lparr>pr_next := nx, pr_match := mt, pr_is_learner := b\<rparr>)"
  using assms by (simp_all add: progress_wf_def new_progress_def new_inflights_wf u64_max_def)

section \<open>Access to the progress maps\<close>

lemma raft_get_progress_wf:
  "peers_wf r \<Longrightarrow> raft_get_progress i r = Some p \<Longrightarrow> progress_wf p"
  by (auto simp: peers_wf_iff raft_get_progress_def split: option.splits dest!: map_of_SomeD)

lemma raft_deref_progress_eq: "raft_deref_progress i r = Inr p \<longleftrightarrow> raft_get_progress i r = Some p"
  by (auto simp: raft_deref_progress_def split: option.splits)

lemma raft_get_progress_known:
  "raft_get_progress i r = Some p \<Longrightarrow> i \<in> fst ` set (r_prs r) \<or> i \<in> fst ` set (r_learner_prs r)"
  by (auto simp: raft_get_progress_def split: option.splits dest!: map_of_SomeD) force+

lemma raft_put_progress_keys:
  assumes "raft_get_progress i r = Some p"
  shows "map fst (r_prs (raft_put_progress i q r)) = map fst (r_prs r)"
    "map fst (r_learner_prs (raft_put_progress i q r)) = map fst (r_learner_prs r)"
  using assms
  by (auto simp: raft_put_progress_def raft_get_progress_def map_of_eq_None_keys keys_update_old
      split: option.splits dest!: map_of_SomeD) (metis fst_conv image_eqI keys_update_old)+

lemma raft_put_progress_peers:
  assumes "peers_wf r" "raft_get_progress i r = Some p" "progress_wf q"
  shows "peers_wf (raft_put_progress i q r)"
proof -
  have "(j, p') \<in> insert (i, q) (set (r_prs r) \<union> set (r_learner_prs r))"
    if "(j, p') \<in> set (r_prs (raft_put_progress i q r)) \<or>
      (j, p') \<in> set (r_learner_prs (raft_put_progress i q r))" for j p'
    using that subsetD [OF set_update_subset, of "(j, p')" i q "r_prs r"]
      subsetD [OF set_update_subset, of "(j, p')" i q "r_learner_prs r"]
    by (auto simp: raft_put_progress_def split: if_splits)
  with assms(1,3) show ?thesis
    unfolding peers_wf_iff raft_put_progress_keys [OF assms(2)] by blast
qed

lemma raft_put_progress_sel [simp]:
  "r_log (raft_put_progress i q r) = r_log r" "r_id (raft_put_progress i q r) = r_id r"
  "r_term (raft_put_progress i q r) = r_term r" "r_vote (raft_put_progress i q r) = r_vote r"
  "r_state (raft_put_progress i q r) = r_state r" "r_step (raft_put_progress i q r) = r_step r"
  "r_tick (raft_put_progress i q r) = r_tick r" "r_read_only (raft_put_progress i q r) = r_read_only r"
  "r_max_inflight (raft_put_progress i q r) = r_max_inflight r"
  "r_election_timeout (raft_put_progress i q r) = r_election_timeout r"
  "r_random_device (raft_put_progress i q r) = r_random_device r"
  "r_lead_transferee (raft_put_progress i q r) = r_lead_transferee r"
  "r_max_msg_size (raft_put_progress i q r) = r_max_msg_size r"
  "r_msgs (raft_put_progress i q r) = r_msgs r"
  by (simp_all add: raft_put_progress_def)

section \<open>Quiet operations\<close>

definition raft_quiet :: "raft \<Rightarrow> raft \<Rightarrow> bool" where
  "raft_quiet r r' \<longleftrightarrow>
     raft_wf r' \<and> r_id r' = r_id r \<and> r_term r' = r_term r \<and> r_vote r' = r_vote r \<and> r_log r' = r_log r \<and>
     r_state r' = r_state r \<and> r_lead_transferee r' = r_lead_transferee r \<and>
     map fst (r_prs r') = map fst (r_prs r) \<and> map fst (r_learner_prs r') = map fst (r_learner_prs r)"

interpretation rq: run_relation raft_wf raft_quiet
  by unfold_locales (auto simp: raft_quiet_def)

lemma raft_quiet_frame:
  assumes "raft_wf r" "peers_wf r'" "read_only_wf (r_read_only r')"
    "r_id r' = r_id r" "r_term r' = r_term r" "r_vote r' = r_vote r" "r_log r' = r_log r"
    "r_state r' = r_state r" "r_step r' = r_step r" "r_tick r' = r_tick r"
    "r_lead_transferee r' = r_lead_transferee r"
    "r_election_timeout r' = r_election_timeout r" "r_random_device r' = r_random_device r"
    "r_max_inflight r' = r_max_inflight r"
    "map fst (r_prs r') = map fst (r_prs r)" "map fst (r_learner_prs r') = map fst (r_learner_prs r)"
  shows "raft_quiet r r'"
  using assms by (simp add: raft_quiet_def raft_wf_def raft_base_wf_def mode_wf_def timer_wf_def)

lemma raft_put_progress_quiet:
  assumes "raft_wf r" "raft_get_progress i r = Some p" "progress_wf q"
  shows "raft_quiet r (raft_put_progress i q r)"
  using raft_put_progress_peers [OF raft_wfD(2) [OF assms(1)] assms(2,3)]
    raft_put_progress_keys [OF assms(2)] raft_wfD(3) [OF assms(1)]
  by (intro raft_quiet_frame assms(1)) simp_all

definition vote_type :: "message_type \<Rightarrow> bool" where
  "vote_type t \<longleftrightarrow> t \<in> {MsgVote, MsgVoteResp, MsgPreVote, MsgPreVoteResp}"

definition stamped :: "message \<Rightarrow> raft \<Rightarrow> message" where
  "stamped msg r = msg\<lparr>m_from := r_id r,
     m_term := (if vote_type (m_type msg) \<or> m_type msg = MsgReadIndex then m_term msg else r_term r)\<rparr>"

lemma raft_send_spec:
  "raft_send msg r =
     (if vote_type (m_type msg) \<and> m_term msg = 0 then Inl (Fatal ''term should be set when sending'')
      else if \<not> vote_type (m_type msg) \<and> m_term msg \<noteq> 0
      then Inl (Fatal ''term should not be set when sending'')
      else Inr (r\<lparr>r_msgs := r_msgs r @ [stamped msg r]\<rparr>))"
proof -
  have "msg\<lparr>m_from := i, m_term := m_term msg\<rparr> = msg\<lparr>m_from := i\<rparr>" for i
    by (cases msg) simp
  then show ?thesis by (auto simp: raft_send_def stamped_def vote_type_def Let_def)
qed

lemma raft_send_quiet:
  assumes "raft_wf r" "raft_send msg r = Inr r'"
  shows "raft_quiet r r'"
proof -
  obtain ms where "r' = r\<lparr>r_msgs := ms\<rparr>" using assms(2) by (auto simp: raft_send_spec split: if_splits)
  then show ?thesis using raft_wfD(2,3) [OF assms(1)]
    by (intro raft_quiet_frame assms(1)) (simp_all add: peers_wf_def)
qed

lemma raft_send_heartbeat_quiet:
  "raft_wf r \<Longrightarrow> raft_send_heartbeat to ctx r = Inr r' \<Longrightarrow> raft_quiet r r'"
  by (auto simp: raft_send_heartbeat_def res_simps intro: raft_send_quiet)

lemma raft_bcast_heartbeat_with_ctx_quiet:
  "raft_wf r \<Longrightarrow> raft_bcast_heartbeat_with_ctx ctx r = Inr r' \<Longrightarrow> raft_quiet r r'"
  unfolding raft_bcast_heartbeat_with_ctx_def
  by (erule rq.loop) (auto split: if_splits intro: raft_send_heartbeat_quiet rq.rel_refl)

lemma raft_track_entries_wf:
  assumes "progress_wf p" "\<not> progress_is_paused p" "contig (pr_next p) es" "pr_next p + length es \<le> u64_max"
    "raft_track_entries es p = Inr p'"
  shows "progress_wf p'"
proof (cases "es = [] \<or> pr_state p \<noteq> ProgressStateReplicate")
  case True
  with assms show ?thesis
    by (cases "pr_state p") (auto simp: raft_track_entries_def split: if_splits intro: wf_intros)
next
  case False
  then have li: "e_index (last es) = pr_next p + length es - 1"
    using contig_last [OF assms(3)] by (cases es) simp_all
  have n: "0 < length es" using False by simp
  let ?p = "progress_optimistic_update (e_index (last es)) p"
  have "progress_wf ?p"
    using assms(1,4) False li n by (intro wf_intros) (auto simp: progress_wf_def)
  moreover have "\<not> inflights_is_full (pr_inflights ?p)"
    using assms(2) False by (simp add: progress_is_paused_def progress_optimistic_update_def)
  ultimately obtain f where "inflights_add (e_index (last es)) (pr_inflights ?p) = Inr f" "inflights_wf f"
    using ifw.add_law [of "pr_inflights ?p" "e_index (last es)"] by (auto simp: progress_wf_def)
  with \<open>progress_wf ?p\<close> False assms(5) show ?thesis
    by (auto simp: raft_track_entries_def Let_def progress_wf_def)
qed

lemma entry_limit_contig:
  "contig n es \<Longrightarrow> contig n (entry_limit_size m es)"
  by (subst entry_limit_size_take) (rule contig_take)

lemma raft_log_entries_contig:
  assumes "raft_log_wf l" "raft_log_entries n m [] l = Inr (s, es)" "n \<le> u64_max"
  shows "contig n es" "n + length es \<le> u64_max"
proof -
  consider "es = []" | "log_base l < n" "n \<le> log_last l"
      "es = entry_limit_size m (alog_slice (raft_log_abs l) n (Suc (log_last l)))"
    using assms(1,2) by (auto simp: raft_log_entries_wf split: if_splits)
  then have "contig n es \<and> n + length es \<le> u64_max"
  proof cases
    case 2
    then have "contig n (alog_slice (raft_log_abs l) n (Suc (log_last l)))"
      using raft_log_abs_wf [OF assms(1)] by (intro alog_slice_contig) auto
    moreover have "length es \<le> Suc (log_last l) - n"
      using 2 entry_limit_size_length [of m "alog_slice (raft_log_abs l) n (Suc (log_last l))"]
      by (simp add: alog_slice_length)
    ultimately show ?thesis using 2 log_last_bound [OF assms(1)] by (simp add: entry_limit_contig)
  qed (use assms in simp)
  then show "contig n es" "n + length es \<le> u64_max" by simp_all
qed

lemma raft_fill_snapshot_quiet:
  assumes "raft_wf r" "raft_get_progress to r = Some p" "raft_fill_snapshot to p msg r = Inr (b, r')"
  shows "raft_quiet r r'"
proof (cases "pr_recent_active p")
  case True
  obtain st snap where sn: "raft_log_snapshot (r_log r) = (st, snap)" by force
  let ?p = "progress_become_snapshot (snap_index snap) p"
  have q: "raft_quiet r (raft_put_progress to ?p r)"
    using assms raft_get_progress_wf [OF raft_wfD(2)] by (intro raft_put_progress_quiet) (auto intro: wf_intros)
  from assms(3) True sn have
    "raft_send (msg\<lparr>m_type := MsgSnap, m_snapshot := snap\<rparr>) (raft_put_progress to ?p r) = Inr r'"
    by (auto simp: raft_fill_snapshot_def res_simps Let_def split: if_splits)
  with q show ?thesis by (meson assms(1) raft_send_quiet rq.rel_ok rq.rel_trans)
qed (use assms in \<open>simp add: raft_fill_snapshot_def rq.rel_refl\<close>)

lemma raft_maybe_send_append_quiet:
  assumes wf: "raft_wf r" and res: "raft_maybe_send_append to e r = Inr (b, r')"
  shows "raft_quiet r r'"
proof -
  obtain p where p: "raft_get_progress to r = Some p"
    using res by (auto simp: raft_maybe_send_append_def res_simps raft_deref_progress_eq)
  have d: "raft_deref_progress to r = Inr p" using p by (simp add: raft_deref_progress_eq)
  have pw: "progress_wf p" using raft_get_progress_wf [OF raft_wfD(2) [OF wf] p] .
  show ?thesis
  proof (cases "progress_is_paused p")
    case True
    with d res show ?thesis using rq.rel_refl [OF wf] by (simp add: raft_maybe_send_append_def)
  next
    case False
    obtain s es where es: "raft_log_entries (pr_next p) (r_max_msg_size r) [] (r_log r) = Inr (s, es)"
      using res d False raft_wfD(1) [OF wf] by (auto simp: raft_maybe_send_append_def res_simps Let_def)
    have c: "contig (pr_next p) es" "pr_next p + length es \<le> u64_max"
      using raft_log_entries_contig [OF raft_wfD(1) [OF wf] es] pw by (auto simp: progress_wf_def)
    consider "r' = r" | m where "raft_fill_snapshot to p m r = Inr (b, r')"
      | m q where "raft_track_entries es p = Inr q" "raft_send m (raft_put_progress to q r) = Inr r'"
      using res d False raft_wfD(1) [OF wf] es
      by (auto simp: raft_maybe_send_append_def res_simps Let_def split: if_splits)
    then show ?thesis
    proof cases
      case 1
      then show ?thesis by (simp add: rq.rel_refl wf)
    next
      case 2
      then show ?thesis by (rule raft_fill_snapshot_quiet [OF wf p])
    next
      case 3
      have "raft_quiet r (raft_put_progress to q r)"
        using raft_track_entries_wf [OF pw False c 3(1)] by (intro raft_put_progress_quiet [OF wf p])
      with 3(2) wf show ?thesis by (meson raft_send_quiet rq.rel_ok rq.rel_trans)
    qed
  qed
qed

lemma raft_send_append_quiet:
  "raft_wf r \<Longrightarrow> raft_send_append to r = Inr r' \<Longrightarrow> raft_quiet r r'"
  by (auto simp: raft_send_append_def res_simps intro: raft_maybe_send_append_quiet)

lemma raft_bcast_append_quiet:
  "raft_wf r \<Longrightarrow> raft_bcast_append r = Inr r' \<Longrightarrow> raft_quiet r r'"
  unfolding raft_bcast_append_def
  by (erule rq.loop) (auto split: if_splits intro: raft_send_append_quiet rq.rel_refl)

lemma raft_send_all_quiet:
  "raft_wf r \<Longrightarrow> raft_send_all n to r = Inr r' \<Longrightarrow> raft_quiet r r'"
proof (induction n arbitrary: r)
  case (Suc n)
  then obtain b r1 where r1: "raft_maybe_send_append to False r = Inr (b, r1)"
    "(if b then raft_send_all n to r1 else Inr r1) = Inr r'" by (auto simp: res_simps)
  have q: "raft_quiet r r1" using raft_maybe_send_append_quiet [OF Suc.prems(1) r1(1)] .
  then have "raft_wf r1" using Suc.prems(1) by (rule rq.rel_ok [rotated])
  with Suc.IH r1(2) q show ?case by (auto split: if_splits intro: rq.rel_trans)
qed simp


section \<open>Term, vote and committed log only move forward\<close>

definition raft_grows :: "raft \<Rightarrow> raft \<Rightarrow> bool" where
  "raft_grows r r' \<longleftrightarrow>
     raft_wf r' \<and> r_id r' = r_id r \<and> r_term r \<le> r_term r' \<and>
     (r_term r' = r_term r \<and> r_vote r \<noteq> 0 \<longrightarrow> r_vote r' = r_vote r) \<and>
     log_keeps (r_log r) (r_log r')"

text \<open>The same for the caller, who writes to the storage and counts entries as applied.\<close>

definition raft_advances :: "raft \<Rightarrow> raft \<Rightarrow> bool" where
  "raft_advances r r' \<longleftrightarrow>
     raft_wf r' \<and> r_id r' = r_id r \<and> r_term r \<le> r_term r' \<and>
     (r_term r' = r_term r \<and> r_vote r \<noteq> 0 \<longrightarrow> r_vote r' = r_vote r) \<and>
     log_advances (r_log r) (r_log r')"

interpretation ra: run_relation raft_wf raft_advances
  by unfold_locales
    (auto simp: raft_advances_def raft_wf_def raft_base_wf_def intro: la.rel_refl la.rel_trans)

lemma raft_grows_advances: "raft_grows r r' \<Longrightarrow> raft_advances r r'"
  by (simp add: raft_grows_def raft_advances_def log_keeps_def)

interpretation re: run_relation raft_wf raft_grows
  by unfold_locales
    (auto simp: raft_grows_def raft_wf_def raft_base_wf_def intro: lk.rel_refl lk.rel_trans)

lemma raft_quiet_ext: "raft_wf r \<Longrightarrow> raft_quiet r r' \<Longrightarrow> raft_grows r r'"
  by (simp add: raft_quiet_def raft_grows_def raft_wfD(1) lk.rel_refl)

lemma raft_grows_log:
  assumes "raft_wf r" "log_keeps (r_log r) l"
  shows "raft_grows r (r\<lparr>r_log := l\<rparr>)"
  using assms
  by (auto simp: raft_grows_def raft_wf_def raft_base_wf_def mode_wf_def timer_wf_def peers_wf_def log_keeps_defs)

lemma raft_advances_log:
  assumes "raft_wf r" "log_advances (r_log r) l"
  shows "raft_advances r (r\<lparr>r_log := l\<rparr>)"
  using assms
  by (auto simp: raft_advances_def raft_wf_def raft_base_wf_def mode_wf_def timer_wf_def peers_wf_def log_advances_def)

lemma raft_maybe_commit_ext:
  assumes "raft_wf r" "raft_maybe_commit r = Inr (b, r')"
  shows "raft_grows r r'" "map fst (r_prs r') = map fst (r_prs r)" "r_id r' = r_id r"
proof -
  let ?r = "r\<lparr>r_match_buf := sort (map (pr_match \<circ> snd) (r_prs r))\<rparr>"
  have q: "raft_quiet r ?r"
    using raft_wfD(2,3) [OF assms(1)] by (intro raft_quiet_frame assms(1)) (simp_all add: peers_wf_def)
  obtain i l where l: "raft_log_maybe_commit i (r_term r) (r_log r) = Inr (b, l)" "r' = ?r\<lparr>r_log := l\<rparr>"
    using assms(2) by (auto simp: raft_maybe_commit_def Let_def res_simps)
  have "log_keeps (r_log ?r) l"
    using raft_log_maybe_commit_keeps [OF raft_wfD(1) [OF assms(1)] l(1)] by simp
  then have "raft_grows ?r r'" unfolding l(2) using q assms(1) by (intro raft_grows_log) (rule rq.rel_ok)
  with q assms(1) show "raft_grows r r'" by (blast intro: re.rel_trans raft_quiet_ext)
  show "map fst (r_prs r') = map fst (r_prs r)" "r_id r' = r_id r" using l(2) by simp_all
qed

subsection \<open>Changes of role\<close>

lemma random_gen_bound:
  assumes "timer_wf r" "random_device_gen (r_random_device r) = (x, d)"
  shows "x \<le> r_election_timeout r" "rd_min d = 0" "rd_max d = r_election_timeout r"
proof -
  have "y mod (r_election_timeout r + 1) \<le> r_election_timeout r" for y
    using mod_less_divisor [of "r_election_timeout r + 1" y] by linarith
  with assms show "x \<le> r_election_timeout r" "rd_min d = 0" "rd_max d = r_election_timeout r"
    by (auto simp: timer_wf_def random_device_gen_def split: list.splits)
qed

text \<open>The randomised timeout lies between once and twice the election timeout; the assertion holds.\<close>

lemma raft_reset_timeout_wf:
  assumes "timer_wf r"
  shows "\<exists>d t. raft_reset_randomized_election_timeout r =
      Inr (r\<lparr>r_random_device := d, r_randomized_election_timeout := t\<rparr>) \<and>
    rd_min d = 0 \<and> rd_max d = r_election_timeout r \<and>
    r_election_timeout r \<le> t \<and> t \<le> 2 * r_election_timeout r"
proof -
  obtain x d where g: "random_device_gen (r_random_device r) = (x, d)" by force
  note b = random_gen_bound [OF assms g]
  have "2 * r_election_timeout r \<le> u32_max" using assms by (simp add: timer_wf_def)
  with b have "add32 (r_election_timeout r) x = r_election_timeout r + x"
    "cast32 (2 * r_election_timeout r) = 2 * r_election_timeout r" by simp_all
  with g b show ?thesis
    by (intro exI [of _ d] exI [of _ "r_election_timeout r + x"])
      (simp add: raft_reset_randomized_election_timeout_def Let_def)
qed

definition fresh_progress :: "raft \<Rightarrow> u64 \<times> progress \<Rightarrow> u64 \<times> progress" where
  "fresh_progress r = (\<lambda>(i, p).
     (i, (new_progress (r_max_inflight r))\<lparr>pr_next := Suc (log_last (r_log r)), pr_is_learner := pr_is_learner p,
            pr_match := (if i = r_id r then log_last (r_log r) else 0)\<rparr>))"

lemma raft_reset_progress_wf:
  assumes "raft_log_wf (r_log r)"
  shows "raft_reset_progress r x = Inr (fresh_progress r x)"
  using assms log_last_bound [OF assms]
  by (cases x) (simp add: raft_reset_progress_def fresh_progress_def Let_def new_progress_def)

lemma fst_fresh_progress [simp]: "map fst (map (fresh_progress r) xs) = map fst xs"
  by (induction xs) (auto simp: fresh_progress_def)

lemma fresh_progress_wf:
  assumes "raft_log_wf (r_log r)" "2 * r_max_inflight r \<le> u32_max"
  shows "list_all (\<lambda>(i, p). progress_wf p) (map (fresh_progress r) xs)"
  using log_last_bound [OF assms(1)] assms(2)
  by (induction xs) (auto simp: fresh_progress_def intro!: new_progress_wf)

lemma raft_reset_wf:
  assumes "raft_base_wf r"
  shows "\<exists>r'. raft_reset t r = Inr r' \<and> raft_base_wf r' \<and> r_id r' = r_id r \<and> r_term r' = t \<and>
    r_vote r' = (if r_term r = t then r_vote r else 0) \<and> r_log r' = r_log r \<and>
    r_step r' = r_step r \<and> r_state r' = r_state r \<and> r_tick r' = r_tick r \<and>
    r_prs r' = map (fresh_progress r) (r_prs r) \<and>
    r_learner_prs r' = map (fresh_progress r) (r_learner_prs r) \<and>
    r_msgs r' = r_msgs r \<and> r_is_learner r' = r_is_learner r \<and> r_uncommitted_size r' = 0 \<and>
    r_votes r' = [] \<and> r_max_uncommitted_size r' = r_max_uncommitted_size r \<and>
    r_election_elapsed r' = 0 \<and> r_max_inflight r' = r_max_inflight r"
proof -
  let ?r1 = "(if r_term r \<noteq> t then r\<lparr>r_term := t, r_vote := 0\<rparr> else r)
    \<lparr>r_lead := 0, r_election_elapsed := 0, r_heartbeat_elapsed := 0\<rparr>"
  have b: "raft_log_wf (r_log r)" "peers_wf r" "read_only_wf (r_read_only r)" "timer_wf r"
    "2 * r_max_inflight r \<le> u32_max"
    using assms by (simp_all add: raft_base_wf_def)
  then have "timer_wf ?r1" by (simp add: timer_wf_def)
  from raft_reset_timeout_wf [OF this] obtain d tm where
    tm: "raft_reset_randomized_election_timeout ?r1 =
      Inr (?r1\<lparr>r_random_device := d, r_randomized_election_timeout := tm\<rparr>)"
    and d: "rd_min d = 0" "rd_max d = r_election_timeout r" by auto
  let ?r2 = "(raft_abort_leader_transfer (?r1\<lparr>r_random_device := d, r_randomized_election_timeout := tm\<rparr>))
    \<lparr>r_votes := []\<rparr>"
  have f: "fresh_progress ?r2 = fresh_progress r"
    by (rule ext) (auto simp: fresh_progress_def raft_abort_leader_transfer_def)
  have m: "mapr (raft_reset_progress ?r2) xs = Inr (map (fresh_progress r) xs)" for xs
    unfolding f [symmetric]
    using b(1) by (intro mapr_Inr raft_reset_progress_wf) (simp add: raft_abort_leader_transfer_def)
  let ?r' = "?r2\<lparr>r_prs := map (fresh_progress r) (r_prs r),
    r_learner_prs := map (fresh_progress r) (r_learner_prs r), r_pending_conf_index := 0, r_uncommitted_size := 0,
    r_read_only := (r_read_only r)\<lparr>ro_pending := [], ro_queue := []\<rparr>\<rparr>"
  have "raft_reset t r = Inr ?r'"
    unfolding raft_reset_def Let_def tm bindr.simps m by (simp add: raft_abort_leader_transfer_def)
  moreover have "raft_base_wf ?r'"
    using b d fresh_progress_wf [OF b(1,5), of "r_prs r"] fresh_progress_wf [OF b(1,5), of "r_learner_prs r"]
    by (simp add: raft_base_wf_def peers_wf_def timer_wf_def read_only_wf_def raft_abort_leader_transfer_def
        del: map_map)
  ultimately show ?thesis by (intro exI [of _ ?r']) (simp add: raft_abort_leader_transfer_def)
qed

lemma raft_become_follower_wf:
  assumes "raft_base_wf r"
  shows "\<exists>r'. raft_become_follower t lead r = Inr r' \<and> raft_wf r' \<and> r_id r' = r_id r \<and> r_term r' = t \<and>
    r_vote r' = (if r_term r = t then r_vote r else 0) \<and> r_log r' = r_log r \<and> r_state r' = Follower \<and>
    r_lead r' = lead \<and> map fst (r_prs r') = map fst (r_prs r) \<and>
    r_msgs r' = r_msgs r \<and> r_is_learner r' = r_is_learner r"
proof -
  have "raft_base_wf (r\<lparr>r_step := Some StepFollower\<rparr>)" using assms by simp
  from raft_reset_wf [OF this, of t] obtain r1 where
    "raft_reset t (r\<lparr>r_step := Some StepFollower\<rparr>) = Inr r1" "raft_base_wf r1" "r_id r1 = r_id r"
    "r_term r1 = t" "r_vote r1 = (if r_term r = t then r_vote r else 0)" "r_log r1 = r_log r"
    "r_step r1 = Some StepFollower" "map fst (r_prs r1) = map fst (r_prs r)" "r_msgs r1 = r_msgs r"
    "r_is_learner r1 = r_is_learner r"
    by (auto simp del: map_map)
  then show ?thesis
    by (auto simp: raft_become_follower_def raft_wf_def mode_wf_def)
qed

lemma raft_become_follower_ext:
  assumes "raft_wf r" "r_term r \<le> t" "raft_become_follower t lead r = Inr r'"
  shows "raft_grows r r'" "r_term r' = t" "r_log r' = r_log r" "r_state r' = Follower"
  using raft_become_follower_wf [OF raft_wfD(7) [OF assms(1)], of t lead] assms
  by (auto simp: raft_grows_def raft_wfD(1) lk.rel_refl)

lemma raft_become_candidate_wf:
  assumes "raft_wf r" "r_state r \<noteq> Leader"
  shows "\<exists>r'. raft_become_candidate r = Inr r' \<and> raft_wf r' \<and> r_id r' = r_id r \<and>
    r_term r' = add64 (r_term r) 1 \<and> r_vote r' = r_id r \<and> r_log r' = r_log r \<and> r_state r' = Candidate \<and>
    map fst (r_prs r') = map fst (r_prs r) \<and> r_votes r' = [] \<and> r_msgs r' = r_msgs r"
proof -
  have "raft_base_wf (r\<lparr>r_step := Some StepCandidate\<rparr>)"
    using raft_wfD(7) [OF assms(1)] by simp
  from raft_reset_wf [OF this, of "add64 (r_term r) 1"] obtain r1 where
    "raft_reset (add64 (r_term r) 1) (r\<lparr>r_step := Some StepCandidate\<rparr>) = Inr r1" "raft_base_wf r1"
    "r_id r1 = r_id r" "r_term r1 = add64 (r_term r) 1" "r_log r1 = r_log r" "r_votes r1 = []"
    "r_step r1 = Some StepCandidate" "map fst (r_prs r1) = map fst (r_prs r)" "r_msgs r1 = r_msgs r"
    by (auto simp del: map_map)
  with assms(2) show ?thesis
    by (auto simp: raft_become_candidate_def raft_wf_def mode_wf_def)
qed

lemma raft_become_candidate_ext:
  assumes "raft_wf r" "r_term r < u64_max" "raft_become_candidate r = Inr r'"
  shows "raft_grows r r'" "r_log r' = r_log r" "r_state r' = Candidate" "r_term r' = Suc (r_term r)"
    "r_vote r' = r_id r'"
proof -
  have "r_state r \<noteq> Leader" using assms(3) by (auto simp: raft_become_candidate_def)
  from raft_become_candidate_wf [OF assms(1) this] assms(2,3)
  show "raft_grows r r'" "r_log r' = r_log r" "r_state r' = Candidate" "r_term r' = Suc (r_term r)"
    "r_vote r' = r_id r'"
    by (auto simp: raft_grows_def raft_wfD(1) [OF assms(1)] lk.rel_refl)
qed

lemma raft_become_pre_candidate_ext:
  assumes "raft_wf r" "raft_become_pre_candidate r = Inr r'"
  shows "raft_grows r r'" "r_log r' = r_log r" "r_state r' = PreCandidate" "r_term r' = r_term r"
  using assms raft_wfD(1) [OF assms(1)]
  by (auto simp: raft_become_pre_candidate_def raft_grows_def raft_wf_def mode_wf_def lk.rel_refl
      split: if_splits)

subsection \<open>Appending as a leader\<close>

lemma raft_stamp_length [simp]: "length (raft_stamp t li i es) = length es"
  by (induction es arbitrary: i) simp_all

lemma raft_stamp_contig:
  "li + i + length es < u64_max \<Longrightarrow> contig (Suc (li + i)) (raft_stamp t li i es)"
proof (induction es arbitrary: i)
  case (Cons e es)
  from Cons.prems Cons.IH [of "Suc i"] show ?case by simp
qed simp

lemma raft_stamp_term: "e \<in> set (raft_stamp t li i es) \<Longrightarrow> e_term e = t"
  by (induction es arbitrary: i) auto

lemma raft_increase_uncommitted_quiet:
  "raft_wf r \<Longrightarrow> raft_increase_uncommitted_size es r = (b, r') \<Longrightarrow> raft_quiet r r'"
  using raft_wfD(2,3) [of r]
  by (auto simp: raft_increase_uncommitted_size_def Let_def peers_wf_def split: if_splits
      intro!: raft_quiet_frame rq.rel_refl)

lemma raft_reduce_uncommitted_quiet:
  "raft_wf r \<Longrightarrow> raft_quiet r (raft_reduce_uncommitted_size es r)"
  using raft_wfD(2,3) [of r]
  by (auto simp: raft_reduce_uncommitted_size_def Let_def peers_wf_def
      intro!: raft_quiet_frame rq.rel_refl)

lemma raft_append_entry_ext:
  assumes wf: "raft_wf r" and room: "log_last (r_log r) + length es < u64_max"
    and res: "raft_append_entry es r = Inr (b, r')"
  shows "raft_grows r r'"
proof -
  let ?li = "log_last (r_log r)"
  let ?es = "raft_stamp (r_term r) ?li 0 es"
  obtain b1 r1 where r1: "raft_increase_uncommitted_size ?es r = (b1, r1)" by force
  have q: "raft_quiet r r1" by (rule raft_increase_uncommitted_quiet [OF wf r1])
  then have w1: "raft_wf r1" "r_log r1 = r_log r" by (simp_all add: raft_quiet_def)
  show ?thesis
  proof (cases b1)
    case False
    with res r1 raft_wfD(1) [OF wf] raft_quiet_ext [OF wf q] show ?thesis
      by (simp add: raft_append_entry_def)
  next
    case True
    with res r1 raft_wfD(1) [OF wf] obtain li l p b2 where
      l: "raft_log_append ?es (r_log r1) = Inr (li, l)"
      and p: "raft_get_progress (r_id r1) (r1\<lparr>r_log := l\<rparr>) = Some p"
      and c: "raft_maybe_commit (raft_put_progress (r_id r1) (snd (progress_maybe_update li p)) (r1\<lparr>r_log := l\<rparr>))
        = Inr (b2, r')"
      by (auto simp: raft_append_entry_def Let_def res_simps raft_deref_progress_eq)
    have ct: "contig (Suc ?li) ?es" using raft_stamp_contig [of ?li 0 es] room by simp
    have "log_keeps (r_log r1) l"
      using raft_log_append_keeps [OF _ ct _ _ l] room w1 raft_wfD(1) [OF w1(1)] by simp
    then have e1: "raft_grows r1 (r1\<lparr>r_log := l\<rparr>)" by (rule raft_grows_log [OF w1(1)])
    then have w2: "raft_wf (r1\<lparr>r_log := l\<rparr>)" by (simp add: raft_grows_def)
    have "li = log_last l"
      using l raft_wfD(1) [OF w2]
      by (auto simp: raft_log_append_def Let_def res_simps split: if_splits)
    then have "li < u64_max" using log_last_bound [OF raft_wfD(1) [OF w2]] by simp
    then have "progress_wf (snd (progress_maybe_update li p))"
      using progress_maybe_update_wf(1) [of p li] raft_get_progress_wf [OF raft_wfD(2) [OF w2] p]
      by (metis surjective_pairing)
    then have q2: "raft_quiet (r1\<lparr>r_log := l\<rparr>)
        (raft_put_progress (r_id r1) (snd (progress_maybe_update li p)) (r1\<lparr>r_log := l\<rparr>))"
      by (rule raft_put_progress_quiet [OF w2 p])
    then have "raft_grows (r1\<lparr>r_log := l\<rparr>) r'"
      using raft_maybe_commit_ext(1) [OF _ c] w2 by (blast intro: re.rel_trans raft_quiet_ext rq.rel_ok)
    with e1 raft_quiet_ext [OF wf q] show ?thesis by (blast intro: re.rel_trans)
  qed
qed

end
