(* ===== verification/Raft_Steps.thy ===== *)
theory Raft_Steps
  imports Raft_Invariant
begin

text \<open>
  Every handler of a raft node keeps the invariant \<open>raft_wf\<close> and is related to its start
  state by \<open>raft_grows\<close>, for messages of the form that raft nodes send (\<open>msg_wf\<close>) and as
  long as term and log indices do not exhaust 64 bits.
\<close>

section \<open>Frame rules\<close>

lemma bindr_Inr_E: "bindr m f = Inr y \<Longrightarrow> (\<And>x. m = Inr x \<Longrightarrow> f x = Inr y \<Longrightarrow> P) \<Longrightarrow> P"
  by (cases m) auto

lemma bindr_pair_E:
  "bindr m (\<lambda>(a, b). f a b) = Inr y \<Longrightarrow> (\<And>a b. m = Inr (a, b) \<Longrightarrow> f a b = Inr y \<Longrightarrow> P) \<Longrightarrow> P"
  by (cases m) auto

lemma raft_grows_frame:
  assumes "raft_wf r" "raft_base_wf r'" "mode_wf r'" "r_id r' = r_id r" "r_term r' = r_term r"
    "r_vote r' = r_vote r" "r_log r' = r_log r"
  shows "raft_grows r r'"
  using assms by (simp add: raft_grows_def raft_wf_def raft_base_wf_def lk.rel_refl)

lemma raft_grows_wf: "raft_grows r r' \<Longrightarrow> raft_wf r'"
  by (simp add: raft_grows_def)

lemma raft_quiet_wf: "raft_quiet r r' \<Longrightarrow> raft_wf r'"
  by (simp add: raft_quiet_def)

lemmas raft_quiet_ext' = raft_quiet_ext [OF _ raft_send_quiet]
  raft_quiet_ext [OF _ raft_send_append_quiet] raft_quiet_ext [OF _ raft_bcast_append_quiet]
  raft_quiet_ext [OF _ raft_send_all_quiet] raft_quiet_ext [OF _ raft_bcast_heartbeat_with_ctx_quiet]

section \<open>Becoming leader\<close>

lemma raft_become_leader_ext:
  assumes wf: "raft_wf r" and room: "log_last (r_log r) + 1 < u64_max"
    and res: "raft_become_leader r = Inr r'"
  shows "raft_grows r r'"
proof -
  have "raft_base_wf (r\<lparr>r_step := Some StepLeader\<rparr>)" using raft_wfD(7) [OF wf] by simp
  from raft_reset_wf [OF this, of "r_term r"] obtain r1 where
    r1: "raft_reset (r_term r) (r\<lparr>r_step := Some StepLeader\<rparr>) = Inr r1" "raft_base_wf r1" "r_id r1 = r_id r"
    "r_term r1 = r_term r" "r_vote r1 = r_vote r" "r_log r1 = r_log r" "r_step r1 = Some StepLeader" by auto
  let ?r2 = "r1\<lparr>r_tick := Some TickHeartbeat, r_lead := r_id r1, r_state := Leader\<rparr>"
  have e2: "raft_grows r ?r2" using r1 by (intro raft_grows_frame [OF wf]) (simp_all add: mode_wf_def)
  obtain p where p: "map_of (r_prs ?r2) (r_id r1) = Some p"
    using res r1 by (auto simp: raft_become_leader_def Let_def res_simps split: if_splits option.splits)
  let ?r3 = "raft_put_progress (r_id r1) (progress_become_replicate p) ?r2"
  have g: "raft_get_progress (r_id r1) ?r2 = Some p" using p by (simp add: raft_get_progress_def)
  then have "progress_wf p" using raft_get_progress_wf [OF raft_wfD(2) [OF raft_grows_wf [OF e2]]] by blast
  then have q3: "raft_quiet ?r2 ?r3"
    by (intro raft_put_progress_quiet [OF raft_grows_wf [OF e2] g]) (rule wf_intros)
  let ?r4 = "?r3\<lparr>r_pending_conf_index := log_last (r_log r)\<rparr>"
  have w3: "raft_wf ?r3" by (rule raft_quiet_wf [OF q3])
  have e4: "raft_grows ?r3 ?r4" using w3 by (intro raft_grows_frame) (simp_all add: raft_wf_def)
  have l4: "r_log ?r4 = r_log r" using r1 by simp
  obtain r5 where a: "raft_append_entry [new_entry] ?r4 = Inr (True, r5)"
    and r': "r' = raft_reduce_uncommitted_size [new_entry] r5"
    using res r1 p raft_wfD(1) [OF wf]
    by (auto simp: raft_become_leader_def Let_def res_simps split: if_splits)
  have "raft_grows ?r4 r5"
    using raft_append_entry_ext [OF raft_grows_wf [OF e4] _ a] room l4 by simp
  moreover from this have "raft_grows r5 r'"
    unfolding r' by (intro raft_quiet_ext raft_reduce_uncommitted_quiet) (simp_all add: raft_grows_wf)
  ultimately show ?thesis
    using e2 raft_quiet_ext [OF raft_grows_wf [OF e2] q3] e4 by (blast intro: re.rel_trans)
qed

section \<open>Elections\<close>

lemma raft_poll_ext:
  assumes "raft_wf r" "raft_poll i t v r = Inr (n, r')"
  shows "raft_grows r r'" "r_log r' = r_log r" "r_term r' = r_term r" "r_state r' = r_state r"
    "r_prs r' = r_prs r" "r_id r' = r_id r"
    "n = cast32 (length (filter snd (r_votes r')))"
    "r_votes r' = (if map_of (r_votes r) i = None then AList.update i v (r_votes r) else r_votes r)"
proof -
  have "\<exists>vs. r' = r\<lparr>r_votes := vs\<rparr>"
    using assms(2) by (auto simp: raft_poll_def Let_def res_simps split: if_splits) (metis raft.surjective raft.update_convs(14))
  then obtain vs where r': "r' = r\<lparr>r_votes := vs\<rparr>" by blast
  show "raft_grows r r'" unfolding r' using assms(1) by (intro raft_grows_frame) (simp_all add: raft_wf_def)
  show "r_log r' = r_log r" "r_term r' = r_term r" "r_state r' = r_state r" "r_prs r' = r_prs r"
    "r_id r' = r_id r" by (simp_all add: r')
  show "n = cast32 (length (filter snd (r_votes r')))"
    "r_votes r' = (if map_of (r_votes r) i = None then AList.update i v (r_votes r) else r_votes r)"
    using assms(2) by (auto simp: raft_poll_def Let_def res_simps)
qed

lemma raft_request_vote_quiet:
  "raft_wf r \<Longrightarrow> raft_request_vote m t i r = Inr r' \<Longrightarrow> raft_quiet r r'"
  by (auto simp: raft_request_vote_def res_simps split: if_splits intro: raft_send_quiet rq.rel_refl)

lemma raft_request_votes_ext:
  assumes "raft_wf r" "for_each (raft_request_vote m t) is r = Inr r'"
  shows "raft_grows r r'"
  by (rule raft_quiet_ext [OF assms(1) rq.loop [OF assms]]) (rule raft_request_vote_quiet)

lemma raft_campaign_election_ext:
  assumes wf: "raft_wf r" and t: "r_term r < u64_max" and room: "log_last (r_log r) + 1 < u64_max"
    and res: "raft_campaign_election r = Inr r'"
  shows "raft_grows r r'"
proof -
  obtain r1 n r2 where r1: "raft_become_candidate r = Inr r1"
    and r2: "raft_poll (r_id r1) MsgVoteResp True r1 = Inr (n, r2)"
    and r': "(if raft_quorum r2 = n then raft_become_leader r2
      else for_each (raft_request_vote MsgVote (r_term r2)) (map fst (r_prs r2)) r2) = Inr r'"
    using res by (auto simp: raft_campaign_election_def res_simps)
  note e1 = raft_become_candidate_ext [OF wf t r1]
  note e2 = raft_poll_ext [OF raft_grows_wf [OF e1(1)] r2]
  have "raft_grows r2 r'"
    using r' raft_grows_wf [OF e2(1)] e1(2) e2(2) room
    by (auto split: if_splits intro: raft_become_leader_ext raft_request_votes_ext)
  with e1(1) e2(1) show ?thesis by (blast intro: re.rel_trans)
qed

lemma raft_campaign_ext:
  assumes wf: "raft_wf r" and t: "r_term r < u64_max" and room: "log_last (r_log r) + 1 < u64_max"
    and res: "raft_campaign ct r = Inr r'"
  shows "raft_grows r r'"
proof (cases "ct = kCampaignPreElection")
  case True
  then obtain r1 n r2 where r1: "raft_become_pre_candidate r = Inr r1"
    and r2: "raft_poll (r_id r1) MsgPreVoteResp True r1 = Inr (n, r2)"
    and r': "(if raft_quorum r2 = n then raft_campaign_election r2
      else for_each (raft_request_vote MsgPreVote (add64 (r_term r2) 1)) (map fst (r_prs r2)) r2) = Inr r'"
    using res by (auto simp: raft_campaign_def res_simps)
  note e1 = raft_become_pre_candidate_ext [OF wf r1]
  note e2 = raft_poll_ext [OF raft_grows_wf [OF e1(1)] r2]
  have "raft_grows r2 r'"
    using r' raft_grows_wf [OF e2(1)] e1(2,4) e2(2,3) room t
    by (auto split: if_splits intro: raft_campaign_election_ext raft_request_votes_ext)
  with e1(1) e2(1) show ?thesis by (blast intro: re.rel_trans)
qed (use assms raft_campaign_election_ext in \<open>simp add: raft_campaign_def\<close>)

section \<open>Requests from a leader\<close>

definition msg_wf :: "message \<Rightarrow> bool" where
  "msg_wf m \<longleftrightarrow>
     m_term m < u64_max \<and> m_index m + length (m_entries m) < u64_max \<and> m_reject_hint m < u64_max \<and>
     snap_index (m_snapshot m) < u64_max \<and>
     (m_type m \<in> {MsgApp, MsgHeartbeat, MsgSnap} \<longrightarrow> 0 < m_term m) \<and>
     (m_type m = MsgApp \<longrightarrow>
        contig (Suc (m_index m)) (m_entries m) \<and> list_all (\<lambda>e. 0 < e_term e) (m_entries m) \<and>
        (m_index m = 0 \<or> 0 < m_log_term m))"

text \<open>
  Append requests: a stale one is answered with the commit index, one that does not
  match with a rejection; one that matches is appended. The handler always returns.
\<close>

lemma match_in_log:
  assumes "raft_log_wf l" "t = alog_term_at (raft_log_abs l) i" "i = 0 \<or> 0 < t"
  shows "i \<le> log_last l"
  using assms alog_term_at_out [of i "raft_log_abs l"] by fastforce

lemma append_no_committed_conflict:
  assumes "contig (Suc i) es" "rl_committed l \<le> i"
  shows "conflict_index (raft_log_abs l) es = 0 \<or> rl_committed l < conflict_index (raft_log_abs l) es"
  using assms by (cases rule: conflict_index_cases [OF assms(1), of "raft_log_abs l"]) auto

lemma raft_log_maybe_append_request:
  assumes wf: "raft_log_wf l" and c: "contig (Suc i) es" and nz: "list_all (\<lambda>e. 0 < e_term e) es"
    and b: "i + length es < u64_max" and t0: "i = 0 \<or> 0 < t" and i: "rl_committed l \<le> i"
    and t: "t = alog_term_at (raft_log_abs l) i"
  shows "\<exists>l'. raft_log_maybe_append i t cm es l = Inr (i + length es, True, l') \<and> raft_log_wf l' \<and>
    raft_log_abs l' = appended i es (raft_log_abs l) \<and>
    rl_committed l' = max (rl_committed l) (min cm (i + length es)) \<and> log_keeps l l'"
proof -
  have nz': "\<forall>e \<in> set es. 0 < e_term e" using nz by (simp add: list_all_iff)
  have b0: "log_base l \<le> i" using raft_log_wfD(4) [OF wf] i by simp
  have li: "i \<le> log_last l" using match_in_log [OF wf t t0] .
  have ok: "conflict_index (raft_log_abs l) es = 0 \<or> rl_committed l < conflict_index (raft_log_abs l) es"
    using append_no_committed_conflict [OF c i] .
  obtain l' where l': "raft_log_maybe_append i t cm es l = Inr (i + length es, True, l')" "raft_log_wf l'"
    "raft_log_abs l' = appended i es (raft_log_abs l)"
    "rl_committed l' = max (rl_committed l) (min cm (i + length es))" "log_frame l l'"
    using raft_log_maybe_append_wf [OF wf c nz' b b0 li t ok] by blast
  have "log_keeps l l'" by (rule appended_keeps [OF wf l'(2,3) c nz' b0 li ok]) (simp_all add: l'(4,5))
  with l' show ?thesis by blast
qed

lemma raft_handle_append_entries_wf:
  assumes wf: "raft_wf r" and m: "msg_wf msg" "m_type msg = MsgApp"
  shows "\<exists>r'. raft_handle_append_entries msg r = Inr r' \<and> raft_grows r r' \<and>
    (r_log r' = r_log r \<or>
     rl_committed (r_log r) \<le> m_index msg \<and>
     m_log_term msg = alog_term_at (raft_log_abs (r_log r)) (m_index msg) \<and>
     raft_log_abs (r_log r') = appended (m_index msg) (m_entries msg) (raft_log_abs (r_log r)))"
proof -
  let ?l = "r_log r"
  have lw: "raft_log_wf ?l" by (rule raft_wfD(1) [OF wf])
  have send: "\<exists>r'. raft_send msg' r0 = Inr r' \<and> raft_grows r0 r' \<and> r_log r' = r_log r0"
    if "m_type msg' = MsgAppResp" "m_term msg' = 0" "raft_wf r0" for msg' r0
    using that raft_quiet_ext [OF that(3) raft_send_quiet [OF that(3)], of msg']
    by (simp add: raft_send_spec vote_type_def)
  consider "m_index msg < rl_committed ?l"
    | "rl_committed ?l \<le> m_index msg" "m_log_term msg \<noteq> alog_term_at (raft_log_abs ?l) (m_index msg)"
    | "rl_committed ?l \<le> m_index msg" "m_log_term msg = alog_term_at (raft_log_abs ?l) (m_index msg)"
    by fastforce
  then show ?thesis
  proof cases
    case 1
    with send [OF _ _ wf] show ?thesis
      by (force simp: raft_handle_append_entries_def new_message_def)
  next
    case 2
    with raft_log_maybe_append_reject [OF lw 2(2)] lw send [OF _ _ wf] show ?thesis
      by (force simp: raft_handle_append_entries_def new_message_def)
  next
    case 3
    obtain l' where l': "raft_log_maybe_append (m_index msg) (m_log_term msg) (m_commit msg) (m_entries msg) ?l =
        Inr (m_index msg + length (m_entries msg), True, l')"
      "raft_log_abs l' = appended (m_index msg) (m_entries msg) (raft_log_abs ?l)" "log_keeps ?l l'"
      using raft_log_maybe_append_request [OF lw _ _ _ _ 3(1,2)] m by (auto simp: msg_wf_def)
    have e: "raft_grows r (r\<lparr>r_log := l'\<rparr>)" by (rule raft_grows_log [OF wf l'(3)])
    obtain r' where "raft_send (new_message\<lparr>m_to := m_from msg, m_type := MsgAppResp,
        m_index := m_index msg + length (m_entries msg)\<rparr>) (r\<lparr>r_log := l'\<rparr>) = Inr r'"
      "raft_grows (r\<lparr>r_log := l'\<rparr>) r'" "r_log r' = l'"
      using send [OF _ _ raft_grows_wf [OF e], of "new_message\<lparr>m_to := m_from msg, m_type := MsgAppResp,
        m_index := m_index msg + length (m_entries msg)\<rparr>"] by (auto simp: new_message_def)
    with 3 l' e show ?thesis
      by (auto simp: raft_handle_append_entries_def intro: re.rel_trans)
  qed
qed

lemma raft_handle_append_entries_ext:
  "raft_wf r \<Longrightarrow> msg_wf msg \<Longrightarrow> m_type msg = MsgApp \<Longrightarrow>
   raft_handle_append_entries msg r = Inr r' \<Longrightarrow> raft_grows r r'"
  using raft_handle_append_entries_wf by force

lemma raft_handle_heartbeat_ext:
  assumes "raft_wf r" "raft_handle_heartbeat msg r = Inr r'"
  shows "raft_grows r r'"
proof -
  obtain l where l: "raft_log_commit_to (m_commit msg) (r_log r) = Inr l"
    "raft_send (new_message\<lparr>m_to := m_from msg, m_type := MsgHeartbeatResp\<rparr>) (r\<lparr>r_log := l\<rparr>) = Inr r'"
    using assms(2) by (auto simp: raft_handle_heartbeat_def res_simps)
  have e: "raft_grows r (r\<lparr>r_log := l\<rparr>)"
    using raft_log_commit_to_keeps [OF raft_wfD(1) [OF assms(1)] l(1)] by (rule raft_grows_log [OF assms(1)])
  with raft_quiet_ext'(1) [OF raft_grows_wf [OF e] raft_grows_wf [OF e] l(2)] show ?thesis
    by (blast intro: re.rel_trans)
qed

section \<open>Snapshots\<close>

lemma raft_set_progress_wf:
  assumes "peers_wf r" "2 * r_max_inflight r \<le> u32_max" "1 \<le> nx" "nx \<le> u64_max" "mt < u64_max"
    "raft_set_progress i mt nx b r = Inr r'"
  shows "peers_wf r'" "\<exists>a c. r' = r\<lparr>r_prs := a, r_learner_prs := c\<rparr>"
proof -
  let ?p = "(new_progress (r_max_inflight r))\<lparr>pr_next := nx, pr_match := mt\<rparr>"
  have pw: "progress_wf ?p" "progress_wf (?p\<lparr>pr_is_learner := True\<rparr>)"
    using assms(2-5) by (simp_all add: new_progress_wf)
  have k: "fst ` set (AList.delete i m) = fst ` set m - {i}" for m :: "(u64 \<times> progress) list"
    by (auto simp: AList.delete_eq image_iff)
  have upd: "(j, q) = (i, p) \<or> (j, q) \<in> set m" if "(j, q) \<in> set (AList.update i p m)" for j q p m
    using subsetD [OF set_update_subset that] by auto
  show "peers_wf r'"
  proof (cases b)
    case False
    with assms(6) have r': "r' = r\<lparr>r_learner_prs := AList.delete i (r_learner_prs r),
        r_prs := AList.update i ?p (r_prs r)\<rparr>" by (simp add: raft_set_progress_def Let_def)
    have "set (AList.delete i (r_learner_prs r)) \<subseteq> set (r_learner_prs r)" by (auto simp: AList.delete_eq)
    with assms(1) pw(1) k show ?thesis
      unfolding peers_wf_iff r' by (auto simp: distinct_update distinct_delete dom_update dest!: upd)
  next
    case True
    with assms(6) have r': "r' = r\<lparr>r_learner_prs := AList.update i (?p\<lparr>pr_is_learner := True\<rparr>) (r_learner_prs r)\<rparr>"
      and n: "i \<notin> fst ` set (r_prs r)"
      by (auto simp: raft_set_progress_def Let_def map_of_eq_None_keys split: if_splits)
    with assms(1) pw(2) n show ?thesis
      unfolding peers_wf_iff r' by (auto simp: distinct_update dom_update dest!: upd)
  qed
  show "\<exists>a c. r' = r\<lparr>r_prs := a, r_learner_prs := c\<rparr>"
    using assms(6) by (auto simp: raft_set_progress_def Let_def split: if_splits)
      (metis raft.surjective raft.update_convs(9) raft.update_convs(10))+
qed

lemma raft_grows_peers:
  assumes "raft_wf r" "peers_wf (r\<lparr>r_prs := a, r_learner_prs := c\<rparr>)"
  shows "raft_grows r (r\<lparr>r_prs := a, r_learner_prs := c\<rparr>)"
  using assms by (intro raft_grows_frame) (simp_all add: raft_wf_def raft_base_wf_def timer_wf_def mode_wf_def)

lemma raft_restore_node_ext:
  assumes wf: "raft_wf r" and res: "raft_restore_node b i r = Inr r'"
  shows "raft_grows r r'"
proof -
  let ?li = "log_last (r_log r)"
  have lb: "?li < u64_max" by (rule log_last_bound [OF raft_wfD(1) [OF wf]])
  then have a1: "add64 ?li 1 = Suc ?li" "sub64 (Suc ?li) 1 = ?li" by simp_all
  define r1 where "r1 = (if i = r_id r then r\<lparr>r_is_learner := b\<rparr> else r)"
  have e1: "raft_grows r r1"
    using wf unfolding r1_def by (auto intro: raft_grows_frame re.rel_refl simp: raft_wf_def)
  obtain mt where mt: "mt < u64_max" "raft_set_progress i mt (Suc ?li) b r1 = Inr r'"
  proof
    show "(if i = r_id r then ?li else 0) < u64_max" using lb by simp
    show "raft_set_progress i (if i = r_id r then ?li else 0) (Suc ?li) b r1 = Inr r'"
      using res raft_wfD(1) [OF wf]
      by (auto simp: raft_restore_node_def Let_def r1_def res_simps a1 split: if_splits)
  qed
  note w1 = raft_grows_wf [OF e1]
  have "1 \<le> Suc ?li" "Suc ?li \<le> u64_max" using lb by simp_all
  note p = raft_set_progress_wf [OF raft_wfD(2,6) [OF w1] this mt]
  from p(2) obtain a c where r': "r' = r1\<lparr>r_prs := a, r_learner_prs := c\<rparr>" by blast
  have "raft_grows r1 r'" using p(1) unfolding r' by (rule raft_grows_peers [OF w1])
  with e1 show ?thesis by (rule re.rel_trans)
qed

lemma raft_restore_ext:
  assumes wf: "raft_wf r" and s: "snap_index s < u64_max" and res: "raft_restore s r = Inr (b, r')"
  shows "raft_grows r r'"
proof -
  let ?l = "raft_log_restore s (r_log r)"
  let ?r = "r\<lparr>r_log := ?l, r_prs := [], r_learner_prs := []\<rparr>"
  consider "r' = r" | l where "raft_log_commit_to (snap_index s) (r_log r) = Inr l" "r' = r\<lparr>r_log := l\<rparr>"
    | r1 where "rl_committed (r_log r) < snap_index s"
        "for_each (raft_restore_node False) (cs_nodes (sm_conf_state (snap_metadata s))) ?r = Inr r1"
        "for_each (raft_restore_node True) (cs_learners (sm_conf_state (snap_metadata s))) r1 = Inr r'"
  proof (cases "snap_index s \<le> rl_committed (r_log r)")
    case True
    then show thesis using res that(1) by (simp add: raft_restore_def)
  next
    case False
    with res obtain m where m: "raft_log_match_term (snap_index s) (snap_term s) (r_log r) = Inr m"
      by (auto simp: raft_restore_def res_simps)
    note res' = res [unfolded raft_restore_def if_not_P [OF False] m bindr.simps]
    show thesis
    proof (cases m)
      case True
      with res' obtain l where "raft_log_commit_to (snap_index s) (r_log r) = Inr l" "r' = r\<lparr>r_log := l\<rparr>"
        by (auto simp: res_simps)
      then show thesis by (rule that(2))
    next
      case nm: False
      show thesis
      proof (cases "\<not> r_is_learner r \<and> r_id r \<in> set (cs_learners (sm_conf_state (snap_metadata s)))")
        case True
        with res' nm have "r' = r" by simp
        then show thesis by (rule that(1))
      next
        case nl: False
        from res' [unfolded if_not_P [OF nm] if_not_P [OF nl]] obtain r1 where
          "for_each (raft_restore_node False) (cs_nodes (sm_conf_state (snap_metadata s))) ?r = Inr r1"
          "for_each (raft_restore_node True) (cs_learners (sm_conf_state (snap_metadata s))) r1 = Inr r'"
          by (auto simp: res_simps Let_def)
        with False show thesis by (intro that(3)) simp_all
      qed
    qed
  qed
  then show ?thesis
  proof cases
    case 1
    then show ?thesis using re.rel_refl [OF wf] by simp
  next
    case 2
    then show ?thesis
      using raft_log_commit_to_keeps [OF raft_wfD(1) [OF wf] 2(1)] by (simp add: raft_grows_log [OF wf])
  next
    case 3
    have "log_keeps (r_log r) ?l" using raft_log_restore_keeps [OF raft_wfD(1) [OF wf] s] 3(1) by simp
    then have e: "raft_grows r (r\<lparr>r_log := ?l\<rparr>)" by (rule raft_grows_log [OF wf])
    have "raft_grows (r\<lparr>r_log := ?l\<rparr>) ?r"
      by (rule raft_grows_peers [OF raft_grows_wf [OF e]]) (simp add: peers_wf_def)
    with e have e0: "raft_grows r ?r" by (rule re.rel_trans)
    have e1: "raft_grows ?r r1" by (rule re.loop [OF raft_grows_wf [OF e0] 3(2)]) (rule raft_restore_node_ext)
    have "raft_grows r1 r'" by (rule re.loop [OF raft_grows_wf [OF e1] 3(3)]) (rule raft_restore_node_ext)
    with e0 e1 show ?thesis by (blast intro: re.rel_trans)
  qed
qed

lemma raft_handle_snapshot_ext:
  assumes "raft_wf r" "msg_wf msg" "raft_handle_snapshot msg r = Inr r'"
  shows "raft_grows r r'"
proof -
  obtain b r1 where r1: "raft_restore (m_snapshot msg) r = Inr (b, r1)"
    "raft_send (new_message\<lparr>m_to := m_from msg, m_type := MsgAppResp\<rparr>) r1 = Inr r'"
    using assms(3) by (auto simp: raft_handle_snapshot_def res_simps split: if_splits)
  have e: "raft_grows r r1" using raft_restore_ext [OF assms(1) _ r1(1)] assms(2) by (simp add: msg_wf_def)
  with raft_quiet_ext'(1) [OF raft_grows_wf [OF e] raft_grows_wf [OF e] r1(2)] show ?thesis
    by (blast intro: re.rel_trans)
qed

section \<open>Leader\<close>

lemma raft_filter_conf_ext:
  "raft_wf r \<Longrightarrow> raft_filter_conf i es r = Inr (es', r') \<Longrightarrow>
   raft_grows r r' \<and> length es' = length es \<and> r_log r' = r_log r"
proof (induction es arbitrary: i r es' r')
  case (Cons e es)
  from Cons.prems obtain e1 r1 es1 where
    h: "(\<exists>n. r1 = r\<lparr>r_pending_conf_index := n\<rparr>) \<or> r1 = r"
    "raft_filter_conf (Suc i) es r1 = Inr (es1, r')" "es' = e1 # es1"
    by (auto simp: res_simps split: if_splits)
  have e: "raft_grows r r1 \<and> r_log r1 = r_log r"
    using h(1) Cons.prems(1) by (auto intro!: raft_grows_frame re.rel_refl simp: raft_wf_def)
  from Cons.IH [OF _ h(2)] e h(3) show ?case by (auto intro: re.rel_trans raft_grows_wf)
qed (auto intro: re.rel_refl)

lemma raft_leader_prop_ext:
  assumes wf: "raft_wf r" and room: "log_last (r_log r) + length (m_entries msg) < u64_max"
    and res: "raft_leader_prop msg r = Inr (s, r')"
  shows "raft_grows r r'"
proof -
  consider "r' = r" | es r1 b r2 where "raft_filter_conf 0 (m_entries msg) r = Inr (es, r1)"
      "raft_append_entry es r1 = Inr (b, r2)" "r' = r2 \<or> raft_bcast_append r2 = Inr r'"
    using res by (auto simp: raft_leader_prop_def res_simps split: if_splits)
  then show ?thesis
  proof cases
    case 1
    then show ?thesis using re.rel_refl [OF wf] by simp
  next
    case 2
    note f = raft_filter_conf_ext [OF wf 2(1)]
    then have w1: "raft_wf r1" using raft_grows_wf by blast
    have a: "raft_grows r1 r2" using raft_append_entry_ext [OF w1 _ 2(2)] f room by simp
    then have w2: "raft_wf r2" by (rule raft_grows_wf)
    have "raft_grows r2 r'" using 2(3) w2 raft_quiet_ext'(3) [OF w2 w2] re.rel_refl [OF w2] by auto
    with f a show ?thesis by (blast intro: re.rel_trans)
  qed
qed

lemma raft_grows_read_only:
  "raft_wf r \<Longrightarrow> read_only_wf ro \<Longrightarrow> raft_grows r (r\<lparr>r_read_only := ro\<rparr>)"
  by (intro raft_grows_frame) (simp_all add: raft_wf_def raft_base_wf_read_only)

lemma raft_grows_read_states: "raft_wf r \<Longrightarrow> raft_grows r (r\<lparr>r_read_states := x\<rparr>)"
  by (intro raft_grows_frame) (simp_all add: raft_wf_def)

lemma raft_leader_read_index_ext:
  assumes wf: "raft_wf r" and res: "raft_leader_read_index msg r = Inr r'"
  shows "raft_grows r r'"
proof -
  consider "r' = r" | x where "r' = r\<lparr>r_read_states := x\<rparr>" | m where "raft_send m r = Inr r'"
    | ro e ctx where "vec_at (m_entries msg) 0 = Inr e"
        "read_only_add_request (rl_committed (r_log r)) msg (r_read_only r) = Inr ro"
        "raft_bcast_heartbeat_with_ctx ctx (r\<lparr>r_read_only := ro\<rparr>) = Inr r'"
    using res by (auto simp: raft_leader_read_index_def res_simps split: if_splits read_only_option.splits)
  then show ?thesis
  proof cases
    case 4
    obtain e' es where "m_entries msg = e' # es" using 4(1) by (cases "m_entries msg") (auto simp: vec_at_def)
    from read_only_add_request_wf [OF raft_wfD(3) [OF wf] this, of "rl_committed (r_log r)"] 4(2)
    have "read_only_wf ro" by auto
    then have e: "raft_grows r (r\<lparr>r_read_only := ro\<rparr>)" by (rule raft_grows_read_only [OF wf])
    with raft_quiet_ext'(5) [OF raft_grows_wf [OF e] raft_grows_wf [OF e] 4(3)] show ?thesis
      by (blast intro: re.rel_trans)
  qed (use wf re.rel_refl raft_grows_read_states raft_quiet_ext'(1) in auto)
qed

lemma progress_acked_wf:
  assumes "progress_wf p"
  shows "\<exists>q. progress_acked i p = Inr q \<and> progress_wf q"
proof -
  have "inflights_wf (pr_inflights p)" using assms by (simp add: progress_wf_def)
  then obtain f where "inflights_free_to i (pr_inflights p) = Inr f" "inflights_wf f"
    using ifw.free_law by blast
  then show ?thesis using assms by (auto simp: progress_acked_def intro: wf_intros)
qed

lemma progress_heartbeat_acked_wf:
  assumes "progress_wf p"
  shows "\<exists>q. progress_heartbeat_acked p = Inr q \<and> progress_wf q"
proof -
  let ?p = "progress_resume (p\<lparr>pr_recent_active := True\<rparr>)"
  have pw: "progress_wf ?p" using assms by (intro wf_intros)
  then have "inflights_wf (pr_inflights ?p)" by (simp add: progress_wf_def)
  then obtain f where "inflights_free_first_one (pr_inflights ?p) = Inr f" "inflights_wf f"
    unfolding inflights_free_first_one_def using ifw.free_law by blast
  then show ?thesis using pw by (auto simp: progress_heartbeat_acked_def Let_def intro: wf_intros)
qed

lemma raft_leader_acked_ext:
  assumes wf: "raft_wf r" and res: "raft_leader_acked from old r = Inr r'"
  shows "raft_grows r r'"
proof -
  from res obtain b r1 r2 r3 where c: "raft_maybe_commit r = Inr (b, r1)"
    and s: "(if b then raft_bcast_append r1 else if old then raft_send_append from r1 else Inr r1) = Inr r2"
    and a: "raft_send_all (raft_send_fuel from r2) from r2 = Inr r3"
    and t: "(if from = r_lead_transferee r3 then
       bindr (raft_deref_progress from r3) (\<lambda>p.
       bindr (raft_log_last_index (r_log r3)) (\<lambda>li.
       if pr_match p = li then raft_send_timeout_now from r3 else Inr r3))
     else Inr r3) = Inr r'"
    unfolding raft_leader_acked_def by (elim bindr_pair_E bindr_Inr_E) (rule that)
  note e1 = raft_maybe_commit_ext(1) [OF wf c]
  note w1 = raft_grows_wf [OF e1]
  have e2: "raft_grows r1 r2"
    using s raft_quiet_ext'(2,3) [OF w1 w1] re.rel_refl [OF w1] by (auto split: if_splits)
  note w2 = raft_grows_wf [OF e2]
  note e3 = raft_quiet_ext'(4) [OF w2 w2 a]
  note w3 = raft_grows_wf [OF e3]
  have "r' = r3 \<or> raft_send_timeout_now from r3 = Inr r'"
    using t by (auto simp: bindr_eq_Inr split: if_splits)
  then have "raft_grows r3 r'"
    using raft_quiet_ext'(1) [OF w3 w3] re.rel_refl [OF w3] by (auto simp: raft_send_timeout_now_def)
  with e1 e2 e3 show ?thesis by (blast intro: re.rel_trans)
qed

lemma raft_leader_app_resp_ext:
  assumes wf: "raft_wf r" and m: "msg_wf msg" and p: "raft_get_progress (m_from msg) r = Some p"
    and res: "raft_leader_app_resp msg p r = Inr r'"
  shows "raft_grows r r'"
proof -
  let ?p = "p\<lparr>pr_recent_active := True\<rparr>"
  have pw: "progress_wf ?p" using raft_get_progress_wf [OF raft_wfD(2) [OF wf] p] by (rule wf_intros)
  have put: "raft_quiet r (raft_put_progress (m_from msg) q r)" if "progress_wf q" for q
    by (rule raft_put_progress_quiet [OF wf p that])
  have mb: "m_index msg < u64_max" "m_reject_hint msg < u64_max" using m by (auto simp: msg_wf_def)
  show ?thesis
  proof (cases "m_reject msg")
    case True
    obtain b q where q: "progress_maybe_decreases_to (m_index msg) (m_reject_hint msg) ?p = (b, q)" by force
    have qw: "progress_wf q" using progress_maybe_decreases_to_wf(1) [OF pw mb(2) q] .
    define q' where "q' = (if pr_state q = ProgressStateReplicate then progress_become_probe q else q)"
    have "progress_wf q'" using qw by (auto simp: q'_def intro: wf_intros)
    note g = put [OF this]
    have "if b then raft_send_append (m_from msg) (raft_put_progress (m_from msg) q' r) = Inr r'
      else r' = raft_put_progress (m_from msg) q r"
      using res q True by (auto simp: raft_leader_app_resp_def Let_def q'_def)
    with raft_quiet_ext'(2) [OF raft_quiet_wf [OF g] raft_quiet_wf [OF g]] raft_quiet_ext [OF wf g]
      raft_quiet_ext [OF wf put [OF qw]]
    show ?thesis by (auto split: if_splits intro: re.rel_trans)
  next
    case False
    obtain b q where q: "progress_maybe_update (m_index msg) ?p = (b, q)" by force
    have qw: "progress_wf q" using progress_maybe_update_wf(1) [OF pw mb(1) q] .
    obtain q' where q': "progress_acked (m_index msg) q = Inr q'" "progress_wf q'"
      using progress_acked_wf [OF qw] by blast
    note g = put [OF q'(2)]
    have "if b then raft_leader_acked (m_from msg) (progress_is_paused ?p) (raft_put_progress (m_from msg) q' r) = Inr r'
      else r' = raft_put_progress (m_from msg) q r"
      using res q q'(1) False by (auto simp: raft_leader_app_resp_def Let_def)
    with raft_leader_acked_ext [OF raft_quiet_wf [OF g]] raft_quiet_ext [OF wf g]
      raft_quiet_ext [OF wf put [OF qw]]
    show ?thesis by (auto split: if_splits intro: re.rel_trans)
  qed
qed

lemma raft_answer_read_ext: "raft_wf r \<Longrightarrow> raft_answer_read rs r = Inr r' \<Longrightarrow> raft_grows r r'"
  by (auto simp: raft_answer_read_def Let_def res_simps split: if_splits
      intro: raft_grows_read_states raft_quiet_ext'(1))

lemma read_only_advance_keeps:
  assumes "read_only_wf ro" "read_only_advance msg ro = Inr (rss, ro')"
  shows "read_only_wf ro'"
proof (cases "m_context msg \<in> set (ro_queue ro)")
  case True
  with read_only_advance_wf [OF assms(1) True] assms(2) show ?thesis by auto
next
  case False
  with assms show ?thesis
    by (auto simp: read_only_advance_def read_only_collect_wf read_only_wf_def)
qed

lemma raft_leader_read_ack_ext:
  assumes wf: "raft_wf r" and res: "raft_leader_read_ack msg r = Inr r'"
  shows "raft_grows r r'"
proof -
  obtain n ro where ro: "read_only_recv_ack msg (r_read_only r) = (n, ro)" by force
  have rw: "read_only_wf ro" using read_only_recv_ack_wf(1) [OF raft_wfD(3) [OF wf] ro] .
  have g: "raft_grows r (r\<lparr>r_read_only := ro\<rparr>)" by (rule raft_grows_read_only [OF wf rw])
  note res' = res [unfolded raft_leader_read_ack_def ro prod.case Let_def raft.select_convs raft.update_convs]
  show ?thesis
  proof (cases "ro_option (r_read_only r) \<noteq> ReadOnlySafe \<or> m_context msg = []")
    case True
    with res' re.rel_refl [OF wf] show ?thesis by simp
  next
    case go: False
    show ?thesis
    proof (cases "n < raft_quorum (r\<lparr>r_read_only := ro\<rparr>)")
      case True
      with res' go g show ?thesis by simp
    next
      case False
      with res' go obtain rss ro' where 3: "read_only_advance msg ro = Inr (rss, ro')"
        "for_each raft_answer_read rss (r\<lparr>r_read_only := ro'\<rparr>) = Inr r'"
        by (auto simp: bindr_eq_Inr)
      have e2: "raft_grows r (r\<lparr>r_read_only := ro'\<rparr>)"
        by (rule raft_grows_read_only [OF wf read_only_advance_keeps [OF rw 3(1)]])
      have "raft_grows (r\<lparr>r_read_only := ro'\<rparr>) r'"
        by (rule re.loop [OF raft_grows_wf [OF e2] 3(2)]) (rule raft_answer_read_ext)
      with e2 show ?thesis by (rule re.rel_trans)
    qed
  qed
qed

lemma raft_leader_heartbeat_resp_ext:
  assumes wf: "raft_wf r" and p: "raft_get_progress (m_from msg) r = Some p"
    and res: "raft_leader_heartbeat_resp msg p r = Inr r'"
  shows "raft_grows r r'"
proof -
  obtain q where q: "progress_heartbeat_acked p = Inr q" "progress_wf q"
    using progress_heartbeat_acked_wf [OF raft_get_progress_wf [OF raft_wfD(2) [OF wf] p]] by blast
  let ?r = "raft_put_progress (m_from msg) q r"
  note g = raft_put_progress_quiet [OF wf p q(2)]
  note w = raft_quiet_wf [OF g]
  from res q(1) obtain r1 where
    r1: "(if pr_match q < log_last (r_log r) then raft_send_append (m_from msg) ?r else Inr ?r) = Inr r1"
    and r': "raft_leader_read_ack msg r1 = Inr r'"
    using raft_wfD(1) [OF wf]
    by (simp only: raft_leader_heartbeat_resp_def bindr.simps Let_def raft_put_progress_sel
        raft_log_last_index_wf bindr_eq_Inr) blast
  have e1: "raft_grows ?r r1"
    using r1 raft_quiet_ext'(2) [OF w w] re.rel_refl [OF w] by (auto split: if_splits)
  with raft_leader_read_ack_ext [OF raft_grows_wf [OF e1] r'] raft_quiet_ext [OF wf g] show ?thesis
    by (blast intro: re.rel_trans)
qed


lemma raft_leader_snap_status_ext:
  assumes "raft_wf r" "raft_get_progress (m_from msg) r = Some p"
  shows "raft_grows r (raft_leader_snap_status msg p r)"
proof -
  note pw = raft_get_progress_wf [OF raft_wfD(2) [OF assms(1)] assms(2)]
  then have "raft_quiet r (raft_put_progress (m_from msg) (progress_set_pause (if \<not> m_reject msg
      then progress_become_probe p else progress_become_probe (progress_snapshot_failure p))) r)"
    by (intro raft_put_progress_quiet [OF assms]) (auto intro: wf_intros)
  from raft_quiet_ext [OF assms(1) this] re.rel_refl [OF assms(1)] show ?thesis
    by (simp add: raft_leader_snap_status_def)
qed

lemma raft_leader_unreachable_ext:
  assumes "raft_wf r" "raft_get_progress (m_from msg) r = Some p"
  shows "raft_grows r (raft_leader_unreachable msg p r)"
proof -
  have "raft_quiet r (raft_put_progress (m_from msg) (progress_become_probe p) r)"
    using raft_get_progress_wf [OF raft_wfD(2) [OF assms(1)] assms(2)]
    by (intro raft_put_progress_quiet [OF assms]) (rule wf_intros)
  from raft_quiet_ext [OF assms(1) this] re.rel_refl [OF assms(1)] show ?thesis
    by (simp add: raft_leader_unreachable_def)
qed

lemma raft_grows_transferee:
  "raft_wf r \<Longrightarrow> raft_grows r (r\<lparr>r_lead_transferee := x\<rparr>)"
  "raft_wf r \<Longrightarrow> raft_grows r (r\<lparr>r_election_elapsed := e, r_lead_transferee := x\<rparr>)"
  "raft_wf r \<Longrightarrow> raft_grows r (r\<lparr>r_election_elapsed := e\<rparr>)"
  "raft_wf r \<Longrightarrow> raft_grows r (r\<lparr>r_election_elapsed := e, r_lead := y\<rparr>)"
  "raft_wf r \<Longrightarrow> raft_grows r (r\<lparr>r_heartbeat_elapsed := h\<rparr>)"
  "raft_wf r \<Longrightarrow> raft_grows r (r\<lparr>r_heartbeat_elapsed := h, r_election_elapsed := e\<rparr>)"
  by (intro raft_grows_frame; simp add: raft_wf_def)+

lemma raft_leader_transfer_ext:
  assumes wf: "raft_wf r" and res: "raft_leader_transfer msg p r = Inr r'"
  shows "raft_grows r r'"
proof -
  define r1 where "r1 = (if r_lead_transferee r \<noteq> 0 then raft_abort_leader_transfer r else r)"
  define r2 where "r2 = r1\<lparr>r_election_elapsed := 0, r_lead_transferee := m_from msg\<rparr>"
  have e1: "raft_grows r r1"
    using wf by (simp add: r1_def raft_abort_leader_transfer_def raft_grows_transferee re.rel_refl)
  note w1 = raft_grows_wf [OF e1]
  have e2: "raft_grows r r2" using re.rel_trans [OF e1 raft_grows_transferee(2) [OF w1]] by (simp add: r2_def)
  note w2 = raft_grows_wf [OF e2]
  have "Inr r' = (Inr r :: raft res) \<or> Inr r' = (Inr r1 :: raft res) \<or>
      raft_send_timeout_now (m_from msg) r2 = Inr r' \<or> raft_send_append (m_from msg) r2 = Inr r'"
    using res [unfolded raft_leader_transfer_def Let_def, folded r1_def, folded r2_def]
    by (auto simp: raft_log_last_index_wf [OF raft_wfD(1) [OF w2]] split: if_split_asm)
  then show ?thesis
    using re.rel_refl [OF wf] e1 e2 raft_quiet_ext'(1,2) [OF w2 w2]
    by (auto simp: raft_send_timeout_now_def intro: re.rel_trans)
qed

lemma with_ok_eq: "with_ok m = Inr (s, r') \<longleftrightarrow> s = StatusOK \<and> m = Inr r'"
  by (cases m) (auto simp: with_ok_def)

lemma raft_step_leader_ext:
  assumes wf: "raft_wf r" and m: "msg_wf msg" and room: "log_last (r_log r) + length (m_entries msg) < u64_max"
    and res: "raft_step_leader msg r = Inr (s, r')"
  shows "raft_grows r r'"
proof -
  consider "raft_bcast_heartbeat r = Inr r'" | "raft_become_follower (r_term r) 0 r = Inr r'"
    | "Inr r' = (Inr r :: raft res)" | "raft_leader_prop msg r = Inr (s, r')" | "raft_leader_read_index msg r = Inr r'"
    | p where "raft_get_progress (m_from msg) r = Some p"
        "raft_leader_app_resp msg p r = Inr r' \<or> raft_leader_heartbeat_resp msg p r = Inr r' \<or>
         Inr r' = (Inr (raft_leader_snap_status msg p r) :: raft res) \<or>
         Inr r' = (Inr (raft_leader_unreachable msg p r) :: raft res) \<or> raft_leader_transfer msg p r = Inr r'"
    using res by (auto simp: raft_step_leader_def with_ok_eq split: if_split_asm option.split_asm)
  then show ?thesis
  proof cases
    case 1
    then show ?thesis unfolding raft_bcast_heartbeat_def by (rule raft_quiet_ext'(5) [OF wf wf])
  next
    case 6
    then show ?thesis
      using raft_leader_app_resp_ext [OF wf m] raft_leader_heartbeat_resp_ext [OF wf]
        raft_leader_snap_status_ext [OF wf] raft_leader_unreachable_ext [OF wf] raft_leader_transfer_ext [OF wf]
      by (elim disjE) simp_all
  qed (use raft_become_follower_ext(1) [OF wf order_refl] re.rel_refl [OF wf] raft_leader_prop_ext [OF wf room]
      raft_leader_read_index_ext [OF wf] in simp_all)
qed

section \<open>Candidate and follower\<close>

lemma raft_candidate_vote_resp_ext:
  assumes wf: "raft_wf r" and t: "r_term r < u64_max" and room: "log_last (r_log r) + 1 < u64_max"
    and res: "raft_candidate_vote_resp msg r = Inr r'"
  shows "raft_grows r r'"
proof -
  obtain gr r1 where p: "raft_poll (m_from msg) (m_type msg) (\<not> m_reject msg) r = Inr (gr, r1)"
    and c: "raft_campaign kCampaignElection r1 = Inr r' \<or>
      bindr (raft_become_leader r1) raft_bcast_append = Inr r' \<or>
      raft_become_follower (r_term r1) 0 r1 = Inr r' \<or> Inr r' = (Inr r1 :: raft res)"
    using res unfolding raft_candidate_vote_resp_def
    by (elim bindr_pair_E bindr_Inr_E) (auto simp: bindr_eq_Inr split: if_split_asm)
  note e1 = raft_poll_ext [OF wf p]
  note w1 = raft_grows_wf [OF e1(1)]
  have room1: "log_last (r_log r1) + 1 < u64_max" and t1: "r_term r1 < u64_max"
    using e1(2,3) room t by simp_all
  have "raft_grows r1 r'" if "raft_become_leader r1 = Inr r2" "raft_bcast_append r2 = Inr r'" for r2
  proof -
    note e2 = raft_become_leader_ext [OF w1 room1 that(1)]
    note w2 = raft_grows_wf [OF e2]
    show ?thesis by (rule re.rel_trans [OF e2 raft_quiet_ext'(3) [OF w2 w2 that(2)]])
  qed
  with c have "raft_grows r1 r'"
    using raft_campaign_ext [OF w1 t1 room1] raft_become_follower_ext(1) [OF w1 order_refl] re.rel_refl [OF w1]
    by (elim disjE bindr_Inr_E) simp_all
  with e1(1) show ?thesis by (rule re.rel_trans)
qed

text \<open>What a step may assume about the message and about the remaining room.\<close>

definition step_ok :: "message \<Rightarrow> raft \<Rightarrow> bool" where
  "step_ok msg r \<longleftrightarrow>
     msg_wf msg \<and> r_term r < u64_max \<and> log_last (r_log r) + length (m_entries msg) + 1 < u64_max"

lemma raft_step_candidate_ext:
  assumes wf: "raft_wf r" and ok: "step_ok msg r"
    and t: "m_type msg \<in> {MsgApp, MsgHeartbeat, MsgSnap} \<Longrightarrow> r_term r \<le> m_term msg"
    and res: "raft_step_candidate msg r = Inr (s, r')"
  shows "raft_grows r r'"
proof -
  have m: "msg_wf msg" "r_term r < u64_max" "log_last (r_log r) + 1 < u64_max"
    using ok by (auto simp: step_ok_def)
  have follow: "raft_grows r r'"
    if "m_type msg \<in> {MsgApp, MsgHeartbeat, MsgSnap}"
      and "bindr (raft_become_follower (m_term msg) (m_from msg) r) h = Inr r'"
      and "\<And>q q'. raft_wf q \<Longrightarrow> h q = Inr q' \<Longrightarrow> raft_grows q q'" for h
  proof -
    from t [OF that(1)] that(2,3) show ?thesis
      by (elim bindr_Inr_E) (meson raft_become_follower_ext(1) [OF wf] raft_grows_wf re.rel_trans)
  qed
  show ?thesis
    using res follow [of "raft_handle_append_entries msg"] follow [of "raft_handle_heartbeat msg"]
      follow [of "raft_handle_snapshot msg"] raft_handle_append_entries_ext [OF _ m(1)]
      raft_handle_heartbeat_ext raft_handle_snapshot_ext [OF _ m(1)]
      raft_candidate_vote_resp_ext [OF wf m(2,3)] re.rel_refl [OF wf]
    unfolding raft_step_candidate_def by (auto simp only: with_ok_eq sum.inject prod.inject split: if_split_asm)
qed

lemma raft_step_follower_ext:
  assumes wf: "raft_wf r" and ok: "step_ok msg r" and res: "raft_step_follower msg r = Inr (s, r')"
  shows "raft_grows r r'"
proof -
  have m: "msg_wf msg" "r_term r < u64_max" "log_last (r_log r) + 1 < u64_max"
    using ok by (auto simp: step_ok_def)
  let ?r = "r\<lparr>r_election_elapsed := 0, r_lead := m_from msg\<rparr>"
  have e: "raft_grows r ?r" by (rule raft_grows_transferee(4) [OF wf])
  have heard: "raft_grows r r'" if "h ?r = Inr r'" "\<And>q q'. raft_wf q \<Longrightarrow> h q = Inr q' \<Longrightarrow> raft_grows q q'" for h
    using re.rel_trans [OF e that(2) [OF raft_grows_wf [OF e] that(1)]] .
  show ?thesis
    using res heard [of "raft_handle_append_entries msg"] heard [of "raft_handle_heartbeat msg"]
      heard [of "raft_handle_snapshot msg"] raft_handle_append_entries_ext [OF _ m(1)]
      raft_handle_heartbeat_ext raft_handle_snapshot_ext [OF _ m(1)]
      raft_campaign_ext [OF wf m(2,3)] re.rel_refl [OF wf] raft_quiet_ext'(1) [OF wf wf]
      raft_grows_read_states [OF wf]
    unfolding raft_step_follower_def
    by (auto simp only: with_ok_eq sum.inject prod.inject split: if_split_asm list.split_asm)
qed

section \<open>Step and tick\<close>

lemma raft_step_hup_ext:
  assumes wf: "raft_wf r" and t: "r_term r < u64_max" and room: "log_last (r_log r) + 1 < u64_max"
    and res: "raft_step_hup r = Inr r'"
  shows "raft_grows r r'"
  using res raft_campaign_ext [OF wf t room] re.rel_refl [OF wf] unfolding raft_step_hup_def
  by (auto simp only: sum.inject elim!: bindr_pair_E split: if_split_asm)

text \<open>A vote is recorded only for the candidate already voted for, or when none was.\<close>

lemma raft_step_vote_ext:
  assumes wf: "raft_wf r" and res: "raft_step_vote msg r = Inr r'"
  shows "raft_grows r r'"
proof (cases "r_is_learner r")
  case True
  with res re.rel_refl [OF wf] show ?thesis
    unfolding raft_step_vote_def by (auto simp only: sum.inject if_True elim!: bindr_Inr_E)
next
  case False
  from res [unfolded raft_step_vote_def if_not_P [OF False]] obtain g resp where
    g: "(if raft_can_vote msg r then raft_log_is_up_to_date (m_index msg) (m_log_term msg) (r_log r)
      else Inr False) = Inr g"
    and s: "(if g then bindr (raft_send (new_message\<lparr>m_to := m_from msg, m_term := m_term msg, m_type := resp\<rparr>) r)
        (\<lambda>r. if m_type msg = MsgVote then Inr (r\<lparr>r_election_elapsed := 0, r_vote := m_from msg\<rparr>) else Inr r)
      else raft_send (new_message\<lparr>m_to := m_from msg, m_term := r_term r, m_type := resp, m_reject := True\<rparr>) r) = Inr r'"
    by (elim bindr_Inr_E) (rule that)
  show ?thesis
  proof (cases g)
    case False
    with s show ?thesis using raft_quiet_ext'(1) [OF wf wf] by simp
  next
    case True
    with s obtain r1 where r1: "raft_send (new_message\<lparr>m_to := m_from msg, m_term := m_term msg, m_type := resp\<rparr>) r = Inr r1"
      and r': "(if m_type msg = MsgVote then Inr (r1\<lparr>r_election_elapsed := 0, r_vote := m_from msg\<rparr>) else Inr r1) = (Inr r' :: raft res)"
      by (simp only: if_True) (elim bindr_Inr_E, rule that)
    note q = raft_send_quiet [OF wf r1]
    show ?thesis
    proof (cases "m_type msg = MsgVote")
      case vote: True
      have "raft_can_vote msg r" using g True by (auto split: if_splits)
      then have "r_vote r = m_from msg \<or> r_vote r = 0" using vote by (auto simp: raft_can_vote_def)
      moreover have "r' = r1\<lparr>r_election_elapsed := 0, r_vote := m_from msg\<rparr>" using r' vote by simp
      ultimately show ?thesis
        using q raft_wfD(1) [OF wf] by (auto simp: raft_grows_def raft_quiet_def raft_wf_def lk.rel_refl)
    qed (use r' raft_quiet_ext [OF wf q] in simp)
  qed
qed

lemma raft_step_type_ext:
  assumes wf: "raft_wf r" and ok: "step_ok msg r"
    and t: "m_type msg \<in> {MsgApp, MsgHeartbeat, MsgSnap} \<Longrightarrow> r_term r \<le> m_term msg"
    and res: "raft_step_type msg r = Inr (s, r')"
  shows "raft_grows r r'"
proof -
  have m: "msg_wf msg" "r_term r < u64_max" "log_last (r_log r) + 1 < u64_max"
    "log_last (r_log r) + length (m_entries msg) < u64_max"
    using ok by (auto simp: step_ok_def)
  show ?thesis
    using res raft_step_hup_ext [OF wf m(2,3)] raft_step_vote_ext [OF wf] raft_step_leader_ext [OF wf m(1,4)]
      raft_step_candidate_ext [OF wf ok t] raft_step_follower_ext [OF wf ok]
    unfolding raft_step_type_def raft_call_step_def
    by (auto simp only: with_ok_eq sum.simps split: if_split_asm option.split_asm step_fn.split_asm)
qed

lemma raft_step_higher_ext:
  assumes wf: "raft_wf r" and ok: "step_ok msg r" and hi: "r_term r < m_term msg"
    and res: "raft_step_higher msg r = Inr (s, r')"
  shows "raft_grows r r'"
proof -
  have type: "raft_grows r r'" if "raft_step_type msg r = Inr (s, r')"
    using raft_step_type_ext [OF wf ok _ that] hi by simp
  have follow: "raft_grows r r'"
    if f: "raft_become_follower (m_term msg) lead r = Inr r1" and s: "raft_step_type msg r1 = Inr (s, r')" for lead r1
  proof -
    note e = raft_become_follower_ext [OF wf less_imp_le [OF hi] f]
    have "step_ok msg r1" using ok e(2,3) by (simp add: step_ok_def msg_wf_def)
    with raft_step_type_ext [OF raft_grows_wf [OF e(1)] _ _ s] e(1,2) show ?thesis
      by (auto intro: re.rel_trans)
  qed
  show ?thesis
    using res type follow re.rel_refl [OF wf] unfolding raft_step_higher_def
    by (auto simp only: sum.inject prod.inject elim!: bindr_Inr_E split: if_split_asm)
qed

lemma raft_step_lower_ext:
  assumes wf: "raft_wf r" and res: "raft_step_lower msg r = Inr (s, r')"
  shows "raft_grows r r'"
  using res raft_quiet_ext'(1) [OF wf wf] re.rel_refl [OF wf] unfolding raft_step_lower_def
  by (auto simp only: with_ok_eq sum.inject prod.inject elim!: bindr_Inr_E split: if_split_asm)

lemma raft_step_ext:
  assumes wf: "raft_wf r" and ok: "step_ok msg r" and res: "raft_step msg r = Inr (s, r')"
  shows "raft_grows r r'"
proof -
  have "m_term msg = 0 \<Longrightarrow> m_type msg \<notin> {MsgApp, MsgHeartbeat, MsgSnap}"
    using ok by (auto simp: step_ok_def msg_wf_def)
  then show ?thesis
    using res raft_step_type_ext [OF wf ok] raft_step_higher_ext [OF wf ok] raft_step_lower_ext [OF wf]
    unfolding raft_step_def by (auto split: if_split_asm)
qed

lemma local_msg_ok:
  assumes "raft_wf r" "r_term r < u64_max" "log_last (r_log r) + 1 < u64_max"
    "t \<notin> {MsgApp, MsgHeartbeat, MsgSnap}"
  shows "step_ok (new_message\<lparr>m_from := i, m_type := t\<rparr>) r"
  using assms by (simp add: step_ok_def msg_wf_def new_message_def new_snapshot_def u64_max_def)

lemma raft_tick_election_ext:
  assumes wf: "raft_wf r" and t: "r_term r < u64_max" and room: "log_last (r_log r) + 1 < u64_max"
    and res: "raft_tick_election r = Inr r'"
  shows "raft_grows r r'"
proof -
  let ?r = "r\<lparr>r_election_elapsed := add32 (r_election_elapsed r) 1\<rparr>"
  let ?m = "new_message\<lparr>m_from := r_id r, m_type := MsgHup\<rparr>"
  have e: "raft_grows r ?r" "raft_grows r (r\<lparr>r_election_elapsed := 0\<rparr>)"
    by (rule raft_grows_transferee(3) [OF wf])+
  have ok: "step_ok ?m (r\<lparr>r_election_elapsed := 0\<rparr>)"
    using t room by (intro local_msg_ok [OF raft_grows_wf [OF e(2)]]) simp_all
  show ?thesis
  proof (cases "raft_promotable ?r \<and> raft_past_election_timeout ?r")
    case True
    then obtain s where "raft_step ?m (r\<lparr>r_election_elapsed := 0\<rparr>) = Inr (s, r')"
      using res by (auto simp: raft_tick_election_def bindr_eq_Inr)
    from raft_step_ext [OF raft_grows_wf [OF e(2)] ok this] e(2) show ?thesis by (blast intro: re.rel_trans)
  next
    case False
    with res e(1) show ?thesis by (auto simp: raft_tick_election_def)
  qed
qed

lemma raft_leader_local_ext:
  assumes wf: "raft_wf r" and ty: "ty \<in> {MsgBeat, MsgCheckQuorum}"
    and res: "raft_step (new_message\<lparr>m_from := i, m_type := ty\<rparr>) r = Inr (s, r')"
  shows "raft_grows r r'"
proof -
  have "raft_bcast_heartbeat r = Inr r' \<or> raft_become_follower (r_term r) 0 r = Inr r' \<or> r = r'"
    using res ty
    by (auto simp: raft_step_def raft_step_type_def raft_call_step_def raft_step_leader_def raft_step_candidate_def
        raft_step_follower_def new_message_def with_ok_eq split: option.split_asm step_fn.split_asm if_split_asm)
  then show ?thesis
    using raft_quiet_ext'(5) [OF wf wf] raft_become_follower_ext(1) [OF wf order_refl] re.rel_refl [OF wf]
    by (auto simp: raft_bcast_heartbeat_def)
qed

lemma raft_tick_timeout_ext:
  assumes wf: "raft_wf r" and res: "raft_tick_timeout r = Inr r'"
  shows "raft_grows r r'"
proof (cases "r_election_elapsed r \<ge> r_election_timeout r")
  case True
  let ?q = "r\<lparr>r_election_elapsed := 0\<rparr>"
  have e: "raft_grows r ?q" by (rule raft_grows_transferee(3) [OF wf])
  note w = raft_grows_wf [OF e]
  from res [unfolded raft_tick_timeout_def if_P [OF True] Let_def] obtain q1 where
    q1: "(if r_check_quorum ?q then
        bindr (raft_step (new_message\<lparr>m_from := r_id ?q, m_type := MsgCheckQuorum\<rparr>) ?q) (\<lambda>(_, r). Inr r)
      else Inr ?q) = Inr q1"
    and r': "Inr (if r_state q1 = Leader \<and> r_lead_transferee q1 \<noteq> 0 then raft_abort_leader_transfer q1 else q1) =
      (Inr r' :: raft res)" by (elim bindr_Inr_E) (rule that)
  have e1: "raft_grows ?q q1"
  proof (cases "r_check_quorum ?q")
    case True
    from q1 [unfolded if_P [OF True]] obtain s where
      "raft_step (new_message\<lparr>m_from := r_id ?q, m_type := MsgCheckQuorum\<rparr>) ?q = Inr (s, q1)"
      by (auto elim: bindr_pair_E)
    then show ?thesis by (rule raft_leader_local_ext [OF w, rotated]) simp
  qed (use q1 re.rel_refl [OF w] in auto)
  note w1 = raft_grows_wf [OF e1]
  have "raft_grows q1 r'"
    using r' raft_grows_transferee(1) [OF w1] re.rel_refl [OF w1]
    by (auto simp: raft_abort_leader_transfer_def split: if_split_asm)
  with e e1 show ?thesis by (blast intro: re.rel_trans)
qed (use res re.rel_refl [OF wf] in \<open>auto simp: raft_tick_timeout_def\<close>)

lemma raft_tick_beat_ext:
  assumes wf: "raft_wf r" and res: "raft_tick_beat r = Inr r'"
  shows "raft_grows r r'"
proof (cases "r_state r = Leader \<and> r_heartbeat_elapsed r \<ge> r_heartbeat_timeout r")
  case True
  note e = raft_grows_transferee(5) [OF wf, of 0]
  obtain s where "raft_step (new_message\<lparr>m_from := r_id (r\<lparr>r_heartbeat_elapsed := 0\<rparr>), m_type := MsgBeat\<rparr>)
      (r\<lparr>r_heartbeat_elapsed := 0\<rparr>) = Inr (s, r')"
    using res True by (auto simp: raft_tick_beat_def Let_def elim: bindr_pair_E)
  then have "raft_grows (r\<lparr>r_heartbeat_elapsed := 0\<rparr>) r'"
    by (rule raft_leader_local_ext [OF raft_grows_wf [OF e], rotated]) simp
  with e show ?thesis by (rule re.rel_trans)
qed (use res re.rel_refl [OF wf] in \<open>auto simp: raft_tick_beat_def split: if_split_asm\<close>)

lemma raft_tick_heartbeat_ext:
  assumes wf: "raft_wf r" and res: "raft_tick_heartbeat r = Inr r'"
  shows "raft_grows r r'"
proof -
  let ?r = "r\<lparr>r_heartbeat_elapsed := add32 (r_heartbeat_elapsed r) 1,
    r_election_elapsed := add32 (r_election_elapsed r) 1\<rparr>"
  have e: "raft_grows r ?r" by (rule raft_grows_transferee(6) [OF wf])
  from res obtain r1 where r1: "raft_tick_timeout ?r = Inr r1" "raft_tick_beat r1 = Inr r'"
    unfolding raft_tick_heartbeat_def Let_def by (elim bindr_Inr_E) (rule that)
  note e1 = raft_tick_timeout_ext [OF raft_grows_wf [OF e] r1(1)]
  from e e1 raft_tick_beat_ext [OF raft_grows_wf [OF e1] r1(2)] show ?thesis by (blast intro: re.rel_trans)
qed

lemma raft_tick_ext:
  assumes wf: "raft_wf r" and t: "r_term r < u64_max" and room: "log_last (r_log r) + 1 < u64_max"
    and res: "raft_tick r = Inr r'"
  shows "raft_grows r r'"
  using res raft_tick_election_ext [OF wf t room] raft_tick_heartbeat_ext [OF wf] re.rel_refl [OF wf]
  unfolding raft_tick_def by (auto simp only: sum.inject split: option.split_asm tick_fn.split_asm)


end
