(* ===== verification/Raft_Quorum.thy ===== *)
theory Raft_Quorum
  imports Raft_Steps
begin

text \<open>
  Majorities: how \<open>maybe_commit\<close> picks the commit index from the match indices of the
  voters, why two majorities share a voter, and how votes are counted. The locale
  \<open>quorum_system\<close> states what elections and commits rely on.
\<close>

section \<open>Quorums\<close>

locale quorum_system =
  fixes voters :: "'a list"
    and is_quorum :: "'a set \<Rightarrow> bool"
  assumes distinct_voters: "distinct voters"
    and quorum_size: "is_quorum Q \<Longrightarrow> Q \<subseteq> set voters \<and> length voters < 2 * card Q"
begin

lemma quorum_intersect:
  assumes "is_quorum P" "is_quorum Q"
  shows "P \<inter> Q \<noteq> {}"
proof
  assume "P \<inter> Q = {}"
  moreover have f: "finite P" "finite Q"
    using quorum_size [OF assms(1)] quorum_size [OF assms(2)] by (auto intro: finite_subset)
  ultimately have "card P + card Q = card (P \<union> Q)" by (simp add: card_Un_disjoint)
  also have "\<dots> \<le> card (set voters)"
    using quorum_size [OF assms(1)] quorum_size [OF assms(2)] by (intro card_mono) auto
  also have "\<dots> = length voters" using distinct_voters by (rule distinct_card)
  finally show False using quorum_size [OF assms(1)] quorum_size [OF assms(2)] by simp
qed

text \<open>A voter has one vote, so two candidates cannot both collect a quorum.\<close>

lemma one_winner:
  assumes "is_quorum {v \<in> set voters. choice v = Some a}" "is_quorum {v \<in> set voters. choice v = Some b}"
  shows "a = b"
  using quorum_intersect [OF assms] by auto

end

lemma raft_quorum_majority:
  assumes "length (r_prs r) \<le> u32_max"
  shows "raft_quorum r = length (r_prs r) div 2 + 1"
proof -
  have "length (r_prs r) div 2 + 1 \<le> u32_max" using assms unfolding u32_max_def by linarith
  then show ?thesis by (simp add: raft_quorum_def)
qed

section \<open>The commit index\<close>

text \<open>
  In an ascending list, at least \<open>q\<close> elements are at or above the element \<open>q\<close> places
  from the end, and fewer than \<open>q\<close> are above it.
\<close>

lemma sorted_at_least:
  assumes "sorted xs" "0 < q" "q \<le> length xs"
  shows "q \<le> length (filter (\<lambda>x. xs ! (length xs - q) \<le> x) xs)"
proof -
  let ?k = "length xs - q"
  have "\<forall>x \<in> set (drop ?k xs). xs ! ?k \<le> x"
    using assms by (auto simp: in_set_conv_nth intro!: sorted_nth_mono)
  then have "filter (\<lambda>x. xs ! ?k \<le> x) (drop ?k xs) = drop ?k xs" by (simp add: filter_id_conv)
  moreover have "length (filter P (drop ?k xs)) \<le> length (filter P xs)" for P
    by (metis append_take_drop_id filter_append le_add2 length_append)
  ultimately show ?thesis using assms by (metis length_drop diff_diff_cancel)
qed

lemma sorted_fewer_above:
  assumes "sorted xs" "0 < q" "q \<le> length xs" "xs ! (length xs - q) < (y::nat)"
  shows "length (filter (\<lambda>x. y \<le> x) xs) < q"
proof -
  let ?k = "length xs - q"
  have k: "?k < length xs" using assms by simp
  have "\<not> y \<le> x" if mem: "x \<in> set (take (Suc ?k) xs)" for x
  proof -
    obtain i where "i < length (take (Suc ?k) xs)" "x = take (Suc ?k) xs ! i"
      using mem unfolding in_set_conv_nth by blast
    then have "i \<le> ?k" "x = xs ! i" by auto
    with sorted_nth_mono [OF assms(1) _ k] assms(4) show ?thesis by fastforce
  qed
  then have "filter (\<lambda>x. y \<le> x) (take (Suc ?k) xs) = []" by (simp add: filter_empty_conv)
  then have "filter (\<lambda>x. y \<le> x) xs = filter (\<lambda>x. y \<le> x) (drop (Suc ?k) xs)"
    by (metis append_take_drop_id filter_append self_append_conv2)
  then have "length (filter (\<lambda>x. y \<le> x) xs) \<le> length xs - Suc ?k"
    using length_filter_le [of "\<lambda>x. y \<le> x" "drop (Suc ?k) xs"] by simp
  with assms show ?thesis by simp
qed

definition matched :: "u64 \<Rightarrow> raft \<Rightarrow> u64 list" where
  "matched i r = map fst (filter (\<lambda>(_, p). i \<le> pr_match p) (r_prs r))"

lemma length_filter_sort: "length (filter P (sort xs)) = length (filter P (xs :: nat list))"
  by (metis mset_sort mset_filter size_mset)

lemma length_matched:
  "length (filter (\<lambda>x. i \<le> x) (sort (map (pr_match \<circ> snd) (r_prs r)))) = length (matched i r)"
  by (simp add: length_filter_sort matched_def filter_map comp_def case_prod_unfold)

text \<open>The candidate commit index: the largest index that a majority has.\<close>

definition quorum_index :: "raft \<Rightarrow> u64" where
  "quorum_index r = sort (map (pr_match \<circ> snd) (r_prs r)) ! (length (r_prs r) - raft_quorum r)"

lemma quorum_index_spec:
  assumes "r_prs r \<noteq> []" "length (r_prs r) \<le> u32_max"
  shows "raft_quorum r \<le> length (matched (quorum_index r) r)"
    and "quorum_index r < i \<Longrightarrow> length (matched i r) < raft_quorum r"
proof -
  let ?xs = "sort (map (pr_match \<circ> snd) (r_prs r))"
  have q: "0 < raft_quorum r" "raft_quorum r \<le> length ?xs"
    using assms raft_quorum_majority [OF assms(2)] by (cases "r_prs r"; simp)+
  show "raft_quorum r \<le> length (matched (quorum_index r) r)"
    using sorted_at_least [OF _ q] by (simp add: quorum_index_def flip: length_matched)
  show "length (matched i r) < raft_quorum r" if "quorum_index r < i"
    using sorted_fewer_above [OF _ q] that by (simp add: quorum_index_def flip: length_matched)
qed

lemma raft_maybe_commit_spec:
  assumes wf: "raft_wf r" and t: "0 < r_term r" and ne: "r_prs r \<noteq> []" and n: "length (r_prs r) \<le> u32_max"
  shows "raft_maybe_commit r =
    (let r' = r\<lparr>r_match_buf := sort (map (pr_match \<circ> snd) (r_prs r))\<rparr>; i = quorum_index r in
     if rl_committed (r_log r) < i \<and> alog_term_at (raft_log_abs (r_log r)) i = r_term r
     then Inr (True, r'\<lparr>r_log := (r_log r)\<lparr>rl_committed := i\<rparr>\<rparr>)
     else Inr (False, r'\<lparr>r_log := r_log r\<rparr>))"
proof -
  let ?xs = "sort (map (pr_match \<circ> snd) (r_prs r))"
  have q: "raft_quorum (r\<lparr>r_match_buf := ?xs\<rparr>) = raft_quorum r" by (simp add: raft_quorum_def)
  have le: "raft_quorum r \<le> length (r_prs r)" "0 < raft_quorum r"
    using ne raft_quorum_majority [OF n] by (cases "r_prs r"; simp)+
  then have "vec_at ?xs (sub64 (length ?xs) (raft_quorum r)) = Inr (quorum_index r)"
    using n u32_max_less_u64_max by (simp add: quorum_index_def)
  then show ?thesis
    unfolding raft_maybe_commit_def Let_def q
    by (simp add: raft_log_maybe_commit_wf [OF raft_wfD(1) [OF wf] t])
qed

section \<open>Counting votes\<close>

definition granted :: "raft \<Rightarrow> u64 list" where
  "granted r = map fst (filter snd (r_votes r))"

text \<open>The first answer of a voter counts; later ones are ignored.\<close>

lemma raft_poll_first:
  assumes "raft_poll i t v r = Inr (n, r')"
  shows "map_of (r_votes r') j =
    (if j = i \<and> map_of (r_votes r) i = None then Some v else map_of (r_votes r) j)"
    and "n = cast32 (length (granted r'))"
  using assms by (auto simp: raft_poll_def Let_def res_simps granted_def update_conv' split: if_splits)

lemma distinct_votes_poll:
  "raft_poll i t v r = Inr (n, r') \<Longrightarrow> distinct (map fst (r_votes r)) \<Longrightarrow> distinct (map fst (r_votes r'))"
  by (auto simp: raft_poll_def Let_def res_simps distinct_update split: if_splits)

section \<open>Sending as much as flow control allows\<close>

definition send_budget :: "progress \<Rightarrow> nat" where
  "send_budget p =
     (case pr_state p of
        ProgressStateProbe \<Rightarrow> if pr_paused p then 0 else 1
      | ProgressStateReplicate \<Rightarrow> if_size (pr_inflights p) - if_count (pr_inflights p)
      | ProgressStateSnapshot \<Rightarrow> 0)"

lemma raft_get_put_progress:
  "raft_get_progress i r = Some p \<Longrightarrow> raft_get_progress i (raft_put_progress i q r) = Some q"
  by (auto simp: raft_get_progress_def raft_put_progress_def update_conv' split: option.splits)

lemma raft_track_entries_total:
  assumes "progress_wf p" "\<not> progress_is_paused p" "es \<noteq> []"
  shows "\<exists>q. raft_track_entries es p = Inr q \<and> send_budget q < send_budget p"
proof (cases "pr_state p")
  case ProgressStateProbe
  with assms show ?thesis
    by (simp add: raft_track_entries_def send_budget_def progress_set_pause_def progress_is_paused_def)
next
  case ProgressStateSnapshot
  with assms show ?thesis by (simp add: progress_is_paused_def)
next
  case ProgressStateReplicate
  let ?f = "pr_inflights p"
  have f: "inflights_wf ?f" "\<not> inflights_is_full ?f"
    using assms ProgressStateReplicate by (simp_all add: progress_wf_def progress_is_paused_def)
  then obtain f' where f': "inflights_add (e_index (last es)) ?f = Inr f'" "if_size f' = if_size ?f"
    "inflights_contents f' = inflights_contents ?f @ [e_index (last es)]" using ifw.add_law by blast
  have "if_count f' = Suc (if_count ?f)"
    using arg_cong [OF f'(3), of length] by simp
  moreover have "if_count ?f < if_size ?f"
    using f ifw.bounded [OF f(1)] by (auto simp: inflights_is_full_def le_neq_implies_less)
  ultimately show ?thesis
    using assms(3) ProgressStateReplicate f'
    by (simp add: raft_track_entries_def progress_optimistic_update_def send_budget_def)
qed

lemma raft_maybe_send_more:
  assumes wf: "raft_wf r" and p: "raft_get_progress to r = Some p"
  shows "raft_maybe_send_append to False r = Inr (False, r) \<or>
    (\<exists>r' q. raft_maybe_send_append to False r = Inr (True, r') \<and> raft_get_progress to r' = Some q \<and>
       send_budget q < send_budget p)"
proof (cases "progress_is_paused p")
  case True
  with p show ?thesis by (simp add: raft_maybe_send_append_def raft_deref_progress_def)
next
  case False
  have pw: "progress_wf p" by (rule raft_get_progress_wf [OF raft_wfD(2) [OF wf] p])
  have lw: "raft_log_wf (r_log r)" by (rule raft_wfD(1) [OF wf])
  obtain st es where es: "raft_log_entries (pr_next p) (r_max_msg_size r) [] (r_log r) = Inr (st, es)"
    and ok: "es \<noteq> [] \<Longrightarrow> is_ok st"
    using raft_log_entries_wf [OF lw, of "pr_next p" "r_max_msg_size r"] by (auto simp: is_ok_def split: if_splits)
  show ?thesis
  proof (cases "es = []")
    case True
    with es p False lw show ?thesis
      by (simp add: raft_maybe_send_append_def raft_deref_progress_def Let_def)
  next
    case ne: False
    obtain q where q: "raft_track_entries es p = Inr q" "send_budget q < send_budget p"
      using raft_track_entries_total [OF pw False ne] by blast
    let ?m = "new_message\<lparr>m_to := to, m_type := MsgApp, m_index := sub64 (pr_next p) 1,
      m_log_term := alog_term_at (raft_log_abs (r_log r)) (sub64 (pr_next p) 1), m_entries := es,
      m_commit := rl_committed (r_log r)\<rparr>"
    have "raft_send ?m (raft_put_progress to q r) =
        Inr ((raft_put_progress to q r)\<lparr>r_msgs := r_msgs r @ [stamped ?m (raft_put_progress to q r)]\<rparr>)"
      by (simp add: raft_send_spec vote_type_def new_message_def)
    then have "raft_maybe_send_append to False r =
        Inr (True, (raft_put_progress to q r)\<lparr>r_msgs := r_msgs r @ [stamped ?m (raft_put_progress to q r)]\<rparr>)"
      using es p False lw ne q(1) ok [OF ne]
      by (simp add: raft_maybe_send_append_def raft_deref_progress_def Let_def is_ok_def)
    moreover have "raft_get_progress to ((raft_put_progress to q r)\<lparr>r_msgs := ms\<rparr>) = Some q" for ms
      using raft_get_put_progress [OF p, of q] by (simp add: raft_get_progress_def split: option.splits)
    ultimately show ?thesis using q(2) by blast
  qed
qed

lemma raft_send_all_total:
  assumes "raft_wf r" "raft_get_progress to r = Some p" "send_budget p < n"
  shows "\<exists>r'. raft_send_all n to r = Inr r'"
  using assms
proof (induction n arbitrary: r p)
  case (Suc n)
  from raft_maybe_send_more [OF Suc.prems(1,2)] show ?case
  proof (elim disjE exE conjE)
    fix r1 q
    assume s: "raft_maybe_send_append to False r = Inr (True, r1)" "raft_get_progress to r1 = Some q"
      "send_budget q < send_budget p"
    have "raft_wf r1" using raft_maybe_send_append_quiet [OF Suc.prems(1) s(1)] by (rule raft_quiet_wf)
    with Suc.IH [OF _ s(2)] s Suc.prems(3) show ?thesis by simp
  qed simp
qed simp

lemma send_fuel_enough:
  assumes "raft_get_progress to r = Some p"
  shows "send_budget p < raft_send_fuel to r"
proof -
  have "a - b < Suc (Suc a)" for a b :: nat by arith
  then show ?thesis
    using assms by (simp add: raft_send_fuel_def send_budget_def split: progress_state.split)
qed

end
