(* ===== verification/Node.thy ===== *)
theory Node
  imports Raft
begin

text \<open>
  The interface of a raft node to the application: \<open>src/raft-kv/raft/ready.h\<close>,
  \<open>ready.cpp\<close>, \<open>node.h\<close> and \<open>node.cpp\<close>. The serialisation of a configuration change
  (msgpack) is a parameter.
\<close>

section \<open>Ready\<close>

record ready =
  rd_soft_state :: "soft_state option"
  rd_hard_state :: hard_state
  rd_read_state :: "read_state list"
  rd_entries :: "entry list"
  rd_snapshot :: snapshot
  rd_committed_entries :: "entry list"
  rd_messages :: "message list"
  rd_must_sync :: bool

text \<open>
  The constructor takes the messages out of the node. The synchronisation flag is computed
  from the current hard state and the hard state of this very record.
\<close>

definition new_ready :: "raft \<Rightarrow> soft_state \<Rightarrow> hard_state \<Rightarrow> (ready \<times> raft) res" where
  "new_ready r pre_soft_state pre_hard_state =
     (let entries = raft_log_unstable_entries (r_log r);
          messages = r_msgs r;
          r = r\<lparr>r_msgs := []\<rparr>
      in
      bindr (raft_log_next_entries (r_log r)) (\<lambda>committed.
      let st = raft_soft_state r;
          hs = raft_hard_state r;
          hard_state = (if \<not> hard_state_equal hs pre_hard_state then hs else new_hard_state)
      in
      Inr (\<lparr>rd_soft_state = (if \<not> soft_state_equal st pre_soft_state then Some st else None),
            rd_hard_state = hard_state,
            rd_read_state = (if r_read_states r \<noteq> [] then r_read_states r else []),
            rd_entries = entries,
            rd_snapshot = (case u_snapshot (rl_unstable (r_log r)) of
                             Some s \<Rightarrow> s | None \<Rightarrow> new_snapshot),
            rd_committed_entries = committed,
            rd_messages = messages,
            rd_must_sync = is_must_sync hs hard_state (length entries)\<rparr>, r)))"

definition ready_contains_updates :: "ready \<Rightarrow> bool" where
  "ready_contains_updates rd \<longleftrightarrow>
     rd_soft_state rd \<noteq> None \<or> \<not> hard_state_is_empty (rd_hard_state rd) \<or>
     \<not> snapshot_is_empty (rd_snapshot rd) \<or> rd_entries rd \<noteq> [] \<or> rd_committed_entries rd \<noteq> [] \<or>
     rd_messages rd \<noteq> [] \<or> rd_read_state rd = []"

definition ready_applied_cursor :: "ready \<Rightarrow> u64" where
  "ready_applied_cursor rd =
     (if rd_committed_entries rd \<noteq> [] then e_index (last (rd_committed_entries rd))
      else if snap_index (rd_snapshot rd) > 0 then snap_index (rd_snapshot rd) else 0)"

text \<open>Reading the other record's read states by index can run past their end.\<close>

fun read_states_equal_at :: "read_state list \<Rightarrow> read_state list \<Rightarrow> nat \<Rightarrow> bool res" where
  "read_states_equal_at [] ys i = Inr True"
| "read_states_equal_at (x # xs) ys i =
     bindr (vec_at ys i) (\<lambda>y.
     if \<not> read_state_equal x y then Inr False else read_states_equal_at xs ys (Suc i))"

definition ready_equal :: "ready \<Rightarrow> ready \<Rightarrow> bool res" where
  "ready_equal a b =
     (if (rd_soft_state a \<noteq> None \<and> rd_soft_state b = None) \<or>
         (rd_soft_state a = None \<and> rd_soft_state b \<noteq> None) then Inr False
      else if (case (rd_soft_state a, rd_soft_state b) of
                 (Some x, Some y) \<Rightarrow> \<not> soft_state_equal x y | _ \<Rightarrow> False) then Inr False
      else if \<not> hard_state_equal (rd_hard_state a) (rd_hard_state b) then Inr False
      else if length (rd_read_state a) \<noteq> length (rd_read_state a) then Inr False
      else
        bindr (read_states_equal_at (rd_read_state a) (rd_read_state b) 0) (\<lambda>eq.
        if \<not> eq then Inr False
        else if rd_entries a \<noteq> rd_entries b then Inr False
        else if \<not> snapshot_equal (rd_snapshot a) (rd_snapshot b) then Inr False
        else if rd_committed_entries a \<noteq> rd_committed_entries b then Inr False
        else Inr (rd_must_sync a = rd_must_sync b)))"

section \<open>RawNode\<close>

record peer_context =
  pc_id :: u64
  pc_context :: "byte list"

record raw_node =
  rn_raft :: raft
  rn_prev_soft_state :: soft_state
  rn_prev_hard_state :: hard_state

text \<open>A step of the wrapped raft node, with or without its status.\<close>

definition node_raft_step :: "message \<Rightarrow> raw_node \<Rightarrow> (status \<times> raw_node) res" where
  "node_raft_step msg n =
     bindr (raft_step msg (rn_raft n)) (\<lambda>(s, r). Inr (s, n\<lparr>rn_raft := r\<rparr>))"

fun bootstrap_entries :: "(conf_change \<Rightarrow> byte list) \<Rightarrow> nat \<Rightarrow> peer_context list \<Rightarrow> entry list" where
  "bootstrap_entries ser i [] = []"
| "bootstrap_entries ser i (p # ps) =
     \<lparr>e_type = EntryConfChange, e_term = 1, e_index = i + 1,
      e_data = ser \<lparr>cc_id = 0, cc_type = ConfChangeAddNode, cc_node_id = pc_id p,
                    cc_context = pc_context p\<rparr>\<rparr>
     # bootstrap_entries ser (Suc i) ps"

definition start_node ::
  "(conf_change \<Rightarrow> byte list) \<Rightarrow> config \<Rightarrow> nat list \<Rightarrow> peer_context list \<Rightarrow> raw_node res" where
  "start_node ser conf draws peers =
     bindr (new_raft conf draws) (\<lambda>r.
     bindr (storage_last_index (c_storage conf)) (\<lambda>(s, last_index).
     if \<not> is_ok s then Inl (Fatal ''last_index'')
     else
       bindr
         (if last_index = 0 then
            bindr (raft_become_follower 1 0 r) (\<lambda>r.
            let entries = bootstrap_entries ser 0 peers in
            bindr (raft_log_append entries (r_log r)) (\<lambda>(_, l).
            for_each raft_add_node (map pc_id peers)
              (r\<lparr>r_log := l\<lparr>rl_committed := length entries\<rparr>\<rparr>)))
          else Inr r)
       (\<lambda>r. Inr \<lparr>rn_raft = r, rn_prev_soft_state = raft_soft_state r,
                 rn_prev_hard_state = (if last_index = 0 then new_hard_state else raft_hard_state r)\<rparr>)))"

definition restart_node :: "config \<Rightarrow> nat list \<Rightarrow> raw_node res" where
  "restart_node conf draws =
     bindr (storage_last_index (c_storage conf)) (\<lambda>(s, last_index).
     if \<not> is_ok s then Inl (Fatal ''last_index'')
     else
       bindr (new_raft conf draws) (\<lambda>r.
       Inr \<lparr>rn_raft = r, rn_prev_soft_state = raft_soft_state r,
            rn_prev_hard_state = (if last_index = 0 then new_hard_state else raft_hard_state r)\<rparr>))"

definition node_tick :: "raw_node \<Rightarrow> raw_node res" where
  "node_tick n = bindr (raft_tick (rn_raft n)) (\<lambda>r. Inr (n\<lparr>rn_raft := r\<rparr>))"

definition node_campaign :: "raw_node \<Rightarrow> (status \<times> raw_node) res" where
  "node_campaign n = node_raft_step (new_message\<lparr>m_type := MsgHup\<rparr>) n"

definition node_propose :: "byte list \<Rightarrow> raw_node \<Rightarrow> (status \<times> raw_node) res" where
  "node_propose data n =
     node_raft_step (new_message\<lparr>m_type := MsgProp, m_from := r_id (rn_raft n),
       m_entries := [\<lparr>e_type = EntryNormal, e_term = 0, e_index = 0, e_data = data\<rparr>]\<rparr>) n"

definition node_propose_conf_change ::
  "(conf_change \<Rightarrow> byte list) \<Rightarrow> conf_change \<Rightarrow> raw_node \<Rightarrow> (status \<times> raw_node) res" where
  "node_propose_conf_change ser cc n =
     node_raft_step (new_message\<lparr>m_type := MsgProp,
       m_entries := [\<lparr>e_type = EntryConfChange, e_term = 0, e_index = 0, e_data = ser cc\<rparr>]\<rparr>) n"

definition node_step :: "message \<Rightarrow> raw_node \<Rightarrow> (status \<times> raw_node) res" where
  "node_step msg n =
     (if message_is_local_msg msg then
        Inr (InvalidArgument ''raft:cannot step raft local message'', n)
      else if raft_get_progress (m_from msg) (rn_raft n) \<noteq> None \<or> \<not> message_is_response_msg msg then
        node_raft_step msg n
      else Inr (InvalidArgument ''raft:cannot step as peer not found'', n))"

definition node_ready :: "raw_node \<Rightarrow> (ready \<times> raw_node) res" where
  "node_ready n =
     bindr (new_ready (rn_raft n) (rn_prev_soft_state n) (rn_prev_hard_state n)) (\<lambda>(rd, r).
     let r = r\<lparr>r_msgs := []\<rparr> in
     Inr (rd, n\<lparr>rn_raft := raft_reduce_uncommitted_size (rd_committed_entries rd) r\<rparr>))"

definition node_has_ready :: "raw_node \<Rightarrow> bool res" where
  "node_has_ready n =
     (let r = rn_raft n; hs = raft_hard_state r in
      if \<not> soft_state_equal (raft_soft_state r) (rn_prev_soft_state n) then Inr True
      else if \<not> hard_state_is_empty hs \<and> \<not> hard_state_equal hs (rn_prev_hard_state n) then Inr True
      else if (case u_snapshot (rl_unstable (r_log r)) of
                 Some s \<Rightarrow> \<not> snapshot_is_empty s | None \<Rightarrow> False) then Inr True
      else if r_msgs r \<noteq> [] \<or> raft_log_unstable_entries (r_log r) \<noteq> [] then Inr True
      else
        bindr (raft_log_has_next_entries (r_log r)) (\<lambda>more.
        if more then Inr True else Inr (r_read_states r \<noteq> [])))"

definition node_advance :: "ready \<Rightarrow> raw_node \<Rightarrow> raw_node res" where
  "node_advance rd n =
     (let n = (case rd_soft_state rd of Some s \<Rightarrow> n\<lparr>rn_prev_soft_state := s\<rparr> | None \<Rightarrow> n);
          n = (if \<not> hard_state_is_empty (rd_hard_state rd)
               then n\<lparr>rn_prev_hard_state := rd_hard_state rd\<rparr> else n);
          r = rn_raft n; l = r_log r; i = ready_applied_cursor rd;
          l = (if i > 0 then raft_log_applied_to i l else l)
      in
      bindr
        (if rd_entries rd \<noteq> [] then
           let e = last (rd_entries rd) in raft_log_stable_to (e_index e) (e_term e) l
         else Inr l)
      (\<lambda>l.
      let l = (if \<not> snapshot_is_empty (rd_snapshot rd)
               then raft_log_stable_snap_to (snap_index (rd_snapshot rd)) l else l);
          r = r\<lparr>r_log := l\<rparr>;
          r = (if rd_read_state rd \<noteq> [] then r\<lparr>r_read_states := []\<rparr> else r)
      in Inr (n\<lparr>rn_raft := r\<rparr>)))"

definition node_conf_state :: "raft \<Rightarrow> conf_state" where
  "node_conf_state r = \<lparr>cs_nodes = raft_nodes r, cs_learners = raft_learner_nodes r\<rparr>"

definition node_apply_conf_change :: "conf_change \<Rightarrow> raw_node \<Rightarrow> (conf_state \<times> raw_node) res" where
  "node_apply_conf_change cc n =
     (if cc_node_id cc = 0 then Inr (node_conf_state (rn_raft n), n)
      else
        bindr
          (case cc_type cc of
             ConfChangeAddNode \<Rightarrow> raft_add_node_or_learner (cc_node_id cc) False (rn_raft n)
           | ConfChangeAddLearnerNode \<Rightarrow> raft_add_node_or_learner (cc_node_id cc) True (rn_raft n)
           | ConfChangeRemoveNode \<Rightarrow> raft_remove_node (cc_node_id cc) (rn_raft n)
           | ConfChangeUpdateNode \<Rightarrow> Inr (rn_raft n)
           | ConfChangeInvalid _ \<Rightarrow> Inl (Fatal ''unexpected conf type''))
        (\<lambda>r. Inr (node_conf_state r, n\<lparr>rn_raft := r\<rparr>)))"

definition node_transfer_leadership :: "u64 \<Rightarrow> u64 \<Rightarrow> raw_node \<Rightarrow> raw_node res" where
  "node_transfer_leadership lead transferee n =
     bindr (node_raft_step (new_message\<lparr>m_type := MsgTransferLeader, m_from := transferee, m_to := lead\<rparr>) n)
     (\<lambda>(_, n). Inr n)"

text \<open>The type given to the entry is the message type \<open>MsgReadIndex\<close>.\<close>

definition node_read_index :: "byte list \<Rightarrow> raw_node \<Rightarrow> (status \<times> raw_node) res" where
  "node_read_index rctx n =
     node_raft_step (new_message\<lparr>m_type := MsgReadIndex,
       m_entries := [\<lparr>e_type = EntryInvalid (msg_type_code MsgReadIndex), e_term = 0, e_index = 0,
                      e_data = rctx\<rparr>]\<rparr>) n"

definition node_report_unreachable :: "u64 \<Rightarrow> raw_node \<Rightarrow> raw_node res" where
  "node_report_unreachable i n =
     bindr (node_raft_step (new_message\<lparr>m_type := MsgUnreachable, m_from := i\<rparr>) n) (\<lambda>(_, n). Inr n)"

definition SnapshotFailure :: nat where "SnapshotFailure = 2"

definition node_report_snapshot :: "u64 \<Rightarrow> nat \<Rightarrow> raw_node \<Rightarrow> raw_node res" where
  "node_report_snapshot i status n =
     bindr (node_raft_step (new_message\<lparr>m_type := MsgSnapStatus, m_from := i,
       m_reject := (status = SnapshotFailure)\<rparr>) n) (\<lambda>(_, n). Inr n)"

end
