(* ===== verification/Node_Run.thy ===== *)
theory Node_Run
  imports Raft_Quorum Node
begin

text \<open>
  Runs of a node: everything the application may call, as one step relation, and what
  holds along every run: the invariant, the monotone term, at most one vote per term and
  the stability of committed entries.
\<close>

section \<open>Configuration changes\<close>

lemma peers_wf_make_voter:
  assumes "peers_wf r" "progress_wf q"
  shows "peers_wf (r\<lparr>r_learner_prs := AList.delete i (r_learner_prs r), r_prs := AList.update i q (r_prs r)\<rparr>)"
proof -
  have k: "fst ` set (AList.delete i m) = fst ` set m - {i}" for m :: "(u64 \<times> progress) list"
    by (auto simp: AList.delete_eq image_iff)
  have upd: "(j, q') = (i, q) \<or> (j, q') \<in> set (r_prs r)" if "(j, q') \<in> set (AList.update i q (r_prs r))" for j q'
    using subsetD [OF set_update_subset that] by auto
  have "set (AList.delete i (r_learner_prs r)) \<subseteq> set (r_learner_prs r)" by (auto simp: AList.delete_eq)
  with assms k show ?thesis
    unfolding peers_wf_iff by (auto simp: distinct_update distinct_delete dom_update dest!: upd)
qed

lemma peers_wf_delete:
  assumes "peers_wf r"
  shows "peers_wf (raft_del_progress i r)"
proof -
  have s: "set (AList.delete i m) \<subseteq> set m" for m :: "(u64 \<times> progress) list" by (auto simp: AList.delete_eq)
  have d: "fst ` set (AList.delete i (r_prs r)) \<inter> fst ` set (AList.delete i (r_learner_prs r)) = {}"
    using assms s unfolding peers_wf_iff by (simp add: distinct_append) blast
  show ?thesis
    using assms s d unfolding peers_wf_iff raft_del_progress_def
    by (auto simp: distinct_delete dest: subsetD [OF s])
qed

lemma raft_mark_active_ext:
  assumes wf: "raft_wf r" and res: "raft_mark_active i b r = Inr r'"
  shows "raft_grows r r'"
proof -
  define r1 where "r1 = (if r_id r = i then r\<lparr>r_is_learner := b\<rparr> else r)"
  have e1: "raft_grows r r1" using wf unfolding r1_def by (auto intro: raft_grows_frame re.rel_refl simp: raft_wf_def)
  note w1 = raft_grows_wf [OF e1]
  obtain p where p: "raft_get_progress i r1 = Some p" "r' = raft_put_progress i (p\<lparr>pr_recent_active := True\<rparr>) r1"
    using res by (auto simp: raft_mark_active_def Let_def res_simps raft_deref_progress_eq r1_def [symmetric])
  have "raft_quiet r1 r'"
    unfolding p(2) using raft_get_progress_wf [OF raft_wfD(2) [OF w1] p(1)]
    by (intro raft_put_progress_quiet [OF w1 p(1)]) (rule wf_intros)
  with e1 raft_quiet_ext [OF w1] show ?thesis by (blast intro: re.rel_trans)
qed

lemma raft_add_node_or_learner_ext:
  assumes wf: "raft_wf r" and res: "raft_add_node_or_learner i b r = Inr r'"
  shows "raft_grows r r'"
proof (cases "raft_get_progress i r")
  case None
  have lb: "log_last (r_log r) < u64_max" by (rule log_last_bound [OF raft_wfD(1) [OF wf]])
  then have a: "add64 (log_last (r_log r)) 1 = Suc (log_last (r_log r))" by simp
  from res None obtain r1 where r1: "raft_set_progress i 0 (Suc (log_last (r_log r))) b r = Inr r1"
    "raft_mark_active i b r1 = Inr r'"
    using raft_wfD(1) [OF wf] a
    by (auto simp: raft_add_node_or_learner_def bindr_eq_Inr)
  note p = raft_set_progress_wf [OF raft_wfD(2,6) [OF wf] _ _ _ r1(1)]
  obtain c d where eq: "r1 = r\<lparr>r_prs := c, r_learner_prs := d\<rparr>" using p(2) lb by (auto simp: u64_max_def)
  have "raft_grows r r1" using p(1) lb unfolding eq by (intro raft_grows_peers [OF wf]) (simp add: u64_max_def)
  with raft_mark_active_ext [OF raft_grows_wf [OF this] r1(2)] show ?thesis by (blast intro: re.rel_trans)
next
  case (Some p)
  show ?thesis
  proof (cases "b \<or> b = pr_is_learner p")
    case True
    then have "r' = r" using res Some by (auto simp: raft_add_node_or_learner_def split: if_splits)
    then show ?thesis using re.rel_refl [OF wf] by simp
  next
    case False
    let ?r = "r\<lparr>r_learner_prs := AList.delete i (r_learner_prs r),
      r_prs := AList.update i (p\<lparr>pr_is_learner := False\<rparr>) (r_prs r)\<rparr>"
    have m: "raft_mark_active i b ?r = Inr r'"
      using res Some False by (auto simp: raft_add_node_or_learner_def)
    have "progress_wf (p\<lparr>pr_is_learner := False\<rparr>)"
      using raft_get_progress_wf [OF raft_wfD(2) [OF wf] Some] by (simp add: progress_wf_def)
    from peers_wf_make_voter [OF raft_wfD(2) [OF wf] this, of i] have "raft_grows r ?r"
      using wf by (intro raft_grows_frame) (simp_all add: raft_wf_def raft_base_wf_def timer_wf_def mode_wf_def)
    with raft_mark_active_ext [OF raft_grows_wf [OF this] m] show ?thesis by (blast intro: re.rel_trans)
  qed
qed

lemma raft_remove_node_ext:
  assumes wf: "raft_wf r" and res: "raft_remove_node i r = Inr r'"
  shows "raft_grows r r'"
proof -
  let ?r = "raft_del_progress i r"
  have e: "raft_grows r ?r"
    using wf peers_wf_delete [OF raft_wfD(2) [OF wf], of i]
    by (intro raft_grows_frame)
      (simp_all add: raft_wf_def raft_base_wf_def timer_wf_def mode_wf_def raft_del_progress_def)
  show ?thesis
  proof (cases "r_prs ?r = [] \<and> r_learner_prs ?r = []")
    case True
    with res e show ?thesis by (simp add: raft_remove_node_def)
  next
    case False
    from res [unfolded raft_remove_node_def Let_def if_not_P [OF False]] obtain b r1 r2 where
      c: "raft_maybe_commit ?r = Inr (b, r1)" and s: "(if b then raft_bcast_append r1 else Inr r1) = Inr r2"
      and t: "Inr (if r_state r2 = Leader \<and> r_lead_transferee r2 = i then raft_abort_leader_transfer r2 else r2) =
        (Inr r' :: raft res)"
      by (elim bindr_pair_E bindr_Inr_E) (rule that)
    note e1 = raft_maybe_commit_ext(1) [OF raft_grows_wf [OF e] c]
    note w1 = raft_grows_wf [OF e1]
    have e2: "raft_grows r1 r2"
      using s raft_quiet_ext'(3) [OF w1 w1] re.rel_refl [OF w1] by (auto split: if_splits)
    note w2 = raft_grows_wf [OF e2]
    have "raft_grows r2 r'"
      using t raft_grows_transferee(1) [OF w2] re.rel_refl [OF w2]
      by (auto simp: raft_abort_leader_transfer_def split: if_split_asm)
    with e e1 e2 show ?thesis by (blast intro: re.rel_trans)
  qed
qed

section \<open>Persisting what a ready carries\<close>

text \<open>
  The application applies the snapshot of a ready to its storage, appends the entries,
  and advances the node. The storage is the one the raft log reads.
\<close>

definition persist_ready :: "ready \<Rightarrow> memory_storage \<Rightarrow> memory_storage res" where
  "persist_ready rd st =
     (let st = (if snapshot_is_empty (rd_snapshot rd) then st
                else snd (storage_apply_snapshot (rd_snapshot rd) st))
      in bindr (storage_append (rd_entries rd) st) (\<lambda>(_, st). Inr st))"

definition node_set_storage :: "memory_storage \<Rightarrow> raw_node \<Rightarrow> raw_node" where
  "node_set_storage st n = n\<lparr>rn_raft := (rn_raft n)\<lparr>r_log := set_storage st (r_log (rn_raft n))\<rparr>\<rparr>"

lemma stable_log_wf:
  assumes wf: "raft_log_wf l" and st: "storage_wf st" "storage_abs st = raft_log_abs l"
    and l': "rl_storage l' = st" "rl_committed l' = rl_committed l"
      "rl_unstable l' = \<lparr>u_snapshot = None, u_entries = [], u_offset = Suc (log_last l)\<rparr>"
  shows "raft_log_wf l'" "raft_log_abs l' = raft_log_abs l"
proof -
  show abs: "raft_log_abs l' = raft_log_abs l"
    using st l' by (simp add: raft_log_abs_def [of l'] alog_splice_def alog_last_def)
  show "raft_log_wf l'"
    unfolding raft_log_wf_def abs
    using st l' raft_log_wfD(4,5) [OF wf] log_last_bound [OF wf] log_base_le_last [of l]
    by (simp add: unstable_wf_def log_joined_def)
qed

definition node_wf :: "raw_node \<Rightarrow> bool" where
  "node_wf n \<longleftrightarrow> raft_wf (rn_raft n) \<and> log_synced (r_log (rn_raft n))"

lemma snapshot_not_empty: "snap_index s \<noteq> 0 \<Longrightarrow> \<not> snapshot_is_empty s"
  by (simp add: snapshot_is_empty_def)

text \<open>The storage holds the whole log afterwards.\<close>

lemma persist_ready_total:
  assumes wf: "raft_log_wf l"
    and new: "\<And>s. u_snapshot (rl_unstable l) = Some s \<Longrightarrow> snap_index (ms_snapshot (rl_storage l)) < snap_index s"
    and rd: "rd_entries rd = u_entries (rl_unstable l)"
      "rd_snapshot rd = (case u_snapshot (rl_unstable l) of Some s \<Rightarrow> s | None \<Rightarrow> new_snapshot)"
  shows "\<exists>st. persist_ready rd (rl_storage l) = Inr st \<and> storage_wf st \<and> storage_abs st = raft_log_abs l \<and>
    ms_snapshot st = (case u_snapshot (rl_unstable l) of Some s \<Rightarrow> s | None \<Rightarrow> ms_snapshot (rl_storage l))"
proof -
  let ?u = "rl_unstable l"
  define st1 where "st1 = (if snapshot_is_empty (rd_snapshot rd) then rl_storage l
    else snd (storage_apply_snapshot (rd_snapshot rd) (rl_storage l)))"
  have uw: "contig (u_offset ?u) (u_entries ?u)" "u_offset ?u + length (u_entries ?u) \<le> u64_max"
    using unstable_wfD(1,2) [OF raft_log_wfD(2) [OF wf]] by simp_all
  have j: "storage_wf st1 \<and> al_base (storage_abs st1) < u_offset ?u \<and>
    u_offset ?u \<le> Suc (alog_last (storage_abs st1)) \<and>
    (u_entries ?u = [] \<longrightarrow> u_offset ?u = Suc (alog_last (storage_abs st1))) \<and>
    ms_snapshot st1 = (case u_snapshot ?u of Some s \<Rightarrow> s | None \<Rightarrow> ms_snapshot (rl_storage l)) \<and>
    raft_log_abs l = alog_splice (storage_abs st1) (u_offset ?u) (u_entries ?u)"
  proof (cases "u_snapshot ?u")
    case None
    then have "st1 = rl_storage l" using rd(2) by (simp add: st1_def snapshot_is_empty_def new_snapshot_def)
    with None raft_log_wfD(1,3) [OF wf] show ?thesis by (simp add: log_joined_def raft_log_abs_def)
  next
    case (Some s)
    have o: "u_offset ?u = Suc (snap_index s)" using Some raft_log_wfD(3) [OF wf] by (simp add: log_joined_def)
    have "snap_index s < u64_max" using o uw(2) by simp
    with storage_apply_snapshot_refines [OF new [OF Some] this]
    obtain st' where st': "storage_apply_snapshot s (rl_storage l) = (StatusOK, st')" "storage_wf st'"
      "storage_abs st' = \<lparr>al_base = snap_index s, al_bterm = snap_term s, al_ents = []\<rparr>"
      "ms_snapshot st' = s" by blast
    have "snap_index s \<noteq> 0" using new [OF Some] by simp
    with Some rd(2) st'(1) have "st1 = st'" by (simp add: st1_def snapshot_not_empty)
    with st' Some o show ?thesis by (simp add: raft_log_abs_def alog_splice_def alog_last_def)
  qed
  show ?thesis
  proof (cases "u_entries ?u = []")
    case True
    then have "persist_ready rd (rl_storage l) = Inr st1"
      using rd(1) by (simp add: persist_ready_def st1_def [symmetric] storage_append_def)
    moreover have "raft_log_abs l = storage_abs st1"
      using j True by (simp add: alog_splice_def alog_last_def)
    ultimately show ?thesis using j by auto
  next
    case False
    from j storage_append_refines [OF _ uw _ _ False, of st1] obtain st where
      "storage_append (u_entries ?u) st1 = Inr (StatusOK, st)" "storage_wf st"
      "storage_abs st = alog_splice (storage_abs st1) (u_offset ?u) (u_entries ?u)"
      "ms_snapshot st = ms_snapshot st1" by blast
    with j rd(1) show ?thesis by (simp add: persist_ready_def st1_def [symmetric])
  qed
qed

text \<open>What \<open>advance\<close> does to the log of the node.\<close>

lemma advance_log:
  assumes wf: "raft_log_wf l" and st: "storage_wf st" "storage_abs st = raft_log_abs l"
    and s0: "\<And>s. u_snapshot (rl_unstable l) = Some s \<Longrightarrow> snap_index s \<noteq> 0"
    and rd: "rd_entries rd = u_entries (rl_unstable l)"
      "rd_snapshot rd = (case u_snapshot (rl_unstable l) of Some s \<Rightarrow> s | None \<Rightarrow> new_snapshot)"
    and l0: "l0 = (if 0 < i then raft_log_applied_to i (set_storage st l) else set_storage st l)"
  shows "\<exists>l1. (if rd_entries rd \<noteq> [] then raft_log_stable_to (e_index (last (rd_entries rd))) (e_term (last (rd_entries rd))) l0
      else Inr l0) = Inr l1 \<and>
    (let l' = (if \<not> snapshot_is_empty (rd_snapshot rd) then raft_log_stable_snap_to (snap_index (rd_snapshot rd)) l1 else l1)
     in raft_log_wf l' \<and> raft_log_abs l' = raft_log_abs l \<and> rl_committed l' = rl_committed l \<and>
        rl_applied l' = (if 0 < i then i else rl_applied l) \<and> u_entries (rl_unstable l') = [] \<and>
        u_snapshot (rl_unstable l') = None \<and> rl_storage l' = st)"
proof -
  let ?u = "rl_unstable l" and ?li = "log_last l"
  have l0_sel: "rl_unstable l0 = ?u" "rl_storage l0 = st" "rl_committed l0 = rl_committed l"
    "rl_applied l0 = (if 0 < i then i else rl_applied l)"
    by (simp_all add: l0 set_storage_def raft_log_applied_to_def)
  have off: "?li = u_offset ?u + length (u_entries ?u) - 1" "0 < u_offset ?u"
    using log_last_offset [OF wf] unstable_wfD(3) [OF raft_log_wfD(2) [OF wf]] by simp_all
  define u1 where "u1 = ?u\<lparr>u_entries := [], u_offset := Suc ?li\<rparr>"
  define l1 where "l1 = l0\<lparr>rl_unstable := u1\<rparr>"
  have stable: "(if rd_entries rd \<noteq> [] then raft_log_stable_to (e_index (last (rd_entries rd))) (e_term (last (rd_entries rd))) l0
      else Inr l0) = Inr l1"
  proof (cases "u_entries ?u = []")
    case True
    then have "u1 = ?u" using off by (simp add: u1_def)
    with True rd(1) l0_sel(1) show ?thesis by (simp add: l1_def)
  next
    case False
    have n: "0 < length (u_entries ?u)" using False by simp
    have e: "e_index (last (u_entries ?u)) = ?li"
      using contig_last [OF unstable_wfD(1) [OF raft_log_wfD(2) [OF wf]] False] off n by simp
    have k: "u_offset ?u \<le> ?li" "?li < u_offset ?u + length (u_entries ?u)" "?li - u_offset ?u = length (u_entries ?u) - 1"
      "Suc ?li - u_offset ?u = length (u_entries ?u)" using off n by linarith+
    then have "unstable_stable_to ?li (e_term (last (u_entries ?u))) ?u = Inr u1"
      using False by (simp add: unstable_stable_to_wf [OF raft_log_wfD(2) [OF wf]] last_conv_nth u1_def)
    with False e rd(1) l0_sel(1) show ?thesis by (simp add: raft_log_stable_to_def l1_def)
  qed
  define l' where "l' = (if \<not> snapshot_is_empty (rd_snapshot rd)
    then raft_log_stable_snap_to (snap_index (rd_snapshot rd)) l1 else l1)"
  have "rl_unstable l' = \<lparr>u_snapshot = None, u_entries = [], u_offset = Suc ?li\<rparr>"
  proof (cases "u_snapshot ?u")
    case None
    with rd(2) show ?thesis by (simp add: l'_def l1_def u1_def snapshot_is_empty_def new_snapshot_def)
  next
    case (Some s)
    with rd(2) s0 show ?thesis
      by (simp add: l'_def l1_def u1_def snapshot_not_empty raft_log_stable_snap_to_def unstable_stable_snap_to_def)
  qed
  moreover have "rl_storage l' = st" "rl_committed l' = rl_committed l"
    "rl_applied l' = (if 0 < i then i else rl_applied l)"
    using l0_sel by (simp_all add: l'_def l1_def raft_log_stable_snap_to_def)
  ultimately have "raft_log_wf l' \<and> raft_log_abs l' = raft_log_abs l \<and> rl_committed l' = rl_committed l \<and>
      rl_applied l' = (if 0 < i then i else rl_applied l) \<and> u_entries (rl_unstable l') = [] \<and>
      u_snapshot (rl_unstable l') = None \<and> rl_storage l' = st"
    using stable_log_wf [OF wf st] by simp
  with stable show ?thesis by (auto simp: l'_def Let_def)
qed

lemma next_entries_last:
  assumes wf: "raft_log_wf l" and ap: "rl_applied l \<le> rl_committed l"
    and es: "raft_log_next_entries l = Inr es" "es \<noteq> []"
  shows "e_index (last es) \<le> rl_committed l" "rl_applied l < e_index (last es)"
proof -
  let ?lo = "Suc (max (rl_applied l) (log_base l))"
  let ?s = "alog_slice (raft_log_abs l) ?lo (Suc (rl_committed l))"
  have e: "es = entry_limit_size (rl_max_next_ents_size l) ?s"
    using es(1) raft_log_next_entries_wf(1) [OF wf ap] by simp
  have h: "Suc (rl_committed l) \<le> Suc (log_last l)" "?lo \<le> Suc (rl_committed l)"
    using ap raft_log_wfD(4,5) [OF wf] by simp_all
  have "contig ?lo ?s" using h by (intro alog_slice_contig raft_log_abs_wf [OF wf]) simp_all
  then have c: "contig ?lo es" unfolding e by (rule entry_limit_contig)
  have "length es \<le> length ?s" unfolding e by (rule entry_limit_size_length)
  also have "\<dots> = Suc (rl_committed l) - ?lo" using h by (intro alog_slice_length) simp_all
  finally have "length es \<le> Suc (rl_committed l) - ?lo" .
  moreover have "0 < length es" using es(2) by simp
  moreover have "e_index (last es) = ?lo + (length es - 1)" by (rule contig_last [OF c es(2)])
  ultimately show "e_index (last es) \<le> rl_committed l" "rl_applied l < e_index (last es)" by linarith+
qed

lemma new_ready_total:
  assumes wf: "raft_wf r" and ap: "rl_applied (r_log r) \<le> rl_committed (r_log r)"
  shows "\<exists>rd. new_ready r ss hs = Inr (rd, r\<lparr>r_msgs := []\<rparr>) \<and> rd_messages rd = r_msgs r \<and>
    rd_entries rd = u_entries (rl_unstable (r_log r)) \<and>
    raft_log_next_entries (r_log r) = Inr (rd_committed_entries rd) \<and>
    rd_snapshot rd = (case u_snapshot (rl_unstable (r_log r)) of Some s \<Rightarrow> s | None \<Rightarrow> new_snapshot)"
  using raft_log_next_entries_wf(1) [OF raft_wfD(1) [OF wf] ap]
  by (simp add: new_ready_def Let_def raft_log_unstable_entries_def)

lemma node_advance_eq:
  assumes "(if rd_entries rd \<noteq> [] then raft_log_stable_to (e_index (last (rd_entries rd))) (e_term (last (rd_entries rd)))
      (if 0 < ready_applied_cursor rd then raft_log_applied_to (ready_applied_cursor rd) (r_log (rn_raft n))
       else r_log (rn_raft n))
    else Inr (if 0 < ready_applied_cursor rd then raft_log_applied_to (ready_applied_cursor rd) (r_log (rn_raft n))
       else r_log (rn_raft n))) = Inr l1"
  shows "\<exists>n2 x. node_advance rd n = Inr n2 \<and>
    rn_raft n2 = (rn_raft n)\<lparr>r_log := (if \<not> snapshot_is_empty (rd_snapshot rd)
      then raft_log_stable_snap_to (snap_index (rd_snapshot rd)) l1 else l1), r_read_states := x\<rparr>"
proof -
  define m where "m = (case rd_soft_state rd of Some s \<Rightarrow> n\<lparr>rn_prev_soft_state := s\<rparr> | None \<Rightarrow> n)"
  define m' where "m' = (if \<not> hard_state_is_empty (rd_hard_state rd)
    then m\<lparr>rn_prev_hard_state := rd_hard_state rd\<rparr> else m)"
  have m': "rn_raft m' = rn_raft n" by (simp add: m_def m'_def split: option.split)
  let ?l = "if \<not> snapshot_is_empty (rd_snapshot rd)
    then raft_log_stable_snap_to (snap_index (rd_snapshot rd)) l1 else l1"
  let ?r = "(rn_raft n)\<lparr>r_log := ?l\<rparr>"
  let ?x = "if rd_read_state rd \<noteq> [] then [] else r_read_states (rn_raft n)"
  have "node_advance rd n = Inr (m'\<lparr>rn_raft := (if rd_read_state rd \<noteq> [] then ?r\<lparr>r_read_states := []\<rparr> else ?r)\<rparr>)"
    unfolding node_advance_def Let_def m_def [symmetric] m'_def [symmetric] m' assms bindr.simps ..
  moreover have "(if rd_read_state rd \<noteq> [] then ?r\<lparr>r_read_states := []\<rparr> else ?r) =
      (rn_raft n)\<lparr>r_log := ?l, r_read_states := ?x\<rparr>" by (cases "rn_raft n") simp
  ultimately show ?thesis
    by (intro exI [of _ "m'\<lparr>rn_raft := (rn_raft n)\<lparr>r_log := ?l, r_read_states := ?x\<rparr>\<rparr>"] exI [of _ ?x]) simp
qed

lemma ready_cursor_committed:
  assumes lw: "raft_log_wf l" and sy: "log_synced l"
    and es: "raft_log_next_entries l = Inr (rd_committed_entries rd)"
    and sn: "rd_snapshot rd = (case u_snapshot (rl_unstable l) of Some s \<Rightarrow> s | None \<Rightarrow> new_snapshot)"
  shows "ready_applied_cursor rd \<le> rl_committed l"
proof -
  have "snap_index (rd_snapshot rd) \<le> rl_committed l"
    using raft_log_wfD(4) [OF lw] sn
    by (auto simp: raft_log_abs_def new_snapshot_def split: option.splits)
  moreover have "rd_committed_entries rd \<noteq> [] \<Longrightarrow> e_index (last (rd_committed_entries rd)) \<le> rl_committed l"
    using next_entries_last(1) [OF lw _ es] sy by (simp add: log_synced_def)
  ultimately show ?thesis by (simp add: ready_applied_cursor_def)
qed

text \<open>
  One round: take a ready, persist its snapshot and entries, advance. The round always
  completes; the log as a whole is unchanged and is now entirely in storage, the messages
  have been handed out and what was handed out as committed counts as applied.
\<close>

lemma node_round_full:
  assumes "node_wf n"
  shows "\<exists>rd n1 st n2. node_ready n = Inr (rd, n1) \<and>
    persist_ready rd (rl_storage (r_log (rn_raft n1))) = Inr st \<and>
    node_advance rd (node_set_storage st n1) = Inr n2 \<and>
    node_wf n2 \<and> raft_advances (rn_raft n) (rn_raft n2) \<and>
    raft_log_abs (r_log (rn_raft n2)) = raft_log_abs (r_log (rn_raft n)) \<and>
    storage_abs st = raft_log_abs (r_log (rn_raft n)) \<and>
    raft_log_unstable_entries (r_log (rn_raft n2)) = [] \<and>
    rd_messages rd = r_msgs (rn_raft n) \<and> r_msgs (rn_raft n2) = [] \<and>
    rl_storage (r_log (rn_raft n2)) = st \<and>
    rd_entries rd = u_entries (rl_unstable (r_log (rn_raft n))) \<and>
    raft_log_next_entries (r_log (rn_raft n)) = Inr (rd_committed_entries rd) \<and>
    rd_snapshot rd = (case u_snapshot (rl_unstable (r_log (rn_raft n))) of Some s \<Rightarrow> s | None \<Rightarrow> new_snapshot) \<and>
    rl_committed (r_log (rn_raft n2)) = rl_committed (r_log (rn_raft n)) \<and>
    rl_applied (r_log (rn_raft n2)) =
      (if 0 < ready_applied_cursor rd then ready_applied_cursor rd else rl_applied (r_log (rn_raft n))) \<and>
    u_snapshot (rl_unstable (r_log (rn_raft n2))) = None"
proof -
  let ?r = "rn_raft n" and ?l = "r_log (rn_raft n)"
  have wf: "raft_wf ?r" and sy: "log_synced ?l" using assms by (simp_all add: node_wf_def)
  note lw = raft_wfD(1) [OF wf]
  have ap: "rl_applied ?l \<le> rl_committed ?l" using sy by (simp add: log_synced_def)
  obtain rd where rd: "new_ready ?r (rn_prev_soft_state n) (rn_prev_hard_state n) = Inr (rd, ?r\<lparr>r_msgs := []\<rparr>)"
    "rd_messages rd = r_msgs ?r" "rd_entries rd = u_entries (rl_unstable ?l)"
    "raft_log_next_entries ?l = Inr (rd_committed_entries rd)"
    "rd_snapshot rd = (case u_snapshot (rl_unstable ?l) of Some s \<Rightarrow> s | None \<Rightarrow> new_snapshot)"
    using new_ready_total [OF wf ap] by blast
  have new: "snap_index (ms_snapshot (rl_storage ?l)) < snap_index s" if "u_snapshot (rl_unstable ?l) = Some s" for s
    using sy that by (simp add: log_synced_def)
  obtain st where st: "persist_ready rd (rl_storage ?l) = Inr st" "storage_wf st" "storage_abs st = raft_log_abs ?l"
    "ms_snapshot st = (case u_snapshot (rl_unstable ?l) of Some s \<Rightarrow> s | None \<Rightarrow> ms_snapshot (rl_storage ?l))"
    using persist_ready_total [OF lw new rd(3,5)] by blast
  define q where "q = raft_reduce_uncommitted_size (rd_committed_entries rd) (?r\<lparr>r_msgs := []\<rparr>)"
  have gq: "raft_grows ?r q" "r_log q = ?l" "r_msgs q = []"
  proof -
    have g: "raft_grows ?r (?r\<lparr>r_msgs := []\<rparr>)" using wf by (intro raft_grows_frame) (simp_all add: raft_wf_def)
    from raft_quiet_ext [OF raft_grows_wf [OF g] raft_reduce_uncommitted_quiet [OF raft_grows_wf [OF g]]] g
    show "raft_grows ?r q" unfolding q_def by (blast intro: re.rel_trans)
    show "r_log q = ?l" "r_msgs q = []" by (simp_all add: q_def raft_reduce_uncommitted_size_def Let_def)
  qed
  have ready: "node_ready n = Inr (rd, n\<lparr>rn_raft := q\<rparr>)" using rd(1) by (simp add: node_ready_def q_def)
  let ?i = "ready_applied_cursor rd"
  define l0 where "l0 = (if 0 < ?i then raft_log_applied_to ?i (set_storage st ?l) else set_storage st ?l)"
  have s0: "snap_index s \<noteq> 0" if "u_snapshot (rl_unstable ?l) = Some s" for s using new [OF that] by simp
  obtain l1 where l1: "(if rd_entries rd \<noteq> [] then
      raft_log_stable_to (e_index (last (rd_entries rd))) (e_term (last (rd_entries rd))) l0 else Inr l0) = Inr l1"
    and l': "let l' = (if \<not> snapshot_is_empty (rd_snapshot rd) then raft_log_stable_snap_to (snap_index (rd_snapshot rd)) l1 else l1)
     in raft_log_wf l' \<and> raft_log_abs l' = raft_log_abs ?l \<and> rl_committed l' = rl_committed ?l \<and>
        rl_applied l' = (if 0 < ?i then ?i else rl_applied ?l) \<and> u_entries (rl_unstable l') = [] \<and>
        u_snapshot (rl_unstable l') = None \<and> rl_storage l' = st"
    using advance_log [OF lw st(2,3) s0 rd(3,5) l0_def] by blast
  define l' where "l' = (if \<not> snapshot_is_empty (rd_snapshot rd)
    then raft_log_stable_snap_to (snap_index (rd_snapshot rd)) l1 else l1)"
  note l' = l' [folded l'_def, unfolded Let_def]
  let ?n1 = "node_set_storage st (n\<lparr>rn_raft := q\<rparr>)"
  have eq: "r_log (rn_raft ?n1) = set_storage st ?l" by (simp add: node_set_storage_def gq(2))
  obtain n2 x where n2: "node_advance rd ?n1 = Inr n2"
    "rn_raft n2 = (rn_raft ?n1)\<lparr>r_log := l', r_read_states := x\<rparr>"
    using node_advance_eq [of rd ?n1 l1, unfolded eq, OF l1 [unfolded l0_def], folded l'_def] by blast
  have r2: "rn_raft n2 = q\<lparr>r_log := l', r_read_states := x\<rparr>" using n2(2) by (simp add: node_set_storage_def)
  have sy': "log_synced l'"
    using l' st(4) sy ready_cursor_committed [OF lw sy rd(4,5)] raft_log_wfD(4) [OF lw]
    by (auto simp: log_synced_def raft_log_abs_def split: option.splits if_splits)
  have keeps: "log_advances ?l l'" using l' sy' by (simp add: log_advances_def)
  have adv: "raft_advances q (q\<lparr>r_log := l'\<rparr>)" using keeps gq(2) by (intro raft_advances_log raft_grows_wf [OF gq(1)]) simp
  from ra.rel_trans [OF this raft_grows_advances [OF raft_grows_read_states], of x]
  have g2: "raft_advances q (rn_raft n2)" using adv by (simp add: r2 raft_advances_def)
  have "node_wf n2" using g2 sy' by (simp add: node_wf_def r2 raft_advances_def)
  moreover have "raft_advances ?r (rn_raft n2)" by (rule ra.rel_trans [OF raft_grows_advances [OF gq(1)] g2])
  moreover have "persist_ready rd (rl_storage (r_log (rn_raft (n\<lparr>rn_raft := q\<rparr>)))) = Inr st" using st(1) gq(2) by simp
  ultimately show ?thesis
    using ready n2(1) l' st(3) rd(2-5) gq(3)
    by (intro exI conjI) (assumption | simp add: r2 raft_log_unstable_entries_def)+
qed

lemma node_round_total:
  assumes "node_wf n"
  shows "\<exists>rd n1 st n2. node_ready n = Inr (rd, n1) \<and>
    persist_ready rd (rl_storage (r_log (rn_raft n1))) = Inr st \<and>
    node_advance rd (node_set_storage st n1) = Inr n2 \<and>
    node_wf n2 \<and> raft_advances (rn_raft n) (rn_raft n2) \<and>
    raft_log_abs (r_log (rn_raft n2)) = raft_log_abs (r_log (rn_raft n)) \<and>
    storage_abs st = raft_log_abs (r_log (rn_raft n)) \<and>
    raft_log_unstable_entries (r_log (rn_raft n2)) = [] \<and>
    rd_messages rd = r_msgs (rn_raft n) \<and> r_msgs (rn_raft n2) = [] \<and>
    rl_storage (r_log (rn_raft n2)) = st"
  using node_round_full [OF assms] by blast

section \<open>Runs\<close>

text \<open>Local messages built by the node interface are always well formed.\<close>

definition node_room :: "raw_node \<Rightarrow> bool" where
  "node_room n \<longleftrightarrow> r_term (rn_raft n) < u64_max \<and> log_last (r_log (rn_raft n)) + 2 < u64_max"

lemma interface_msg_ok:
  assumes "node_room n" "m_term m = 0" "m_index m = 0" "m_reject_hint m = 0" "m_snapshot m = new_snapshot"
    "length (m_entries m) \<le> 1" "m_type m \<notin> {MsgApp, MsgHeartbeat, MsgSnap}"
  shows "step_ok m (rn_raft n)"
  using assms by (auto simp: step_ok_def msg_wf_def node_room_def new_snapshot_def u64_max_def)

text \<open>
  The calls of the application other than rounds: those that take nothing from the network, and
  messages from other nodes. Only rounds write to the storage and change what counts as saved.
\<close>

inductive node_local :: "raw_node \<Rightarrow> raw_node \<Rightarrow> bool" where
  Tick: "node_room n \<Longrightarrow> node_tick n = Inr n' \<Longrightarrow> node_local n n'"
| Campaign: "node_room n \<Longrightarrow> node_campaign n = Inr (s, n') \<Longrightarrow> node_local n n'"
| Propose: "node_room n \<Longrightarrow> node_propose data n = Inr (s, n') \<Longrightarrow> node_local n n'"
| Propose_conf: "node_room n \<Longrightarrow> node_propose_conf_change ser cc n = Inr (s, n') \<Longrightarrow> node_local n n'"
| Apply_conf: "node_apply_conf_change cc n = Inr (cs, n') \<Longrightarrow> node_local n n'"
| Transfer: "node_room n \<Longrightarrow> node_transfer_leadership lead i n = Inr n' \<Longrightarrow> node_local n n'"
| Read_index: "node_room n \<Longrightarrow> node_read_index ctx n = Inr (s, n') \<Longrightarrow> node_local n n'"
| Unreachable: "node_room n \<Longrightarrow> node_report_unreachable i n = Inr n' \<Longrightarrow> node_local n n'"
| Snapshot_status: "node_room n \<Longrightarrow> node_report_snapshot i st n = Inr n' \<Longrightarrow> node_local n n'"

inductive node_call :: "raw_node \<Rightarrow> raw_node \<Rightarrow> bool" where
  Local: "node_local n n' \<Longrightarrow> node_call n n'"
| Step: "step_ok msg (rn_raft n) \<Longrightarrow> node_step msg n = Inr (s, n') \<Longrightarrow> node_call n n'"

inductive node_trans :: "raw_node \<Rightarrow> raw_node \<Rightarrow> bool" where
  Call: "node_call n n' \<Longrightarrow> node_trans n n'"
| Round: "node_ready n = Inr (rd, n1) \<Longrightarrow> persist_ready rd (rl_storage (r_log (rn_raft n1))) = Inr st \<Longrightarrow>
    node_advance rd (node_set_storage st n1) = Inr n' \<Longrightarrow> node_trans n n'"

lemma node_raft_step_ext:
  assumes "node_wf n" "step_ok m (rn_raft n)" "node_raft_step m n = Inr (s, n')"
  shows "raft_grows (rn_raft n) (rn_raft n')"
  using assms raft_step_ext [of "rn_raft n" m]
  by (auto simp: node_raft_step_def node_wf_def elim!: bindr_pair_E)

lemma interface_ext:
  assumes "node_wf n" "node_room n" "node_raft_step m n = Inr (s, n')" "m_term m = 0" "m_index m = 0"
    "m_reject_hint m = 0" "m_snapshot m = new_snapshot" "length (m_entries m) \<le> 1"
    "m_type m \<notin> {MsgApp, MsgHeartbeat, MsgSnap}"
  shows "raft_grows (rn_raft n) (rn_raft n')"
  by (rule node_raft_step_ext [OF assms(1) interface_msg_ok [OF assms(2,4-9)] assms(3)])

lemma node_apply_conf_change_ext:
  assumes "node_wf n" "node_apply_conf_change cc n = Inr (cs, n')"
  shows "raft_grows (rn_raft n) (rn_raft n')"
proof -
  have wf: "raft_wf (rn_raft n)" using assms(1) by (simp add: node_wf_def)
  show ?thesis
    using assms(2) raft_add_node_or_learner_ext [OF wf] raft_remove_node_ext [OF wf] re.rel_refl [OF wf]
    by (auto simp: node_apply_conf_change_def bindr_eq_Inr split: if_split_asm conf_change_type.split_asm)
qed

lemma node_local_grows:
  assumes "node_local n n'" "node_wf n"
  shows "raft_grows (rn_raft n) (rn_raft n')"
  using assms
proof (induction rule: node_local.induct)
  case (Tick n n')
  then show ?case
    using raft_tick_ext [of "rn_raft n"] by (auto simp: node_tick_def node_wf_def node_room_def bindr_eq_Inr)
next
  case (Apply_conf cc n cs n')
  then show ?case by (auto intro: node_apply_conf_change_ext)
qed (auto simp: node_campaign_def node_propose_def node_propose_conf_change_def node_transfer_leadership_def
    node_read_index_def node_report_unreachable_def node_report_snapshot_def new_message_def
    elim!: bindr_pair_E intro: interface_ext)

lemma node_call_grows:
  assumes "node_call n n'" "node_wf n"
  shows "raft_grows (rn_raft n) (rn_raft n')"
  using assms
proof (induction rule: node_call.induct)
  case (Local n n')
  then show ?case by (rule node_local_grows)
next
  case (Step msg n s n')
  have wf: "raft_wf (rn_raft n)" using Step.prems by (simp add: node_wf_def)
  show ?case
    using Step node_raft_step_ext [OF Step.prems Step.hyps(1)] re.rel_refl [OF wf]
    by (auto simp: node_step_def split: if_split_asm)
qed

lemma node_raft_step_prev: "node_raft_step m n = Inr (s, n') \<Longrightarrow> rn_prev_hard_state n' = rn_prev_hard_state n"
  by (auto simp: node_raft_step_def elim!: bindr_pair_E)

lemma node_local_prev: "node_local n n' \<Longrightarrow> rn_prev_hard_state n' = rn_prev_hard_state n"
  by (induction rule: node_local.induct)
    (auto simp: node_tick_def node_campaign_def node_propose_def node_propose_conf_change_def
      node_apply_conf_change_def node_transfer_leadership_def node_read_index_def node_report_unreachable_def
      node_report_snapshot_def bindr_eq_Inr node_raft_step_prev split: if_split_asm)

lemma node_call_prev: "node_call n n' \<Longrightarrow> rn_prev_hard_state n' = rn_prev_hard_state n"
  by (induction rule: node_call.induct) (auto simp: node_local_prev node_step_def node_raft_step_prev split: if_split_asm)

lemma node_trans_grows:
  assumes "node_trans n n'" "node_wf n"
  shows "raft_advances (rn_raft n) (rn_raft n')"
  using assms
proof (induction rule: node_trans.induct)
  case (Call n n')
  then show ?case by (intro raft_grows_advances node_call_grows)
next
  case (Round n rd n1 st n')
  from node_round_total [OF Round.prems] Round.hyps show ?case by auto
qed

lemma node_trans_wf:
  assumes "node_trans n n'" "node_wf n"
  shows "node_wf n'"
  using node_trans_grows [OF assms] assms(2) by (auto simp: node_wf_def raft_advances_def log_advances_def)

lemma node_run:
  assumes "node_trans\<^sup>*\<^sup>* n n'" "node_wf n"
  shows "node_wf n' \<and> raft_advances (rn_raft n) (rn_raft n')"
  using assms
proof (induction rule: rtranclp_induct)
  case base
  then show ?case by (simp add: node_wf_def ra.rel_refl)
next
  case (step m m')
  then have "node_wf m" "raft_advances (rn_raft n) (rn_raft m)" by simp_all
  with node_trans_wf [OF step.hyps(2)] node_trans_grows [OF step.hyps(2)] show ?case
    by (blast intro: ra.rel_trans)
qed

end
