(* ===== verification/Raft_Behaviour.thy ===== *)
theory Raft_Behaviour
  imports Node_Run
begin

text \<open>
  What single handlers of a raft node compute, branch by branch: the answer to an append
  request, the answer to a vote request, how a candidate counts votes, what a leader
  appends for a proposal, and what the constructor builds.
\<close>

section \<open>Messages sent\<close>

definition sends :: "message \<Rightarrow> raft \<Rightarrow> raft" where
  "sends msg r = r\<lparr>r_msgs := r_msgs r @ [stamped msg r]\<rparr>"

lemma raft_send_reply:
  "\<not> vote_type (m_type msg) \<Longrightarrow> m_term msg = 0 \<Longrightarrow> raft_send msg r = Inr (sends msg r)"
  by (simp add: raft_send_spec sends_def)

lemma raft_send_vote:
  "vote_type (m_type msg) \<Longrightarrow> m_term msg \<noteq> 0 \<Longrightarrow> raft_send msg r = Inr (sends msg r)"
  by (simp add: raft_send_spec sends_def)

lemma sends_sel [simp]:
  "r_log (sends m r) = r_log r" "r_term (sends m r) = r_term r" "r_vote (sends m r) = r_vote r"
  "r_state (sends m r) = r_state r" "r_id (sends m r) = r_id r" "r_prs (sends m r) = r_prs r"
  "r_msgs (sends m r) = r_msgs r @ [stamped m r]" "r_votes (sends m r) = r_votes r"
  by (simp_all add: sends_def)

section \<open>The answer to an append request\<close>

definition app_resp :: "message \<Rightarrow> u64 \<Rightarrow> message" where
  "app_resp msg i = new_message\<lparr>m_to := m_from msg, m_type := MsgAppResp, m_index := i\<rparr>"

lemma app_resp_sel [simp]:
  "\<not> vote_type (m_type (app_resp msg i))" "m_term (app_resp msg i) = 0"
  by (simp_all add: app_resp_def vote_type_def new_message_def)

lemma append_stale:
  assumes "m_index msg < rl_committed (r_log r)"
  shows "raft_handle_append_entries msg r = Inr (sends (app_resp msg (rl_committed (r_log r))) r)"
  using assms raft_send_reply [OF app_resp_sel, of msg "rl_committed (r_log r)" r]
  by (simp add: raft_handle_append_entries_def app_resp_def)

lemma append_mismatch:
  assumes wf: "raft_log_wf (r_log r)" and i: "rl_committed (r_log r) \<le> m_index msg"
    and t: "m_log_term msg \<noteq> alog_term_at (raft_log_abs (r_log r)) (m_index msg)"
  shows "raft_handle_append_entries msg r =
    Inr (sends ((app_resp msg (m_index msg))\<lparr>m_reject := True, m_reject_hint := log_last (r_log r)\<rparr>) r)"
proof -
  let ?m = "(app_resp msg (m_index msg))\<lparr>m_reject := True, m_reject_hint := log_last (r_log r)\<rparr>"
  have "raft_send ?m r = Inr (sends ?m r)"
    using app_resp_sel [of msg "m_index msg"] by (intro raft_send_reply) simp_all
  moreover have "r\<lparr>r_log := r_log r\<rparr> = r" by simp
  ultimately show ?thesis
    using wf i t by (simp add: raft_handle_append_entries_def raft_log_maybe_append_reject [OF wf t] app_resp_def)
qed

lemma append_match:
  assumes wf: "raft_log_wf (r_log r)" and m: "msg_wf msg" "m_type msg = MsgApp"
    and i: "rl_committed (r_log r) \<le> m_index msg"
    and t: "m_log_term msg = alog_term_at (raft_log_abs (r_log r)) (m_index msg)"
  shows "\<exists>l. raft_handle_append_entries msg r =
      Inr (sends (app_resp msg (m_index msg + length (m_entries msg))) (r\<lparr>r_log := l\<rparr>)) \<and>
    raft_log_wf l \<and> raft_log_abs l = appended (m_index msg) (m_entries msg) (raft_log_abs (r_log r)) \<and>
    rl_committed l = max (rl_committed (r_log r)) (min (m_commit msg) (m_index msg + length (m_entries msg))) \<and>
    log_keeps (r_log r) l"
proof -
  obtain l where l: "raft_log_maybe_append (m_index msg) (m_log_term msg) (m_commit msg) (m_entries msg) (r_log r) =
      Inr (m_index msg + length (m_entries msg), True, l)" "raft_log_wf l"
    "raft_log_abs l = appended (m_index msg) (m_entries msg) (raft_log_abs (r_log r))"
    "rl_committed l = max (rl_committed (r_log r)) (min (m_commit msg) (m_index msg + length (m_entries msg)))"
    "log_keeps (r_log r) l"
    using raft_log_maybe_append_request [OF wf _ _ _ _ i t] m by (auto simp: msg_wf_def)
  from l(1) i raft_send_reply [OF app_resp_sel, of msg _ "r\<lparr>r_log := l\<rparr>"]
  have "raft_handle_append_entries msg r =
      Inr (sends (app_resp msg (m_index msg + length (m_entries msg))) (r\<lparr>r_log := l\<rparr>))"
    by (simp add: raft_handle_append_entries_def app_resp_def Let_def)
  with l(2-5) show ?thesis by blast
qed

section \<open>The answer to a vote request\<close>

definition vote_resp :: "message \<Rightarrow> message" where
  "vote_resp msg = new_message\<lparr>m_to := m_from msg,
     m_type := (if m_type msg = MsgVote then MsgVoteResp else MsgPreVoteResp)\<rparr>"

definition up_to_date :: "message \<Rightarrow> raft_log \<Rightarrow> bool" where
  "up_to_date msg l \<longleftrightarrow>
     alog_term_at (raft_log_abs l) (log_last l) < m_log_term msg \<or>
     alog_term_at (raft_log_abs l) (log_last l) = m_log_term msg \<and> log_last l \<le> m_index msg"

lemma raft_log_line_wf [simp]: "raft_log_wf (r_log r) \<Longrightarrow> raft_log_line r = Inr ()"
  by (simp add: raft_log_line_def)

lemma raft_step_vote_spec:
  assumes wf: "raft_log_wf (r_log r)" and ty: "m_type msg \<in> {MsgVote, MsgPreVote}"
    and t: "0 < m_term msg" "0 < r_term r" and l: "\<not> r_is_learner r"
  shows "raft_step_vote msg r =
    Inr (if raft_can_vote msg r \<and> up_to_date msg (r_log r) then
           let r1 = sends ((vote_resp msg)\<lparr>m_term := m_term msg\<rparr>) r in
           if m_type msg = MsgVote then r1\<lparr>r_election_elapsed := 0, r_vote := m_from msg\<rparr> else r1
         else sends ((vote_resp msg)\<lparr>m_term := r_term r, m_reject := True\<rparr>) r)"
proof -
  have [simp]: "raft_send ((vote_resp msg)\<lparr>m_term := m_term msg\<rparr>) r = Inr (sends ((vote_resp msg)\<lparr>m_term := m_term msg\<rparr>) r)"
    "raft_send ((vote_resp msg)\<lparr>m_term := r_term r, m_reject := True\<rparr>) r =
      Inr (sends ((vote_resp msg)\<lparr>m_term := r_term r, m_reject := True\<rparr>) r)"
    using ty t by (auto simp: vote_resp_def vote_type_def intro!: raft_send_vote)
  have eq: "new_message\<lparr>m_to := m_from msg, m_term := x, m_type := resp\<rparr> = (vote_resp msg)\<lparr>m_term := x\<rparr>"
    "new_message\<lparr>m_to := m_from msg, m_term := x, m_type := resp, m_reject := True\<rparr> =
      (vote_resp msg)\<lparr>m_term := x, m_reject := True\<rparr>"
    if "resp = (if m_type msg = MsgVote then MsgVoteResp else MsgPreVoteResp)" for x resp
    unfolding that vote_resp_def by (simp_all add: new_message_def)
  have resp: "vote_resp_msg_type (m_type msg) = Inr (if m_type msg = MsgVote then MsgVoteResp else MsgPreVoteResp)"
    "\<exists>s. msg_type_to_string (m_type msg) = Inr s"
    using ty by auto
  then obtain s where s: "msg_type_to_string (m_type msg) = Inr s" by blast
  have grant: "(if raft_can_vote msg r then raft_log_is_up_to_date (m_index msg) (m_log_term msg) (r_log r) else Inr False) =
      Inr (raft_can_vote msg r \<and> up_to_date msg (r_log r))"
    by (simp add: raft_log_is_up_to_date_wf [OF wf] up_to_date_def)
  show ?thesis
    unfolding raft_step_vote_def grant if_not_P [OF l] resp(1) s raft_log_line_wf [OF wf] bindr.simps eq [OF refl]
    by (simp add: Let_def)
qed

section \<open>Who becomes leader\<close>

text \<open>A candidate records the first answer of every voter.\<close>

definition recorded :: "u64 \<Rightarrow> bool \<Rightarrow> raft \<Rightarrow> (u64 \<times> bool) list" where
  "recorded i v r =
     (if map_of (r_votes r) i = None then AList.update i v (r_votes r) else r_votes r)"

definition wins :: "message \<Rightarrow> raft \<Rightarrow> bool" where
  "wins msg r \<longleftrightarrow>
     raft_quorum r = cast32 (length (filter snd (recorded (m_from msg) (\<not> m_reject msg) r)))"

text \<open>Operations that do not touch the role, or only give it up.\<close>

lemma raft_send_state: "raft_send m r = Inr r' \<Longrightarrow> r_state r' = r_state r"
  by (auto simp: raft_send_spec split: if_splits)

lemma raft_become_follower_state: "raft_become_follower t l r = Inr r' \<Longrightarrow> r_state r' = Follower"
  by (auto simp: raft_become_follower_def res_simps)

lemma raft_handle_append_entries_state:
  "raft_handle_append_entries msg r = Inr r' \<Longrightarrow> r_state r' = r_state r"
  unfolding raft_handle_append_entries_def Let_def case_prod_beta
  by (auto dest!: raft_send_state elim!: bindr_Inr_E split: if_split_asm)

lemma raft_handle_heartbeat_state: "raft_handle_heartbeat msg r = Inr r' \<Longrightarrow> r_state r' = r_state r"
  unfolding raft_handle_heartbeat_def by (auto dest!: raft_send_state elim!: bindr_Inr_E)

lemma raft_restore_node_state: "raft_restore_node b i r = Inr r' \<Longrightarrow> r_state r' = r_state r"
  by (auto simp: raft_restore_node_def raft_set_progress_def Let_def elim!: bindr_Inr_E split: if_split_asm)

lemma raft_restore_nodes_state:
  "for_each (raft_restore_node b) is r = Inr r' \<Longrightarrow> r_state r' = r_state r"
  by (induction "is" arbitrary: r) (auto elim!: bindr_Inr_E dest!: raft_restore_node_state)

lemma raft_restore_state:
  assumes "raft_restore s r = Inr (b, r')"
  shows "r_state r' = r_state r"
  using assms unfolding raft_restore_def Let_def
  by (auto simp del: for_each.simps elim!: bindr_Inr_E dest!: raft_restore_nodes_state split: if_split_asm)

lemma raft_handle_snapshot_state: "raft_handle_snapshot msg r = Inr r' \<Longrightarrow> r_state r' = r_state r"
  unfolding raft_handle_snapshot_def
  by (elim bindr_pair_E bindr_Inr_E) (simp add: raft_send_state raft_restore_state)

lemma raft_step_vote_state: "raft_step_vote msg r = Inr r' \<Longrightarrow> r_state r' = r_state r"
  unfolding raft_step_vote_def by (auto elim!: bindr_Inr_E dest!: raft_send_state split: if_split_asm)

lemma raft_quorum_keys: "map fst (r_prs r') = map fst (r_prs r) \<Longrightarrow> raft_quorum r' = raft_quorum r"
  unfolding raft_quorum_def by (metis length_map)

lemma raft_poll_recorded:
  assumes "raft_poll i t v r = Inr (n, r')"
  shows "r_votes r' = recorded i v r" "n = cast32 (length (filter snd (recorded i v r)))"
    "r_state r' = r_state r" "r_prs r' = r_prs r" "r_id r' = r_id r" "r_term r' = r_term r" "r_log r' = r_log r"
  using assms by (auto simp: raft_poll_def Let_def res_simps recorded_def)

lemma raft_request_votes_state:
  assumes "raft_wf r" "for_each (raft_request_vote m t) is r = Inr r'"
  shows "r_state r' = r_state r"
proof -
  have "raft_quiet r r'"
    using assms(2) by (rule rq.loop [OF assms(1)]) (rule raft_request_vote_quiet)
  then show ?thesis by (simp add: raft_quiet_def)
qed

text \<open>A campaign makes its node leader at once only when the node's own vote is a majority.\<close>

lemma raft_campaign_election_leader:
  assumes wf: "raft_wf r" and t: "r_term r < u64_max" and res: "raft_campaign_election r = Inr r'"
    and l: "r_state r' = Leader"
  shows "raft_quorum r = 1"
proof -
  from res obtain r1 n r2 where r1: "raft_become_candidate r = Inr r1"
    and r2: "raft_poll (r_id r1) MsgVoteResp True r1 = Inr (n, r2)"
    and r': "(if raft_quorum r2 = n then raft_become_leader r2
      else for_each (raft_request_vote MsgVote (r_term r2)) (map fst (r_prs r2)) r2) = Inr r'"
    unfolding raft_campaign_election_def by (auto elim!: bindr_Inr_E bindr_pair_E)
  note e1 = raft_become_candidate_ext [OF wf t r1]
  have "r_state r \<noteq> Leader" using r1 by (auto simp: raft_become_candidate_def)
  with raft_become_candidate_wf [OF wf] r1 have v: "r_votes r1 = []" "map fst (r_prs r1) = map fst (r_prs r)"
    by auto
  note p = raft_poll_recorded [OF r2]
  have n: "n = 1" using p(2) v by (simp add: recorded_def cast32_def u32_max_def)
  have q: "raft_quorum r2 = raft_quorum r" using p(4) v(2) by (intro raft_quorum_keys) simp
  have w2: "raft_wf r2" by (rule raft_grows_wf [OF raft_poll_ext(1) [OF raft_grows_wf [OF e1(1)] r2]])
  have "raft_quorum r2 = n"
    using r' raft_request_votes_state [OF w2] p(3) e1(3) l by (auto split: if_splits)
  with n q show ?thesis by simp
qed

lemma raft_campaign_leader:
  assumes wf: "raft_wf r" and t: "r_term r < u64_max" and res: "raft_campaign ct r = Inr r'"
    and l: "r_state r' = Leader"
  shows "raft_quorum r = 1"
proof (cases "ct = kCampaignPreElection")
  case True
  then obtain r1 n r2 where r1: "raft_become_pre_candidate r = Inr r1"
    and r2: "raft_poll (r_id r1) MsgPreVoteResp True r1 = Inr (n, r2)"
    and r': "(if raft_quorum r2 = n then raft_campaign_election r2
      else for_each (raft_request_vote MsgPreVote (add64 (r_term r2) 1)) (map fst (r_prs r2)) r2) = Inr r'"
    using res unfolding raft_campaign_def by (auto elim!: bindr_Inr_E bindr_pair_E)
  note e1 = raft_become_pre_candidate_ext [OF wf r1]
  have prs: "r_prs r1 = r_prs r" using r1 by (auto simp: raft_become_pre_candidate_def res_simps split: if_splits)
  note p = raft_poll_recorded [OF r2]
  have w2: "raft_wf r2" by (rule raft_grows_wf [OF raft_poll_ext(1) [OF raft_grows_wf [OF e1(1)] r2]])
  have q: "raft_quorum r2 = raft_quorum r" using p(4) prs by (intro raft_quorum_keys) simp
  have "raft_campaign_election r2 = Inr r'"
    using r' raft_request_votes_state [OF w2] p(3) e1(3) l by (auto split: if_splits)
  from raft_campaign_election_leader [OF w2 _ this l] q p(6) e1(4) t show ?thesis by simp
qed (use assms raft_campaign_election_leader in \<open>simp add: raft_campaign_def\<close>)

lemma raft_candidate_vote_resp_leader:
  assumes wf: "raft_wf r" and t: "r_term r < u64_max" and s: "r_state r \<noteq> Leader"
    and res: "raft_candidate_vote_resp msg r = Inr r'" and l: "r_state r' = Leader"
  shows "raft_quorum r = 1 \<or> (r_state r = Candidate \<and> wins msg r)"
proof -
  from res obtain n r1 where r1: "raft_poll (m_from msg) (m_type msg) (\<not> m_reject msg) r = Inr (n, r1)"
    and c: "(if raft_quorum r1 = n then
       (if r_state r1 = PreCandidate then raft_campaign kCampaignElection r1
        else bindr (assertr ''state_ == RaftState::Candidate'' (r_state r1 = Candidate)) (\<lambda>_.
          bindr (raft_become_leader r1) raft_bcast_append))
     else if raft_quorum r1 = sub64 (length (r_votes r1)) n then raft_become_follower (r_term r1) 0 r1
     else Inr r1) = Inr r'"
    unfolding raft_candidate_vote_resp_def by (auto elim!: bindr_Inr_E bindr_pair_E)
  note p = raft_poll_recorded [OF r1]
  have w1: "raft_wf r1" by (rule raft_grows_wf [OF raft_poll_ext(1) [OF wf r1]])
  have q: "raft_quorum r1 = raft_quorum r" using p(4) by (intro raft_quorum_keys) simp
  show ?thesis
  proof (cases "raft_quorum r1 = n")
    case True
    then have "wins msg r" using q p(2) by (simp add: wins_def)
    moreover have "raft_quorum r = 1" if "r_state r1 = PreCandidate"
      using raft_campaign_leader [OF w1 _ _ l] c True that p(6) t q by simp
    moreover have "r_state r1 = Candidate" if "r_state r1 \<noteq> PreCandidate"
      using c True that by (auto simp: assertr_def split: if_split_asm)
    ultimately show ?thesis using p(3) by auto
  next
    case False
    have "r_state r' \<noteq> Leader"
    proof (cases "raft_quorum r1 = sub64 (length (r_votes r1)) n")
      case True
      with c False have "raft_become_follower (r_term r1) 0 r1 = Inr r'" by simp
      then show ?thesis by (auto dest!: raft_become_follower_state)
    next
      case False
      with c \<open>raft_quorum r1 \<noteq> n\<close> have "r1 = r'" by simp
      with p(3) s show ?thesis by simp
    qed
    with l show ?thesis by simp
  qed
qed

lemma raft_step_candidate_leader:
  assumes wf: "raft_wf r" and t: "r_term r < u64_max" and s: "r_state r \<noteq> Leader"
    and res: "raft_step_candidate msg r = Inr (st, r')" and l: "r_state r' = Leader"
  shows "raft_quorum r = 1 \<or>
    (r_state r = Candidate \<and> wins msg r \<and> m_type msg \<in> {MsgVoteResp, MsgPreVoteResp})"
proof -
  have no: "False" if "bindr (raft_become_follower x y r) h = Inr r'"
    and "\<And>q q'. h q = Inr q' \<Longrightarrow> r_state q' = r_state q" for x y h
    using that raft_become_follower_state [of x y r] l by (elim bindr_Inr_E) auto
  have nf: "bindr (raft_become_follower x y r) (raft_handle_append_entries msg) \<noteq> Inr r'"
    "bindr (raft_become_follower x y r) (raft_handle_heartbeat msg) \<noteq> Inr r'"
    "bindr (raft_become_follower x y r) (raft_handle_snapshot msg) \<noteq> Inr r'" for x y
    using no raft_handle_append_entries_state raft_handle_heartbeat_state raft_handle_snapshot_state by metis+
  have "r \<noteq> r'" using s l by auto
  with nf show ?thesis
    using res raft_candidate_vote_resp_leader [OF wf t s _ l, of msg] unfolding raft_step_candidate_def
    by (auto simp only: with_ok_eq sum.inject prod.inject split: if_split_asm)
qed

lemma raft_step_follower_leader:
  assumes wf: "raft_wf r" and t: "r_term r < u64_max" and s: "r_state r \<noteq> Leader"
    and res: "raft_step_follower msg r = Inr (st, r')" and l: "r_state r' = Leader"
  shows "raft_quorum r = 1"
proof -
  let ?r = "r\<lparr>r_election_elapsed := 0, r_lead := m_from msg\<rparr>"
  have ne: "r \<noteq> r'" "r_state r' \<noteq> r_state r" "r_state r' \<noteq> r_state ?r"
    "\<And>x. r\<lparr>r_read_states := x\<rparr> \<noteq> r'" using s l by auto
  have no: "raft_handle_append_entries msg ?r \<noteq> Inr r'" "raft_handle_heartbeat msg ?r \<noteq> Inr r'"
    "raft_handle_snapshot msg ?r \<noteq> Inr r'" "raft_send (msg\<lparr>m_to := r_lead r\<rparr>) r \<noteq> Inr r'"
    using ne(2,3) raft_handle_append_entries_state raft_handle_heartbeat_state raft_handle_snapshot_state raft_send_state
    by metis+
  from res show ?thesis
    unfolding raft_step_follower_def with_ok_eq
    using no ne(1,4) raft_campaign_leader [OF wf t _ l]
    by (auto simp only: with_ok_eq sum.inject prod.inject split: if_split_asm list.split_asm)
qed

text \<open>The whole step: only a majority of granted votes makes a leader.\<close>

lemma raft_step_type_leader:
  assumes wf: "raft_wf r" and t: "r_term r < u64_max" and s: "r_state r \<noteq> Leader"
    and res: "raft_step_type msg r = Inr (st, r')" and l: "r_state r' = Leader"
  shows "raft_quorum r = 1 \<or>
    (r_state r = Candidate \<and> wins msg r \<and> m_type msg \<in> {MsgVoteResp, MsgPreVoteResp})"
proof -
  have ne: "r \<noteq> r'" using s l by auto
  have hup: "raft_quorum r = 1" if "raft_step_hup r = Inr r'"
    using that ne raft_campaign_leader [OF wf t _ l] unfolding raft_step_hup_def
    by (auto elim!: bindr_pair_E split: if_split_asm)
  have vote: "raft_step_vote msg r \<noteq> Inr r'" using raft_step_vote_state [of msg r r'] s l by auto
  have "r_step r = Some (step_of (r_state r))" using raft_wfD(4) [OF wf] by (simp add: mode_wf_def)
  with s have "raft_quorum r = 1 \<or> (r_state r = Candidate \<and> wins msg r \<and> m_type msg \<in> {MsgVoteResp, MsgPreVoteResp})"
    if "raft_call_step msg r = Inr (st, r')"
    using that raft_step_candidate_leader [OF wf t s _ l] raft_step_follower_leader [OF wf t s _ l]
    unfolding raft_call_step_def by (cases "r_state r") auto
  with res hup vote show ?thesis
    unfolding raft_step_type_def by (auto simp only: with_ok_eq split: if_split_asm)
qed

lemma raft_step_leader_quorum:
  assumes wf: "raft_wf r" and t: "r_term r < u64_max" "m_term msg < u64_max" and s: "r_state r \<noteq> Leader"
    and res: "raft_step msg r = Inr (st, r')" and l: "r_state r' = Leader"
  shows "raft_quorum r = 1 \<or>
    (r_state r = Candidate \<and> wins msg r \<and> m_type msg \<in> {MsgVoteResp, MsgPreVoteResp})"
proof -
  note type = raft_step_type_leader [OF wf t(1) s _ l]
  have ne: "r \<noteq> r'" using s l by auto
  have higher: ?thesis if h: "raft_step_higher msg r = Inr (st, r')" "r_term r < m_term msg"
  proof -
    have "raft_step_type msg r = Inr (st, r') \<or>
      (\<exists>ld r1. raft_become_follower (m_term msg) ld r = Inr r1 \<and> raft_step_type msg r1 = Inr (st, r'))"
      using h(1) ne unfolding raft_step_higher_def by (auto elim!: bindr_Inr_E split: if_split_asm)
    then show ?thesis
    proof (elim disjE exE conjE)
      fix ld r1
      assume r1: "raft_become_follower (m_term msg) ld r = Inr r1" "raft_step_type msg r1 = Inr (st, r')"
      from raft_become_follower_wf [OF raft_wfD(7) [OF wf], of "m_term msg" ld] r1(1)
      have f: "raft_wf r1" "r_state r1 = Follower" "r_term r1 = m_term msg" "raft_quorum r1 = raft_quorum r"
        by (auto intro: raft_quorum_keys)
      from raft_step_type_leader [OF f(1) _ _ r1(2) l] f t(2) show ?thesis by simp
    qed (rule type)
  qed
  have lower: "raft_step_lower msg r \<noteq> Inr (st, r')"
    using ne raft_send_state [of _ r r'] s l unfolding raft_step_lower_def
    by (auto simp: with_ok_eq elim!: bindr_Inr_E split: if_split_asm)
  from res show ?thesis
    unfolding raft_step_def using type higher lower by (auto split: if_split_asm)
qed

section \<open>What a leader appends\<close>

text \<open>Peers whose next entry is not compacted.\<close>

definition in_reach :: "raft \<Rightarrow> bool" where
  "in_reach r \<longleftrightarrow> (\<forall>i p. raft_get_progress i r = Some p \<longrightarrow> log_base (r_log r) < pr_next p)"

lemma raft_get_put_other:
  "j \<noteq> i \<Longrightarrow> raft_get_progress j (raft_put_progress i q r) = raft_get_progress j r"
  by (auto simp: raft_get_progress_def raft_put_progress_def update_conv' split: option.splits)

lemma in_reach_put:
  assumes "in_reach r" "raft_get_progress i r = Some p" "log_base (r_log r) < pr_next q"
  shows "in_reach (raft_put_progress i q r)"
  unfolding in_reach_def
proof (intro allI impI)
  fix j p'
  assume "raft_get_progress j (raft_put_progress i q r) = Some p'"
  then show "log_base (r_log (raft_put_progress i q r)) < pr_next p'"
    using assms raft_get_put_progress [OF assms(2), of q] raft_get_put_other [of j i q r]
    by (cases "j = i") (auto simp: in_reach_def)
qed

lemma in_reach_cong:
  assumes "in_reach r" "r_prs r' = r_prs r" "r_learner_prs r' = r_learner_prs r" "log_base (r_log r') = log_base (r_log r)"
  shows "in_reach r'"
  using assms by (simp add: in_reach_def raft_get_progress_def cong: option.case_cong)

lemma in_reach_msgs [simp]: "in_reach (sends m r) = in_reach r" "in_reach (r\<lparr>r_msgs := ms\<rparr>) = in_reach r"
  by (simp_all add: in_reach_def raft_get_progress_def sends_def cong: option.case_cong)

lemma raft_put_progress_length:
  "raft_get_progress i r = Some p \<Longrightarrow> length (r_prs (raft_put_progress i q r)) = length (r_prs r)"
  using raft_put_progress_keys(1) by (rule map_eq_imp_length_eq)

lemma raft_maybe_commit_shape:
  assumes "raft_wf r" "0 < r_term r" "r_prs r \<noteq> []" "length (r_prs r) \<le> u32_max"
  shows "\<exists>b c. raft_maybe_commit r =
    Inr (b, r\<lparr>r_match_buf := sort (map (pr_match \<circ> snd) (r_prs r)), r_log := (r_log r)\<lparr>rl_committed := c\<rparr>\<rparr>)"
proof -
  have "(r_log r)\<lparr>rl_committed := rl_committed (r_log r)\<rparr> = r_log r" by simp
  then show ?thesis unfolding raft_maybe_commit_spec [OF assms] Let_def by (metis (full_types))
qed

definition over_limit :: "entry list \<Rightarrow> raft \<Rightarrow> bool" where
  "over_limit es r \<longleftrightarrow>
     0 < r_uncommitted_size r \<and> r_max_uncommitted_size r < add64 (r_uncommitted_size r) (raft_payload es)"

lemma raft_append_entry_spec:
  assumes wf: "raft_wf r" and t: "0 < r_term r" and own: "map_of (r_prs r) (r_id r) = Some p"
    and n: "length (r_prs r) \<le> u32_max" and ne: "es \<noteq> []"
    and room: "log_last (r_log r) + length es < u64_max"
  defines "ents \<equiv> raft_stamp (r_term r) (log_last (r_log r)) 0 es"
  shows "over_limit ents r \<Longrightarrow> raft_append_entry es r = Inr (False, r)"
    and "\<not> over_limit ents r \<Longrightarrow> \<exists>r'. raft_append_entry es r = Inr (True, r') \<and> raft_wf r' \<and>
      raft_log_abs (r_log r') = alog_splice (raft_log_abs (r_log r)) (Suc (log_last (r_log r))) ents \<and>
      r_term r' = r_term r \<and> r_id r' = r_id r \<and> r_state r' = r_state r \<and> r_lead r' = r_lead r \<and>
      r_uncommitted_size r' = add64 (r_uncommitted_size r) (raft_payload ents) \<and> (in_reach r \<longrightarrow> in_reach r')"
proof -
  let ?li = "log_last (r_log r)"
  note lw = raft_wfD(1) [OF wf]
  show "raft_append_entry es r = Inr (False, r)" if "over_limit ents r"
    using that lw by (simp add: raft_append_entry_def raft_increase_uncommitted_size_def over_limit_def ents_def Let_def)
  assume nl: "\<not> over_limit ents r"
  let ?r1 = "r\<lparr>r_uncommitted_size := add64 (r_uncommitted_size r) (raft_payload ents)\<rparr>"
  have inc: "raft_increase_uncommitted_size ents r = (True, ?r1)"
    using nl by (auto simp: raft_increase_uncommitted_size_def over_limit_def Let_def)
  have w1: "raft_wf ?r1" using wf by (simp add: raft_wf_def)
  have c: "contig (Suc ?li) ents" using raft_stamp_contig [of ?li 0 es] room by (simp add: ents_def)
  have ents: "length ents = length es" by (simp add: ents_def)
  then have ents0: "ents \<noteq> []" using ne by auto
  obtain l where l: "raft_log_append ents (r_log r) = Inr (?li + length es, l)" "raft_log_wf l"
    "raft_log_abs l = alog_splice (raft_log_abs (r_log r)) (Suc ?li) ents" "rl_committed l = rl_committed (r_log r)"
    using raft_log_append_wf [OF lw c ents0] room ents raft_log_wfD(5) [OF lw] by auto
  have keeps: "log_keeps (r_log r) l"
    using raft_log_append_keeps [OF lw c _ _ l(1)] room ents by simp
  let ?r2 = "?r1\<lparr>r_log := l\<rparr>" and ?q = "snd (progress_maybe_update (?li + length es) p)"
  have w2: "raft_wf ?r2" using raft_grows_log [OF w1, of l] keeps by (simp add: raft_grows_wf)
  have g: "raft_get_progress (r_id r) ?r2 = Some p" using own by (simp add: raft_get_progress_def)
  have "progress_wf ?q"
    by (rule progress_maybe_update_wf(1) [OF raft_get_progress_wf [OF raft_wfD(2) [OF w2] g] room surjective_pairing])
  then have q: "raft_quiet ?r2 (raft_put_progress (r_id r) ?q ?r2)" by (rule raft_put_progress_quiet [OF w2 g])
  let ?r3 = "raft_put_progress (r_id r) ?q ?r2"
  have len: "length (r_prs ?r3) = length (r_prs r)" using raft_put_progress_length [OF g, of ?q] by simp
  have own0: "0 < length (r_prs r)" using own by (cases "r_prs r") simp_all
  have prs: "r_prs ?r3 \<noteq> []" "length (r_prs ?r3) \<le> u32_max"
    using own0 n len unfolding length_greater_0_conv [symmetric] by linarith+
  have "0 < r_term ?r3" using t by simp
  from raft_maybe_commit_shape [OF raft_quiet_wf [OF q] this prs]
  obtain b c' where mc: "raft_maybe_commit ?r3 =
    Inr (b, ?r3\<lparr>r_match_buf := sort (map (pr_match \<circ> snd) (r_prs ?r3)), r_log := (r_log ?r3)\<lparr>rl_committed := c'\<rparr>\<rparr>)"
    by blast
  let ?r' = "?r3\<lparr>r_match_buf := sort (map (pr_match \<circ> snd) (r_prs ?r3)), r_log := (r_log ?r3)\<lparr>rl_committed := c'\<rparr>\<rparr>"
  have d: "raft_deref_progress (r_id r) ?r2 = Inr p" using g by (simp add: raft_deref_progress_def)
  have sel: "r_log ?r1 = r_log r" "r_id ?r2 = r_id r" by simp_all
  have res: "raft_append_entry es r = Inr (True, ?r')"
    unfolding raft_append_entry_def raft_log_last_index_wf [OF lw] bindr.simps ents_def [symmetric] Let_def inc
    by (simp only: prod.case simp_thms if_False sel l(1) bindr.simps d mc)
  moreover have "raft_wf ?r'" using raft_maybe_commit_ext(1) [OF raft_quiet_wf [OF q] mc] by (rule raft_grows_wf)
  moreover have "in_reach ?r'" if ir: "in_reach r"
  proof (rule in_reach_cong [of ?r3])
    have "in_reach ?r2" using ir l(3) by (intro in_reach_cong [OF ir]) simp_all
    moreover have "log_base (r_log ?r2) < pr_next ?q"
      using \<open>in_reach ?r2\<close> g progress_maybe_update_wf(4) [OF raft_get_progress_wf [OF raft_wfD(2) [OF w2] g] room surjective_pairing]
      by (simp add: in_reach_def less_max_iff_disj)
    ultimately show "in_reach ?r3" by (rule in_reach_put [OF _ g])
  qed simp_all
  ultimately show "\<exists>r'. raft_append_entry es r = Inr (True, r') \<and> raft_wf r' \<and>
      raft_log_abs (r_log r') = alog_splice (raft_log_abs (r_log r)) (Suc (log_last (r_log r))) ents \<and>
      r_term r' = r_term r \<and> r_id r' = r_id r \<and> r_state r' = r_state r \<and> r_lead r' = r_lead r \<and>
      r_uncommitted_size r' = add64 (r_uncommitted_size r) (raft_payload ents) \<and> (in_reach r \<longrightarrow> in_reach r')"
    using l(3) by (intro exI [of _ ?r']) (simp add: raft_put_progress_def)
qed

text \<open>A new leader starts its term with an empty entry.\<close>

lemma raft_payload_empty [simp]: "raft_payload [e\<lparr>e_data := []\<rparr>] = 0" "raft_payload [new_entry] = 0"
  by (simp_all add: raft_payload_def payload_size_def new_entry_def add32_def cast32_def)

lemma raft_become_leader_spec:
  assumes wf: "raft_wf r" and t: "0 < r_term r" and s: "r_state r \<noteq> Follower"
    and own: "map_of (r_prs r) (r_id r) = Some p" and n: "length (r_prs r) \<le> u32_max"
    and room: "log_last (r_log r) + 1 < u64_max"
  shows "\<exists>r'. raft_become_leader r = Inr r' \<and> raft_wf r' \<and> r_state r' = Leader \<and> r_lead r' = r_id r \<and>
    r_term r' = r_term r \<and> r_id r' = r_id r \<and> in_reach r' \<and>
    raft_log_abs (r_log r') = alog_splice (raft_log_abs (r_log r)) (Suc (log_last (r_log r)))
      [\<lparr>e_type = EntryNormal, e_term = r_term r, e_index = Suc (log_last (r_log r)), e_data = []\<rparr>]"
proof -
  have "raft_base_wf (r\<lparr>r_step := Some StepLeader\<rparr>)" using raft_wfD(7) [OF wf] by simp
  from raft_reset_wf [OF this, of "r_term r"] obtain r1 where
    r1: "raft_reset (r_term r) (r\<lparr>r_step := Some StepLeader\<rparr>) = Inr r1" "raft_base_wf r1" "r_id r1 = r_id r"
    "r_term r1 = r_term r" "r_vote r1 = r_vote r" "r_log r1 = r_log r" "r_step r1 = Some StepLeader"
    "r_prs r1 = map (fresh_progress (r\<lparr>r_step := Some StepLeader\<rparr>)) (r_prs r)" "r_uncommitted_size r1 = 0"
    "r_learner_prs r1 = map (fresh_progress (r\<lparr>r_step := Some StepLeader\<rparr>)) (r_learner_prs r)" by auto
  let ?r2 = "r1\<lparr>r_tick := Some TickHeartbeat, r_lead := r_id r1, r_state := Leader\<rparr>"
  have e2: "raft_grows r ?r2" using r1 by (intro raft_grows_frame [OF wf]) (simp_all add: mode_wf_def)
  have "r_id r \<in> fst ` set (r_prs r)" using own by (force dest: map_of_SomeD)
  then have "r_id r \<in> fst ` set (r_prs r1)" unfolding r1(8) by (force simp: fresh_progress_def)
  then obtain q where q: "map_of (r_prs r1) (r_id r) = Some q" by (metis map_of_eq_None_keys not_Some_eq)
  let ?r3 = "raft_put_progress (r_id r) (progress_become_replicate q) ?r2"
  have g: "raft_get_progress (r_id r) ?r2 = Some q" using q by (simp add: raft_get_progress_def)
  then have "progress_wf q" using raft_get_progress_wf [OF raft_wfD(2) [OF raft_grows_wf [OF e2]]] by blast
  then have q3: "raft_quiet ?r2 ?r3"
    by (intro raft_put_progress_quiet [OF raft_grows_wf [OF e2] g]) (rule wf_intros)
  let ?r4 = "?r3\<lparr>r_pending_conf_index := log_last (r_log r)\<rparr>"
  have w4: "raft_wf ?r4" using raft_quiet_wf [OF q3] by (simp add: raft_wf_def)
  have p3: "r_prs ?r3 = AList.update (r_id r) (progress_become_replicate q) (r_prs r1)"
    using q by (simp add: raft_put_progress_def)
  have own4: "map_of (r_prs ?r4) (r_id ?r4) = Some (progress_become_replicate q)"
    using p3 r1(3) by (simp add: update_conv')
  have n4: "length (r_prs ?r4) \<le> u32_max"
    using raft_put_progress_length [OF g, of "progress_become_replicate q"] n r1(8) by simp
  have sel: "r_log ?r4 = r_log r" "r_term ?r4 = r_term r" "r_state ?r4 = Leader" "r_lead ?r4 = r_id r"
    "r_id ?r4 = r_id r" "r_uncommitted_size ?r4 = 0"
    using r1 by (simp_all add: raft_put_progress_def)
  let ?e = "\<lparr>e_type = EntryNormal, e_term = r_term r, e_index = Suc (log_last (r_log r)), e_data = []\<rparr>"
  have stamp: "raft_stamp (r_term ?r4) (log_last (r_log ?r4)) 0 [new_entry] = [?e]"
    using room unfolding sel by (simp add: new_entry_def)
  have lim: "\<not> over_limit [?e] ?r4" unfolding over_limit_def sel by simp
  have pre: "0 < r_term ?r4" "[new_entry] \<noteq> []" "log_last (r_log ?r4) + length [new_entry] < u64_max"
    using t room unfolding sel by simp_all
  have "in_reach ?r2"
    using log_base_le_last [of "r_log r"] r1(6)
    by (auto simp: in_reach_def raft_get_progress_def r1(8,10) fresh_progress_def split: option.splits dest!: map_of_SomeD)
  moreover have "pr_match q = log_last (r_log r)"
    using map_of_SomeD [OF q] unfolding r1(8) by (auto simp: fresh_progress_def)
  ultimately have "in_reach ?r3"
    using r1(6) log_last_bound [OF raft_wfD(1) [OF wf]] log_base_le_last [of "r_log r"]
    by (intro in_reach_put [OF _ g])
      (simp_all add: progress_become_replicate_def progress_reset_state_def Let_def less_Suc_eq_le)
  then have reach: "in_reach ?r4" by (rule in_reach_cong) simp_all
  from raft_append_entry_spec(2) [OF w4 pre(1) own4 n4 pre(2,3), unfolded stamp, OF lim]
  obtain r5 where a: "raft_append_entry [new_entry] ?r4 = Inr (True, r5)" "raft_wf r5"
    "raft_log_abs (r_log r5) = alog_splice (raft_log_abs (r_log r)) (Suc (log_last (r_log r))) [?e]"
    "r_term r5 = r_term r" "r_id r5 = r_id r" "r_state r5 = Leader" "r_lead r5 = r_id r" "in_reach r5"
    using reach unfolding sel by blast
  let ?r' = "raft_reduce_uncommitted_size [new_entry] r5"
  have "raft_become_leader r = Inr ?r'"
    unfolding raft_become_leader_def if_not_P [OF s] r1(1) bindr.simps Let_def
    using q a(1) raft_wfD(1) [OF wf] sel(1) r1(3,6) by simp
  moreover have "raft_wf ?r'" by (rule raft_quiet_wf [OF raft_reduce_uncommitted_quiet [OF a(2)]])
  moreover have "in_reach ?r'" using a(8) by (rule in_reach_cong) (simp_all add: raft_reduce_uncommitted_size_def Let_def)
  ultimately show ?thesis using a(3-7) by (intro exI [of _ ?r']) (simp add: raft_reduce_uncommitted_size_def Let_def)
qed

section \<open>One configuration change at a time\<close>

definition conf_count :: "entry list \<Rightarrow> nat" where
  "conf_count es = length (filter (\<lambda>e. e_type e = EntryConfChange) es)"

lemma raft_filter_conf_spec:
  assumes "raft_log_wf (r_log r)" "rl_applied (r_log r) \<le> log_last (r_log r)"
    "log_last (r_log r) + i + length es < u64_max" "raft_filter_conf i es r = Inr (es', r')"
  shows "conf_count es' \<le> (if rl_applied (r_log r) < r_pending_conf_index r then 0 else 1)"
    and "list_all2 (\<lambda>e e'. e' = e \<or>
      e_type e = EntryConfChange \<and> e' = e\<lparr>e_type := EntryNormal, e_index := 0, e_term := 0, e_data := []\<rparr>) es es'"
proof -
  have "conf_count es' \<le> (if rl_applied (r_log r) < r_pending_conf_index r then 0 else 1) \<and>
    list_all2 (\<lambda>e e'. e' = e \<or>
      e_type e = EntryConfChange \<and> e' = e\<lparr>e_type := EntryNormal, e_index := 0, e_term := 0, e_data := []\<rparr>) es es'"
    using assms
  proof (induction es arbitrary: i r es')
    case Nil
    then show ?case by (simp add: conf_count_def)
  next
    case (Cons e es)
    let ?ri = "r\<lparr>r_pending_conf_index := Suc (log_last (r_log r) + i)\<rparr>"
    have a: "add64 (add64 (log_last (r_log r)) i) 1 = Suc (log_last (r_log r) + i)" using Cons.prems(3) by simp
    have li: "rl_applied (r_log r) < Suc (log_last (r_log r) + i)" using Cons.prems(2) by simp
    consider (keep) fs where "e_type e \<noteq> EntryConfChange" "raft_filter_conf (Suc i) es r = Inr (fs, r')" "es' = e # fs"
      | (drop) fs where "e_type e = EntryConfChange" "rl_applied (r_log r) < r_pending_conf_index r"
          "raft_filter_conf (Suc i) es r = Inr (fs, r')"
          "es' = e\<lparr>e_type := EntryNormal, e_index := 0, e_term := 0, e_data := []\<rparr> # fs"
      | (accept) fs where "e_type e = EntryConfChange" "\<not> rl_applied (r_log r) < r_pending_conf_index r"
          "raft_filter_conf (Suc i) es ?ri = Inr (fs, r')" "es' = e # fs"
      using Cons.prems(1,4) by (auto simp: res_simps a split: if_splits)
    then show ?case
    proof cases
      case keep
      with Cons.IH [OF Cons.prems(1,2) _ keep(2)] Cons.prems(3) show ?thesis by (simp add: conf_count_def)
    next
      case drop
      with Cons.IH [OF Cons.prems(1,2) _ drop(3)] Cons.prems(3) show ?thesis by (simp add: conf_count_def)
    next
      case accept
      with Cons.IH [OF _ _ _ accept(3)] Cons.prems(1-3) li show ?thesis by (simp add: conf_count_def)
    qed
  qed
  then show "conf_count es' \<le> (if rl_applied (r_log r) < r_pending_conf_index r then 0 else 1)"
    "list_all2 (\<lambda>e e'. e' = e \<or>
      e_type e = EntryConfChange \<and> e' = e\<lparr>e_type := EntryNormal, e_index := 0, e_term := 0, e_data := []\<rparr>) es es'"
    by simp_all
qed

section \<open>Construction\<close>

lemma init_peers:
  assumes "raft_base_wf r" "r_learner_prs r = []"
  shows "\<exists>a. for_each raft_init_peer is r = Inr (r\<lparr>r_prs := a\<rparr>) \<and> raft_base_wf (r\<lparr>r_prs := a\<rparr>) \<and>
    fst ` set a = fst ` set (r_prs r) \<union> set is"
  using assms
proof (induction "is" arbitrary: r)
  case Nil
  then show ?case by (intro exI [of _ "r_prs r"]) simp
next
  case (Cons i "is")
  let ?p = "(new_progress (r_max_inflight r))\<lparr>pr_next := 1\<rparr>"
  let ?a = "AList.update i ?p (r_prs r)"
  have "progress_wf ?p"
    using Cons.prems(1) by (simp add: progress_wf_def new_progress_def new_inflights_wf u64_max_def raft_base_wf_def)
  then have b: "raft_base_wf (r\<lparr>r_prs := ?a\<rparr>)"
    using Cons.prems subsetD [OF set_update_subset, of _ i ?p "r_prs r"]
    by (auto simp: raft_base_wf_def peers_wf_iff timer_wf_def distinct_update)
  from Cons.IH [OF b] Cons.prems(2) obtain a where
    "for_each raft_init_peer is (r\<lparr>r_prs := ?a\<rparr>) = Inr (r\<lparr>r_prs := a\<rparr>)" "raft_base_wf (r\<lparr>r_prs := a\<rparr>)"
    "fst ` set a = fst ` set ?a \<union> set is" by auto
  then show ?case
    by (intro exI [of _ a]) (auto simp: raft_init_peer_def [of i] dom_update)
qed

lemma init_learners:
  assumes "raft_base_wf r" "set is \<inter> fst ` set (r_prs r) = {}"
  shows "\<exists>a b. for_each raft_init_learner is r = Inr (r\<lparr>r_learner_prs := a, r_is_learner := b\<rparr>) \<and>
    raft_base_wf (r\<lparr>r_learner_prs := a, r_is_learner := b\<rparr>) \<and> fst ` set a = fst ` set (r_learner_prs r) \<union> set is"
  using assms
proof (induction "is" arbitrary: r)
  case Nil
  then show ?case by (intro exI [of _ "r_learner_prs r"] exI [of _ "r_is_learner r"]) simp
next
  case (Cons i "is")
  let ?p = "(new_progress (r_max_inflight r))\<lparr>pr_next := 1, pr_is_learner := True\<rparr>"
  let ?a = "AList.update i ?p (r_learner_prs r)" and ?b = "if r_id r = i then True else r_is_learner r"
  have "progress_wf ?p"
    using Cons.prems(1) by (simp add: progress_wf_def new_progress_def new_inflights_wf u64_max_def raft_base_wf_def)
  then have b: "raft_base_wf (r\<lparr>r_learner_prs := ?a, r_is_learner := ?b\<rparr>)"
    using Cons.prems subsetD [OF set_update_subset, of _ i ?p "r_learner_prs r"]
    by (auto simp: raft_base_wf_def peers_wf_iff timer_wf_def distinct_update dom_update) metis+
  from Cons.IH [OF b] Cons.prems(2) obtain a c where
    "for_each raft_init_learner is (r\<lparr>r_learner_prs := ?a, r_is_learner := ?b\<rparr>) = Inr (r\<lparr>r_learner_prs := a, r_is_learner := c\<rparr>)"
    "raft_base_wf (r\<lparr>r_learner_prs := a, r_is_learner := c\<rparr>)" "fst ` set a = fst ` set ?a \<union> set is"
    by (auto simp del: raft_base_wf_upd)
  moreover have "raft_init_learner i r = Inr (r\<lparr>r_learner_prs := ?a, r_is_learner := ?b\<rparr>)"
    using Cons.prems(2) by (simp add: raft_init_learner_def map_of_eq_None_keys)
  ultimately show ?case
    by (intro exI [of _ a] exI [of _ c]) (auto simp: dom_update)
qed

text \<open>Voters and learners a node starts with: from the snapshot's configuration or from the config.\<close>

definition start_members :: "config \<Rightarrow> u64 list \<times> u64 list" where
  "start_members c =
     (let cs = sm_conf_state (snap_metadata (ms_snapshot (c_storage c))) in
      if cs_nodes cs \<noteq> [] \<or> cs_learners cs \<noteq> [] then (cs_nodes cs, cs_learners cs)
      else (c_peers c, c_learners c))"

definition start_ok :: "config \<Rightarrow> bool" where
  "start_ok c \<longleftrightarrow>
     (let cs = sm_conf_state (snap_metadata (ms_snapshot (c_storage c))); hs = ms_hard_state (c_storage c);
          a = storage_abs (c_storage c) in
      storage_wf (c_storage c) \<and> 2 * c_election_tick c \<le> u32_max \<and> 2 * c_max_inflight_msgs c \<le> u32_max \<and>
      (cs_nodes cs \<noteq> [] \<or> cs_learners cs \<noteq> [] \<longrightarrow> c_peers c = [] \<and> c_learners c = []) \<and>
      set (fst (start_members c)) \<inter> set (snd (start_members c)) = {} \<and>
      (hard_state_is_empty hs \<or> al_base a \<le> hs_commit hs \<and> hs_commit hs \<le> alog_last a))"

lemma new_raft_wf:
  assumes ok: "start_ok c"
  shows "\<exists>r. new_raft c draws = Inr r \<and> raft_wf r \<and> r_state r = Follower \<and> r_lead r = 0 \<and> r_id r = c_id c \<and>
    r_term r = hs_term (ms_hard_state (c_storage c)) \<and> r_vote r = hs_vote (ms_hard_state (c_storage c)) \<and>
    raft_log_abs (r_log r) = storage_abs (c_storage c) \<and>
    set (raft_nodes r) = set (fst (start_members c)) \<and> r_msgs r = [] \<and>
    rl_committed (r_log r) = (if hard_state_is_empty (ms_hard_state (c_storage c)) then al_base (storage_abs (c_storage c))
      else hs_commit (ms_hard_state (c_storage c))) \<and>
    rl_storage (r_log r) = c_storage c \<and> u_entries (rl_unstable (r_log r)) = [] \<and> u_snapshot (rl_unstable (r_log r)) = None \<and>
    (c_applied c = 0 \<longrightarrow> rl_applied (r_log r) = al_base (storage_abs (c_storage c)))"
proof -
  let ?cs = "sm_conf_state (snap_metadata (ms_snapshot (c_storage c)))" and ?hs = "ms_hard_state (c_storage c)"
  define P where "P = fst (start_members c)"
  define L where "L = snd (start_members c)"
  have mem: "(if cs_nodes ?cs \<noteq> [] \<or> cs_learners ?cs \<noteq> [] then
            if c_peers c \<noteq> [] \<or> c_learners c \<noteq> [] then
              Inl (Fatal ''cannot specify both newRaft(peers, learners) and ConfState.(Nodes, Learners)'')
            else Inr (cs_nodes ?cs, cs_learners ?cs)
          else Inr (c_peers c, c_learners c)) = Inr (P, L)"
    using ok by (auto simp: start_ok_def Let_def P_def L_def start_members_def)
  have sw: "storage_wf (c_storage c)" using ok by (simp add: start_ok_def Let_def)
  obtain l where l: "new_raft_log (c_storage c) (c_max_committed_size_per_ready c) = Inr l" "raft_log_wf l"
    "raft_log_abs l = storage_abs (c_storage c)" "rl_committed l = al_base (storage_abs (c_storage c))"
    "rl_storage l = c_storage c" "u_entries (rl_unstable l) = []" "u_snapshot (rl_unstable l) = None"
    "rl_applied l = al_base (storage_abs (c_storage c))"
    using new_raft_log_wf [OF sw] by blast
  define cm where "cm = (if hard_state_is_empty ?hs then al_base (storage_abs (c_storage c)) else hs_commit ?hs)"
  let ?r0 = "raft_initial c draws l"
  have b0: "raft_base_wf ?r0"
    using ok l(2) by (simp add: raft_base_wf_def raft_initial_def start_ok_def Let_def peers_wf_def timer_wf_def new_read_only_wf)
  have i0: "r_prs ?r0 = []" "r_learner_prs ?r0 = []" by (simp_all add: raft_initial_def)
  obtain a where a: "for_each raft_init_peer P ?r0 = Inr (?r0\<lparr>r_prs := a\<rparr>)" "raft_base_wf (?r0\<lparr>r_prs := a\<rparr>)"
    "fst ` set a = set P" using init_peers [OF b0 i0(2), of P] i0(1) by auto
  have "set L \<inter> fst ` set (r_prs (?r0\<lparr>r_prs := a\<rparr>)) = {}"
    using ok a(3) by (auto simp: start_ok_def Let_def P_def L_def)
  from init_learners [OF a(2) this] obtain la b where
    la: "for_each raft_init_learner L (?r0\<lparr>r_prs := a\<rparr>) = Inr (?r0\<lparr>r_prs := a, r_learner_prs := la, r_is_learner := b\<rparr>)"
    "raft_base_wf (?r0\<lparr>r_prs := a, r_learner_prs := la, r_is_learner := b\<rparr>)" by blast
  define r1 where "r1 = ?r0\<lparr>r_prs := a, r_learner_prs := la, r_is_learner := b\<rparr>"
  have r1: "raft_base_wf r1" "r_log r1 = l" "r_prs r1 = a" "r_id r1 = c_id c" "r_term r1 = 0" "r_vote r1 = 0" "r_msgs r1 = []"
    using la(2) by (simp_all add: r1_def raft_initial_def)
  obtain r2 where r2: "(if \<not> hard_state_is_empty ?hs then raft_load_state ?hs r1 else Inr r1) = Inr r2"
    "raft_base_wf r2" "raft_log_abs (r_log r2) = storage_abs (c_storage c)" "r_prs r2 = a" "r_id r2 = c_id c"
    "r_term r2 = hs_term ?hs" "r_vote r2 = hs_vote ?hs" "r_msgs r2 = []" "r_log r2 = l\<lparr>rl_committed := cm\<rparr>"
  proof (cases "hard_state_is_empty ?hs")
    case True
    then show thesis using r1 l that [of r1] by (simp add: hard_state_is_empty_def cm_def)
  next
    case False
    let ?r2 = "r1\<lparr>r_log := l\<lparr>rl_committed := hs_commit ?hs\<rparr>, r_term := hs_term ?hs, r_vote := hs_vote ?hs\<rparr>"
    have c: "rl_committed l \<le> hs_commit ?hs" "hs_commit ?hs \<le> log_last l"
      using False ok l(3,4) by (simp_all add: start_ok_def Let_def)
    have "raft_load_state ?hs r1 = Inr ?r2"
      using c r1(2) l(2) by (simp add: raft_load_state_def)
    moreover have "raft_base_wf ?r2"
      using r1(1,2) raft_log_wf_commit [OF l(2) c] by (simp add: raft_base_wf_def peers_wf_def timer_wf_def)
    ultimately show thesis using False r1 l(3) by (intro that [of ?r2]) (simp_all add: cm_def)
  qed
  define r3 where "r3 = (if c_applied c > 0 then r2\<lparr>r_log := raft_log_applied_to (c_applied c) (r_log r2)\<rparr> else r2)"
  have r3: "raft_base_wf r3" "raft_log_abs (r_log r3) = storage_abs (c_storage c)" "r_prs r3 = a" "r_id r3 = c_id c"
    "r_term r3 = hs_term ?hs" "r_vote r3 = hs_vote ?hs" "r_msgs r3 = []"
    using r2 raft_log_wf_applied [of "r_log r2" "c_applied c"]
    by (auto simp: r3_def raft_log_applied_to_def raft_base_wf_def peers_wf_def timer_wf_def)
  from raft_become_follower_wf [OF r3(1), of "r_term r3" 0] obtain r4 where
    r4: "raft_become_follower (r_term r3) 0 r3 = Inr r4" "raft_wf r4" "r_id r4 = r_id r3" "r_term r4 = r_term r3"
    "r_vote r4 = r_vote r3" "r_log r4 = r_log r3" "r_state r4 = Follower" "r_lead r4 = 0"
    "map fst (r_prs r4) = map fst (r_prs r3)" "r_msgs r4 = r_msgs r3" by auto
  have "new_raft c draws = Inr r4"
    unfolding new_raft_def l(1) bindr.simps storage_initial_state_def Let_def prod.case
    by (simp only: is_ok_StatusOK simp_thms if_False mem bindr.simps prod.case a(1) la(1) r1_def [symmetric] r2(1)
        r3_def [symmetric] r4(1) raft_log_line_wf [OF raft_wfD(1) [OF r4(2)]])
  moreover have "set (raft_nodes r4) = set P"
    using r4(9) r3(3) a(3) by (metis raft_nodes_def set_sort set_map)
  moreover have "rl_committed (r_log r4) = cm" "rl_storage (r_log r4) = c_storage c" "u_entries (rl_unstable (r_log r4)) = []"
    "u_snapshot (rl_unstable (r_log r4)) = None" "c_applied c = 0 \<longrightarrow> rl_applied (r_log r4) = al_base (storage_abs (c_storage c))"
    using r4(6) r2(9) l(5-8) by (simp_all add: r3_def raft_log_applied_to_def)
  ultimately show ?thesis using r3 r4 by (intro exI [of _ r4]) (simp add: P_def cm_def)
qed

section \<open>Sending to peers that need no snapshot\<close>

lemma raft_track_entries_next:
  assumes "progress_wf p" "\<not> progress_is_paused p" "contig (pr_next p) es" "pr_next p + length es \<le> u64_max"
  shows "\<exists>q. raft_track_entries es p = Inr q \<and> pr_next p \<le> pr_next q"
proof (cases "es = []")
  case True
  then show ?thesis by (simp add: raft_track_entries_def)
next
  case False
  obtain q where q: "raft_track_entries es p = Inr q" using raft_track_entries_total [OF assms(1,2) False] by blast
  have "e_index (last es) = pr_next p + (length es - 1)" by (rule contig_last [OF assms(3) False])
  moreover have n: "0 < length es" using False by simp
  moreover have "add64 (pr_next p + length es - 1) 1 = pr_next p + length es"
    using n assms(4) by (subst add64_id) linarith+
  ultimately have "pr_next p \<le> pr_next q"
    using q by (cases "pr_state p") (auto simp: raft_track_entries_def Let_def res_simps
        progress_optimistic_update_def progress_set_pause_def split: if_split_asm)
  with q show ?thesis by blast
qed

lemma raft_send_append_total:
  assumes wf: "raft_wf r" and ir: "in_reach r" and p: "raft_get_progress to r = Some p"
  shows "\<exists>r'. raft_send_append to r = Inr r' \<and> raft_quiet r r' \<and> in_reach r'"
proof (cases "progress_is_paused p")
  case True
  with p ir show ?thesis
    by (auto simp: raft_send_append_def raft_maybe_send_append_def raft_deref_progress_def rq.rel_refl [OF wf])
next
  case False
  have lw: "raft_log_wf (r_log r)" by (rule raft_wfD(1) [OF wf])
  have pw: "progress_wf p" by (rule raft_get_progress_wf [OF raft_wfD(2) [OF wf] p])
  have lo: "log_base (r_log r) < pr_next p" using ir p by (simp add: in_reach_def)
  obtain es where es: "raft_log_entries (pr_next p) (r_max_msg_size r) [] (r_log r) = Inr (StatusOK, es)"
    using raft_log_entries_wf [OF lw, of "pr_next p" "r_max_msg_size r"] lo by (auto split: if_splits)
  have c: "contig (pr_next p) es" "pr_next p + length es \<le> u64_max"
    using raft_log_entries_contig [OF lw es] pw by (auto simp: progress_wf_def)
  obtain q where q: "raft_track_entries es p = Inr q" "pr_next p \<le> pr_next q"
    using raft_track_entries_next [OF pw False c] by blast
  let ?m = "new_message\<lparr>m_to := to, m_type := MsgApp, m_index := sub64 (pr_next p) 1,
    m_log_term := alog_term_at (raft_log_abs (r_log r)) (sub64 (pr_next p) 1), m_entries := es,
    m_commit := rl_committed (r_log r)\<rparr>"
  let ?r = "raft_put_progress to q r"
  have s: "raft_send ?m ?r = Inr (sends ?m ?r)"
    by (rule raft_send_reply) (simp_all add: vote_type_def new_message_def)
  have res: "raft_maybe_send_append to True r = Inr (True, sends ?m ?r)"
    using es p False lw q(1) s by (simp add: raft_maybe_send_append_def raft_deref_progress_def Let_def)
  then have "raft_send_append to r = Inr (sends ?m ?r)" by (simp add: raft_send_append_def)
  moreover have "raft_quiet r (sends ?m ?r)" by (rule raft_maybe_send_append_quiet [OF wf res])
  moreover have "in_reach ?r" using lo q(2) by (intro in_reach_put [OF ir p]) simp
  ultimately show ?thesis by auto
qed

lemma raft_bcast_append_total:
  assumes wf: "raft_wf r" and ir: "in_reach r"
  shows "\<exists>r'. raft_bcast_append r = Inr r' \<and> raft_quiet r r' \<and> in_reach r'"
  unfolding raft_bcast_append_def
proof (rule for_each_total)
  show "raft_quiet r r \<and> in_reach r" using ir by (simp add: rq.rel_refl [OF wf])
next
  fix i q
  assume i: "i \<in> set (raft_progress_ids r)" and q: "raft_quiet r q \<and> in_reach q"
  have keys: "map fst (r_prs q) = map fst (r_prs r)" "map fst (r_learner_prs q) = map fst (r_learner_prs r)"
    using q by (simp_all add: raft_quiet_def)
  have "i \<in> fst ` set (r_prs q) \<or> i \<in> fst ` set (r_learner_prs q)"
    using i unfolding raft_progress_ids_def set_append keys [symmetric] by simp
  then have "map_of (r_prs q) i \<noteq> None \<or> map_of (r_learner_prs q) i \<noteq> None"
    using map_of_eq_None_keys [of "r_prs q" i] map_of_eq_None_keys [of "r_learner_prs q" i] by blast
  then have "raft_get_progress i q \<noteq> None" by (auto simp: raft_get_progress_def split: option.splits)
  then obtain p where p: "raft_get_progress i q = Some p" by blast
  show "\<exists>s'. (if i = r_id q then Inr q else raft_send_append i q) = Inr s' \<and> raft_quiet r s' \<and> in_reach s'"
    using raft_send_append_total [OF raft_quiet_wf _ p] q by (auto intro: rq.rel_trans)
qed

section \<open>Winning an election\<close>

lemma raft_poll_eq:
  assumes "t \<in> {MsgVoteResp, MsgPreVoteResp}"
  shows "raft_poll i t v r =
    Inr (cast32 (length (filter snd (recorded i v r))), r\<lparr>r_votes := recorded i v r\<rparr>)"
  using assms by (auto simp: raft_poll_def Let_def recorded_def)

lemma raft_candidate_wins:
  assumes wf: "raft_wf r" and s: "r_state r = Candidate" and t: "0 < r_term r"
    and own: "map_of (r_prs r) (r_id r) = Some p" and n: "length (r_prs r) \<le> u32_max"
    and room: "log_last (r_log r) + 1 < u64_max" and ty: "m_type msg \<in> {MsgVoteResp, MsgPreVoteResp}"
    and w: "wins msg r"
  shows "\<exists>r'. raft_candidate_vote_resp msg r = Inr r' \<and> raft_wf r' \<and> r_state r' = Leader \<and>
    r_term r' = r_term r \<and> r_id r' = r_id r \<and>
    raft_log_abs (r_log r') = alog_splice (raft_log_abs (r_log r)) (Suc (log_last (r_log r)))
      [\<lparr>e_type = EntryNormal, e_term = r_term r, e_index = Suc (log_last (r_log r)), e_data = []\<rparr>]"
proof -
  let ?r1 = "r\<lparr>r_votes := recorded (m_from msg) (\<not> m_reject msg) r\<rparr>"
  have sel: "r_state ?r1 = Candidate" "r_prs ?r1 = r_prs r" "r_id ?r1 = r_id r" "r_term ?r1 = r_term r" "r_log ?r1 = r_log r"
    using s by simp_all
  have w1: "raft_wf ?r1" using wf by (simp add: raft_wf_def)
  have q: "raft_quorum ?r1 = cast32 (length (filter snd (recorded (m_from msg) (\<not> m_reject msg) r)))"
    using w by (simp add: wins_def raft_quorum_def)
  obtain r2 where r2: "raft_become_leader ?r1 = Inr r2" "raft_wf r2" "r_state r2 = Leader" "r_term r2 = r_term r"
    "r_id r2 = r_id r" "in_reach r2"
    "raft_log_abs (r_log r2) = alog_splice (raft_log_abs (r_log r)) (Suc (log_last (r_log r)))
      [\<lparr>e_type = EntryNormal, e_term = r_term r, e_index = Suc (log_last (r_log r)), e_data = []\<rparr>]"
    using raft_become_leader_spec [OF w1, unfolded sel, OF t _ own n room] by auto
  obtain r3 where r3: "raft_bcast_append r2 = Inr r3" "raft_quiet r2 r3"
    using raft_bcast_append_total [OF r2(2,6)] by blast
  obtain str where str: "msg_type_to_string (m_type msg) = Inr str" using ty by auto
  have "raft_candidate_vote_resp msg r = Inr r3"
    unfolding raft_candidate_vote_resp_def raft_poll_eq [OF ty] bindr.simps prod.case str q sel
    using r2(1) r3(1) by (simp add: assertr_def)
  with r2 r3(2) show ?thesis by (intro exI [of _ r3]) (simp add: raft_quiet_def)
qed

text \<open>In the same term, a candidate treats both kinds of vote responses alike.\<close>

lemma raft_step_candidate_same:
  assumes wf: "raft_wf r" and s: "r_state r = Candidate" and t: "m_term msg = r_term r"
    and ty: "m_type msg \<in> {MsgVoteResp, MsgPreVoteResp}"
  shows "raft_step msg r = with_ok (raft_candidate_vote_resp msg r)"
proof -
  have "r_step r = Some StepCandidate" using raft_wfD(4) [OF wf] s by (simp add: mode_wf_def)
  then show ?thesis
    using t ty by (auto simp: raft_step_def raft_step_type_def raft_call_step_def raft_step_candidate_def)
qed

lemma raft_candidate_vote_resp_cong:
  assumes "m_type a \<in> {MsgVoteResp, MsgPreVoteResp}" "m_type b \<in> {MsgVoteResp, MsgPreVoteResp}"
    "m_from a = m_from b" "m_reject a = m_reject b"
  shows "raft_candidate_vote_resp a r = raft_candidate_vote_resp b r"
proof -
  obtain x y where "msg_type_to_string (m_type a) = Inr x" "msg_type_to_string (m_type b) = Inr y"
    using assms(1,2) by fastforce
  then show ?thesis
    unfolding raft_candidate_vote_resp_def raft_poll_eq [OF assms(1)] raft_poll_eq [OF assms(2)] assms(3,4) by simp
qed

end
