(* ===== verification/Demo.thy ===== *)
theory Demo
  imports Raft_Behaviour
begin

text \<open>
  A small three-node cluster as seen by node 1: its log, its peers and the messages it may
  receive. The states are used to show that the hypotheses of the properties can be met.
\<close>

definition demo_entry :: "u64 \<Rightarrow> u64 \<Rightarrow> entry" where
  "demo_entry t i = \<lparr>e_type = EntryNormal, e_term = t, e_index = i, e_data = []\<rparr>"

definition demo_storage :: memory_storage where
  "demo_storage = \<lparr>ms_hard_state = new_hard_state, ms_snapshot = new_snapshot,
     ms_entries = [demo_entry 0 0, demo_entry 1 1]\<rparr>"

definition demo_log :: raft_log where
  "demo_log = \<lparr>rl_storage = demo_storage,
     rl_unstable = \<lparr>u_snapshot = None, u_entries = [demo_entry 1 2], u_offset = 2\<rparr>,
     rl_committed = 1, rl_applied = 0, rl_max_next_ents_size = 1000\<rparr>"

definition demo_progress :: "u64 \<Rightarrow> progress" where
  "demo_progress m = (new_progress 4)\<lparr>pr_match := m, pr_next := Suc m\<rparr>"

definition demo_raft :: "raft_state \<Rightarrow> raft" where
  "demo_raft s =
     \<lparr>r_id = 1, r_term = 1, r_vote = (if s = Follower then 0 else 1), r_read_states = [], r_log = demo_log,
      r_max_msg_size = 1000, r_max_uncommitted_size = 1000, r_max_inflight = 4,
      r_prs = [(1, demo_progress 2), (2, demo_progress 2), (3, demo_progress 0)], r_learner_prs = [],
      r_match_buf = [], r_state = s, r_is_learner = False,
      r_votes = (if s = Candidate then [(1, True)] else []), r_msgs = [],
      r_lead = (if s = Leader then 1 else 0), r_lead_transferee = 0, r_pending_conf_index = 0,
      r_uncommitted_size = 0, r_read_only = new_read_only ReadOnlySafe, r_election_elapsed = 0,
      r_heartbeat_elapsed = 0, r_check_quorum = False, r_pre_vote = False, r_heartbeat_timeout = 1,
      r_election_timeout = 10, r_randomized_election_timeout = 13, r_disable_proposal_forwarding = False,
      r_tick = Some (tick_of s), r_step = Some (step_of s),
      r_random_device = \<lparr>rd_min = 0, rd_max = 10, rd_draws = [3, 7]\<rparr>\<rparr>"

definition demo_node :: "raft_state \<Rightarrow> raw_node" where
  "demo_node s = \<lparr>rn_raft = demo_raft s, rn_prev_soft_state = \<lparr>ss_lead = 0, ss_state = Follower\<rparr>,
     rn_prev_hard_state = new_hard_state\<rparr>"

definition demo_config :: config where
  "demo_config = (new_config demo_storage)\<lparr>c_id := 1, c_peers := [1, 2, 3],
     c_election_tick := 10, c_heartbeat_tick := 1, c_max_size_per_msg := 1000, c_max_inflight_msgs := 4\<rparr>"

definition demo_msg :: "message_type \<Rightarrow> message" where
  "demo_msg t = new_message\<lparr>m_type := t, m_to := 1, m_from := 2, m_term := 1\<rparr>"

text \<open>Node 2 as the leader of term 1 sends entry 3 after entry 2.\<close>

definition demo_app :: message where
  "demo_app = (demo_msg MsgApp)\<lparr>m_index := 2, m_log_term := 1, m_entries := [demo_entry 1 3], m_commit := 2\<rparr>"

lemma demo_entry_sel [simp]:
  "e_index (demo_entry t i) = i" "e_term (demo_entry t i) = t" "e_type (demo_entry t i) = EntryNormal"
  "e_data (demo_entry t i) = []"
  by (simp_all add: demo_entry_def)

lemma demo_storage_wf [simp]: "storage_wf demo_storage"
  by (simp add: storage_wf_def storage_abs_def alog_wf_def demo_storage_def u64_max_def)

lemma demo_storage_abs [simp]:
  "storage_abs demo_storage = \<lparr>al_base = 0, al_bterm = 0, al_ents = [demo_entry 1 1]\<rparr>"
  by (simp add: storage_abs_def demo_storage_def)

lemma demo_log_sel [simp]:
  "rl_committed demo_log = 1" "rl_applied demo_log = 0" "rl_storage demo_log = demo_storage"
  "rl_unstable demo_log = \<lparr>u_snapshot = None, u_entries = [demo_entry 1 2], u_offset = 2\<rparr>"
  by (simp_all add: demo_log_def)

lemma demo_log_abs [simp]:
  "raft_log_abs demo_log = \<lparr>al_base = 0, al_bterm = 0, al_ents = [demo_entry 1 1, demo_entry 1 2]\<rparr>"
  by (simp add: raft_log_abs_def alog_splice_def)

lemma demo_log_last [simp]: "alog_last \<lparr>al_base = b, al_bterm = t, al_ents = es\<rparr> = b + length es"
  by (simp add: alog_last_def)

lemma demo_log_wf [simp]: "raft_log_wf demo_log"
  by (simp add: raft_log_wf_def unstable_wf_def log_joined_def u64_max_def)

lemma demo_log_synced [simp]: "log_synced demo_log"
  by (simp add: log_synced_def demo_storage_def new_snapshot_def)

lemma demo_progress_wf [simp]: "m < 100 \<Longrightarrow> progress_wf (demo_progress m)"
  by (simp add: demo_progress_def progress_wf_def new_progress_def new_inflights_wf u32_max_def u64_max_def)

lemma demo_raft_sel [simp]:
  "r_id (demo_raft s) = 1" "r_term (demo_raft s) = 1" "r_log (demo_raft s) = demo_log" "r_state (demo_raft s) = s"
  "r_prs (demo_raft s) = [(1, demo_progress 2), (2, demo_progress 2), (3, demo_progress 0)]"
  "r_learner_prs (demo_raft s) = []" "r_is_learner (demo_raft s) = False" "r_uncommitted_size (demo_raft s) = 0"
  "r_vote (demo_raft Follower) = 0" "r_lead (demo_raft Follower) = 0" "r_votes (demo_raft Candidate) = [(1, True)]"
  "r_max_inflight (demo_raft s) = 4" "r_election_timeout (demo_raft s) = 10"
  "r_read_only (demo_raft s) = new_read_only ReadOnlySafe"
  by (simp_all add: demo_raft_def)

lemma demo_raft_wf [simp]: "raft_wf (demo_raft s)"
proof -
  have "peers_wf (demo_raft s)" by (simp add: peers_wf_def)
  moreover have "timer_wf (demo_raft s)" by (simp add: timer_wf_def demo_raft_def u32_max_def)
  moreover have "mode_wf (demo_raft s)" by (simp add: mode_wf_def demo_raft_def)
  ultimately show ?thesis by (simp add: raft_wf_def raft_base_wf_def new_read_only_wf u32_max_def)
qed

lemma demo_node_sel [simp]: "rn_raft (demo_node s) = demo_raft s"
  by (simp add: demo_node_def)

lemma demo_node_wf [simp]: "node_wf (demo_node s)"
  by (simp add: node_wf_def)

lemma demo_quorum [simp]: "raft_quorum (demo_raft s) = 2"
  by (simp add: raft_quorum_def cast32_def u32_max_def)

lemma demo_msg_sel [simp]:
  "m_type (demo_msg t) = t" "m_from (demo_msg t) = 2" "m_term (demo_msg t) = 1" "m_index (demo_msg t) = 0"
  "m_entries (demo_msg t) = []" "m_log_term (demo_msg t) = 0" "m_reject (demo_msg t) = False"
  "m_snapshot (demo_msg t) = new_snapshot" "m_reject_hint (demo_msg t) = 0" "m_context (demo_msg t) = []"
  "m_commit (demo_msg t) = 0"
  by (simp_all add: demo_msg_def new_message_def)

lemma demo_app_wf [simp]: "msg_wf demo_app" "m_type demo_app = MsgApp" "m_index demo_app = 2" "m_term demo_app = 1"
  "m_log_term demo_app = 1" "m_entries demo_app = [demo_entry 1 3]" "m_commit demo_app = 2" "m_from demo_app = 2"
  by (simp_all add: msg_wf_def demo_app_def u64_max_def new_snapshot_def)

lemma demo_app_ok [simp]: "step_ok demo_app (demo_raft s)"
  by (simp add: step_ok_def u64_max_def)

end
