(* ===== verification/Log_Properties.thy ===== *)
theory Log_Properties
  imports Demo
begin

text \<open>
  Properties of the log: stable storage (\<open>storage.cpp\<close>), the unstable tail
  (\<open>unstable.cpp\<close>) and the raft log that joins them (\<open>raft_log.cpp\<close>), all stated
  against the abstract log.
\<close>

section \<open>Stable storage\<close>

text \<open>Appending to \<open>MemoryStorage\<close>, on every branch, for a batch of consecutive indices
  starting at \<open>n\<close>: a batch that ends before the first index is ignored; one that starts within
  or right after the log loses its compacted part and replaces everything from its first
  remaining index on; one that would leave a gap is fatal.\<close>

theorem storage_append_branches:
  assumes "storage_wf ms" "contig n ents" "ents \<noteq> []" "n + length ents \<le> u64_max"
  defines "first \<equiv> Suc (al_base (storage_abs ms))" and "next \<equiv> Suc (alog_last (storage_abs ms))"
  shows "if n + length ents \<le> first then storage_append ents ms = Inr (StatusOK, ms)
    else if n \<le> next then
      \<exists>ms'. storage_append ents ms = Inr (StatusOK, ms') \<and> storage_wf ms' \<and>
        storage_abs ms' = alog_splice (storage_abs ms) (max n first) (drop (first - n) ents) \<and>
        ms_hard_state ms' = ms_hard_state ms \<and> ms_snapshot ms' = ms_snapshot ms
    else storage_append ents ms = Inl (Fatal ''missing log entry'')"
proof -
  note spec = storage_append_spec [OF assms(1-4), unfolded Let_def, folded first_def next_def]
  have "\<exists>ms'. storage_append ents ms = Inr (StatusOK, ms') \<and> storage_wf ms' \<and>
      storage_abs ms' = alog_splice (storage_abs ms) (max n first) (drop (first - n) ents) \<and>
      ms_hard_state ms' = ms_hard_state ms \<and> ms_snapshot ms' = ms_snapshot ms"
    if b: "\<not> n + length ents \<le> first" "n \<le> next"
  proof -
    let ?n = "max n first" and ?es = "drop (first - n) ents"
    have c: "contig ?n ?es"
      using contig_drop [OF assms(2), of "first - n"] b(1) by (cases "n \<le> first") (simp_all add: max_def)
    have len: "?n + length ?es = n + length ents" "?es \<noteq> []"
      using b(1) assms(3) by (auto simp: max_def) (cases "n \<le> first"; simp)
    have hi: "?n \<le> next" using b(2) by (simp add: first_def next_def alog_last_def)
    have "storage_append ents ms = storage_append ?es ms"
      using storage_append_spec [OF assms(1) c len(2)] spec b hi len assms(4)
      by (simp add: Let_def max_def first_def [symmetric] next_def [symmetric])
    then show ?thesis
      using storage_append_refines [OF assms(1) c _ _ _ len(2)] len(1) assms(4) hi
      by (auto simp: first_def next_def)
  qed
  with spec show ?thesis by simp
qed

theorem storage_append_branches_witness:
  "\<exists>ms'. storage_append [demo_entry 2 1, demo_entry 2 2] demo_storage = Inr (StatusOK, ms') \<and> storage_wf ms' \<and>
     storage_abs ms' = \<lparr>al_base = 0, al_bterm = 0, al_ents = [demo_entry 2 1, demo_entry 2 2]\<rparr>"
  using storage_append_branches [of demo_storage 1 "[demo_entry 2 1, demo_entry 2 2]"]
  by (auto simp: alog_splice_def u64_max_def)

text \<open>Compaction of \<open>MemoryStorage\<close>: at or below the first retained index it reports an
  error and changes nothing; within the log the entries up to \<open>i\<close> are dropped, the dummy entry
  keeps the term of \<open>i\<close>, and every later entry is still there; beyond the log it is fatal.\<close>

theorem storage_compact_branches:
  assumes wf: "storage_wf ms"
  shows "if i \<le> al_base (storage_abs ms) then
      storage_compact i ms = Inr (InvalidArgument ''requested idnex is unavailable due to compaction'', ms)
    else if i \<le> alog_last (storage_abs ms) then
      \<exists>ms'. storage_compact i ms = Inr (StatusOK, ms') \<and> storage_wf ms' \<and>
        al_base (storage_abs ms') = i \<and> al_bterm (storage_abs ms') = alog_term_at (storage_abs ms) i \<and>
        alog_last (storage_abs ms') = alog_last (storage_abs ms) \<and>
        (\<forall>j > i. alog_entry (storage_abs ms') j = alog_entry (storage_abs ms) j)
    else storage_compact i ms = Inl (Fatal ''compact is out of lastindex'')"
proof -
  obtain d es where d: "ms_entries ms = d # es" "al_base (storage_abs ms) = e_index d"
    by (rule storage_wfE [OF wf]) (simp add: that)
  consider "i \<le> e_index d" | "e_index d < i" "i \<le> alog_last (storage_abs ms)" | "alog_last (storage_abs ms) < i"
    by linarith
  then show ?thesis
  proof cases
    case 1
    then show ?thesis using d by (simp add: storage_compact_def)
  next
    case 2
    with storage_compact_refines [OF wf, of i] d(2) show ?thesis by simp metis
  next
    case 3
    moreover have "e_index d \<le> alog_last (storage_abs ms)" using d(2) by (simp add: alog_last_def)
    ultimately show ?thesis using d wf by (simp add: storage_compact_def Let_def)
  qed
qed

theorem storage_compact_branches_witness:
  "\<exists>ms'. storage_compact 1 demo_storage = Inr (StatusOK, ms') \<and> al_base (storage_abs ms') = 1"
  using storage_compact_branches [of demo_storage 1] by auto

text \<open>Snapshots of \<open>MemoryStorage\<close>: taking one at an index of the log that is newer than the
  current snapshot records the index, its term and the data and leaves the log alone; an older
  index is an error and an index beyond the log is fatal.\<close>

theorem storage_create_snapshot_branches:
  assumes wf: "storage_wf ms" and lo: "al_base (storage_abs ms) \<le> i"
  shows "if i \<le> snap_index (ms_snapshot ms) then
      storage_create_snapshot i cs data ms =
        Inr (InvalidArgument ''request index is older than the existing snapshot'', new_snapshot, ms)
    else if i \<le> alog_last (storage_abs ms) then
      \<exists>snap ms'. storage_create_snapshot i cs data ms = Inr (StatusOK, snap, ms') \<and>
        ms_snapshot ms' = snap \<and> snap_index snap = i \<and>
        snap_term snap = alog_term_at (storage_abs ms) i \<and> snap_data snap = data \<and>
        storage_abs ms' = storage_abs ms \<and> storage_wf ms'
    else storage_create_snapshot i cs data ms = Inl (Fatal ''snaphot is out of bound lastindex'')"
proof -
  obtain d es where d: "ms_entries ms = d # es" using storage_wfE [OF wf] by force
  show ?thesis
  proof (cases "i \<le> snap_index (ms_snapshot ms)")
    case False
    then show ?thesis
      using storage_create_snapshot_refines [OF wf _ lo] d wf
      by (auto simp: storage_create_snapshot_def Let_def)
  qed (simp add: storage_create_snapshot_def)
qed

theorem storage_create_snapshot_branches_witness:
  "\<exists>snap ms'. storage_create_snapshot 1 None [7] demo_storage = Inr (StatusOK, snap, ms') \<and>
     snap_index snap = 1 \<and> snap_term snap = 1"
proof -
  have "snap_index (ms_snapshot demo_storage) = 0" by (simp add: demo_storage_def new_snapshot_def)
  then show ?thesis
    using storage_create_snapshot_branches [of demo_storage 1 None "[7]"]
    by (auto simp: alog_term_at_def alog_entry_def)
qed

text \<open>Applying a snapshot to \<open>MemoryStorage\<close> and then appending the entries that follow it
  gives exactly the log that starts at the snapshot: everything the storage held before is gone.\<close>

theorem storage_apply_snapshot_then_append:
  assumes "snap_index (ms_snapshot ms) < snap_index s" "contig (Suc (snap_index s)) es" "es \<noteq> []"
    "Suc (snap_index s) + length es \<le> u64_max"
  shows "\<exists>ms' ms''. storage_apply_snapshot s ms = (StatusOK, ms') \<and> storage_append es ms' = Inr (StatusOK, ms'') \<and>
    storage_wf ms'' \<and> ms_snapshot ms'' = s \<and>
    storage_abs ms'' = \<lparr>al_base = snap_index s, al_bterm = snap_term s, al_ents = es\<rparr>"
proof -
  have "snap_index s < u64_max" using assms(4) by simp
  from storage_apply_snapshot_refines [OF assms(1) this] obtain ms' where
    ms': "storage_apply_snapshot s ms = (StatusOK, ms')" "storage_wf ms'" "ms_snapshot ms' = s"
      "storage_abs ms' = \<lparr>al_base = snap_index s, al_bterm = snap_term s, al_ents = []\<rparr>" by blast
  from storage_append_refines [OF ms'(2) assms(2,4) _ _ assms(3)] ms' obtain ms'' where
    "storage_append es ms' = Inr (StatusOK, ms'')" "storage_wf ms''" "ms_snapshot ms'' = s"
    "storage_abs ms'' = alog_splice (storage_abs ms') (Suc (snap_index s)) es" by auto
  with ms' show ?thesis by (simp add: alog_splice_def)
qed

theorem storage_apply_snapshot_then_append_witness:
  "\<exists>ms' ms''. storage_apply_snapshot (new_snapshot\<lparr>snap_metadata := \<lparr>sm_conf_state = new_conf_state, sm_index = 5, sm_term = 2\<rparr>\<rparr>)
       demo_storage = (StatusOK, ms') \<and>
     storage_append [demo_entry 2 6] ms' = Inr (StatusOK, ms'') \<and>
     storage_abs ms'' = \<lparr>al_base = 5, al_bterm = 2, al_ents = [demo_entry 2 6]\<rparr>"
proof -
  have "snap_index (ms_snapshot demo_storage) = 0" by (simp add: demo_storage_def new_snapshot_def)
  then show ?thesis
    using storage_apply_snapshot_then_append [of demo_storage
      "new_snapshot\<lparr>snap_metadata := \<lparr>sm_conf_state = new_conf_state, sm_index = 5, sm_term = 2\<rparr>\<rparr>" "[demo_entry 2 6]"]
    by (auto simp: u64_max_def)
qed

section \<open>The unstable tail\<close>

text \<open>\<open>Unstable::truncate_and_append\<close>: a batch of consecutive indices starting at \<open>n\<close> keeps
  the entries below \<open>n\<close>, replaces everything from \<open>n\<close> on, and moves the offset down when the
  batch starts below it; a batch that would leave a gap is fatal. The tail stays consecutive.\<close>

theorem unstable_append_branches:
  assumes wf: "unstable_wf u" and c: "contig n ents" and ne: "ents \<noteq> []" and b: "n + length ents \<le> u64_max"
    and s: "\<And>s. u_snapshot u = Some s \<Longrightarrow> snap_index s < n" and n: "0 < n"
  shows "if n \<le> u_offset u + length (u_entries u) then
      \<exists>u'. unstable_truncate_and_append ents u = Inr u' \<and> unstable_wf u' \<and> u_snapshot u' = u_snapshot u \<and>
        u_offset u' = min n (u_offset u) \<and> u_entries u' = take (n - u_offset u) (u_entries u) @ ents
    else unstable_truncate_and_append ents u = Inl (Fatal ''unstable.slice out of bound'')"
proof (cases "n \<le> u_offset u + length (u_entries u)")
  case True
  let ?u = "u\<lparr>u_offset := min n (u_offset u), u_entries := take (n - u_offset u) (u_entries u) @ ents\<rparr>"
  have len: "u_offset u + length (take (n - u_offset u) (u_entries u)) = n" if "\<not> n \<le> u_offset u"
    using True that by simp
  have "contig (min n (u_offset u)) (take (n - u_offset u) (u_entries u) @ ents)"
    using c contig_take [OF unstable_wfD(1) [OF wf]] len
    by (cases "n \<le> u_offset u") (simp_all add: min_def del: length_take)
  moreover have "min n (u_offset u) + length (take (n - u_offset u) (u_entries u) @ ents) = n + length ents"
    using True by (auto simp: min_def)
  ultimately have "unstable_wf ?u"
    using unstable_wfD(3,4) [OF wf] s n b by (auto simp: unstable_wf_def split: option.splits)
  with True show ?thesis by (simp add: unstable_truncate_and_append_wf [OF wf c ne])
qed (simp add: unstable_truncate_and_append_wf [OF wf c ne])

theorem unstable_append_branches_witness:
  "\<exists>u'. unstable_truncate_and_append [demo_entry 2 2, demo_entry 2 3] (rl_unstable demo_log) = Inr u' \<and>
     u_offset u' = 2 \<and> u_entries u' = [demo_entry 2 2, demo_entry 2 3]"
  using unstable_append_branches [of "rl_unstable demo_log" 2 "[demo_entry 2 2, demo_entry 2 3]"]
    raft_log_wfD(2) [OF demo_log_wf]
  by (auto simp: u64_max_def)

text \<open>\<open>Unstable::stable_to\<close>: entries up to \<open>i\<close> are dropped exactly when the tail holds an entry
  at \<open>i\<close> with term \<open>t\<close>; a report about an entry that has been replaced since, or that is not in
  the tail, changes nothing. The tail stays consecutive.\<close>

theorem unstable_stable_to_branches:
  assumes wf: "unstable_wf u"
  shows "\<exists>u'. unstable_stable_to i t u = Inr u' \<and> unstable_wf u' \<and> u_snapshot u' = u_snapshot u \<and>
    (if u_offset u \<le> i \<and> i < u_offset u + length (u_entries u) \<and> e_term (u_entries u ! (i - u_offset u)) = t
     then u_offset u' = Suc i \<and> u_entries u' = drop (Suc i - u_offset u) (u_entries u) else u' = u)"
proof (cases "u_offset u \<le> i \<and> i < u_offset u + length (u_entries u) \<and> e_term (u_entries u ! (i - u_offset u)) = t")
  case True
  then have "Suc i - u_offset u \<le> length (u_entries u)" "u_offset u + (Suc i - u_offset u) = Suc i" by linarith+
  then have "contig (Suc i) (drop (Suc i - u_offset u) (u_entries u))"
    using contig_drop [OF unstable_wfD(1) [OF wf], of "Suc i - u_offset u"] by simp
  with True wf have "unstable_wf (u\<lparr>u_entries := drop (Suc i - u_offset u) (u_entries u), u_offset := Suc i\<rparr>)"
    by (auto simp: unstable_wf_def split: option.splits)
  with True show ?thesis by (simp add: unstable_stable_to_wf [OF wf])
next
  case False
  then show ?thesis
    unfolding unstable_stable_to_wf [OF wf] if_not_P [OF False] by (intro exI [of _ u]) (simp add: wf)
qed

theorem unstable_stable_to_branches_witness:
  "\<exists>u'. unstable_stable_to 2 1 (rl_unstable demo_log) = Inr u' \<and> u_offset u' = 3 \<and> u_entries u' = []"
  using unstable_stable_to_branches [OF raft_log_wfD(2) [OF demo_log_wf], of 2 1] by auto

section \<open>The raft log\<close>

text \<open>C17. \<open>RaftLog::slice\<close> on every branch: an inverted range trips the assertion, a range that
  starts in the compacted part is reported as unavailable, a range that ends beyond the log is
  fatal, and any other range gives the entries of the abstract log, cut to the size limit,
  wherever the boundary between storage and the unstable tail lies.\<close>

theorem raft_log_slice_branches:
  assumes wf: "raft_log_wf l"
  shows "raft_log_slice low high m [] l =
    (if high < low then Inl (AssertFailed ''high >= low'')
     else if low \<le> log_base l then
       Inr (InvalidArgument ''requested index is unavailable due to compaction'', [])
     else if Suc (log_last l) < high then Inl (Fatal ''slice out of bound'')
     else Inr (StatusOK, entry_limit_size m (alog_slice (raft_log_abs l) low high)))"
proof -
  have "raft_log_slice low high m [] l = Inl e" if "raft_log_must_check_out_of_bounds low high l = Inl e" for e
    using that by (simp add: raft_log_slice_def)
  then show ?thesis
    using raft_log_slice_wf [OF wf, of low high m] raft_log_slice_compacted [OF wf, of low high m "[]"]
      raft_log_must_check_wf [OF wf, of low high]
    by auto
qed

theorem raft_log_slice_branches_witness:
  "raft_log_slice 1 3 1000 [] demo_log = Inr (StatusOK, entry_limit_size 1000 [demo_entry 1 1, demo_entry 1 2])"
  using raft_log_slice_branches [OF demo_log_wf, of 1 3 1000] by (simp add: alog_slice_def)

text \<open>\<open>RaftLog::append\<close> on every branch: a batch that would overwrite committed entries is
  fatal, one that would leave a gap is fatal, and any other batch replaces the log from its
  first index on and returns the new last index, leaving the commit index alone.\<close>

theorem raft_log_append_branches:
  assumes wf: "raft_log_wf l" and c: "contig n ents" and ne: "ents \<noteq> []" and n: "0 < n"
    and b: "n + length ents \<le> u64_max"
  shows "if n \<le> rl_committed l then raft_log_append ents l = Inl (Fatal ''after is out of range'')
    else if n \<le> Suc (log_last l) then
      \<exists>l'. raft_log_append ents l = Inr (n + length ents - 1, l') \<and> raft_log_wf l' \<and>
        raft_log_abs l' = alog_splice (raft_log_abs l) n ents \<and> rl_committed l' = rl_committed l \<and>
        log_last l' = n + length ents - 1
    else raft_log_append ents l = Inl (Fatal ''unstable.slice out of bound'')"
proof -
  have "\<exists>l'. raft_log_append ents l = Inr (n + length ents - 1, l') \<and> raft_log_wf l' \<and>
      raft_log_abs l' = alog_splice (raft_log_abs l) n ents \<and> rl_committed l' = rl_committed l \<and>
      log_last l' = n + length ents - 1" if k: "rl_committed l < n" "n \<le> Suc (log_last l)"
    using raft_log_append_wf [OF wf c ne b k] alog_splice_last [of "raft_log_abs l" n ents]
      raft_log_wfD(4) [OF wf] k by auto
  then show ?thesis
    using raft_log_append_committed [OF c ne n] raft_log_append_gap [OF wf c ne n b] b by auto
qed

theorem raft_log_append_branches_witness:
  "\<exists>l'. raft_log_append [demo_entry 2 2, demo_entry 2 3] demo_log = Inr (3, l') \<and>
     raft_log_abs l' = \<lparr>al_base = 0, al_bterm = 0, al_ents = [demo_entry 1 1, demo_entry 2 2, demo_entry 2 3]\<rparr>"
  using raft_log_append_branches [of demo_log 2 "[demo_entry 2 2, demo_entry 2 3]"]
  by (auto simp: u64_max_def alog_splice_def)

text \<open>C16. \<open>RaftLog::maybe_append\<close> on every branch, for entries that follow position \<open>i\<close>: when the
  log has no entry \<open>i\<close> of term \<open>t\<close> nothing happens and the call reports failure; when the first
  entry that differs is already committed the process stops; otherwise the log keeps
  everything before the first difference and takes the request's entries from there on, and
  the commit index advances to the leader's, but not past the last new entry, and never back.\<close>

theorem raft_log_maybe_append_branches:
  assumes wf: "raft_log_wf l" and c: "contig (Suc i) es" and nz: "\<forall>e \<in> set es. 0 < e_term e"
    and b: "i + length es < u64_max" and i: "log_base l \<le> i" "i = 0 \<or> 0 < t"
  shows "if t \<noteq> alog_term_at (raft_log_abs l) i then raft_log_maybe_append i t cm es l = Inr (0, False, l)
    else if 0 < conflict_index (raft_log_abs l) es \<and> conflict_index (raft_log_abs l) es \<le> rl_committed l then
      raft_log_maybe_append i t cm es l = Inl (Fatal ''entry conflict with committed entry'')
    else \<exists>l'. raft_log_maybe_append i t cm es l = Inr (i + length es, True, l') \<and> raft_log_wf l' \<and>
      raft_log_abs l' = appended i es (raft_log_abs l) \<and> i + length es \<le> log_last l' \<and>
      rl_committed l' = max (rl_committed l) (min cm (i + length es)) \<and> log_keeps l l'"
proof -
  have "\<exists>l'. raft_log_maybe_append i t cm es l = Inr (i + length es, True, l') \<and> raft_log_wf l' \<and>
      raft_log_abs l' = appended i es (raft_log_abs l) \<and> i + length es \<le> log_last l' \<and>
      rl_committed l' = max (rl_committed l) (min cm (i + length es)) \<and> log_keeps l l'"
    if t: "t = alog_term_at (raft_log_abs l) i"
      and ok: "conflict_index (raft_log_abs l) es = 0 \<or> rl_committed l < conflict_index (raft_log_abs l) es"
  proof -
    have hi: "i \<le> log_last l" by (rule match_in_log [OF wf t i(2)])
    obtain l' where l': "raft_log_maybe_append i t cm es l = Inr (i + length es, True, l')" "raft_log_wf l'"
      "raft_log_abs l' = appended i es (raft_log_abs l)"
      "rl_committed l' = max (rl_committed l) (min cm (i + length es))" "log_frame l l'"
      using raft_log_maybe_append_wf [OF wf c nz b i(1) hi t ok] by blast
    moreover have "log_keeps l l'" using l' by (intro appended_keeps [OF wf _ _ c nz i(1) hi ok]) simp_all
    ultimately show ?thesis using appended_last(1) [OF c nz i(1) hi] by auto
  qed
  then show ?thesis
    using raft_log_maybe_append_reject [OF wf, of t i cm es] raft_log_maybe_append_conflict [OF wf, of t i es cm]
    by (auto simp: not_le)
qed

theorem raft_log_maybe_append_branches_witness:
  "\<exists>l'. raft_log_maybe_append 2 1 2 [demo_entry 1 3] demo_log = Inr (3, True, l') \<and> rl_committed l' = 2"
proof -
  have "conflict_index (raft_log_abs demo_log) [demo_entry 1 3] = 3" "alog_term_at (raft_log_abs demo_log) 2 = 1"
    by (simp_all add: conflict_index_def alog_term_at_def alog_entry_def)
  then show ?thesis
    using raft_log_maybe_append_branches [of demo_log 2 "[demo_entry 1 3]" 1 2] by (auto simp: u64_max_def)
qed

text \<open>C6. Log matching. Suppose the logs of follower and leader agree up to any index at which both
  hold an entry of the same term. If the follower accepts a batch that the leader cut out of
  its own log, then afterwards both logs hold the same entries up to the end of the batch, and
  they still match.\<close>

theorem maybe_append_log_matching:
  assumes wf: "raft_log_wf l" and m: "log_match (raft_log_abs l) a" and a: "alog_wf a"
    and es: "es = alog_slice a (Suc i) high" "Suc i \<le> high" "high \<le> Suc (alog_last a)"
    and nz: "\<forall>e \<in> set es. 0 < e_term e" and i: "log_base l \<le> i" "al_base a \<le> i" "i = 0 \<or> 0 < t"
    and t: "t = alog_term_at a i" and b: "i + length es < u64_max"
    and acc: "raft_log_maybe_append i t cm es l = Inr (n, True, l')"
  shows "(\<forall>j. log_base l < j \<and> al_base a < j \<and> j < high \<longrightarrow> alog_entry (raft_log_abs l') j = alog_entry a j) \<and>
    log_match (raft_log_abs l') a"
proof -
  let ?ci = "conflict_index (raft_log_abs l) es"
  have c: "contig (Suc i) es" using alog_slice_contig [OF a] es i(2) by simp
  have t': "t = alog_term_at (raft_log_abs l) i"
    using acc raft_log_maybe_append_reject [OF wf] by (metis Pair_inject sum.inject(2))
  have hi: "i \<le> log_last l" by (rule match_in_log [OF wf t' i(3)])
  have ok: "?ci = 0 \<or> rl_committed l < ?ci"
    using acc raft_log_maybe_append_conflict [OF wf t', of es cm] by (metis Inl_Inr_False neq0_conv not_le)
  have l': "raft_log_abs l' = appended i es (raft_log_abs l)"
    using raft_log_maybe_append_wf [OF wf c nz b i(1) hi t' ok, of cm] acc by auto
  have agree: "alog_entry (raft_log_abs l') j = alog_entry a j" if "log_base l < j" "al_base a < j" "j < high" for j
    using appended_agrees [OF m es a nz i(1) hi i(2) _ that] t t' l' by simp
  have "log_match (raft_log_abs l') a"
  proof (cases "?ci = 0")
    case True
    then show ?thesis using l' m by (simp add: appended_def)
  next
    case False
    have len: "length es = high - Suc i" using alog_slice_length [of a "Suc i" high] es i(2) by simp
    obtain k where k: "k < length es" "?ci = Suc i + k"
      using False by (rule_tac conflict_index_cases [OF c, of "raft_log_abs l"]) auto
    have "log_last l' = i + length es"
      using alog_splice_last [of "raft_log_abs l" ?ci "drop (?ci - Suc i) es"] appended_last(2) [OF c nz i(1) hi False]
        l' k i(1) False by (simp add: appended_def Let_def)
    then have in_batch: "x < high" if "alog_entry (raft_log_abs l') x = Some e" for x e
      using that len es(2) alog_entry_None_iff [of "raft_log_abs l'" x] by fastforce
    show ?thesis
      unfolding log_match_def l' appended_base using agree in_batch l' by (metis le_less_trans)
  qed
  with agree show ?thesis by blast
qed

theorem maybe_append_log_matching_witness:
  "\<exists>l'. raft_log_maybe_append 1 1 2 [demo_entry 1 2] demo_log = Inr (2, True, l') \<and>
     alog_entry (raft_log_abs l') 2 = alog_entry (raft_log_abs demo_log) 2 \<and> log_match (raft_log_abs l') (raft_log_abs demo_log)"
proof -
  let ?a = "raft_log_abs demo_log"
  have ci: "conflict_index ?a [demo_entry 1 2] = 0" and t: "alog_term_at ?a 1 = 1"
    by (simp_all add: conflict_index_def alog_term_at_def alog_entry_def)
  obtain l' where l': "raft_log_maybe_append 1 1 2 [demo_entry 1 2] demo_log = Inr (2, True, l')"
    using raft_log_maybe_append_wf [of demo_log 1 "[demo_entry 1 2]" 1 2] ci t by (auto simp: u64_max_def)
  have m: "log_match ?a ?a" by (simp add: log_match_def)
  have es: "[demo_entry 1 2] = alog_slice ?a (Suc 1) 3" by (simp add: alog_slice_def)
  have "(\<forall>j. log_base demo_log < j \<and> log_base demo_log < j \<and> j < 3 \<longrightarrow> alog_entry (raft_log_abs l') j = alog_entry ?a j) \<and>
      log_match (raft_log_abs l') ?a"
    by (rule maybe_append_log_matching [OF demo_log_wf m raft_log_abs_wf [OF demo_log_wf] es _ _ _ _ _ _ _ _ l'])
      (simp_all add: u64_max_def t [simplified])
  moreover have "log_base demo_log < 2" "(2::nat) < 3" by simp_all
  ultimately show ?thesis using l' by blast
qed

text \<open>\<open>RaftLog::next_entries\<close> and \<open>has_next_entries\<close>: they give exactly the committed entries
  that are not yet applied and not compacted, in order, cut to the size limit; there are some
  iff the flag says so, and then at least one is returned.\<close>

theorem raft_log_next_entries_committed:
  assumes wf: "raft_log_wf l" and ap: "rl_applied l \<le> rl_committed l"
  shows "\<exists>es. raft_log_next_entries l = Inr es \<and>
    raft_log_has_next_entries l = Inr (es \<noteq> []) \<and>
    (\<forall>k < length es. alog_entry (raft_log_abs l) (Suc (max (rl_applied l) (log_base l)) + k) = Some (es ! k)) \<and>
    max (rl_applied l) (log_base l) + length es \<le> rl_committed l"
proof -
  let ?lo = "Suc (max (rl_applied l) (log_base l))" and ?hi = "Suc (rl_committed l)"
  let ?s = "alog_slice (raft_log_abs l) ?lo ?hi"
  let ?es = "entry_limit_size (rl_max_next_ents_size l) ?s"
  note nxt = raft_log_next_entries_wf [OF wf ap]
  have b: "al_base (raft_log_abs l) < ?lo" "?hi \<le> Suc (log_last l)" "?lo \<le> ?hi"
    using raft_log_wfD(4,5) [OF wf] ap by simp_all
  have len: "length ?s = ?hi - ?lo" by (rule alog_slice_length [OF b(1,2)])
  have le: "length ?es \<le> ?hi - ?lo" using entry_limit_size_length [of "rl_max_next_ents_size l" ?s] len by simp
  have "alog_entry (raft_log_abs l) (?lo + k) = Some (?es ! k)" if "k < length ?es" for k
  proof -
    have "?es ! k = ?s ! k" using that by (subst entry_limit_size_take) simp
    then show ?thesis using alog_slice_nth [OF b(1,2), of k] that le by simp
  qed
  moreover have "(?es \<noteq> []) = (max (rl_applied l) (log_base l) < rl_committed l)"
    using len b(3) by (metis entry_limit_size_Nil_iff length_0_conv diff_is_0_eq diff_Suc_Suc not_le)
  ultimately show ?thesis using nxt le b(3) by (intro exI [of _ ?es]) auto
qed

theorem raft_log_next_entries_committed_witness:
  "\<exists>es. raft_log_next_entries demo_log = Inr es \<and> (\<forall>k < length es. alog_entry (raft_log_abs demo_log) (Suc 0 + k) = Some (es ! k))"
  using raft_log_next_entries_committed [of demo_log] by auto

text \<open>\<open>RaftLog::is_up_to_date\<close>, the check behind every vote, is a total preorder on logs: of
  two logs one is up to date with the other, the relation is transitive, and two logs that
  are up to date with each other end in the same index and term.\<close>

theorem raft_log_up_to_date_order:
  assumes "raft_log_wf k" "raft_log_wf l" "raft_log_wf m"
  defines "newer a b \<equiv> raft_log_is_up_to_date (log_last a) (alog_term_at (raft_log_abs a) (log_last a)) b = Inr True"
  shows "(newer k l \<or> newer l k) \<and> (newer k l \<and> newer l m \<longrightarrow> newer k m) \<and>
    (newer k l \<and> newer l k \<longrightarrow> log_last k = log_last l \<and>
       alog_term_at (raft_log_abs k) (log_last k) = alog_term_at (raft_log_abs l) (log_last l))"
  using assms(1-3) unfolding newer_def by (auto simp: raft_log_is_up_to_date_wf)

theorem raft_log_up_to_date_order_witness:
  "raft_log_is_up_to_date 2 1 demo_log = Inr True"
  using raft_log_up_to_date_order [OF demo_log_wf demo_log_wf demo_log_wf]
  by (simp add: alog_term_at_def alog_entry_def numeral_2_eq_2)

text \<open>Persisting: writing the unstable entries to storage and reporting the last of them as
  stable empties the unstable tail and does not change the log as a whole; storage then holds
  all of it.\<close>

theorem raft_log_persist_keeps_log:
  assumes "raft_log_wf l" "u_snapshot (rl_unstable l) = None" "u_entries (rl_unstable l) \<noteq> []"
  shows "\<exists>st' l'. storage_append (raft_log_unstable_entries l) (rl_storage l) = Inr (StatusOK, st') \<and>
    raft_log_stable_to (log_last l) (alog_term_at (raft_log_abs l) (log_last l)) (set_storage st' l) = Inr l' \<and>
    raft_log_wf l' \<and> raft_log_abs l' = raft_log_abs l \<and> raft_log_unstable_entries l' = [] \<and>
    storage_abs st' = raft_log_abs l \<and> rl_committed l' = rl_committed l"
  by (rule raft_log_persist [OF assms])

theorem raft_log_persist_keeps_log_witness:
  "\<exists>st' l'. storage_append [demo_entry 1 2] demo_storage = Inr (StatusOK, st') \<and>
     raft_log_stable_to 2 1 (set_storage st' demo_log) = Inr l' \<and> raft_log_abs l' = raft_log_abs demo_log \<and>
     raft_log_unstable_entries l' = []"
proof -
  have "alog_term_at (raft_log_abs demo_log) 2 = 1" by (simp add: alog_term_at_def alog_entry_def)
  then show ?thesis
    using raft_log_persist_keeps_log [of demo_log] by (auto simp: raft_log_unstable_entries_def numeral_2_eq_2)
qed

text \<open>\<open>entry_limit_size\<close>: the result is a prefix, never empty for a nonempty batch; unless it is
  the single first entry its serialized size is within the limit, and one entry more would
  exceed it.\<close>

theorem entry_limit_size_maximal_prefix:
  assumes sz: "total_size es \<le> u64_max"
  shows "\<exists>n \<le> length es. entry_limit_size m es = take n es \<and> (es \<noteq> [] \<longrightarrow> 0 < n) \<and>
    (total_size (take n es) \<le> m \<or> n \<le> 1) \<and> (n < length es \<longrightarrow> m < total_size (take (Suc n) es))"
proof (cases es)
  case (Cons e rest)
  let ?k = "entry_limit_from m (serialize_size e) rest"
  have pre: "?k = take (length ?k) rest" "length ?k \<le> length rest"
    using entry_limit_from_prefix [of m "serialize_size e" rest] by (auto simp: min_def)
  have s: "serialize_size e + total_size rest \<le> u64_max" using sz Cons by simp
  have fits: "serialize_size e + total_size ?k \<le> m" if "serialize_size e \<le> m"
    by (rule entry_limit_from_total [OF s that])
  have over: "?k = []" if "m < serialize_size e"
    using that s by (cases rest) (simp_all add: Let_def)
  have "entry_limit_size m es = take (Suc (length ?k)) es"
    using Cons pre(1) by (simp add: entry_limit_size_def)
  moreover have "total_size (take (Suc (length ?k)) es) \<le> m \<or> Suc (length ?k) \<le> 1"
    using fits over pre(1) Cons by (cases "serialize_size e \<le> m") auto
  moreover have "m < total_size (take (Suc (Suc (length ?k))) es)" if "Suc (length ?k) < length es"
    using entry_limit_from_maximal [OF s, of m] that Cons by simp
  ultimately show ?thesis using pre(2) Cons by (intro exI [of _ "Suc (length ?k)"]) simp
qed (simp add: entry_limit_size_def)

theorem entry_limit_size_maximal_prefix_witness:
  "\<exists>n \<le> length [demo_entry 1 1]. entry_limit_size 0 [demo_entry 1 1] = take n [demo_entry 1 1] \<and> 0 < n"
proof -
  have "total_size [demo_entry 1 1] \<le> u64_max"
    using serialize_size_bound [of "demo_entry 1 1"] by (simp add: u32_max_def u64_max_def)
  from entry_limit_size_maximal_prefix [OF this, of 0] show ?thesis by blast
qed

end
