(* ===== verification/Flow_Properties.thy ===== *)
theory Flow_Properties
  imports Demo
begin

text \<open>
  Properties of flow control (\<open>progress.cpp\<close>), of the queue of pending reads
  (\<open>readonly.cpp\<close>) and of the configuration check (\<open>config.cpp\<close>).
\<close>

section \<open>The window of messages in flight\<close>

text \<open>The operations of the window and what they mean for a queue of bounded length.\<close>

datatype window_op = Op_add u64 | Op_free u64 | Op_reset

fun queue_run :: "nat \<Rightarrow> window_op list \<Rightarrow> u64 list \<Rightarrow> u64 list option" where
  "queue_run n [] q = Some q"
| "queue_run n (Op_add x # ops) q = (if length q = n then None else queue_run n ops (q @ [x]))"
| "queue_run n (Op_free x # ops) q = queue_run n ops (dropWhile (\<lambda>y. y \<le> x) q)"
| "queue_run n (Op_reset # ops) q = queue_run n ops []"

fun inflights_run :: "window_op list \<Rightarrow> inflights \<Rightarrow> inflights res" where
  "inflights_run [] f = Inr f"
| "inflights_run (Op_add x # ops) f = bindr (inflights_add x f) (inflights_run ops)"
| "inflights_run (Op_free x # ops) f = bindr (inflights_free_to x f) (inflights_run ops)"
| "inflights_run (Op_reset # ops) f = inflights_run ops (inflights_reset f)"

text \<open>C18. The growing ring buffer \<open>InFlights\<close> implements a bounded first-in-first-out queue: for
  every sequence of \<open>add\<close>, \<open>free_to\<close> and \<open>reset\<close> the buffer never reads or writes out of
  range; it stops, with a fatal error, exactly when the queue would exceed the window, and
  otherwise holds exactly the indices the queue holds, in order.\<close>

theorem inflights_refines_queue:
  assumes "inflights_wf f"
  shows "case queue_run (if_size f) ops (inflights_contents f) of
      None \<Rightarrow> inflights_run ops f = Inl (Fatal ''cannot add into a full inflights'')
    | Some q \<Rightarrow> \<exists>f'. inflights_run ops f = Inr f' \<and> inflights_wf f' \<and> inflights_contents f' = q \<and>
        if_size f' = if_size f"
  using assms
proof (induction ops arbitrary: f)
  case Nil
  then show ?case by simp
next
  case (Cons a ops)
  show ?case
  proof (cases a)
    case (Op_add x)
    show ?thesis
    proof (cases "inflights_is_full f")
      case True
      then show ?thesis
        using Op_add ifw.full_law [OF Cons.prems] by (simp add: inflights_add_def)
    next
      case False
      then obtain f' where "inflights_add x f = Inr f'" "inflights_wf f'" "if_size f' = if_size f"
        "inflights_contents f' = inflights_contents f @ [x]" using ifw.add_law [OF Cons.prems] by blast
      then show ?thesis
        using Cons.IH [of f'] Op_add False ifw.full_law [OF Cons.prems] by (simp split: option.splits)
    qed
  next
    case (Op_free x)
    obtain f' where "inflights_free_to x f = Inr f'" "inflights_wf f'" "if_size f' = if_size f"
      "inflights_contents f' = dropWhile (\<lambda>y. y \<le> x) (inflights_contents f)"
      using ifw.free_law [OF Cons.prems] by blast
    then show ?thesis using Cons.IH [of f'] Op_free by (simp split: option.splits)
  next
    case Op_reset
    then show ?thesis using Cons.IH [of "inflights_reset f"] ifw.reset_law [OF Cons.prems] by (simp split: option.splits)
  qed
qed

theorem inflights_refines_queue_witness:
  "\<exists>f'. inflights_run [Op_add 1, Op_add 2, Op_free 1, Op_add 3, Op_add 4] (new_inflights 3) = Inr f' \<and>
     inflights_contents f' = [2, 3, 4]"
proof -
  have "if_size (new_inflights 3) = 3" by (simp add: new_inflights_def cast32_def u32_max_def)
  then have "queue_run (if_size (new_inflights 3)) [Op_add 1, Op_add 2, Op_free 1, Op_add 3, Op_add 4]
      (inflights_contents (new_inflights 3)) = Some [2, 3, 4]" by (simp add: new_inflights_wf)
  then show ?thesis
    using inflights_refines_queue [of "new_inflights 3" "[Op_add 1, Op_add 2, Op_free 1, Op_add 3, Op_add 4]"]
      new_inflights_wf(1) [of 3] by (auto simp: u32_max_def simp del: inflights_run.simps)
qed

text \<open>\<open>InFlights::free_first_one\<close> is meant to free one slot of a full window when a heartbeat
  response arrives, but it passes the position of the first slot in the buffer to \<open>free_to\<close>,
  which expects a log index. Once every index in flight is at least the window size, the call
  frees nothing, however often it is made.\<close>

theorem inflights_free_first_one_frees_nothing:
  assumes wf: "inflights_wf f" and hi: "\<forall>x \<in> set (inflights_contents f). if_size f \<le> x" and n: "0 < if_size f"
  shows "\<exists>f'. inflights_free_first_one f = Inr f' \<and> inflights_contents f' = inflights_contents f"
proof -
  have "if_start f < if_size f" using wf n by (auto simp: inflights_wf_def)
  then have "dropWhile (\<lambda>y. y \<le> if_start f) (inflights_contents f) = inflights_contents f"
    using hi by (cases "inflights_contents f") auto
  then show ?thesis using ifw.free_law [OF wf, of "if_start f"] by (auto simp: inflights_free_first_one_def)
qed

theorem inflights_free_first_one_frees_nothing_witness:
  "\<exists>f'. inflights_free_first_one \<lparr>if_start = 0, if_count = 2, if_size = 2, if_buffer = [7, 8]\<rparr> = Inr f' \<and>
     inflights_contents f' = [7, 8]"
proof -
  let ?f = "\<lparr>if_start = 0, if_count = 2, if_size = 2, if_buffer = [7, 8]\<rparr>"
  have c: "inflights_contents ?f = [7, 8]" by (simp add: inflights_contents_def upt_rec)
  have "inflights_wf ?f" by (simp add: inflights_wf_def u32_max_def)
  from inflights_free_first_one_frees_nothing [OF this] show ?thesis by (simp add: c)
qed

section \<open>Progress of a peer\<close>

text \<open>A rejected append (\<open>maybe_decreases_to\<close>): while replicating, a rejection at or below the
  acknowledged index is stale and ignored, and a genuine one resends right after that index;
  while probing, only a rejection of the probe just sent counts, and the next probe starts
  lower, unless it is at 1 already. The acknowledged index never moves and the next index
  stays positive.\<close>

theorem progress_rejection:
  assumes wf: "progress_wf p" and li: "li < u64_max"
  shows "\<exists>b p'. progress_maybe_decreases_to r li p = (b, p') \<and> progress_wf p' \<and> pr_match p' = pr_match p \<and>
    1 \<le> pr_next p' \<and>
    (if pr_state p = ProgressStateReplicate then
       (b \<longleftrightarrow> pr_match p < r) \<and> (b \<longrightarrow> pr_next p' = Suc (pr_match p))
     else (b \<longleftrightarrow> r = pr_next p - 1) \<and>
       (b \<longrightarrow> pr_next p' = max 1 (min r (Suc li)) \<and> (pr_next p' < pr_next p \<or> pr_next p' = 1))) \<and>
    (\<not> b \<longrightarrow> p' = p)"
proof -
  obtain b p' where e: "progress_maybe_decreases_to r li p = (b, p')" by force
  note d = progress_maybe_decreases_to_wf [OF wf li e]
  have "sub64 (pr_next p) 1 = pr_next p - 1" using wf by (simp add: progress_wf_def)
  then have "b \<longleftrightarrow> (if pr_state p = ProgressStateReplicate then pr_match p < r else r = pr_next p - 1)"
    using arg_cong [OF e, of fst] by (simp add: progress_maybe_decreases_to_def Let_def split: if_split_asm)
  moreover have "1 \<le> pr_next p'" using d(1) by (simp add: progress_wf_def)
  moreover have "if pr_state p = ProgressStateReplicate then b \<longrightarrow> pr_next p' = Suc (pr_match p)
     else b \<longrightarrow> pr_next p' = max 1 (min r (Suc li)) \<and> (pr_next p' < pr_next p \<or> pr_next p' = 1)"
    unfolding if_bool_eq_conj using d(3,4) by blast
  ultimately show ?thesis
    by (intro exI [of _ b] exI [of _ p'] conjI e d(1,5) impI) (auto intro: d(2) split: if_splits)
qed

theorem progress_rejection_witness:
  "\<exists>p'. progress_maybe_decreases_to 2 0 (demo_progress 2) = (True, p') \<and> pr_next p' = 1 \<and> pr_match p' = 2"
proof -
  have "pr_state (demo_progress 2) = ProgressStateProbe" "pr_next (demo_progress 2) = 3" "pr_match (demo_progress 2) = 2"
    by (simp_all add: demo_progress_def new_progress_def)
  then show ?thesis
    using progress_rejection [of "demo_progress 2" 0 2] by (auto simp: u64_max_def)
qed

text \<open>An acknowledged append (\<open>maybe_update\<close>): the acknowledged index becomes the maximum of what
  is known and what is reported, the next index moves past it and never back, the call says
  whether anything new was learned, and reports can be applied in any order with the same
  result.\<close>

theorem progress_acknowledgement:
  assumes wf: "progress_wf p" and n: "n < u64_max" "m < u64_max"
  shows "fst (progress_maybe_update n p) = (pr_match p < n) \<and>
    pr_match (snd (progress_maybe_update n p)) = max (pr_match p) n \<and>
    pr_next (snd (progress_maybe_update n p)) = max (pr_next p) (Suc n) \<and>
    progress_wf (snd (progress_maybe_update n p)) \<and>
    pr_match (snd (progress_maybe_update m (snd (progress_maybe_update n p)))) =
      pr_match (snd (progress_maybe_update n (snd (progress_maybe_update m p))))"
proof -
  note u = progress_maybe_update_wf [OF _ _ surjective_pairing]
  show ?thesis
    using u [OF wf n(1)] u [OF wf n(2)] u [OF u(1) [OF wf n(1)] n(2)] u [OF u(1) [OF wf n(2)] n(1)]
    by (simp only: max.commute max.left_commute)
qed

theorem progress_acknowledgement_witness:
  "pr_match (snd (progress_maybe_update 5 (demo_progress 2))) = 5"
proof -
  have "pr_match (demo_progress 2) = 2" by (simp add: demo_progress_def new_progress_def)
  then show ?thesis using progress_acknowledgement [of "demo_progress 2" 5 5] by (simp add: u64_max_def)
qed

section \<open>Pending reads\<close>


definition demo_read :: "byte list \<Rightarrow> message" where
  "demo_read ctx = new_message\<lparr>m_type := MsgReadIndex, m_entries := [new_entry\<lparr>e_data := ctx\<rparr>], m_context := ctx\<rparr>"


text \<open>\<open>ReadOnly::recv_ack\<close> counts every node once, however often it acknowledges, plus the leader
  itself; an acknowledgement for an unknown context counts nothing and changes nothing; no
  other pending read is touched.\<close>

theorem read_only_recv_ack_counts:
  assumes wf: "read_only_wf ro"
  shows "case map_of (ro_pending ro) (m_context msg) of
      None \<Rightarrow> read_only_recv_ack msg ro = (0, ro)
    | Some rs \<Rightarrow> \<exists>ro' rs'. read_only_recv_ack msg ro = (cast32 (card (insert (m_from msg) (set (ris_acks rs))) + 1), ro') \<and>
        read_only_wf ro' \<and> ro_queue ro' = ro_queue ro \<and>
        map_of (ro_pending ro') (m_context msg) = Some rs' \<and>
        set (ris_acks rs') = insert (m_from msg) (set (ris_acks rs)) \<and>
        (\<forall>k. k \<noteq> m_context msg \<longrightarrow> map_of (ro_pending ro') k = map_of (ro_pending ro) k)"
proof (cases "map_of (ro_pending ro) (m_context msg)")
  case None
  then show ?thesis by (simp add: read_only_recv_ack_def)
next
  case (Some rs)
  obtain n ro' where e: "read_only_recv_ack msg ro = (n, ro')" by force
  have d: "distinct (List.insert (m_from msg) (ris_acks rs))" using read_only_wfD(1) [OF wf Some] by simp
  have "length (List.insert (m_from msg) (ris_acks rs)) = card (insert (m_from msg) (set (ris_acks rs)))"
    using distinct_card [OF d] by simp
  then show ?thesis
    using Some e read_only_recv_ack_wf(1,2) [OF wf e]
    by (auto simp: read_only_recv_ack_def Let_def update_conv')
qed

theorem read_only_recv_ack_counts_witness:
  "\<exists>ro ro'. read_only_add_request 4 (demo_read [1]) (new_read_only ReadOnlySafe) = Inr ro \<and>
     read_only_recv_ack ((demo_read [1])\<lparr>m_from := 2\<rparr>) ro = (2, ro')"
proof -
  obtain ro where ro: "read_only_add_request 4 (demo_read [1]) (new_read_only ReadOnlySafe) = Inr ro" "read_only_wf ro"
    using read_only_add_request_wf [OF new_read_only_wf, of "demo_read [1]" "new_entry\<lparr>e_data := [1]\<rparr>" "[]" 4 ReadOnlySafe]
    by (auto simp: demo_read_def new_read_only_def)
  have "map_of (ro_pending ro) [1] = Some \<lparr>ris_req = demo_read [1], ris_index = 4, ris_acks = []\<rparr>"
    using ro(1) by (auto simp: read_only_add_request_def demo_read_def new_read_only_def Let_def)
  with read_only_recv_ack_counts [OF ro(2), of "(demo_read [1])\<lparr>m_from := 2\<rparr>"] ro(1) show ?thesis
    by (auto simp: demo_read_def cast32_def u32_max_def)
qed

section \<open>Configuration\<close>

text \<open>\<open>Config::validate\<close> accepts exactly the usable configurations (an id, ticks in the right
  order, room for messages in flight, lease reads only together with quorum checks); an
  accepted one has its defaults filled in and validates again to itself.\<close>

theorem config_validate_exact:
  "(fst (config_validate c) = StatusOK) = config_valid c \<and>
   (config_valid c \<longrightarrow> 0 < c_max_uncommitted_entries_size (snd (config_validate c)) \<and>
      config_validate (snd (config_validate c)) = (StatusOK, snd (config_validate c)))"
proof (intro conjI impI config_validate_ok_iff)
  assume v: "config_valid c"
  obtain c' where c': "config_validate c = (StatusOK, c')"
    using v config_validate_ok_iff [of c] by (metis prod.collapse)
  note r = config_validate_result [OF c']
  then show "0 < c_max_uncommitted_entries_size (snd (config_validate c))" by (simp add: c')
  have "c_max_committed_size_per_ready c' \<noteq> 0 \<or> c_max_committed_size_per_ready c' = c_max_size_per_msg c'"
    using arg_cong [OF c', of snd] v by (auto simp: config_validate_def config_valid_def Let_def split: if_splits)
  then have e: "(if c_max_committed_size_per_ready c' = 0 then c'\<lparr>c_max_committed_size_per_ready := c_max_size_per_msg c'\<rparr>
      else c') = c'" by (metis config.surjective config.update_convs(9))
  have u: "(c_max_uncommitted_entries_size c' = 0) = False" using r(2) by simp
  have "config_validate c' = (StatusOK, c')"
  proof -
    have n: "\<not> c_id c' = 0" "\<not> c_heartbeat_tick c' \<le> 0" "\<not> c_election_tick c' \<le> c_heartbeat_tick c'"
      "\<not> c_max_inflight_msgs c' \<le> 0" "\<not> (c_read_only_option c' = ReadOnlyLeaseBased \<and> \<not> c_check_quorum c')"
      using r(1) unfolding config_valid_def by auto
    show ?thesis unfolding config_validate_def Let_def u if_False e by (simp only: n if_False)
  qed
  then show "config_validate (snd (config_validate c)) = (StatusOK, snd (config_validate c))" by (simp only: c' snd_conv)
qed

theorem config_validate_exact_witness: "config_valid demo_config \<and> fst (config_validate demo_config) = StatusOK"
  using config_validate_exact [of demo_config] by (simp add: config_valid_def demo_config_def new_config_def)

end
