(* ===== verification/Election.thy ===== *)
theory Election
  imports Raft_Behaviour
begin

text \<open>
  Elections as one node sees them: what a step does to the role, the term, the vote, the votes
  counted and the vote messages to be sent. Most handlers touch none of these; the others are
  listed one by one in \<open>ballot_step\<close>.
\<close>

section \<open>The ballot of a node\<close>

definition ballot_type :: "message_type \<Rightarrow> bool" where
  "ballot_type t \<longleftrightarrow> t = MsgVote \<or> t = MsgVoteResp"

definition ballot_msgs :: "raft \<Rightarrow> message list" where
  "ballot_msgs r = filter (\<lambda>m. ballot_type (m_type m)) (r_msgs r)"

definition ballot :: "raft \<Rightarrow> u64 \<times> raft_state \<times> u64 \<times> u64 \<times> (u64 \<times> bool) list \<times> message list" where
  "ballot r = (r_id r, r_state r, r_term r, r_vote r, r_votes r, ballot_msgs r)"

lemma ballot_upd [simp]:
  "ballot (r\<lparr>r_log := l\<rparr>) = ballot r" "ballot (r\<lparr>r_prs := ps\<rparr>) = ballot r" "ballot (r\<lparr>r_learner_prs := ps\<rparr>) = ballot r"
  "ballot (r\<lparr>r_read_states := rs\<rparr>) = ballot r" "ballot (r\<lparr>r_read_only := ro\<rparr>) = ballot r" "ballot (r\<lparr>r_lead := i\<rparr>) = ballot r"
  "ballot (r\<lparr>r_lead_transferee := i\<rparr>) = ballot r" "ballot (r\<lparr>r_election_elapsed := n\<rparr>) = ballot r"
  "ballot (r\<lparr>r_heartbeat_elapsed := n\<rparr>) = ballot r" "ballot (r\<lparr>r_uncommitted_size := n\<rparr>) = ballot r"
  "ballot (r\<lparr>r_match_buf := b\<rparr>) = ballot r" "ballot (r\<lparr>r_pending_conf_index := n\<rparr>) = ballot r"
  "ballot (r\<lparr>r_is_learner := l'\<rparr>) = ballot r"
  by (simp_all add: ballot_def ballot_msgs_def)

lemma ballotD:
  assumes "ballot r' = ballot r"
  shows "r_id r' = r_id r" "r_state r' = r_state r" "r_term r' = r_term r" "r_vote r' = r_vote r"
    "r_votes r' = r_votes r" "ballot_msgs r' = ballot_msgs r"
  using assms by (simp_all add: ballot_def)

lemma raft_put_progress_ballot [simp]: "ballot (raft_put_progress i p r) = ballot r"
  by (simp add: raft_put_progress_def)

lemma raft_abort_leader_transfer_ballot [simp]: "ballot (raft_abort_leader_transfer r) = ballot r"
  by (simp add: raft_abort_leader_transfer_def)

lemma for_each_ballot:
  assumes "for_each f xs r = Inr r'" "\<And>x r r'. f x r = Inr r' \<Longrightarrow> ballot r' = ballot r"
  shows "ballot r' = ballot r"
  using for_each_invariant [OF assms(1), of "\<lambda>q. ballot q = ballot r"] assms(2) by simp

section \<open>Handlers that leave the ballot alone\<close>

named_theorems ballot_dest "handlers that do not touch the ballot"

lemma raft_send_ballot:
  "raft_send m r = Inr r' \<Longrightarrow> \<not> ballot_type (m_type m) \<Longrightarrow> ballot r' = ballot r"
  by (auto simp: raft_send_spec ballot_def ballot_msgs_def stamped_def split: if_split_asm)

lemma raft_send_heartbeat_ballot [ballot_dest]: "raft_send_heartbeat to ctx r = Inr r' \<Longrightarrow> ballot r' = ballot r"
  unfolding raft_send_heartbeat_def by (elim bindr_Inr_E) (drule raft_send_ballot, simp_all add: ballot_type_def)

lemma raft_bcast_heartbeat_ctx_ballot [ballot_dest]:
  "raft_bcast_heartbeat_with_ctx ctx r = Inr r' \<Longrightarrow> ballot r' = ballot r"
  unfolding raft_bcast_heartbeat_with_ctx_def
  by (erule for_each_ballot) (auto dest: raft_send_heartbeat_ballot split: if_split_asm)

lemma raft_bcast_heartbeat_ballot [ballot_dest]: "raft_bcast_heartbeat r = Inr r' \<Longrightarrow> ballot r' = ballot r"
  unfolding raft_bcast_heartbeat_def by (rule raft_bcast_heartbeat_ctx_ballot)

lemma raft_fill_snapshot_ballot:
  "raft_fill_snapshot to p msg r = Inr (b, r') \<Longrightarrow> ballot r' = ballot r"
  unfolding raft_fill_snapshot_def Let_def case_prod_beta
  by (auto elim!: bindr_Inr_E dest!: raft_send_ballot simp: ballot_type_def split: if_split_asm)

lemma raft_maybe_send_append_ballot [ballot_dest]:
  "raft_maybe_send_append to e r = Inr (b, r') \<Longrightarrow> ballot r' = ballot r"
  unfolding raft_maybe_send_append_def Let_def case_prod_beta
  by (auto elim!: bindr_Inr_E dest!: raft_send_ballot raft_fill_snapshot_ballot simp: ballot_type_def split: if_split_asm)

lemma raft_send_append_ballot [ballot_dest]: "raft_send_append to r = Inr r' \<Longrightarrow> ballot r' = ballot r"
  unfolding raft_send_append_def by (auto elim!: bindr_pair_E dest!: ballot_dest)

lemma raft_bcast_append_ballot [ballot_dest]: "raft_bcast_append r = Inr r' \<Longrightarrow> ballot r' = ballot r"
  unfolding raft_bcast_append_def
  by (erule for_each_ballot) (auto dest: raft_send_append_ballot split: if_split_asm)

lemma raft_send_all_ballot [ballot_dest]: "raft_send_all n to r = Inr r' \<Longrightarrow> ballot r' = ballot r"
  by (induction n arbitrary: r) (auto elim!: bindr_pair_E dest!: raft_maybe_send_append_ballot split: if_split_asm)

lemma raft_send_timeout_now_ballot [ballot_dest]: "raft_send_timeout_now to r = Inr r' \<Longrightarrow> ballot r' = ballot r"
  unfolding raft_send_timeout_now_def by (drule raft_send_ballot) (simp_all add: ballot_type_def)

lemma raft_maybe_commit_ballot [ballot_dest]: "raft_maybe_commit r = Inr (b, r') \<Longrightarrow> ballot r' = ballot r"
  unfolding raft_maybe_commit_def Let_def by (auto elim!: bindr_Inr_E bindr_pair_E)

lemma raft_append_entry_ballot [ballot_dest]: "raft_append_entry es r = Inr (b, r') \<Longrightarrow> ballot r' = ballot r"
  unfolding raft_append_entry_def raft_increase_uncommitted_size_def Let_def case_prod_beta
  by (auto elim!: bindr_Inr_E bindr_pair_E dest!: raft_maybe_commit_ballot split: if_split_asm)

lemma raft_handle_append_entries_ballot [ballot_dest]:
  "raft_handle_append_entries msg r = Inr r' \<Longrightarrow> ballot r' = ballot r"
  unfolding raft_handle_append_entries_def Let_def case_prod_beta
  by (auto elim!: bindr_Inr_E dest!: raft_send_ballot simp: ballot_type_def split: if_split_asm)

lemma raft_handle_heartbeat_ballot [ballot_dest]: "raft_handle_heartbeat msg r = Inr r' \<Longrightarrow> ballot r' = ballot r"
  unfolding raft_handle_heartbeat_def by (auto elim!: bindr_Inr_E dest!: raft_send_ballot simp: ballot_type_def)

lemma raft_restore_node_ballot: "raft_restore_node b i r = Inr r' \<Longrightarrow> ballot r' = ballot r"
  unfolding raft_restore_node_def raft_set_progress_def Let_def by (auto elim!: bindr_Inr_E split: if_split_asm)

lemma raft_restore_ballot: "raft_restore s r = Inr (b, r') \<Longrightarrow> ballot r' = ballot r"
  unfolding raft_restore_def Let_def
  by (auto simp del: for_each.simps elim!: bindr_Inr_E dest!: for_each_ballot [OF _ raft_restore_node_ballot] split: if_split_asm)

lemma raft_handle_snapshot_ballot [ballot_dest]: "raft_handle_snapshot msg r = Inr r' \<Longrightarrow> ballot r' = ballot r"
  unfolding raft_handle_snapshot_def
  by (elim bindr_pair_E bindr_Inr_E) (drule raft_send_ballot, simp_all add: ballot_type_def raft_restore_ballot)

subsection \<open>The leader\<close>

lemma raft_filter_conf_ballot: "raft_filter_conf i es r = Inr (fs, r') \<Longrightarrow> ballot r' = ballot r"
proof (induction es arbitrary: i r fs)
  case (Cons e es)
  then show ?case by (auto elim!: bindr_Inr_E bindr_pair_E split: if_split_asm)
qed simp

lemma raft_leader_prop_ballot: "raft_leader_prop msg r = Inr (s, r') \<Longrightarrow> ballot r' = ballot r"
  unfolding raft_leader_prop_def
  by (auto elim!: bindr_Inr_E bindr_pair_E dest!: raft_filter_conf_ballot ballot_dest split: if_split_asm)

lemma raft_leader_read_index_ballot: "raft_leader_read_index msg r = Inr r' \<Longrightarrow> ballot r' = ballot r"
  unfolding raft_leader_read_index_def case_prod_beta
  by (auto elim!: bindr_Inr_E dest!: raft_bcast_heartbeat_ctx_ballot raft_send_ballot simp: ballot_type_def
      split: if_split_asm read_only_option.split_asm)

lemma raft_leader_acked_ballot: "raft_leader_acked from b r = Inr r' \<Longrightarrow> ballot r' = ballot r"
  unfolding raft_leader_acked_def
  by (auto elim!: bindr_Inr_E bindr_pair_E dest!: ballot_dest split: if_split_asm)

lemma raft_leader_app_resp_ballot: "raft_leader_app_resp msg p r = Inr r' \<Longrightarrow> ballot r' = ballot r"
  unfolding raft_leader_app_resp_def Let_def case_prod_beta
  by (auto elim!: bindr_Inr_E dest!: raft_leader_acked_ballot ballot_dest split: if_split_asm)

lemma raft_answer_read_ballot: "raft_answer_read rs r = Inr r' \<Longrightarrow> ballot r' = ballot r"
  unfolding raft_answer_read_def Let_def
  by (auto elim!: bindr_Inr_E dest!: raft_send_ballot simp: ballot_type_def split: if_split_asm)

lemma raft_leader_read_ack_ballot: "raft_leader_read_ack msg r = Inr r' \<Longrightarrow> ballot r' = ballot r"
  unfolding raft_leader_read_ack_def Let_def case_prod_beta
  by (auto elim!: bindr_Inr_E dest!: for_each_ballot [OF _ raft_answer_read_ballot] split: if_split_asm)

lemma raft_leader_heartbeat_resp_ballot: "raft_leader_heartbeat_resp msg p r = Inr r' \<Longrightarrow> ballot r' = ballot r"
  unfolding raft_leader_heartbeat_resp_def Let_def
  by (auto elim!: bindr_Inr_E dest!: raft_leader_read_ack_ballot raft_send_append_ballot split: if_split_asm)

lemma raft_leader_transfer_ballot: "raft_leader_transfer msg p r = Inr r' \<Longrightarrow> ballot r' = ballot r"
  unfolding raft_leader_transfer_def Let_def
  by (auto elim!: bindr_Inr_E dest!: ballot_dest split: if_split_asm)

section \<open>Changes of role\<close>

lemma raft_reset_ballot:
  assumes "raft_reset t r = Inr r'"
  shows "r_id r' = r_id r \<and> r_state r' = r_state r \<and> r_term r' = t \<and> r_vote r' = (if r_term r = t then r_vote r else 0) \<and>
    r_votes r' = [] \<and> r_msgs r' = r_msgs r \<and> map fst (r_prs r') = map fst (r_prs r)"
proof -
  have keys: "mapr (raft_reset_progress q) xs = Inr ys \<Longrightarrow> map fst ys = map fst xs" for q xs ys
    by (induction xs arbitrary: ys) (auto simp: raft_reset_progress_def Let_def elim!: bindr_Inr_E)
  show ?thesis
    using assms unfolding raft_reset_def raft_reset_randomized_election_timeout_def raft_abort_leader_transfer_def Let_def case_prod_beta
    by (auto elim!: bindr_Inr_E dest!: keys)
qed

text \<open>A node steps down, perhaps into a later term, where it has not voted yet.\<close>

definition steps_down :: "raft \<Rightarrow> raft \<Rightarrow> bool" where
  "steps_down r r' \<longleftrightarrow>
     r_id r' = r_id r \<and> r_state r' = Follower \<and> ballot_msgs r' = ballot_msgs r \<and>
     r_vote r' = (if r_term r' = r_term r then r_vote r else 0)"

lemma raft_become_follower_ballot:
  "raft_become_follower t lead r = Inr r' \<Longrightarrow> steps_down r r' \<and> r_term r' = t"
  unfolding raft_become_follower_def
  by (elim bindr_Inr_E) (auto dest!: raft_reset_ballot simp: steps_down_def ballot_msgs_def)

lemma raft_become_candidate_ballot:
  assumes "raft_become_candidate r = Inr r'"
  shows "r_id r' = r_id r" "r_state r' = Candidate" "r_term r' = add64 (r_term r) 1" "r_vote r' = r_id r"
    "r_votes r' = []" "r_msgs r' = r_msgs r" "map fst (r_prs r') = map fst (r_prs r)"
  using assms unfolding raft_become_candidate_def
  by (auto elim!: bindr_Inr_E dest!: raft_reset_ballot split: if_split_asm)

lemma raft_append_entry_members: "raft_append_entry es r = Inr (b, r') \<Longrightarrow> map fst (r_prs r') = map fst (r_prs r)"
  unfolding raft_append_entry_def raft_increase_uncommitted_size_def raft_maybe_commit_def Let_def case_prod_beta
  by (auto elim!: bindr_Inr_E bindr_pair_E simp: raft_deref_progress_eq raft_put_progress_keys split: if_split_asm)

lemma raft_become_leader_ballot:
  assumes "raft_become_leader r = Inr r'"
  shows "r_id r' = r_id r" "r_state r' = Leader" "r_term r' = r_term r" "r_vote r' = r_vote r"
    "ballot_msgs r' = ballot_msgs r" "map fst (r_prs r') = map fst (r_prs r)"
proof -
  obtain r1 p li r2 where r1: "raft_reset (r_term r) (r\<lparr>r_step := Some StepLeader\<rparr>) = Inr r1"
    and p: "map_of (r_prs r1) (r_id r1) = Some p"
    and r2: "raft_append_entry [new_entry] ((raft_put_progress (r_id r1) (progress_become_replicate p)
      (r1\<lparr>r_tick := Some TickHeartbeat, r_lead := r_id r1, r_state := Leader\<rparr>))\<lparr>r_pending_conf_index := li\<rparr>) = Inr (True, r2)"
    and r': "r' = raft_reduce_uncommitted_size [new_entry] r2"
    using assms unfolding raft_become_leader_def Let_def
    by (auto elim!: bindr_Inr_E bindr_pair_E split: if_split_asm option.split_asm)
  note b1 = raft_reset_ballot [OF r1]
  have "ballot r' = ballot r2" "r_prs r' = r_prs r2" unfolding r' raft_reduce_uncommitted_size_def Let_def by simp_all
  with raft_append_entry_ballot [OF r2]
  have b: "ballot r' = ballot (r1\<lparr>r_tick := Some TickHeartbeat, r_lead := r_id r1, r_state := Leader\<rparr>)" by simp
  have g: "raft_get_progress (r_id r1) (r1\<lparr>r_tick := Some TickHeartbeat, r_lead := r_id r1, r_state := Leader\<rparr>) = Some p"
    using p by (simp add: raft_get_progress_def)
  show "r_id r' = r_id r" "r_state r' = Leader" "r_term r' = r_term r" "r_vote r' = r_vote r" "ballot_msgs r' = ballot_msgs r"
    using ballotD [OF b] b1 by (simp_all add: ballot_msgs_def)
  show "map fst (r_prs r') = map fst (r_prs r)"
    using raft_append_entry_members [OF r2] raft_put_progress_keys [OF g] b1 \<open>r_prs r' = r_prs r2\<close> by simp
qed

section \<open>What a step does to the ballot\<close>

text \<open>Asking for votes, or winning at once as the only voter.\<close>

definition pre_campaigns :: "raft \<Rightarrow> raft \<Rightarrow> bool" where
  "pre_campaigns r r' \<longleftrightarrow>
     r_id r' = r_id r \<and> r_state r' = PreCandidate \<and> r_term r' = r_term r \<and> r_vote r' = r_vote r \<and> ballot_msgs r' = ballot_msgs r"

definition campaigns :: "raft \<Rightarrow> raft \<Rightarrow> bool" where
  "campaigns r r' \<longleftrightarrow>
     r_id r' = r_id r \<and> r_state r' = Candidate \<and> r_term r' = add64 (r_term r) 1 \<and> r_vote r' = r_id r \<and>
     r_votes r' = [(r_id r, True)] \<and>
     (\<exists>ms. ballot_msgs r' = ballot_msgs r @ ms \<and>
        (\<forall>m \<in> set ms. m_type m = MsgVote \<and> m_from m = r_id r \<and> m_term m = r_term r'))"

definition leads_alone :: "raft \<Rightarrow> raft \<Rightarrow> bool" where
  "leads_alone r r' \<longleftrightarrow>
     r_id r' = r_id r \<and> r_state r' = Leader \<and> r_term r' = add64 (r_term r) 1 \<and> r_vote r' = r_id r \<and>
     ballot_msgs r' = ballot_msgs r \<and> raft_quorum r' = 1"

text \<open>Counting an answer, and winning with it.\<close>

definition counts :: "message \<Rightarrow> raft \<Rightarrow> raft \<Rightarrow> bool" where
  "counts msg r r' \<longleftrightarrow>
     m_type msg \<in> {MsgVoteResp, MsgPreVoteResp} \<and> r_state r = Candidate \<and> r_state r' = Candidate \<and>
     r_id r' = r_id r \<and> r_term r' = r_term r \<and> r_vote r' = r_vote r \<and> ballot_msgs r' = ballot_msgs r \<and>
     r_votes r' = recorded (m_from msg) (\<not> m_reject msg) r"

definition elected :: "message \<Rightarrow> raft \<Rightarrow> raft \<Rightarrow> bool" where
  "elected msg r r' \<longleftrightarrow>
     m_type msg \<in> {MsgVoteResp, MsgPreVoteResp} \<and> r_state r = Candidate \<and> r_state r' = Leader \<and>
     r_id r' = r_id r \<and> r_term r' = r_term r \<and> r_vote r' = r_vote r \<and> ballot_msgs r' = ballot_msgs r \<and> wins msg r"

text \<open>Answering a request.\<close>

definition answers :: "message \<Rightarrow> bool \<Rightarrow> raft \<Rightarrow> raft \<Rightarrow> bool" where
  "answers msg grant r r' \<longleftrightarrow>
     m_type msg = MsgVote \<and> r_id r' = r_id r \<and> r_state r' = r_state r \<and> r_term r' = r_term r \<and> r_votes r' = r_votes r \<and>
     (if grant then r_vote r' = m_from msg \<and> (r_vote r = m_from msg \<or> r_vote r = 0) else r_vote r' = r_vote r) \<and>
     (\<exists>m. ballot_msgs r' = ballot_msgs r @ [m] \<and> m_type m = MsgVoteResp \<and> m_from m = r_id r \<and> (m_reject m \<longleftrightarrow> \<not> grant) \<and>
        (grant \<longrightarrow> m_to m = m_from msg \<and> m_term m = m_term msg \<and> m_term msg \<noteq> 0))"

definition own_step :: "raft \<Rightarrow> raft \<Rightarrow> bool" where
  "own_step r r' \<longleftrightarrow>
     ballot r' = ballot r \<or> steps_down r r' \<or> pre_campaigns r r' \<or> campaigns r r' \<or> leads_alone r r'"

definition ballot_step :: "message \<Rightarrow> raft \<Rightarrow> raft \<Rightarrow> bool" where
  "ballot_step msg r r' \<longleftrightarrow>
     own_step r r' \<or> counts msg r r' \<or> elected msg r r' \<or> (\<exists>grant. answers msg grant r r')"

lemma own_stepI:
  "ballot r' = ballot r \<Longrightarrow> own_step r r'" "steps_down r r' \<Longrightarrow> own_step r r'" "pre_campaigns r r' \<Longrightarrow> own_step r r'"
  "campaigns r r' \<Longrightarrow> own_step r r'" "leads_alone r r' \<Longrightarrow> own_step r r'"
  by (simp_all add: own_step_def)

lemma raft_poll_ballot:
  "raft_poll i t v r = Inr (n, r') \<Longrightarrow> r_vote r' = r_vote r \<and> ballot_msgs r' = ballot_msgs r"
  by (auto simp: raft_poll_def Let_def ballot_msgs_def elim!: bindr_Inr_E)

definition requests :: "message_type \<Rightarrow> u64 \<Rightarrow> raft \<Rightarrow> raft \<Rightarrow> bool" where
  "requests t n r r' \<longleftrightarrow>
     r_id r' = r_id r \<and> r_state r' = r_state r \<and> r_term r' = r_term r \<and> r_vote r' = r_vote r \<and> r_votes r' = r_votes r \<and>
     (\<exists>ms. ballot_msgs r' = ballot_msgs r @ ms \<and> (\<forall>m \<in> set ms. m_type m = t \<and> ballot_type t \<and> m_from m = r_id r \<and> m_term m = n))"

interpretation rqv: run_relation "\<lambda>_. True" "requests t n" for t n
proof
  fix r q s
  show "requests t n r r" by (simp add: requests_def)
  assume r: "requests t n r q" "requests t n q s"
  obtain ms ns where "ballot_msgs q = ballot_msgs r @ ms" "ballot_msgs s = ballot_msgs q @ ns"
    "\<forall>m \<in> set ms \<union> set ns. m_type m = t \<and> ballot_type t \<and> m_from m = r_id r \<and> m_term m = n"
    using r unfolding requests_def by fastforce
  then have "\<exists>ks. ballot_msgs s = ballot_msgs r @ ks \<and> (\<forall>m \<in> set ks. m_type m = t \<and> ballot_type t \<and> m_from m = r_id r \<and> m_term m = n)"
    by (intro exI [of _ "ms @ ns"]) simp
  then show "requests t n r s" using r unfolding requests_def by simp
qed simp

lemma raft_request_vote_ballot:
  assumes "raft_request_vote t n i r = Inr r'"
  shows "requests t n r r'"
proof (cases "i = r_id r")
  case True
  then show ?thesis using assms rqv.rel_refl by (simp add: raft_request_vote_def)
next
  case False
  then obtain li lt where "raft_send (new_message\<lparr>m_term := n, m_to := i, m_type := t, m_index := li, m_log_term := lt\<rparr>) r = Inr r'"
    using assms unfolding raft_request_vote_def by (auto elim!: bindr_Inr_E)
  then have "r' = r\<lparr>r_msgs := r_msgs r @ [stamped (new_message\<lparr>m_term := n, m_to := i, m_type := t, m_index := li, m_log_term := lt\<rparr>) r]\<rparr>"
    by (simp add: raft_send_spec split: if_split_asm)
  then show ?thesis
    by (cases "ballot_type t") (auto simp: requests_def ballot_msgs_def stamped_def vote_type_def ballot_type_def)
qed

lemma raft_request_votes_ballot: "for_each (raft_request_vote t n) xs r = Inr r' \<Longrightarrow> requests t n r r'"
  by (rule rqv.loop [OF TrueI]) (auto intro: raft_request_vote_ballot)

lemma raft_campaign_election_ballot:
  assumes "raft_campaign_election r = Inr r'"
  shows "campaigns r r' \<or> leads_alone r r'"
proof -
  obtain r1 n r2 where r1: "raft_become_candidate r = Inr r1"
    and r2: "raft_poll (r_id r1) MsgVoteResp True r1 = Inr (n, r2)"
    and r': "(if raft_quorum r2 = n then raft_become_leader r2
      else for_each (raft_request_vote MsgVote (r_term r2)) (map fst (r_prs r2)) r2) = Inr r'"
    using assms unfolding raft_campaign_election_def by (auto elim!: bindr_Inr_E bindr_pair_E)
  note b1 = raft_become_candidate_ballot [OF r1] and p = raft_poll_recorded [OF r2] and b2 = raft_poll_ballot [OF r2]
  have v: "r_votes r2 = [(r_id r, True)]" "n = 1" using p b1(1,5) by (simp_all add: recorded_def cast32_def u32_max_def)
  have m: "ballot_msgs r2 = ballot_msgs r" using b2 b1(6) by (simp add: ballot_msgs_def)
  show ?thesis
  proof (cases "raft_quorum r2 = n")
    case True
    note l = raft_become_leader_ballot [OF r' [unfolded if_P [OF True]]]
    have "leads_alone r r'"
      using l True v(2) b1 p b2 m raft_quorum_keys [OF l(6)] by (simp add: leads_alone_def)
    then show ?thesis ..
  next
    case False
    note l = raft_request_votes_ballot [OF r' [unfolded if_not_P [OF False]]]
    have "campaigns r r'" using l v b1 p b2 m by (auto simp: campaigns_def requests_def)
    then show ?thesis ..
  qed
qed

text \<open>The same, seen from a node that has only counted answers since.\<close>

lemma campaign_from:
  assumes "campaigns q r' \<or> leads_alone q r'" "r_id q = r_id r" "r_term q = r_term r" "ballot_msgs q = ballot_msgs r"
  shows "campaigns r r' \<or> leads_alone r r'"
  using assms by (simp add: campaigns_def leads_alone_def)

lemma raft_campaign_ballot:
  assumes "raft_campaign ct r = Inr r'"
  shows "own_step r r'"
proof (cases "ct = kCampaignPreElection")
  case True
  then obtain r1 n r2 where r1: "raft_become_pre_candidate r = Inr r1"
    and r2: "raft_poll (r_id r1) MsgPreVoteResp True r1 = Inr (n, r2)"
    and r': "(if raft_quorum r2 = n then raft_campaign_election r2
      else for_each (raft_request_vote MsgPreVote (add64 (r_term r2) 1)) (map fst (r_prs r2)) r2) = Inr r'"
    using assms unfolding raft_campaign_def by (auto elim!: bindr_Inr_E bindr_pair_E)
  note p = raft_poll_recorded [OF r2] and b2 = raft_poll_ballot [OF r2]
  have b1: "r_id r1 = r_id r" "r_state r1 = PreCandidate" "r_term r1 = r_term r" "r_vote r1 = r_vote r" "ballot_msgs r1 = ballot_msgs r"
    using r1 by (auto simp: raft_become_pre_candidate_def ballot_msgs_def split: if_split_asm)
  show ?thesis
  proof (cases "raft_quorum r2 = n")
    case True
    with r' have "raft_campaign_election r2 = Inr r'" by simp
    from campaign_from [OF raft_campaign_election_ballot [OF this], of r] b1 b2 p show ?thesis by (auto simp: own_step_def)
  next
    case False
    with r' have f: "for_each (raft_request_vote MsgPreVote (add64 (r_term r2) 1)) (map fst (r_prs r2)) r2 = Inr r'" by simp
    have "pre_campaigns r r'" using raft_request_votes_ballot [OF f] b1 b2 p by (auto simp: pre_campaigns_def requests_def ballot_type_def)
    then show ?thesis by (rule own_stepI)
  qed
next
  case False
  then show ?thesis using assms raft_campaign_election_ballot by (auto simp: raft_campaign_def own_step_def)
qed

lemma raft_candidate_vote_resp_ballot:
  assumes ty: "m_type msg \<in> {MsgVoteResp, MsgPreVoteResp}" and st: "r_state r \<in> {Candidate, PreCandidate}"
    and res: "raft_candidate_vote_resp msg r = Inr r'"
  shows "ballot_step msg r r'"
proof -
  from res obtain n r1 where r1: "raft_poll (m_from msg) (m_type msg) (\<not> m_reject msg) r = Inr (n, r1)"
    and c: "(if raft_quorum r1 = n then
       (if r_state r1 = PreCandidate then raft_campaign kCampaignElection r1
        else bindr (assertr ''state_ == RaftState::Candidate'' (r_state r1 = Candidate)) (\<lambda>_.
          bindr (raft_become_leader r1) raft_bcast_append))
     else if raft_quorum r1 = sub64 (length (r_votes r1)) n then raft_become_follower (r_term r1) 0 r1
     else Inr r1) = Inr r'"
    unfolding raft_candidate_vote_resp_def by (auto elim!: bindr_Inr_E bindr_pair_E)
  note p = raft_poll_recorded [OF r1] and b1 = raft_poll_ballot [OF r1]
  have q: "raft_quorum r1 = raft_quorum r" using p(4) by (intro raft_quorum_keys) simp
  show ?thesis
  proof (cases "raft_quorum r1 = n")
    case True
    show ?thesis
    proof (cases "r_state r1 = PreCandidate")
      case True
      with c \<open>raft_quorum r1 = n\<close> have "raft_campaign_election r1 = Inr r'" by (simp add: raft_campaign_def)
      from campaign_from [OF raft_campaign_election_ballot [OF this], of r] p b1
      show ?thesis by (auto simp: ballot_step_def own_step_def)
    next
      case False
      then obtain r2 where r2: "raft_become_leader r1 = Inr r2" "raft_bcast_append r2 = Inr r'"
        using c \<open>raft_quorum r1 = n\<close> by (auto elim!: bindr_Inr_E)
      note l = raft_become_leader_ballot [OF r2(1)] and b = ballotD [OF raft_bcast_append_ballot [OF r2(2)]]
      have "elected msg r r'" using ty st False True p q b1 l b by (simp add: elected_def wins_def)
      then show ?thesis by (simp add: ballot_step_def)
    qed
  next
    case False
    show ?thesis
    proof (cases "raft_quorum r1 = sub64 (length (r_votes r1)) n")
      case True
      with c False have "raft_become_follower (r_term r1) 0 r1 = Inr r'" by simp
      from raft_become_follower_ballot [OF this] p b1 have "steps_down r r'" by (simp add: steps_down_def)
      then show ?thesis by (simp add: ballot_step_def own_step_def)
    next
      case n: False
      with c False have "r' = r1" by simp
      then have "counts msg r r' \<or> pre_campaigns r r'" using ty st p b1 by (auto simp: counts_def pre_campaigns_def)
      then show ?thesis by (auto simp: ballot_step_def own_step_def)
    qed
  qed
qed

lemma steps_down_then: "steps_down r q \<Longrightarrow> ballot r' = ballot q \<Longrightarrow> steps_down r r'"
  by (simp add: steps_down_def ballot_def)

lemma raft_step_candidate_ballot:
  assumes "r_state r \<in> {Candidate, PreCandidate}" "raft_step_candidate msg r = Inr (s, r')"
  shows "ballot_step msg r r'"
proof -
  have down: "own_step r r'" if "bindr (raft_become_follower t l r) h = Inr r'" "\<And>q q'. h q = Inr q' \<Longrightarrow> ballot q' = ballot q" for t l h
    using that by (elim bindr_Inr_E) (blast intro: own_stepI(2) steps_down_then dest: raft_become_follower_ballot)
  show ?thesis
  proof (cases "m_type msg = MsgPreVoteResp \<or> m_type msg = MsgVoteResp")
    case True
    then have "raft_candidate_vote_resp msg r = Inr r'"
      using assms(2) by (auto simp: raft_step_candidate_def with_ok_eq)
    with True show ?thesis by (intro raft_candidate_vote_resp_ballot assms) auto
  next
    case False
    have "own_step r r'"
      using assms(2) False down [OF _ raft_handle_append_entries_ballot] down [OF _ raft_handle_heartbeat_ballot]
        down [OF _ raft_handle_snapshot_ballot]
      unfolding raft_step_candidate_def by (auto simp: with_ok_eq intro: own_stepI(1) split: if_split_asm)
    then show ?thesis by (simp add: ballot_step_def)
  qed
qed

lemma raft_step_follower_ballot:
  assumes "raft_step_follower msg r = Inr (s, r')"
  shows "own_step r r'"
proof -
  have plain: "ballot r' = ballot r" if "raft_send (msg\<lparr>m_to := i\<rparr>) r = Inr r'" "m_type msg \<in> {MsgProp, MsgTransferLeader, MsgReadIndex}" for i
    using raft_send_ballot [OF that(1)] that(2) by (auto simp: ballot_type_def)
  show ?thesis
    using assms unfolding raft_step_follower_def
    by (auto simp: with_ok_eq intro: own_stepI(1) raft_campaign_ballot plain dest!: ballot_dest split: if_split_asm list.split_asm)
qed

lemma raft_step_leader_ballot:
  assumes "raft_step_leader msg r = Inr (s, r')"
  shows "own_step r r'"
proof -
  have "ballot (raft_leader_snap_status msg p r) = ballot r" "ballot (raft_leader_unreachable msg p r) = ballot r" for p
    by (simp_all add: raft_leader_snap_status_def raft_leader_unreachable_def Let_def)
  moreover have "own_step r r'" if "raft_become_follower (r_term r) 0 r = Inr r'"
    using raft_become_follower_ballot [OF that] own_stepI(2) by blast
  ultimately show ?thesis
    using assms unfolding raft_step_leader_def
    by (auto simp: with_ok_eq intro: own_stepI(1) dest!: raft_bcast_heartbeat_ballot raft_leader_prop_ballot raft_leader_read_index_ballot
        raft_leader_app_resp_ballot raft_leader_heartbeat_resp_ballot raft_leader_transfer_ballot
        split: if_split_asm option.split_asm)
qed

text \<open>A request for a vote; one for a pre-vote leaves no trace.\<close>

lemma raft_step_vote_ballot:
  assumes ty: "m_type msg = MsgVote \<or> m_type msg = MsgPreVote" and res: "raft_step_vote msg r = Inr r'"
  shows "ballot r' = ballot r \<or> (\<exists>grant. answers msg grant r r')"
proof (cases "r_is_learner r")
  case True
  then show ?thesis using res unfolding raft_step_vote_def by (auto elim!: bindr_Inr_E)
next
  case False
  from ty obtain resp where resp: "vote_resp_msg_type (m_type msg) = Inr resp"
    "m_type msg = MsgVote \<longrightarrow> resp = MsgVoteResp" "m_type msg = MsgPreVote \<longrightarrow> resp = MsgPreVoteResp"
    by auto
  obtain grant where g: "grant \<longrightarrow> raft_can_vote msg r"
    and send: "(if grant then
          bindr (raft_send (new_message\<lparr>m_to := m_from msg, m_term := m_term msg, m_type := resp\<rparr>) r) (\<lambda>r.
          if m_type msg = MsgVote then Inr (r\<lparr>r_election_elapsed := 0, r_vote := m_from msg\<rparr>) else Inr r)
        else raft_send (new_message\<lparr>m_to := m_from msg, m_term := r_term r, m_type := resp, m_reject := True\<rparr>) r) = Inr r'"
    using res False resp(1) unfolding raft_step_vote_def by (auto elim!: bindr_Inr_E split: if_split_asm)
  show ?thesis
  proof (cases "m_type msg = MsgVote")
    case True
    have "answers msg grant r r'"
      using g send True resp(2)
      by (auto simp: answers_def raft_can_vote_def raft_send_spec stamped_def vote_type_def ballot_msgs_def ballot_type_def
          new_message_def split: if_split_asm)
    then show ?thesis by blast
  next
    case no: False
    with ty resp(3) have "\<not> ballot_type resp" by (simp add: ballot_type_def)
    then have "ballot r' = ballot r"
      using send no by (auto elim!: bindr_Inr_E dest!: raft_send_ballot split: if_split_asm)
    then show ?thesis ..
  qed
qed

lemma raft_step_hup_ballot: "raft_step_hup r = Inr r' \<Longrightarrow> own_step r r'"
  unfolding raft_step_hup_def
  by (auto elim!: bindr_pair_E intro: own_stepI(1) raft_campaign_ballot split: if_split_asm)

lemma raft_step_type_ballot:
  assumes wf: "raft_wf r" and res: "raft_step_type msg r = Inr (s, r')"
  shows "ballot_step msg r r'"
proof -
  have "r_step r = Some (step_of (r_state r))" using raft_wfD(4) [OF wf] by (simp add: mode_wf_def)
  then have "ballot_step msg r r'" if "raft_call_step msg r = Inr (s, r')"
    using that raft_step_candidate_ballot [of r msg s r'] raft_step_follower_ballot [of msg r s r'] raft_step_leader_ballot [of msg r s r']
    unfolding raft_call_step_def by (cases "r_state r") (auto simp: ballot_step_def)
  then show ?thesis
    using res raft_step_hup_ballot [of r r'] raft_step_vote_ballot [of msg r r'] unfolding raft_step_type_def
    by (auto simp: with_ok_eq ballot_step_def intro: own_stepI(1) split: if_split_asm)
qed

text \<open>
  A step: first the node may step down into the term of the message, then comes the message
  itself. A vote is granted in the term of the request.
\<close>

theorem raft_step_ballot:
  assumes wf: "raft_wf r" and ok: "step_ok msg r" and res: "raft_step msg r = Inr (s, r')"
  shows "\<exists>q. (q = r \<or> steps_down r q \<and> r_term r \<le> r_term q) \<and> r_term q \<le> r_term r' \<and> ballot_step msg q r' \<and> (m_type msg \<in> {MsgVote, MsgVoteResp} \<and> ballot r' \<noteq> ballot q \<longrightarrow> m_term msg \<in> {0, r_term q})"
proof -
  have up: "r_term r \<le> r_term r'" using raft_step_ext [OF wf ok res] by (simp add: raft_grows_def)
  have higher: ?thesis if h: "raft_step_higher msg r = Inr (s, r')" "r_term r < m_term msg"
  proof -
    consider "r' = r" | "m_type msg = MsgPreVote \<or> m_type msg = MsgPreVoteResp \<and> \<not> m_reject msg" "raft_step_type msg r = Inr (s, r')"
      | ld q where "raft_become_follower (m_term msg) ld r = Inr q" "raft_step_type msg q = Inr (s, r')"
      using h(1) unfolding raft_step_higher_def by (auto elim!: bindr_Inr_E split: if_split_asm)
    then show ?thesis
    proof cases
      case 1
      then show ?thesis by (auto simp: ballot_step_def own_step_def)
    next
      case 2
      then show ?thesis using raft_step_type_ballot [OF wf] up by auto
    next
      case (3 ld q)
      note e = raft_become_follower_ext [OF wf less_imp_le [OF h(2)] 3(1)]
      have q: "raft_wf q" "step_ok msg q" using raft_grows_wf [OF e(1)] ok e(2,3) by (simp_all add: step_ok_def msg_wf_def)
      have "r_term q \<le> r_term r'" using raft_step_type_ext [OF q _ 3(2)] e(2) by (simp add: raft_grows_def)
      with raft_step_type_ballot [OF q(1) 3(2)] raft_become_follower_ballot [OF 3(1)] h(2) show ?thesis by auto
    qed
  qed
  have lower: "ballot r' = ballot r" if "raft_step_lower msg r = Inr (s, r')"
    using that unfolding raft_step_lower_def
    by (auto simp: with_ok_eq ballot_type_def elim!: bindr_Inr_E dest!: raft_send_ballot split: if_split_asm)
  from res consider "raft_step_type msg r = Inr (s, r')" "m_term msg = 0 \<or> m_term msg = r_term r"
    | "raft_step_higher msg r = Inr (s, r')" "r_term r < m_term msg" | "raft_step_lower msg r = Inr (s, r')"
    unfolding raft_step_def by (auto split: if_split_asm)
  then show ?thesis
  proof cases
    case 1
    then show ?thesis using raft_step_type_ballot [OF wf] up by auto
  next
    case 2
    then show ?thesis by (rule higher)
  next
    case 3
    from lower [OF this] up show ?thesis by (intro exI [of _ r]) (simp add: ballot_step_def own_step_def)
  qed
qed

section \<open>Calls of the application\<close>

text \<open>Messages that the node gives to itself.\<close>

lemma raft_step_own:
  assumes wf: "raft_wf r" and res: "raft_step msg r = Inr (s, r')" and m: "m_term msg = 0"
    "m_type msg \<notin> {MsgVote, MsgVoteResp, MsgPreVote, MsgPreVoteResp}"
  shows "own_step r r'"
  using raft_step_type_ballot [OF wf, of msg s r'] res m
  by (auto simp: raft_step_def ballot_step_def counts_def elected_def answers_def)

lemma own_step_cong:
  assumes "own_step q r'" "ballot q = ballot r"
  shows "own_step r r'"
  using assms(1) by (simp add: own_step_def steps_down_def pre_campaigns_def campaigns_def leads_alone_def ballotD [OF assms(2)] assms(2)
      cong: if_cong split del: if_split)

lemma raft_wf_elapsed: "raft_wf r \<Longrightarrow> raft_wf (r\<lparr>r_election_elapsed := a\<rparr>)" "raft_wf r \<Longrightarrow> raft_wf (r\<lparr>r_heartbeat_elapsed := a\<rparr>)"
  by (simp_all add: raft_wf_def)

lemma raft_tick_election_ballot:
  assumes wf: "raft_wf r" and res: "raft_tick_election r = Inr r'"
  shows "own_step r r'"
proof -
  let ?r = "r\<lparr>r_election_elapsed := 0\<rparr>"
  consider "r' = r\<lparr>r_election_elapsed := add32 (r_election_elapsed r) 1\<rparr>"
    | s where "raft_step (new_message\<lparr>m_from := r_id r, m_type := MsgHup\<rparr>) ?r = Inr (s, r')"
    using res unfolding raft_tick_election_def Let_def by (auto elim!: bindr_pair_E split: if_split_asm)
  then show ?thesis
  proof cases
    case (2 s)
    have "own_step ?r r'" by (rule raft_step_own [OF raft_wf_elapsed(1) [OF wf] 2]) (simp_all add: new_message_def)
    then show ?thesis by (rule own_step_cong) simp
  qed (auto intro: own_stepI(1))
qed

text \<open>A leader that checks its quorum may step down; its heartbeats change nothing.\<close>

definition resigns :: "raft \<Rightarrow> raft \<Rightarrow> bool" where
  "resigns r r' \<longleftrightarrow> ballot r' = ballot r \<or> steps_down r r' \<and> r_term r' = r_term r"

interpretation rsg: run_relation "\<lambda>_. True" resigns
  by unfold_locales (auto simp: resigns_def steps_down_def ballot_def)

lemma raft_leader_local_ballot:
  assumes ty: "ty \<in> {MsgBeat, MsgCheckQuorum}" and res: "raft_step (new_message\<lparr>m_from := i, m_type := ty\<rparr>) r = Inr (s, r')"
  shows "resigns r r'"
proof -
  have "raft_bcast_heartbeat r = Inr r' \<or> raft_become_follower (r_term r) 0 r = Inr r' \<or> r = r'"
    using res ty
    by (auto simp: raft_step_def raft_step_type_def raft_call_step_def raft_step_leader_def raft_step_candidate_def
        raft_step_follower_def new_message_def with_ok_eq split: option.split_asm step_fn.split_asm if_split_asm)
  then show ?thesis by (auto simp: resigns_def dest: raft_bcast_heartbeat_ballot raft_become_follower_ballot)
qed

lemma resigns_frame [simp]:
  "resigns (r\<lparr>r_election_elapsed := a\<rparr>) q \<longleftrightarrow> resigns r q" "resigns (r\<lparr>r_heartbeat_elapsed := a\<rparr>) q \<longleftrightarrow> resigns r q"
  "resigns r (q\<lparr>r_election_elapsed := a\<rparr>) \<longleftrightarrow> resigns r q" "resigns r (raft_abort_leader_transfer q) \<longleftrightarrow> resigns r q"
  by (simp_all add: resigns_def steps_down_def ballot_msgs_def raft_abort_leader_transfer_def)

lemma raft_tick_heartbeat_ballot:
  assumes res: "raft_tick_heartbeat r = Inr r'"
  shows "resigns r r'"
proof -
  let ?r = "r\<lparr>r_heartbeat_elapsed := add32 (r_heartbeat_elapsed r) 1, r_election_elapsed := add32 (r_election_elapsed r) 1\<rparr>"
  from res obtain q where q: "raft_tick_timeout ?r = Inr q" "raft_tick_beat q = Inr r'"
    unfolding raft_tick_heartbeat_def Let_def by (elim bindr_Inr_E) (rule that)
  have "resigns p q" if "raft_tick_timeout p = Inr q" for p
    using that rsg.rel_refl unfolding raft_tick_timeout_def Let_def
    by (auto elim!: bindr_Inr_E bindr_pair_E dest!: raft_leader_local_ballot [rotated] split: if_split_asm)
  from this [OF q(1)] have "resigns r q" by simp
  moreover have "resigns q r'"
    using q(2) rsg.rel_refl unfolding raft_tick_beat_def Let_def
    by (auto elim!: bindr_pair_E dest!: raft_leader_local_ballot [rotated] split: if_split_asm)
  ultimately show ?thesis by (rule rsg.rel_trans)
qed

lemma raft_tick_ballot:
  assumes "raft_wf r" "raft_tick r = Inr r'"
  shows "own_step r r'"
  using assms raft_tick_election_ballot [OF assms(1)] raft_tick_heartbeat_ballot [of r r'] unfolding raft_tick_def
  by (auto simp: resigns_def intro: own_stepI split: option.split_asm tick_fn.split_asm)

text \<open>Configuration changes.\<close>

lemma raft_set_progress_ballot: "raft_set_progress i m nx b r = Inr r' \<Longrightarrow> ballot r' = ballot r"
  by (auto simp: raft_set_progress_def Let_def split: if_split_asm)

lemma raft_mark_active_ballot: "raft_mark_active i b r = Inr r' \<Longrightarrow> ballot r' = ballot r"
  by (auto simp: raft_mark_active_def Let_def elim!: bindr_Inr_E split: if_split_asm)

lemma raft_add_node_or_learner_ballot: "raft_add_node_or_learner i b r = Inr r' \<Longrightarrow> ballot r' = ballot r"
  unfolding raft_add_node_or_learner_def
  by (auto elim!: bindr_Inr_E dest!: raft_set_progress_ballot raft_mark_active_ballot split: if_split_asm option.split_asm)

lemma raft_remove_node_ballot: "raft_remove_node i r = Inr r' \<Longrightarrow> ballot r' = ballot r"
  unfolding raft_remove_node_def raft_del_progress_def Let_def
  by (auto elim!: bindr_Inr_E bindr_pair_E dest!: ballot_dest split: if_split_asm)

lemma node_apply_conf_change_ballot:
  "node_apply_conf_change cc n = Inr (cs, n') \<Longrightarrow> ballot (rn_raft n') = ballot (rn_raft n)"
  unfolding node_apply_conf_change_def
  by (auto elim!: bindr_Inr_E dest!: raft_add_node_or_learner_ballot raft_remove_node_ballot split: if_split_asm conf_change_type.split_asm)

text \<open>All calls that take nothing from the network.\<close>

theorem node_local_ballot:
  assumes "node_local n n'" "node_wf n"
  shows "own_step (rn_raft n) (rn_raft n')"
proof -
  have step: "own_step (rn_raft n) (rn_raft n')"
    if "node_wf n" "node_raft_step m n = Inr (s, n')" "m_term m = 0" "m_type m \<notin> {MsgVote, MsgVoteResp, MsgPreVote, MsgPreVoteResp}" for n m s n'
    using that raft_step_own [of "rn_raft n" m] by (auto simp: node_raft_step_def node_wf_def elim!: bindr_pair_E)
  show ?thesis
    using assms
  proof (induction rule: node_local.induct)
    case (Tick n n')
    then show ?case using raft_tick_ballot [of "rn_raft n"] by (auto simp: node_tick_def node_wf_def elim!: bindr_Inr_E)
  next
    case (Apply_conf cc n cs n')
    then show ?case using node_apply_conf_change_ballot [of cc n cs n'] by (simp add: own_step_def)
  qed (auto simp: node_campaign_def node_propose_def node_propose_conf_change_def node_transfer_leadership_def
      node_read_index_def node_report_unreachable_def node_report_snapshot_def new_message_def
      elim!: bindr_pair_E intro: step)
qed

end
