(* ===== verification/Raft_Properties.thy ===== *)
theory Raft_Properties
  imports Demo Election
begin

text \<open>
  Properties of a single raft node (\<open>raft.cpp\<close>): safety of one step, the answers to append
  and vote requests, elections, commits, proposals, timers and construction.
\<close>

section \<open>Safety of a step\<close>


lemma demo_step_app:
  "\<exists>r'. raft_step demo_app (demo_raft Follower) = Inr (StatusOK, r') \<and> r_state r' = Follower"
proof -
  let ?r = "(demo_raft Follower)\<lparr>r_election_elapsed := 0, r_lead := 2\<rparr>"
  have t: "m_log_term demo_app = alog_term_at (raft_log_abs (r_log ?r)) (m_index demo_app)"
    by (simp add: alog_term_at_def alog_entry_def)
  obtain l where l: "raft_handle_append_entries demo_app ?r =
      Inr (sends (app_resp demo_app (m_index demo_app + length (m_entries demo_app))) (?r\<lparr>r_log := l\<rparr>))"
    using append_match [of ?r demo_app, OF _ _ _ _ t] by auto
  have "raft_step demo_app (demo_raft Follower) = raft_step_follower demo_app (demo_raft Follower)"
    by (simp add: raft_step_def raft_step_type_def raft_call_step_def demo_raft_def)
  also have "\<dots> = Inr (StatusOK, sends (app_resp demo_app (m_index demo_app + length (m_entries demo_app))) (?r\<lparr>r_log := l\<rparr>))"
    using l by (simp add: raft_step_follower_def with_ok_def)
  finally show ?thesis by simp
qed


text \<open>Terms in \<open>Raft::step\<close>: a message from an earlier term changes nothing but, possibly, adds one
  answer to the outbox; a message from a later term (votes that a leader's lease shields and
  the two pre-vote kinds aside) takes the node at least to that term.\<close>

theorem raft_step_terms:
  assumes wf: "raft_wf r" and ok: "step_ok msg r" and res: "raft_step msg r = Inr (s, r')"
  shows "(0 < m_term msg \<and> m_term msg < r_term r \<longrightarrow>
      (\<exists>ms. r' = r\<lparr>r_msgs := r_msgs r @ ms\<rparr> \<and> length ms \<le> 1)) \<and>
    (r_term r < m_term msg \<and> m_type msg \<notin> {MsgPreVote, MsgPreVoteResp} \<and>
      (m_type msg = MsgVote \<longrightarrow> \<not> raft_in_lease r) \<longrightarrow> m_term msg \<le> r_term r')"
proof (intro conjI impI)
  assume lo: "0 < m_term msg \<and> m_term msg < r_term r"
  then have "raft_step_lower msg r = Inr (s, r')" using res by (simp add: raft_step_def)
  then have "r' = r \<or> (\<exists>m. r' = sends m r)"
    unfolding raft_step_lower_def
    by (auto simp: with_ok_eq raft_send_spec sends_def elim!: bindr_Inr_E split: if_split_asm)
  then show "\<exists>ms. r' = r\<lparr>r_msgs := r_msgs r @ ms\<rparr> \<and> length ms \<le> 1"
  proof
    assume "r' = r"
    then show ?thesis by (intro exI [of _ "[]"]) simp
  next
    assume "\<exists>m. r' = sends m r"
    then obtain m where "r' = sends m r" by blast
    then show ?thesis by (intro exI [of _ "[stamped m r]"]) (simp add: sends_def)
  qed
next
  assume hi: "r_term r < m_term msg \<and> m_type msg \<notin> {MsgPreVote, MsgPreVoteResp} \<and>
    (m_type msg = MsgVote \<longrightarrow> \<not> raft_in_lease r)"
  then have "raft_step_higher msg r = Inr (s, r')" using res by (simp add: raft_step_def)
  with hi obtain ld r1 where r1: "raft_become_follower (m_term msg) ld r = Inr r1" "raft_step_type msg r1 = Inr (s, r')"
    unfolding raft_step_higher_def by (auto elim!: bindr_Inr_E split: if_split_asm)
  note e1 = raft_become_follower_ext [OF wf less_imp_le [OF conjunct1 [OF hi]] r1(1)]
  have "step_ok msg r1" using ok e1(2,3) by (simp add: step_ok_def msg_wf_def)
  from raft_step_type_ext [OF raft_grows_wf [OF e1(1)] this _ r1(2)] e1(2)
  show "m_term msg \<le> r_term r'" by (simp add: raft_grows_def)
qed

theorem raft_step_terms_witness:
  "\<exists>s r'. raft_step ((demo_msg MsgHeartbeatResp)\<lparr>m_term := 7\<rparr>) (demo_raft Follower) = Inr (s, r') \<and> 7 \<le> r_term r'"
proof -
  let ?m = "(demo_msg MsgHeartbeatResp)\<lparr>m_term := 7\<rparr>"
  have ok: "step_ok ?m (demo_raft Follower)" by (simp add: step_ok_def msg_wf_def u64_max_def new_snapshot_def)
  obtain r1 where r1: "raft_become_follower 7 0 (demo_raft Follower) = Inr r1" "raft_wf r1" "r_state r1 = Follower"
    using raft_become_follower_wf [OF raft_wfD(7) [OF demo_raft_wf]] by blast
  have "r_step r1 = Some StepFollower" using raft_wfD(4) [OF r1(2)] r1(3) by (simp add: mode_wf_def)
  then have "raft_step ?m (demo_raft Follower) = Inr (StatusOK, r1)"
    using r1(1) by (simp add: raft_step_def raft_step_higher_def raft_step_type_def raft_call_step_def raft_step_follower_def)
  with raft_step_terms [OF demo_raft_wf ok this] show ?thesis by simp
qed

section \<open>Append requests\<close>

text \<open>C5. \<open>Raft::handle_append_entries\<close> answers every well-formed append request, in exactly one of
  three ways. A request about entries below the commit index is answered with the commit
  index and changes nothing. A request whose previous entry the log does not have is rejected
  with the last index as a hint and changes nothing. Any other request is stored: the log
  keeps everything up to the first difference and takes the request's entries from there, the
  commit index advances as far as the request allows, and the answer carries the index of the
  last new entry.\<close>

theorem append_request_answer:
  assumes wf: "raft_wf r" and m: "msg_wf msg" "m_type msg = MsgApp"
  shows "if m_index msg < rl_committed (r_log r) then
      raft_handle_append_entries msg r = Inr (sends (app_resp msg (rl_committed (r_log r))) r)
    else if m_log_term msg \<noteq> alog_term_at (raft_log_abs (r_log r)) (m_index msg) then
      raft_handle_append_entries msg r =
        Inr (sends ((app_resp msg (m_index msg))\<lparr>m_reject := True, m_reject_hint := log_last (r_log r)\<rparr>) r)
    else \<exists>l. raft_handle_append_entries msg r =
        Inr (sends (app_resp msg (m_index msg + length (m_entries msg))) (r\<lparr>r_log := l\<rparr>)) \<and>
      raft_log_wf l \<and> raft_log_abs l = appended (m_index msg) (m_entries msg) (raft_log_abs (r_log r)) \<and>
      rl_committed l = max (rl_committed (r_log r)) (min (m_commit msg) (m_index msg + length (m_entries msg))) \<and>
      log_keeps (r_log r) l"
  using append_stale [of msg r] append_mismatch [OF raft_wfD(1) [OF wf], of msg]
    append_match [OF raft_wfD(1) [OF wf] m] by (simp add: not_less)

theorem append_request_answer_witness:
  "\<exists>l. raft_handle_append_entries demo_app (demo_raft Follower) =
      Inr (sends (app_resp demo_app 3) ((demo_raft Follower)\<lparr>r_log := l\<rparr>)) \<and> rl_committed l = 2"
proof -
  have "alog_term_at (raft_log_abs demo_log) 2 = 1" by (simp add: alog_term_at_def alog_entry_def)
  then show ?thesis using append_request_answer [of "demo_raft Follower" demo_app] by auto
qed

section \<open>Votes and elections\<close>

text \<open>C13. Votes. A voter that is not a learner answers every vote or pre-vote request. It grants the
  request iff it may still vote for the sender (it already did, or it has neither voted nor
  seen a leader in this term, or the request is a pre-vote for a later term) and the sender's
  log is at least as up to date as its own; granting a real vote records it. Otherwise the
  answer is a rejection that carries the voter's own term, and nothing else changes.\<close>

theorem vote_request_answer:
  assumes "raft_wf r" "m_type msg \<in> {MsgVote, MsgPreVote}" "0 < m_term msg" "0 < r_term r" "\<not> r_is_learner r"
  shows "raft_step_vote msg r =
    Inr (if (r_vote r = m_from msg \<or> r_vote r = 0 \<and> r_lead r = 0 \<or> m_type msg = MsgPreVote \<and> r_term r < m_term msg) \<and>
             up_to_date msg (r_log r) then
           let r1 = sends ((vote_resp msg)\<lparr>m_term := m_term msg\<rparr>) r in
           if m_type msg = MsgVote then r1\<lparr>r_election_elapsed := 0, r_vote := m_from msg\<rparr> else r1
         else sends ((vote_resp msg)\<lparr>m_term := r_term r, m_reject := True\<rparr>) r)"
  using raft_step_vote_spec [OF raft_wfD(1) [OF assms(1)] assms(2-5)] by (simp only: raft_can_vote_def)

theorem vote_request_answer_witness:
  "\<exists>r'. raft_step_vote ((demo_msg MsgVote)\<lparr>m_index := 2, m_log_term := 1\<rparr>) (demo_raft Follower) = Inr r' \<and> r_vote r' = 2"
proof -
  let ?m = "(demo_msg MsgVote)\<lparr>m_index := 2, m_log_term := 1\<rparr>"
  have "up_to_date ?m demo_log" by (simp add: up_to_date_def alog_term_at_def alog_entry_def)
  then show ?thesis using vote_request_answer [of "demo_raft Follower" ?m] by (simp add: Let_def)
qed

text \<open>C11. Becoming leader. In one step a node becomes leader only if its own vote is a majority by
  itself (a single voter), or if it is a candidate and the vote in this very message brings
  the recorded grants to a majority of the voters. No other message, in any state, makes a
  node leader.\<close>

theorem leader_needs_majority:
  assumes "raft_wf r" "r_term r < u64_max" "m_term msg < u64_max" "r_state r \<noteq> Leader"
    and "raft_step msg r = Inr (s, r')" "r_state r' = Leader"
  shows "raft_quorum r = 1 \<or>
    (r_state r = Candidate \<and> m_type msg \<in> {MsgVoteResp, MsgPreVoteResp} \<and>
     raft_quorum r = cast32 (length (filter snd (recorded (m_from msg) (\<not> m_reject msg) r))))"
  using raft_step_leader_quorum [OF assms] by (auto simp: wins_def)

text \<open>A candidate with one vote that receives a second one out of three.\<close>

lemma demo_elected:
  assumes ty: "t \<in> {MsgVoteResp, MsgPreVoteResp}"
  shows "\<exists>r'. raft_step (demo_msg t) (demo_raft Candidate) = Inr (StatusOK, r') \<and> r_state r' = Leader"
proof -
  have w: "wins (demo_msg t) (demo_raft Candidate)"
    by (simp add: wins_def recorded_def cast32_def u32_max_def)
  have "\<exists>r'. raft_candidate_vote_resp (demo_msg t) (demo_raft Candidate) = Inr r' \<and> r_state r' = Leader"
    using raft_candidate_wins [OF demo_raft_wf _ _ _ _ _ _ w, of "demo_progress 2"] ty
    by (auto simp: u32_max_def u64_max_def)
  with raft_step_candidate_same [OF demo_raft_wf _ _, of Candidate "demo_msg t"] ty show ?thesis
    by (auto simp: with_ok_def)
qed

theorem leader_needs_majority_witness:
  "\<exists>r'. raft_step (demo_msg MsgVoteResp) (demo_raft Candidate) = Inr (StatusOK, r') \<and>
     raft_quorum (demo_raft Candidate) = cast32 (length (filter snd (recorded 2 True (demo_raft Candidate))))"
proof -
  obtain r' where r': "raft_step (demo_msg MsgVoteResp) (demo_raft Candidate) = Inr (StatusOK, r')" "r_state r' = Leader"
    using demo_elected by blast
  have "raft_quorum (demo_raft Candidate) \<noteq> 1" by simp
  with leader_needs_majority [OF demo_raft_wf _ _ _ r'] r'(1) show ?thesis by (auto simp: u64_max_def)
qed

text \<open>C12. Winning. A candidate that is one of the voters and receives the vote that completes a
  majority always becomes leader, in the same term, without a failure on the way: its log
  gains one empty entry of its term, everything else in the log is kept, and the entry is
  sent to the other nodes.\<close>

theorem majority_makes_leader:
  assumes wf: "raft_wf r" and s: "r_state r = Candidate" and t: "0 < r_term r" "m_term msg = r_term r"
    and own: "map_of (r_prs r) (r_id r) \<noteq> None" and n: "length (r_prs r) \<le> u32_max"
    and room: "log_last (r_log r) + 1 < u64_max" and ty: "m_type msg = MsgVoteResp"
    and w: "raft_quorum r = cast32 (length (filter snd (recorded (m_from msg) (\<not> m_reject msg) r)))"
  shows "\<exists>r'. raft_step msg r = Inr (StatusOK, r') \<and> raft_wf r' \<and> r_state r' = Leader \<and> r_term r' = r_term r \<and>
    raft_log_abs (r_log r') = alog_splice (raft_log_abs (r_log r)) (Suc (log_last (r_log r)))
      [\<lparr>e_type = EntryNormal, e_term = r_term r, e_index = Suc (log_last (r_log r)), e_data = []\<rparr>]"
proof -
  obtain p where "map_of (r_prs r) (r_id r) = Some p" using own by blast
  from raft_candidate_wins [OF wf s t(1) this n room, of msg] ty w show ?thesis
    using raft_step_candidate_same [OF wf s t(2)] by (auto simp: wins_def with_ok_def)
qed

theorem majority_makes_leader_witness:
  "\<exists>r'. raft_step (demo_msg MsgVoteResp) (demo_raft Candidate) = Inr (StatusOK, r') \<and> r_state r' = Leader"
  using majority_makes_leader [of "demo_raft Candidate" "demo_msg MsgVoteResp"]
  by (auto simp: recorded_def cast32_def u32_max_def u64_max_def)

text \<open>C33. A granted answer to a pre-vote is not a vote, and the comment above \<open>step_candidate\<close> says that
  only responses to the node's own candidacy are handled. The code does not make the
  distinction: a candidate counts a stale pre-vote answer of its own term exactly as a vote,
  so it can become leader with grants that no voter has recorded as a vote.\<close>

theorem stale_pre_vote_counts_as_vote:
  assumes "raft_wf r" "r_state r = Candidate" "m_term msg = r_term r" "m_type msg = MsgPreVoteResp"
  shows "raft_step msg r = raft_step (msg\<lparr>m_type := MsgVoteResp\<rparr>) r"
proof -
  have "raft_candidate_vote_resp msg r = raft_candidate_vote_resp (msg\<lparr>m_type := MsgVoteResp\<rparr>) r"
    using assms(4) by (intro raft_candidate_vote_resp_cong) simp_all
  then show ?thesis using assms by (simp add: raft_step_candidate_same)
qed

theorem stale_pre_vote_counts_as_vote_witness:
  "\<exists>r'. raft_step (demo_msg MsgPreVoteResp) (demo_raft Candidate) = Inr (StatusOK, r') \<and> r_state r' = Leader"
proof -
  have "(demo_msg MsgPreVoteResp)\<lparr>m_type := MsgVoteResp\<rparr> = demo_msg MsgVoteResp" by (simp add: demo_msg_def)
  with stale_pre_vote_counts_as_vote [of "demo_raft Candidate" "demo_msg MsgPreVoteResp"] demo_elected [of MsgVoteResp]
  show ?thesis by simp
qed

section \<open>Commits and proposals\<close>

text \<open>C7. \<open>Raft::maybe_commit\<close> commits exactly when it may: the commit index moves to the largest
  index that a majority of the voters has acknowledged, provided it is ahead of the current
  one and the entry there carries the leader's own term; otherwise nothing changes. It never
  commits what only a minority has.\<close>

theorem commit_needs_majority:
  assumes wf: "raft_wf r" and t: "0 < r_term r" and ne: "r_prs r \<noteq> []" and n: "length (r_prs r) \<le> u32_max"
  shows "\<exists>b r'. raft_maybe_commit r = Inr (b, r') \<and>
    (b \<longleftrightarrow> rl_committed (r_log r) < quorum_index r \<and>
       alog_term_at (raft_log_abs (r_log r)) (quorum_index r) = r_term r) \<and>
    r_log r' = (if b then (r_log r)\<lparr>rl_committed := quorum_index r\<rparr> else r_log r) \<and>
    raft_quorum r \<le> length (matched (quorum_index r) r) \<and>
    (\<forall>i > quorum_index r. length (matched i r) < raft_quorum r)"
proof -
  let ?b = "rl_committed (r_log r) < quorum_index r \<and> alog_term_at (raft_log_abs (r_log r)) (quorum_index r) = r_term r"
  have "raft_maybe_commit r = Inr (?b, r\<lparr>r_match_buf := sort (map (pr_match \<circ> snd) (r_prs r)),
      r_log := (if ?b then (r_log r)\<lparr>rl_committed := quorum_index r\<rparr> else r_log r)\<rparr>)"
    using raft_maybe_commit_spec [OF assms] by (simp add: Let_def)
  then show ?thesis using quorum_index_spec [OF ne n] by simp
qed

theorem commit_needs_majority_witness:
  "\<exists>r'. raft_maybe_commit (demo_raft Leader) = Inr (True, r') \<and> rl_committed (r_log r') = 2"
proof -
  have m: "map (pr_match \<circ> snd) (r_prs (demo_raft Leader)) = [2, 2, 0]"
    by (simp add: demo_progress_def new_progress_def)
  have q: "quorum_index (demo_raft Leader) = 2" unfolding quorum_index_def m by simp
  have "alog_term_at (raft_log_abs demo_log) 2 = 1" by (simp add: alog_term_at_def alog_entry_def)
  with q commit_needs_majority [of "demo_raft Leader"] show ?thesis by (auto simp: u32_max_def)
qed

text \<open>C24. \<open>Raft::append_entry\<close> on both branches: when uncommitted data is pending and the new entries
  would exceed the limit, nothing is appended; otherwise the log gains exactly the proposed
  entries, in order, with the leader's term and the next free indices, and their size is
  accounted for.\<close>

theorem leader_appends_proposal:
  assumes wf: "raft_wf r" and t: "0 < r_term r" and own: "map_of (r_prs r) (r_id r) = Some p"
    and n: "length (r_prs r) \<le> u32_max" and ne: "es \<noteq> []" and room: "log_last (r_log r) + length es < u64_max"
  defines "ents \<equiv> raft_stamp (r_term r) (log_last (r_log r)) 0 es"
  shows "contig (Suc (log_last (r_log r))) ents \<and> map e_data ents = map e_data es \<and> (\<forall>e \<in> set ents. e_term e = r_term r) \<and>
    (if 0 < r_uncommitted_size r \<and> r_max_uncommitted_size r < add64 (r_uncommitted_size r) (raft_payload ents)
     then raft_append_entry es r = Inr (False, r)
     else \<exists>r'. raft_append_entry es r = Inr (True, r') \<and> raft_wf r' \<and>
       raft_log_abs (r_log r') = alog_splice (raft_log_abs (r_log r)) (Suc (log_last (r_log r))) ents \<and>
       r_uncommitted_size r' = add64 (r_uncommitted_size r) (raft_payload ents))"
proof -
  have "map e_data (raft_stamp t li i es) = map e_data es" for t li i by (induction es arbitrary: i) simp_all
  then have "map e_data ents = map e_data es" by (simp add: ents_def)
  moreover have "contig (Suc (log_last (r_log r))) ents"
    using raft_stamp_contig [of "log_last (r_log r)" 0 es] room by (simp add: ents_def)
  moreover have "\<forall>e \<in> set ents. e_term e = r_term r" by (simp add: ents_def raft_stamp_term)
  ultimately show ?thesis
    using raft_append_entry_spec [OF wf t own n ne room, folded ents_def] unfolding over_limit_def by auto
qed

theorem leader_appends_proposal_witness:
  "\<exists>r'. raft_append_entry [new_entry\<lparr>e_data := [7]\<rparr>] (demo_raft Leader) = Inr (True, r') \<and>
     al_ents (raft_log_abs (r_log r')) =
       [demo_entry 1 1, demo_entry 1 2, \<lparr>e_type = EntryNormal, e_term = 1, e_index = 3, e_data = [7]\<rparr>]"
proof -
  have "raft_stamp 1 2 0 [new_entry\<lparr>e_data := [7]\<rparr>] = [\<lparr>e_type = EntryNormal, e_term = 1, e_index = 3, e_data = [7]\<rparr>]"
    by (simp add: new_entry_def u64_max_def)
  then show ?thesis
    using leader_appends_proposal [of "demo_raft Leader" "demo_progress 2" "[new_entry\<lparr>e_data := [7]\<rparr>]"]
    by (auto simp: u32_max_def u64_max_def alog_splice_def numeral_2_eq_2)
qed

text \<open>One configuration change at a time: of the entries a leader accepts, at most one is a
  configuration change, and none while an earlier one is still to be applied; every other
  proposed change is replaced by an empty normal entry and all other entries are unchanged.\<close>

theorem one_conf_change_pending:
  assumes "raft_log_wf (r_log r)" "rl_applied (r_log r) \<le> log_last (r_log r)"
    "log_last (r_log r) + length es < u64_max" "raft_filter_conf 0 es r = Inr (es', r')"
  shows "length (filter (\<lambda>e. e_type e = EntryConfChange) es') \<le>
      (if rl_applied (r_log r) < r_pending_conf_index r then 0 else 1) \<and>
    list_all2 (\<lambda>e e'. e' = e \<or> e_type e = EntryConfChange \<and>
      e' = e\<lparr>e_type := EntryNormal, e_index := 0, e_term := 0, e_data := []\<rparr>) es es'"
  using raft_filter_conf_spec [of r 0 es es' r'] assms unfolding conf_count_def by simp

theorem one_conf_change_pending_witness:
  "\<exists>es' r'. raft_filter_conf 0 [new_entry\<lparr>e_type := EntryConfChange\<rparr>, new_entry\<lparr>e_type := EntryConfChange\<rparr>]
       (demo_raft Leader) = Inr (es', r') \<and>
     length (filter (\<lambda>e. e_type e = EntryConfChange) es') \<le> 1"
proof -
  let ?es = "[new_entry\<lparr>e_type := EntryConfChange\<rparr>, new_entry\<lparr>e_type := EntryConfChange\<rparr>]"
  have p: "r_pending_conf_index (demo_raft Leader) = 0" by (simp add: demo_raft_def)
  then obtain es' r' where e: "raft_filter_conf 0 ?es (demo_raft Leader) = Inr (es', r')"
    by (simp add: u64_max_def)
  have pre: "raft_log_wf (r_log (demo_raft Leader))" "rl_applied (r_log (demo_raft Leader)) \<le> log_last (r_log (demo_raft Leader))"
    "log_last (r_log (demo_raft Leader)) + length ?es < u64_max" by (simp_all add: u64_max_def)
  have "length (filter (\<lambda>e. e_type e = EntryConfChange) es') \<le> 1"
    using conjunct1 [OF one_conf_change_pending [OF pre e]] unfolding p by simp
  with e show ?thesis by blast
qed

section \<open>Flow control\<close>

lemma raft_send_all_more:
  "raft_send_all n to r = Inr r' \<Longrightarrow> raft_send_all (n + k) to r = Inr r'"
proof (induction n arbitrary: r)
  case (Suc n)
  from Suc.prems obtain b r1 where r1: "raft_maybe_send_append to False r = Inr (b, r1)"
    "(if b then raft_send_all n to r1 else Inr r1) = Inr r'" by (auto elim!: bindr_pair_E)
  with Suc.IH [of r1] show ?case by (cases b) simp_all
qed simp

lemma raft_send_all_done:
  assumes "raft_wf r" "raft_get_progress to r = Some p" "raft_send_all n to r = Inr r'"
  shows "raft_maybe_send_append to False r' = Inr (False, r')"
  using assms
proof (induction n arbitrary: r p)
  case (Suc n)
  from raft_maybe_send_more [OF Suc.prems(1,2)] show ?case
  proof (elim disjE exE conjE)
    assume "raft_maybe_send_append to False r = Inr (False, r)"
    with Suc.prems(3) show ?thesis by simp
  next
    fix r1 q
    assume s: "raft_maybe_send_append to False r = Inr (True, r1)" "raft_get_progress to r1 = Some q"
    have "raft_wf r1" using raft_maybe_send_append_quiet [OF Suc.prems(1) s(1)] by (rule raft_quiet_wf)
    with Suc.IH [OF _ s(2)] s(1) Suc.prems(3) show ?thesis by simp
  qed
qed simp

text \<open>C25. The loop \<open>while (maybe_send_append(to, false))\<close> of the leader ends: after at most as many
  turns as there are slots in the window, and two more, it has sent all it may, and a further
  call would send nothing. More fuel than the model uses does not change the result.\<close>

theorem send_loop_terminates:
  assumes "raft_wf r" "raft_get_progress to r = Some p"
  shows "\<exists>r'. (\<forall>n \<ge> raft_send_fuel to r. raft_send_all n to r = Inr r') \<and>
    raft_maybe_send_append to False r' = Inr (False, r') \<and> raft_quiet r r'"
proof -
  obtain r' where r': "raft_send_all (raft_send_fuel to r) to r = Inr r'"
    using raft_send_all_total [OF assms send_fuel_enough [OF assms(2)]] by blast
  then have "raft_send_all n to r = Inr r'" if "raft_send_fuel to r \<le> n" for n
    using raft_send_all_more [OF r', of "n - raft_send_fuel to r"] that by simp
  with raft_send_all_done [OF assms r'] raft_send_all_quiet [OF assms(1) r'] show ?thesis by blast
qed

theorem send_loop_terminates_witness:
  "\<exists>r'. raft_send_all 100 2 (demo_raft Leader) = Inr r' \<and> raft_maybe_send_append 2 False r' = Inr (False, r')"
proof -
  have p: "raft_get_progress 2 (demo_raft Leader) = Some (demo_progress 2)" by (simp add: raft_get_progress_def)
  then have "raft_send_fuel 2 (demo_raft Leader) = 6"
    by (simp add: raft_send_fuel_def demo_progress_def new_progress_def new_inflights_def cast32_def u32_max_def)
  with send_loop_terminates [OF demo_raft_wf p] show ?thesis by auto
qed

section \<open>Timers\<close>

text \<open>The election timeout. Whatever number the generator gives, \<open>reset_randomized_election_timeout\<close>
  succeeds and the new timeout is the configured one plus the number brought into the range 0
  to the configured timeout, both ends included, so it lies between once and twice the
  configured timeout. (The documentation of the field promises at most twice the timeout less
  one.)\<close>

theorem election_timeout_bounds:
  assumes "timer_wf r" "rd_draws (r_random_device r) = x # xs"
  shows "\<exists>r'. raft_reset_randomized_election_timeout r = Inr r' \<and>
    r_randomized_election_timeout r' = r_election_timeout r + x mod (r_election_timeout r + 1) \<and>
    r_election_timeout r \<le> r_randomized_election_timeout r' \<and>
    r_randomized_election_timeout r' \<le> 2 * r_election_timeout r"
proof -
  let ?e = "r_election_timeout r"
  have x: "x mod (?e + 1) \<le> ?e" using mod_less_divisor [of "?e + 1" x] by linarith
  have d: "rd_min (r_random_device r) = 0" "rd_max (r_random_device r) = ?e" "2 * ?e \<le> u32_max"
    using assms(1) by (simp_all add: timer_wf_def)
  have "?e + x mod (?e + 1) \<le> u32_max" using x d(3) by linarith
  with x d assms(2) show ?thesis
    by (simp add: raft_reset_randomized_election_timeout_def random_device_gen_def assertr_def)
qed

theorem election_timeout_bounds_witness:
  "\<exists>r'. raft_reset_randomized_election_timeout ((demo_raft Follower)\<lparr>r_random_device :=
      \<lparr>rd_min = 0, rd_max = 10, rd_draws = [10]\<rparr>\<rparr>) = Inr r' \<and> r_randomized_election_timeout r' = 2 * 10"
proof -
  let ?r = "(demo_raft Follower)\<lparr>r_random_device := \<lparr>rd_min = 0, rd_max = 10, rd_draws = [10]\<rparr>\<rparr>"
  have "timer_wf ?r" by (simp add: timer_wf_def u32_max_def)
  from election_timeout_bounds [OF this] show ?thesis by auto
qed

text \<open>The election timer (\<open>tick_election\<close>): a node that does not lead only counts until its timeout
  has passed; before that, and for as long as it is not among the voters, a tick changes
  nothing but the counter, so no election is started early.\<close>

theorem no_early_election:
  assumes wf: "raft_wf r" and s: "r_state r \<noteq> Leader" and u: "r_election_elapsed r < u32_max"
    and e: "Suc (r_election_elapsed r) < r_randomized_election_timeout r \<or> map_of (r_prs r) (r_id r) = None"
  shows "raft_tick r = Inr (r\<lparr>r_election_elapsed := Suc (r_election_elapsed r)\<rparr>)"
proof -
  have "r_tick r = Some TickElection"
    using raft_wfD(4) [OF wf] s by (cases "r_state r") (simp_all add: mode_wf_def)
  then show ?thesis
    using e u by (auto simp: raft_tick_def raft_tick_election_def Let_def raft_promotable_def raft_past_election_timeout_def)
qed

theorem no_early_election_witness:
  "raft_tick (demo_raft Follower) = Inr ((demo_raft Follower)\<lparr>r_election_elapsed := 1\<rparr>)"
proof -
  have "r_election_elapsed (demo_raft Follower) = 0" "r_randomized_election_timeout (demo_raft Follower) = 13"
    by (simp_all add: demo_raft_def)
  with no_early_election [of "demo_raft Follower"] show ?thesis by (simp add: u32_max_def)
qed

section \<open>Construction\<close>

text \<open>C26. The constructor: from a consistent storage (hard state within the log, voters and learners
  given once and disjoint) and a configuration within its bounds, a node comes up without
  failing, satisfies the invariant, is a follower without a leader, has the persisted term,
  vote and log, the right voters, and nothing to send.\<close>

theorem constructor_establishes_invariant:
  assumes "start_ok c"
  shows "\<exists>r. new_raft c draws = Inr r \<and> raft_wf r \<and> r_state r = Follower \<and> r_lead r = 0 \<and> r_id r = c_id c \<and>
    r_term r = hs_term (ms_hard_state (c_storage c)) \<and> r_vote r = hs_vote (ms_hard_state (c_storage c)) \<and>
    raft_log_abs (r_log r) = storage_abs (c_storage c) \<and>
    set (raft_nodes r) = set (fst (start_members c)) \<and> r_msgs r = []"
  using new_raft_wf [OF assms, of draws] by blast

lemma demo_start_ok: "start_ok demo_config" "start_members demo_config = ([1, 2, 3], [])"
  by (simp_all add: start_ok_def Let_def demo_config_def new_config_def start_members_def u32_max_def
      demo_storage_def new_snapshot_def new_conf_state_def new_hard_state_def hard_state_is_empty_def
      demo_storage_wf [unfolded demo_storage_def new_snapshot_def new_conf_state_def new_hard_state_def])

theorem constructor_establishes_invariant_witness:
  "\<exists>r. new_raft demo_config [3] = Inr r \<and> raft_wf r \<and> set (raft_nodes r) = {1, 2, 3}"
  using constructor_establishes_invariant [OF demo_start_ok(1), of "[3]"] by (auto simp: demo_start_ok(2))

section \<open>Divergences\<close>

text \<open>C34. Heartbeats and quorum reads. A follower answers a heartbeat, advancing its commit index, but
  the answer never carries the context of the heartbeat (the code assigns the context to
  itself), so a leader that receives it confirms no pending read: reads in the safe mode never
  complete through heartbeats.\<close>

theorem heartbeat_answer_confirms_no_read:
  assumes "raft_log_wf (r_log r)" "m_commit msg \<le> log_last (r_log r)"
  shows "\<exists>r' resp. raft_handle_heartbeat msg r = Inr r' \<and> r_msgs r' = r_msgs r @ [resp] \<and>
    rl_committed (r_log r') = max (rl_committed (r_log r)) (m_commit msg) \<and>
    m_type resp = MsgHeartbeatResp \<and> m_to resp = m_from msg \<and> m_context resp = [] \<and>
    (\<forall>leader. raft_leader_read_ack resp leader = Inr leader)"
proof -
  let ?m = "new_message\<lparr>m_to := m_from msg, m_type := MsgHeartbeatResp\<rparr>"
  let ?r = "r\<lparr>r_log := (r_log r)\<lparr>rl_committed := max (rl_committed (r_log r)) (m_commit msg)\<rparr>\<rparr>"
  have "raft_send ?m ?r = Inr (sends ?m ?r)" by (rule raft_send_reply) (simp_all add: vote_type_def new_message_def)
  then have "raft_handle_heartbeat msg r = Inr (sends ?m ?r)"
    using assms by (simp add: raft_handle_heartbeat_def raft_log_commit_to_wf)
  moreover have "m_context (stamped ?m ?r) = []" "m_type (stamped ?m ?r) = MsgHeartbeatResp" "m_to (stamped ?m ?r) = m_from msg"
    by (simp_all add: stamped_def new_message_def)
  moreover from this(1) have "\<forall>leader. raft_leader_read_ack (stamped ?m ?r) leader = Inr leader"
    by (simp add: raft_leader_read_ack_def)
  ultimately show ?thesis by (intro exI [of _ "sends ?m ?r"] exI [of _ "stamped ?m ?r"]) simp
qed

theorem heartbeat_answer_confirms_no_read_witness:
  "\<exists>r' resp. raft_handle_heartbeat ((demo_msg MsgHeartbeat)\<lparr>m_commit := 2, m_context := [5]\<rparr>) (demo_raft Follower) = Inr r' \<and>
     r_msgs r' = r_msgs (demo_raft Follower) @ [resp] \<and> m_context resp = []"
  using heartbeat_answer_confirms_no_read [of "demo_raft Follower" "(demo_msg MsgHeartbeat)\<lparr>m_commit := 2, m_context := [5]\<rparr>"]
  by auto

text \<open>C35. Restoring a snapshot. When a snapshot that is ahead of the log lists another node first, the log
  line in \<open>restore_node\<close> reads the node's own progress before it has been created: a null
  pointer is dereferenced.\<close>

theorem restore_dereferences_null:
  assumes wf: "raft_wf r" and new: "rl_committed (r_log r) < snap_index s" "log_last (r_log r) < snap_index s"
    and t: "0 < snap_term s" and b: "snap_index s < u64_max"
    and nodes: "cs_nodes (sm_conf_state (snap_metadata s)) = i # js" "i \<noteq> r_id r"
    and voter: "r_id r \<notin> set (cs_learners (sm_conf_state (snap_metadata s)))"
  shows "raft_restore s r = Inl (Undefined ''null ProgressPtr'')"
proof -
  note lw = raft_wfD(1) [OF wf]
  let ?r = "r\<lparr>r_log := raft_log_restore s (r_log r), r_prs := [], r_learner_prs := []\<rparr>"
  have m: "raft_log_match_term (snap_index s) (snap_term s) (r_log r) = Inr False"
    using raft_log_match_term_wf [OF lw] alog_term_at_out [of "snap_index s" "raft_log_abs (r_log r)"] new(2) t by simp
  have l: "raft_log_last_index (raft_log_restore s (r_log r)) = Inr (snap_index s)"
    using raft_log_last_index_wf [OF raft_log_restore_wf(1) [OF lw b]] raft_log_restore_wf(2) [OF lw b]
    by (simp add: alog_last_def)
  have "raft_restore_node False i ?r = Inl (Undefined ''null ProgressPtr'')"
    using nodes(2) l
    by (simp add: raft_restore_node_def raft_set_progress_def raft_deref_progress_def raft_get_progress_def Let_def)
  then show ?thesis using new(1) m voter nodes(1) lw by (simp add: raft_restore_def)
qed

theorem restore_dereferences_null_witness:
  "raft_restore \<lparr>snap_data = [], snap_metadata = \<lparr>sm_conf_state = \<lparr>cs_nodes = [2, 1, 3], cs_learners = []\<rparr>, sm_index = 9, sm_term = 2\<rparr>\<rparr>
     (demo_raft Follower) = Inl (Undefined ''null ProgressPtr'')"
  by (rule restore_dereferences_null [of "demo_raft Follower" _ 2 "[1, 3]"]) (simp_all add: u64_max_def)

text \<open>\<open>Ready::contains_updates\<close> tests the read states the wrong way round: a ready without read
  states always claims to contain updates, even one with nothing in it, and a ready whose only
  content is finished reads claims to contain none.\<close>

theorem contains_updates_inverts_reads:
  "(rd_read_state rd = [] \<longrightarrow> ready_contains_updates rd) \<and>
   (ready_contains_updates rd \<and> rd_read_state rd \<noteq> [] \<longrightarrow>
      rd_soft_state rd \<noteq> None \<or> \<not> hard_state_is_empty (rd_hard_state rd) \<or> \<not> snapshot_is_empty (rd_snapshot rd) \<or>
      rd_entries rd \<noteq> [] \<or> rd_committed_entries rd \<noteq> [] \<or> rd_messages rd \<noteq> [])"
  by (auto simp: ready_contains_updates_def)

theorem contains_updates_inverts_reads_witness:
  "ready_contains_updates \<lparr>rd_soft_state = None, rd_hard_state = new_hard_state, rd_read_state = [], rd_entries = [],
     rd_snapshot = new_snapshot, rd_committed_entries = [], rd_messages = [], rd_must_sync = False\<rparr>"
  using contains_updates_inverts_reads [of "\<lparr>rd_soft_state = None, rd_hard_state = new_hard_state, rd_read_state = [],
     rd_entries = [], rd_snapshot = new_snapshot, rd_committed_entries = [], rd_messages = [], rd_must_sync = False\<rparr>"]
  by simp

end
