(* ===== verification/File_Names.thy ===== *)
theory File_Names
  imports Proto "HOL-Library.Char_ord" "HOL-Library.List_Lexorder"
begin

text \<open>
  Names of log and snapshot files: \<open>wal_name\<close>, \<open>parse_wal_name\<close>, \<open>is_valid_seq\<close> and
  \<open>search_index\<close> of \<open>src/raft-kv/wal/wal.cpp\<close> and \<open>snap_name\<close> of
  \<open>src/raft-kv/snap/snapshotter.cpp\<close>.

  Of the C and C++ libraries it models the conversion \<open>%016x\<close> of \<open>snprintf\<close> and the hexadecimal
  extraction of an unsigned 64-bit number from a stream. \<open>boost::filesystem::path::extension\<close> is
  a parameter \<open>ext\<close> of the operations that use it; \<open>ext_ok\<close> states what its documentation
  promises for names with a stem. \<open>std::less\<close> on strings is the order of \<open>List_Lexorder\<close> over
  unsigned characters.
\<close>

section \<open>Hexadecimal numbers\<close>

definition hex_digit :: "nat \<Rightarrow> char" where
  "hex_digit n = ''0123456789abcdef'' ! n"

fun hex_string :: "nat \<Rightarrow> string" where
  "hex_string n = (if n < 16 then [hex_digit n] else hex_string (n div 16) @ [hex_digit (n mod 16)])"

declare hex_string.simps [simp del]

text \<open>The conversion \<open>%016x\<close>.\<close>

definition format_016x :: "nat \<Rightarrow> string" where
  "format_016x n = replicate (16 - length (hex_string n)) CHR ''0'' @ hex_string n"

text \<open>The value of a digit; other characters end a number.\<close>

definition hex_char_value :: "char \<Rightarrow> nat option" where
  "hex_char_value c =
     (let n = of_char c in
      if 48 \<le> n \<and> n \<le> 57 then Some (n - 48)
      else if 97 \<le> n \<and> n \<le> 102 then Some (n - 87)
      else if 65 \<le> n \<and> n \<le> 70 then Some (n - 55)
      else None)"

fun hex_value_from :: "nat \<Rightarrow> string \<Rightarrow> nat" where
  "hex_value_from a [] = a"
| "hex_value_from a (c # cs) =
     (case hex_char_value c of None \<Rightarrow> a | Some d \<Rightarrow> hex_value_from (16 * a + d) cs)"

text \<open>\<open>std::isspace\<close> in the default locale.\<close>

definition is_space :: "char \<Rightarrow> bool" where
  "is_space c \<longleftrightarrow> (of_char c :: nat) \<in> {9, 10, 11, 12, 13, 32}"

text \<open>
  \<open>ss << std::hex << str; ss >> value\<close>: white space and a sign are skipped, then an optional
  \<open>0x\<close>; a number too large becomes the largest one, no digits give 0.
\<close>

definition skip_0x :: "string \<Rightarrow> string" where
  "skip_0x s = (if take 2 s = ''0x'' \<or> take 2 s = ''0X'' then drop 2 s else s)"

definition read_hex_u64 :: "string \<Rightarrow> u64" where
  "read_hex_u64 str =
     (let s = dropWhile is_space str;
          neg = (take 1 s = ''-'');
          s = (if take 1 s = ''-'' \<or> take 1 s = ''+'' then drop 1 s else s);
          v = hex_value_from 0 (skip_0x s)
      in if v > u64_max then u64_max else if neg then sub64 0 v else v)"

section \<open>File names\<close>

definition wal_name :: "u64 \<Rightarrow> u64 \<Rightarrow> string" where
  "wal_name seq index = take 63 (format_016x seq @ ''-'' @ format_016x index @ ''.wal'')"

definition snap_name :: "u64 \<Rightarrow> u64 \<Rightarrow> string" where
  "snap_name t index = take 63 (format_016x t @ ''-'' @ format_016x index @ ''.snap'')"

definition ext_ok :: "(string \<Rightarrow> string) \<Rightarrow> bool" where
  "ext_ok ext \<longleftrightarrow> (\<forall>stem e. stem \<noteq> [] \<and> CHR ''.'' \<notin> set e \<longrightarrow> ext (stem @ ''.'' @ e) = ''.'' @ e)"

definition find_char :: "char \<Rightarrow> string \<Rightarrow> nat option" where
  "find_char c s = (let n = length (takeWhile (\<lambda>x. x \<noteq> c) s) in if n < length s then Some n else None)"

text \<open>The result of \<open>parse_wal_name\<close> and the two numbers it stores.\<close>

definition parse_wal_name :: "(string \<Rightarrow> string) \<Rightarrow> string \<Rightarrow> bool \<times> u64 \<times> u64" where
  "parse_wal_name ext name =
     (if ext name \<noteq> ''.wal'' then (False, 0, 0)
      else
        let filename = take (sub64 (length name) 4) name in
        case find_char CHR ''-'' filename of
          None \<Rightarrow> (False, 0, 0)
        | Some pos \<Rightarrow>
            let seq = read_hex_u64 (take pos filename) in
            if pos = sub64 (length filename) 1 then (False, seq, 0)
            else (True, seq, read_hex_u64 (drop (pos + 1) filename)))"

fun is_valid_seq_from :: "(string \<Rightarrow> string) \<Rightarrow> u64 \<Rightarrow> string list \<Rightarrow> bool res" where
  "is_valid_seq_from ext lastSeq [] = Inr True"
| "is_valid_seq_from ext lastSeq (name # names) =
     (let (ok, curSeq, i) = parse_wal_name ext name in
      if \<not> ok then Inl (Fatal ''parse correct name should never fail'')
      else if lastSeq \<noteq> 0 \<and> lastSeq \<noteq> sub64 curSeq 1 then Inr False
      else is_valid_seq_from ext curSeq names)"

definition is_valid_seq :: "(string \<Rightarrow> string) \<Rightarrow> string list \<Rightarrow> bool res" where
  "is_valid_seq ext names = is_valid_seq_from ext 0 names"

text \<open>The loop runs from the last name down; \<open>n\<close> names are still to be looked at.\<close>

fun search_index_from :: "(string \<Rightarrow> string) \<Rightarrow> string list \<Rightarrow> u64 \<Rightarrow> nat \<Rightarrow> (bool \<times> u64) res" where
  "search_index_from ext names index 0 = Inr (False, u64_max)"
| "search_index_from ext names index (Suc i) =
     bindr (vec_at names i) (\<lambda>name.
     let (ok, seq, curIndex) = parse_wal_name ext name in
     if \<not> ok then Inl (Fatal ''invalid wal name'')
     else if index \<ge> curIndex then Inr (True, i)
     else search_index_from ext names index i)"

text \<open>Without names the loop would start at the largest index and read out of range.\<close>

definition search_index :: "(string \<Rightarrow> string) \<Rightarrow> string list \<Rightarrow> u64 \<Rightarrow> (bool \<times> u64) res" where
  "search_index ext names index =
     (if names = [] then Inl (Undefined ''names[i]'') else search_index_from ext names index (length names))"

section \<open>Printing and reading hexadecimal numbers\<close>

text \<open>The last \<open>k\<close> digits of a number.\<close>

fun hex_fixed :: "nat \<Rightarrow> nat \<Rightarrow> string" where
  "hex_fixed 0 n = []"
| "hex_fixed (Suc k) n = hex_fixed k (n div 16) @ [hex_digit (n mod 16)]"

lemma length_hex_fixed [simp]: "length (hex_fixed k n) = k"
  by (induction k arbitrary: n) auto

lemma hex_fixed_0: "hex_fixed k 0 = replicate k CHR ''0''"
  by (induction k) (simp_all add: hex_digit_def flip: replicate_append_same)

lemma hex_string_fixed:
  "n < 16 ^ k \<Longrightarrow> 0 < k \<Longrightarrow> length (hex_string n) \<le> k \<and> replicate (k - length (hex_string n)) CHR ''0'' @ hex_string n = hex_fixed k n"
proof (induction k arbitrary: n)
  case (Suc k)
  show ?case
  proof (cases "n < 16")
    case True
    then show ?thesis by (simp add: hex_string.simps [of n] hex_fixed_0)
  next
    case False
    with Suc.prems have "n div 16 < 16 ^ k" "0 < k" by (auto simp: less_mult_imp_div_less mult.commute intro: gr0I)
    from Suc.IH [OF this] False show ?thesis by (simp add: hex_string.simps [of n])
  qed
qed simp

lemma u64_16: "n \<le> u64_max \<longleftrightarrow> n < 16 ^ 16"
  by (simp add: u64_max_def) linarith

lemma format_016x_fixed: "n \<le> u64_max \<Longrightarrow> format_016x n = hex_fixed 16 n"
  using hex_string_fixed [of n 16] by (simp add: format_016x_def u64_16)

lemma less_16_cases: "(n :: nat) < 16 \<Longrightarrow> n \<in> {0, 1, 2, 3, 4, 5, 6, 7, 8, 9, 10, 11, 12, 13, 14, 15}"
  by (simp only: insert_iff empty_iff) presburger

lemma hex_digit_value: "n < 16 \<Longrightarrow> hex_char_value (hex_digit n) = Some n"
  using less_16_cases [of n] by (auto simp: hex_digit_def hex_char_value_def)

lemma hex_digit_order: "m < 16 \<Longrightarrow> n < 16 \<Longrightarrow> hex_digit m < hex_digit n \<longleftrightarrow> m < n"
  using less_16_cases [of m] less_16_cases [of n] by (auto simp: hex_digit_def less_char_def)

lemma hex_value_from_fixed:
  "hex_value_from a (hex_fixed k n @ rest) = hex_value_from (16 ^ k * a + n mod 16 ^ k) rest"
proof (induction k arbitrary: n rest a)
  case (Suc k)
  have "n mod 16 ^ Suc k = 16 * (n div 16 mod 16 ^ k) + n mod 16"
    using mod_mult2_eq [of n 16 "16 ^ k"] by simp
  then show ?case by (simp add: Suc.IH hex_digit_value algebra_simps)
qed simp

lemma hex_digit_plain:
  assumes "n < 16"
  shows "\<not> is_space (hex_digit n)" "hex_digit n \<noteq> CHR ''-''" "hex_digit n \<noteq> CHR ''+''"
    "hex_digit n \<noteq> CHR ''x''" "hex_digit n \<noteq> CHR ''X''" "hex_digit n \<noteq> CHR ''.''"
  using less_16_cases [OF assms] by (auto simp: hex_digit_def is_space_def)

lemma set_hex_fixed: "c \<in> set (hex_fixed k n) \<Longrightarrow> \<exists>d < 16. c = hex_digit d"
  by (induction k arbitrary: n) (auto intro: exI [of _ "_ mod 16"])

lemma read_hex_format:
  assumes "n \<le> u64_max"
  shows "read_hex_u64 (format_016x n) = n"
proof -
  let ?s = "hex_fixed 16 n"
  obtain a b cs where s: "?s = a # b # cs"
    by (cases ?s; cases "tl ?s") (auto dest: arg_cong [where f = length])
  then have "a \<in> set ?s" "b \<in> set ?s" by auto
  then obtain d e where d: "d < 16" "a = hex_digit d" and e: "e < 16" "b = hex_digit e"
    using set_hex_fixed by metis
  have drop: "dropWhile is_space ?s = ?s" "take 1 ?s \<noteq> ''-''" "take 1 ?s \<noteq> ''+''" "skip_0x ?s = ?s"
    using hex_digit_plain [OF d(1)] hex_digit_plain [OF e(1)] d(2) e(2) by (simp_all add: s skip_0x_def)
  have "hex_value_from 0 ?s = n"
    using hex_value_from_fixed [of 0 16 n "[]"] assms by (simp add: u64_16)
  then show ?thesis using assms by (simp only: read_hex_u64_def format_016x_fixed drop Let_def simp_thms if_False not_le [symmetric])
qed

text \<open>Fixed-width numbers are ordered as the numbers are.\<close>

lemma snoc_less:
  fixes xs ys :: "'a::linorder list"
  assumes "length xs = length ys"
  shows "xs @ [x] < ys @ [y] \<longleftrightarrow> xs < ys \<or> xs = ys \<and> x < y"
  using assms by (induction xs ys rule: list_induct2) auto

lemma append_less_same_length:
  fixes xs ys :: "'a::linorder list"
  assumes "length xs = length ys"
  shows "xs @ us < ys @ vs \<longleftrightarrow> xs < ys \<or> xs = ys \<and> us < vs"
  using assms by (induction xs ys rule: list_induct2) auto

lemma hex_fixed_less:
  "m < 16 ^ k \<Longrightarrow> n < 16 ^ k \<Longrightarrow> hex_fixed k m < hex_fixed k n \<longleftrightarrow> m < n"
proof (induction k arbitrary: m n)
  case (Suc k)
  then have b: "m div 16 < 16 ^ k" "n div 16 < 16 ^ k" by (simp_all add: less_mult_imp_div_less mult.commute)
  have eq: "hex_fixed k (m div 16) = hex_fixed k (n div 16) \<longleftrightarrow> m div 16 = n div 16"
    using Suc.IH [OF b] Suc.IH [OF b(2,1)] by (metis less_irrefl linorder_less_linear)
  have "16 * a + c < 16 * b + d \<longleftrightarrow> a < b \<or> a = b \<and> c < d" if "c < 16" "d < 16" for a b c d :: nat
    using that by linarith
  from this [of "m mod 16" "n mod 16" "m div 16" "n div 16"]
  have "m < n \<longleftrightarrow> m div 16 < n div 16 \<or> m div 16 = n div 16 \<and> m mod 16 < n mod 16" by simp
  then show ?case by (simp add: snoc_less eq Suc.IH [OF b] hex_digit_order)
qed simp

lemma hex_fixed_inject:
  assumes "m < 16 ^ k" "n < 16 ^ k"
  shows "hex_fixed k m = hex_fixed k n \<longleftrightarrow> m = n"
  using hex_fixed_less [OF assms] hex_fixed_less [OF assms(2,1)] by (metis less_irrefl linorder_less_linear)

text \<open>A name of two numbers with a common extension.\<close>

definition two_part :: "nat \<Rightarrow> nat \<Rightarrow> string \<Rightarrow> string" where
  "two_part a b e = hex_fixed 16 a @ ''-'' @ hex_fixed 16 b @ e"

lemma wal_name_two_part: "a \<le> u64_max \<Longrightarrow> b \<le> u64_max \<Longrightarrow> wal_name a b = two_part a b ''.wal''"
  by (simp add: wal_name_def two_part_def format_016x_fixed)

lemma snap_name_two_part: "a \<le> u64_max \<Longrightarrow> b \<le> u64_max \<Longrightarrow> snap_name a b = two_part a b ''.snap''"
  by (simp add: snap_name_def two_part_def format_016x_fixed)

lemma two_part_less:
  assumes "a \<le> u64_max" "b \<le> u64_max" "c \<le> u64_max" "d \<le> u64_max"
  shows "two_part a b e < two_part c d e \<longleftrightarrow> a < c \<or> a = c \<and> b < d"
  using assms unfolding u64_16 two_part_def
  by (simp add: append_less_same_length hex_fixed_less hex_fixed_inject)

lemma two_part_inject:
  assumes "a \<le> u64_max" "b \<le> u64_max" "c \<le> u64_max" "d \<le> u64_max"
  shows "two_part a b e = two_part c d e \<longleftrightarrow> a = c \<and> b = d"
  using assms unfolding u64_16 two_part_def by (simp add: hex_fixed_inject)

section \<open>Parsing a name\<close>

lemma takeWhile_hex_fixed: "takeWhile (\<lambda>x. x \<noteq> CHR ''-'') (hex_fixed k n @ CHR ''-'' # rest) = hex_fixed k n"
  by (rule takeWhile_append2 [THEN trans]) (use set_hex_fixed hex_digit_plain(2) in \<open>force+\<close>)

lemma parse_wal_name_spec:
  assumes ext: "ext_ok ext" and b: "s \<le> u64_max" "i \<le> u64_max"
  shows "parse_wal_name ext (wal_name s i) = (True, s, i)"
proof -
  define f where "f = hex_fixed 16 s @ ''-'' @ hex_fixed 16 i"
  have name: "wal_name s i = f @ ''.wal''" using b by (simp add: wal_name_two_part two_part_def f_def)
  have "f \<noteq> []" "CHR ''.'' \<notin> set ''wal''" by (simp_all add: f_def)
  with ext have "ext (f @ ''.'' @ ''wal'') = ''.'' @ ''wal''" unfolding ext_ok_def by blast
  then have e: "ext (wal_name s i) = ''.wal''" by (simp add: name)
  have len: "length f = 33" by (simp add: f_def)
  have t: "take (sub64 (length (wal_name s i)) 4) (wal_name s i) = f"
    by (simp add: name len u64_max_def)
  have "find_char CHR ''-'' f = Some 16" by (simp add: find_char_def f_def takeWhile_hex_fixed)
  moreover have "sub64 (length f) 1 = 32" by (simp add: len u64_max_def)
  moreover have "take 16 f = format_016x s" "drop 17 f = format_016x i"
    using b by (simp_all add: format_016x_fixed f_def)
  ultimately show ?thesis using e unfolding parse_wal_name_def t
    by (simp add: Let_def read_hex_format b)
qed

section \<open>Choosing files\<close>

text \<open>Names written for a list of sequence numbers and indices.\<close>

definition wal_names :: "(u64 \<times> u64) list \<Rightarrow> string list" where
  "wal_names ps = map (\<lambda>(s, i). wal_name s i) ps"

definition u64_pairs :: "(u64 \<times> u64) list \<Rightarrow> bool" where
  "u64_pairs ps \<longleftrightarrow> (\<forall>(s, i) \<in> set ps. s \<le> u64_max \<and> i \<le> u64_max)"

lemma search_index_from_spec:
  assumes ext: "ext_ok ext" and ps: "u64_pairs ps" and n: "n \<le> length ps"
  shows "search_index_from ext (wal_names ps) index n =
    (if \<exists>k < n. snd (ps ! k) \<le> index
     then Inr (True, GREATEST k. k < n \<and> snd (ps ! k) \<le> index) else Inr (False, u64_max))"
  using n
proof (induction n)
  case (Suc n)
  obtain s i where si: "ps ! n = (s, i)" by fastforce
  then have "(s, i) \<in> set ps" using Suc.prems nth_mem [of n ps] by simp
  with ps have "parse_wal_name ext (wal_names ps ! n) = (True, s, i)"
    using Suc.prems by (auto simp: wal_names_def si u64_pairs_def intro!: parse_wal_name_spec [OF ext])
  moreover have "n < length (wal_names ps)" using Suc.prems by (simp add: wal_names_def)
  ultimately have step: "search_index_from ext (wal_names ps) index (Suc n) =
      (if i \<le> index then Inr (True, n) else search_index_from ext (wal_names ps) index n)"
    by simp
  show ?case
  proof (cases "i \<le> index")
    case True
    then have "(GREATEST k. k < Suc n \<and> snd (ps ! k) \<le> index) = n"
      by (intro Greatest_equality) (auto simp: si)
    then show ?thesis unfolding step using True si by (auto intro: exI [of _ n])
  next
    case False
    then have "k < Suc n \<and> snd (ps ! k) \<le> index \<longleftrightarrow> k < n \<and> snd (ps ! k) \<le> index" for k
      using si by (auto simp: less_Suc_eq)
    then show ?thesis unfolding step using False Suc by simp
  qed
qed simp

lemma is_valid_seq_from_spec:
  assumes ext: "ext_ok ext" and ps: "u64_pairs ps"
  shows "is_valid_seq_from ext l (wal_names ps) =
    Inr (\<forall>k < length ps. (if k = 0 then l else fst (ps ! (k - 1))) \<noteq> 0 \<longrightarrow>
       (if k = 0 then l else fst (ps ! (k - 1))) = sub64 (fst (ps ! k)) 1)"
  using ps
proof (induction ps arbitrary: l)
  case Nil
  then show ?case by (simp add: wal_names_def)
next
  case (Cons p ps)
  obtain s i where p: "p = (s, i)" by fastforce
  from Cons.prems have b: "s \<le> u64_max" "i \<le> u64_max" "u64_pairs ps" by (auto simp: u64_pairs_def p)
  have split: "(\<forall>k < length (p # ps). P k) \<longleftrightarrow> P 0 \<and> (\<forall>k < length ps. P (Suc k))" for P
    by (auto simp: less_Suc_eq_0_disj)
  have "wal_names (p # ps) = wal_name s i # wal_names ps" by (simp add: wal_names_def p)
  then show ?case unfolding split
    by (auto simp: parse_wal_name_spec [OF ext b(1,2)] Cons.IH [OF b(3)] p nth_Cons' Let_def)
qed

end
