(* ===== verification/Codec.thy ===== *)
theory Codec
  imports Proto
begin

text \<open>
  What the persistent and networked parts take from libraries. \<open>msgpack::pack\<close> and
  \<open>msgpack::unpack\<close> with \<open>convert\<close> are parameters, one pair per type; unpacking may throw
  (\<open>None\<close>). \<open>msgpack_ok\<close> is the documented round trip for the values a C++ object can hold.
  \<open>boost::crc_32_type\<close> is a parameter too. The integer layouts (little-endian structures in
  memory, \<open>htonl\<close> on the wire) are those of the platform.
\<close>

record 'a msgpack =
  mp_pack :: "'a \<Rightarrow> byte list"
  mp_unpack :: "byte list \<Rightarrow> 'a option"

definition msgpack_ok :: "('a \<Rightarrow> bool) \<Rightarrow> 'a msgpack \<Rightarrow> bool" where
  "msgpack_ok valid m \<longleftrightarrow> (\<forall>x. valid x \<longrightarrow> mp_unpack m (mp_pack m x) = Some x)"

lemma msgpack_okD: "msgpack_ok valid m \<Longrightarrow> valid x \<Longrightarrow> mp_unpack m (mp_pack m x) = Some x"
  by (simp add: msgpack_ok_def)

text \<open>An exception of msgpack that nobody catches.\<close>

definition unpack_or_throw :: "'a msgpack \<Rightarrow> byte list \<Rightarrow> 'a res" where
  "unpack_or_throw m d = (case mp_unpack m d of None \<Rightarrow> Inl (Fatal ''msgpack'') | Some x \<Rightarrow> Inr x)"

lemma unpack_pack: "msgpack_ok valid m \<Longrightarrow> valid x \<Longrightarrow> unpack_or_throw m (mp_pack m x) = Inr x"
  by (simp add: unpack_or_throw_def msgpack_okD)

section \<open>The values a C++ object can hold\<close>

definition entry_type_fits :: "entry_type \<Rightarrow> bool" where
  "entry_type_fits t \<longleftrightarrow> (case t of EntryInvalid n \<Rightarrow> 2 \<le> n \<and> n < 256 | _ \<Rightarrow> True)"

definition entry_fits :: "entry \<Rightarrow> bool" where
  "entry_fits e \<longleftrightarrow> entry_type_fits (e_type e) \<and> e_term e \<le> u64_max \<and> e_index e \<le> u64_max"

definition hard_state_fits :: "hard_state \<Rightarrow> bool" where
  "hard_state_fits hs \<longleftrightarrow> hs_term hs \<le> u64_max \<and> hs_vote hs \<le> u64_max \<and> hs_commit hs \<le> u64_max"

section \<open>Integers in memory\<close>

definition le32 :: "u32 \<Rightarrow> byte list" where
  "le32 n = [word_of_nat n, word_of_nat (n div 256), word_of_nat (n div 65536), word_of_nat (n div 16777216)]"

fun of_le32 :: "byte list \<Rightarrow> u32" where
  "of_le32 [a, b, c, d] = unat a + 256 * unat b + 65536 * unat c + 16777216 * unat d"
| "of_le32 _ = 0"

definition be32 :: "u32 \<Rightarrow> byte list" where
  "be32 n = rev (le32 n)"

definition of_be32 :: "byte list \<Rightarrow> u32" where
  "of_be32 bs = of_le32 (rev bs)"

lemma length_le32 [simp]: "length (le32 n) = 4" "length (be32 n) = 4"
  by (simp_all add: le32_def be32_def)

lemma unat_word_of_nat_byte [simp]: "unat (word_of_nat n :: byte) = n mod 256"
  by (simp add: unat_of_nat)

lemma of_le32_le32 [simp]:
  assumes "n \<le> u32_max"
  shows "of_le32 (le32 n) = n"
proof -
  have d: "n div 65536 = n div 256 div 256" "n div 16777216 = n div 256 div 256 div 256"
    by (simp_all add: div_mult2_eq [symmetric])
  have "n div 256 div 256 div 256 < 256"
    using assms by (simp add: div_mult2_eq [symmetric] u32_max_def less_mult_imp_div_less)
  then have c: "n div 256 div 256 div 256 mod 256 = n div 256 div 256 div 256" by simp
  have "n = n mod 256 + 256 * (n div 256)" "n div 256 = n div 256 mod 256 + 256 * (n div 256 div 256)"
    "n div 256 div 256 = n div 256 div 256 mod 256 + 256 * (n div 256 div 256 div 256)"
    by simp_all
  then show ?thesis unfolding le32_def d of_le32.simps unat_word_of_nat_byte c by linarith
qed

lemma of_be32_be32 [simp]: "n \<le> u32_max \<Longrightarrow> of_be32 (be32 n) = n"
  by (simp add: of_be32_def be32_def)

section \<open>Frames\<close>

text \<open>A sequence of frames cut off anywhere: some whole frames and a piece of the next one.\<close>

lemma take_concat_frames:
  assumes "\<And>r. f r \<noteq> []"
  shows "\<exists>n tail. n \<le> length rs \<and> take k (concat (map f rs)) = concat (map f (take n rs)) @ tail \<and>
    length (concat (map f (take n rs))) \<le> k \<and> (n < length rs \<longrightarrow> k < length (concat (map f (take (Suc n) rs)))) \<and>
    (tail = [] \<or> n < length rs \<and> (\<exists>j < length (f (rs ! n)). tail = take j (f (rs ! n))))"
proof (induction rs arbitrary: k)
  case (Cons r rs)
  show ?case
  proof (cases "k < length (f r)")
    case True
    then show ?thesis by (intro exI [of _ 0] exI [of _ "take k (f r)"]) auto
  next
    case False
    obtain n tail where nt: "n \<le> length rs"
      "take (k - length (f r)) (concat (map f rs)) = concat (map f (take n rs)) @ tail"
      "length (concat (map f (take n rs))) \<le> k - length (f r)"
      "n < length rs \<longrightarrow> k - length (f r) < length (concat (map f (take (Suc n) rs)))"
      "tail = [] \<or> n < length rs \<and> (\<exists>j < length (f (rs ! n)). tail = take j (f (rs ! n)))"
      using Cons.IH by blast
    then show ?thesis using False by (intro exI [of _ "Suc n"] exI [of _ tail]) auto
  qed
qed simp

section \<open>Decimal numbers\<close>

text \<open>The conversions \<open>%lu\<close> and \<open>%d\<close>.\<close>

definition dec_digit :: "nat \<Rightarrow> char" where
  "dec_digit n = char_of (48 + n)"

fun dec_string :: "nat \<Rightarrow> string" where
  "dec_string n = (if n < 10 then [dec_digit n] else dec_string (n div 10) @ [dec_digit (n mod 10)])"

declare dec_string.simps [simp del]

definition dec_int :: "int \<Rightarrow> string" where
  "dec_int i = (if i < 0 then ''-'' @ dec_string (nat (- i)) else dec_string (nat i))"

definition is_digit :: "char \<Rightarrow> bool" where
  "is_digit c \<longleftrightarrow> 48 \<le> (of_char c :: nat) \<and> (of_char c :: nat) \<le> 57"

definition dec_value :: "string \<Rightarrow> nat" where
  "dec_value s = foldl (\<lambda>a c. 10 * a + (of_char c - 48)) 0 s"

lemma of_char_dec_digit: "n < 10 \<Longrightarrow> (of_char (dec_digit n) :: nat) = 48 + n"
  by (simp add: dec_digit_def)

lemma dec_string_digits: "c \<in> set (dec_string n) \<Longrightarrow> is_digit c"
proof (induction n rule: dec_string.induct)
  case (1 n)
  have d: "is_digit (dec_digit m)" if "m < 10" for m using that by (simp add: is_digit_def of_char_dec_digit)
  show ?case
  proof (cases "n < 10")
    case True
    then show ?thesis using "1.prems" d by (simp add: dec_string.simps [of n])
  next
    case False
    then have "c \<in> set (dec_string (n div 10)) \<or> c = dec_digit (n mod 10)"
      using "1.prems" by (auto simp: dec_string.simps [of n])
    then show ?thesis using "1.IH" [OF False] d [of "n mod 10"] by auto
  qed
qed

lemma dec_value_string [simp]: "dec_value (dec_string n) = n"
proof (induction n rule: dec_string.induct)
  case (1 n)
  show ?case
  proof (cases "n < 10")
    case True
    then show ?thesis by (simp add: dec_string.simps [of n] dec_value_def of_char_dec_digit)
  next
    case False
    have "dec_value (dec_string n) = 10 * dec_value (dec_string (n div 10)) + n mod 10"
      using False by (simp add: dec_string.simps [of n] dec_value_def of_char_dec_digit)
    with "1.IH" [OF False] show ?thesis by simp
  qed
qed

end
