(* ===== verification/Wal.thy ===== *)
theory Wal
  imports File_Names Codec
begin

unbundle bit_operations_syntax

text \<open>
  The write-ahead log: \<open>src/raft-kv/wal/wal.h\<close> and \<open>wal.cpp\<close>. A file is the bytes written to
  it (\<open>wf_disk\<close>) and the bytes still collected in memory (\<open>wf_buffer\<close>); \<open>wf_io_ok\<close> says
  whether the file system carries out operations on it, otherwise \<open>LOG_FATAL\<close> ends them. A
  directory is the list of its files in the order of iteration. \<open>tell\<close> is what \<open>ftell\<close>
  reports for a file just opened in append mode, which the C standard leaves open.
\<close>

section \<open>Records\<close>

definition wal_InvalidType :: byte where "wal_InvalidType = 0"
definition wal_EntryType :: byte where "wal_EntryType = 1"
definition wal_StateType :: byte where "wal_StateType = 2"
definition wal_CrcType :: byte where "wal_CrcType = 3"
definition wal_snapshot_Type :: byte where "wal_snapshot_Type = 4"

definition SegmentSizeBytes :: int where "SegmentSizeBytes = 64 * 1000 * 1000"

definition MAX_WAL_RECORD_LEN :: nat where "MAX_WAL_RECORD_LEN = 16777215"

lemmas wal_type_defs = wal_InvalidType_def wal_EntryType_def wal_StateType_def wal_CrcType_def wal_snapshot_Type_def

record wal_snapshot =
  ws_index :: u64
  ws_term :: u64

record wal_record =
  wr_type :: byte
  wr_len0 :: byte
  wr_len1 :: byte
  wr_len2 :: byte
  wr_crc :: u32

definition WAL_Record_len :: "wal_record \<Rightarrow> u32" where
  "WAL_Record_len r = push_bit 16 (unat (wr_len2 r)) OR push_bit 8 (unat (wr_len1 r)) OR unat (wr_len0 r)"

definition set_WAL_Record_len :: "u32 \<Rightarrow> wal_record \<Rightarrow> wal_record" where
  "set_WAL_Record_len n r =
     (let n = min n MAX_WAL_RECORD_LEN in
      r\<lparr>wr_len2 := word_of_nat (drop_bit 16 n AND 255), wr_len1 := word_of_nat (drop_bit 8 n AND 255),
        wr_len0 := word_of_nat (n AND 255)\<rparr>)"

text \<open>The packed structure in memory: eight bytes.\<close>

definition wal_record_bytes :: "wal_record \<Rightarrow> byte list" where
  "wal_record_bytes r = [wr_type r, wr_len0 r, wr_len1 r, wr_len2 r] @ le32 (wr_crc r)"

definition wal_record_of :: "byte list \<Rightarrow> wal_record" where
  "wal_record_of bs =
     \<lparr>wr_type = bs ! 0, wr_len0 = bs ! 1, wr_len1 = bs ! 2, wr_len2 = bs ! 3, wr_crc = of_le32 (take 4 (drop 4 bs))\<rparr>"

text \<open>The libraries the log is built on.\<close>

record wal_lib =
  wl_crc :: "byte list \<Rightarrow> u32"
  wl_entry :: "entry msgpack"
  wl_state :: "hard_state msgpack"
  wl_snap :: "wal_snapshot msgpack"

section \<open>One file\<close>

record wal_file =
  wf_name :: string
  wf_seq :: u64
  wf_buffer :: "byte list"
  wf_disk :: "byte list"
  wf_size :: int
  wf_io_ok :: bool

definition wal_file_open :: "(byte list \<Rightarrow> int) \<Rightarrow> bool \<Rightarrow> string \<Rightarrow> u64 \<Rightarrow> byte list \<Rightarrow> wal_file res" where
  "wal_file_open tell io name seq bytes =
     (if \<not> io then Inl (Fatal ''fopen error'')
      else if tell bytes = - 1 then Inl (Fatal ''ftell error'')
      else Inr \<lparr>wf_name = name, wf_seq = seq, wf_buffer = [], wf_disk = bytes, wf_size = tell bytes, wf_io_ok = io\<rparr>)"

definition wal_file_truncate :: "nat \<Rightarrow> wal_file \<Rightarrow> wal_file res" where
  "wal_file_truncate offset f =
     (if \<not> wf_io_ok f then Inl (Fatal ''ftruncate error'')
      else Inr (f\<lparr>wf_disk := take offset (wf_disk f), wf_size := int offset, wf_buffer := []\<rparr>))"

definition wal_file_append :: "wal_lib \<Rightarrow> byte \<Rightarrow> byte list \<Rightarrow> wal_file \<Rightarrow> wal_file" where
  "wal_file_append L type data f =
     (let rec = set_WAL_Record_len (cast32 (length data))
            \<lparr>wr_type = type, wr_len0 = 0, wr_len1 = 0, wr_len2 = 0, wr_crc = wl_crc L data\<rparr>
      in f\<lparr>wf_buffer := wf_buffer f @ wal_record_bytes rec @ data\<rparr>)"

definition wal_file_sync :: "wal_file \<Rightarrow> wal_file res" where
  "wal_file_sync f =
     (if wf_buffer f = [] then Inr f
      else if \<not> wf_io_ok f then Inl (Fatal ''fwrite error'')
      else Inr (f\<lparr>wf_disk := wf_disk f @ wf_buffer f, wf_size := wf_size f + int (length (wf_buffer f)),
                 wf_buffer := []\<rparr>))"

text \<open>\<open>fread\<close> in blocks of 1024 bytes until nothing is left.\<close>

function wal_file_read_from :: "byte list \<Rightarrow> byte list \<Rightarrow> byte list" where
  "wal_file_read_from rest out =
     (if take 1024 rest = [] then out
      else wal_file_read_from (drop 1024 rest) (out @ take 1024 rest))"
  by pat_completeness auto
termination by (relation "measure (length \<circ> fst)") auto

declare wal_file_read_from.simps [simp del]

definition wal_file_read_all :: "wal_file \<Rightarrow> byte list" where
  "wal_file_read_all f = wal_file_read_from (wf_disk f) []"

section \<open>The log\<close>

record wal =
  w_state :: hard_state
  w_start :: wal_snapshot
  w_enti :: u64
  w_files :: "wal_file list"

type_synonym dir = "(string \<times> byte list) list"

definition wal_create :: "wal_lib \<Rightarrow> (byte list \<Rightarrow> int) \<Rightarrow> bool \<Rightarrow> dir \<Rightarrow> dir res" where
  "wal_create L tell io dir =
     (let walFile = wal_name 0 0; tmpPath = walFile @ ''.tmp'';
          dir = AList.delete tmpPath dir
      in
      bindr (wal_file_open tell io tmpPath 0 []) (\<lambda>f.
      bindr (wal_file_sync (wal_file_append L wal_snapshot_Type (mp_pack (wl_snap L) \<lparr>ws_index = 0, ws_term = 0\<rparr>) f)) (\<lambda>f.
      Inr (AList.update walFile (wf_disk f) dir))))"

definition get_wal_names :: "(string \<Rightarrow> string) \<Rightarrow> dir \<Rightarrow> string list" where
  "get_wal_names ext dir = sort (filter (\<lambda>name. ext name = ''.wal'') (map fst dir))"

definition wal_open_file ::
  "(string \<Rightarrow> string) \<Rightarrow> (byte list \<Rightarrow> int) \<Rightarrow> bool \<Rightarrow> dir \<Rightarrow> string \<Rightarrow> wal_file res" where
  "wal_open_file ext tell io dir name =
     (let (ok, seq, index) = parse_wal_name ext name in
      if \<not> ok then Inl (Fatal ''invalid wal name'')
      else wal_file_open tell io name seq (case map_of dir name of None \<Rightarrow> [] | Some bytes \<Rightarrow> bytes))"

definition wal_open ::
  "(string \<Rightarrow> string) \<Rightarrow> (byte list \<Rightarrow> int) \<Rightarrow> bool \<Rightarrow> dir \<Rightarrow> wal_snapshot \<Rightarrow> wal res" where
  "wal_open ext tell io dir snap =
     (let names = get_wal_names ext dir in
      if names = [] then Inl (Fatal ''wal not found'')
      else
        bindr (search_index ext names (ws_index snap)) (\<lambda>(found, nameIndex).
        if \<not> found then Inl (Fatal ''wal not found'')
        else
          let check_names = drop nameIndex names in
          bindr (is_valid_seq ext check_names) (\<lambda>valid.
          if \<not> valid then Inl (Fatal ''invalid wal seq'')
          else
            bindr (mapr (wal_open_file ext tell io dir) check_names) (\<lambda>files.
            Inr \<lparr>w_state = new_hard_state, w_start = snap, w_enti = 0, w_files = files\<rparr>))))"

section \<open>Reading\<close>

text \<open>
  What \<open>read_all\<close> works on: the flag \<open>matchsnap\<close>, the caller's hard state and entries (a vector
  of pointers, null where \<open>resize\<close> made room), \<open>enti_\<close> and the file.
\<close>

record wal_scan =
  sc_match :: bool
  sc_hs :: hard_state
  sc_ents :: "entry option list"
  sc_enti :: u64
  sc_file :: wal_file

definition resize_ptrs :: "nat \<Rightarrow> 'a option list \<Rightarrow> 'a option list" where
  "resize_ptrs n xs = take n xs @ replicate (n - length xs) None"

definition handle_record_wal_record :: "wal_lib \<Rightarrow> wal_snapshot \<Rightarrow> byte \<Rightarrow> byte list \<Rightarrow> wal_scan \<Rightarrow> wal_scan res" where
  "handle_record_wal_record L start type data s =
     (if type = wal_EntryType then
        bindr (unpack_or_throw (wl_entry L) data) (\<lambda>e.
        let s = (if e_index e > ws_index start then
                   s\<lparr>sc_ents := resize_ptrs (sub64 (sub64 (e_index e) (ws_index start)) 1) (sc_ents s) @ [Some e]\<rparr>
                 else s)
        in Inr (s\<lparr>sc_enti := e_index e\<rparr>))
      else if type = wal_StateType then
        bindr (unpack_or_throw (wl_state L) data) (\<lambda>hs. Inr (s\<lparr>sc_hs := hs\<rparr>))
      else if type = wal_snapshot_Type then
        bindr (unpack_or_throw (wl_snap L) data) (\<lambda>snap.
        if ws_index snap = ws_index start then
          (if ws_term snap \<noteq> ws_term start then Inl (Fatal ''wal: snapshot mismatch'')
           else Inr (s\<lparr>sc_match := True\<rparr>))
        else Inr s)
      else if type = wal_CrcType then Inl (Fatal ''wal crc type'')
      else Inl (Fatal ''invalid record type''))"

definition wal_scan_truncate :: "nat \<Rightarrow> wal_scan \<Rightarrow> wal_scan res" where
  "wal_scan_truncate offset s = bindr (wal_file_truncate offset (sc_file s)) (\<lambda>f. Inr (s\<lparr>sc_file := f\<rparr>))"

function wal_scan_from :: "wal_lib \<Rightarrow> wal_snapshot \<Rightarrow> byte list \<Rightarrow> nat \<Rightarrow> wal_scan \<Rightarrow> wal_scan res" where
  "wal_scan_from L start data offset s =
     (if \<not> offset < length data then Inr s
      else
        let left = length data - offset; record_begin_offset = offset in
        if left < 8 then wal_scan_truncate record_begin_offset s
        else
          let rec = wal_record_of (take 8 (drop offset data)); left = left - 8; offset = offset + 8 in
          if wr_type rec = wal_InvalidType then Inr s
          else
            let record_data_len = WAL_Record_len rec in
            if left < record_data_len then wal_scan_truncate record_begin_offset s
            else
              let record_data = take record_data_len (drop offset data);
                  crc = wl_crc L record_data; offset = offset + record_data_len
              in
              if wr_crc rec \<noteq> 0 \<and> crc \<noteq> wr_crc rec then wal_scan_truncate record_begin_offset s
              else
                bindr (handle_record_wal_record L start (wr_type rec) record_data s) (\<lambda>s.
                wal_scan_from L start data offset
                  (if wr_type rec = wal_snapshot_Type then s\<lparr>sc_match := True\<rparr> else s)))"
  by pat_completeness auto
termination by (relation "measure (\<lambda>(L, start, data, offset, s). length data - offset)") auto

declare wal_scan_from.simps [simp del]

definition wal_scan_file :: "wal_lib \<Rightarrow> wal_snapshot \<Rightarrow> wal_scan \<Rightarrow> wal_scan res" where
  "wal_scan_file L start s =
     bindr (wal_scan_from L start (wal_file_read_all (sc_file s)) 0 (s\<lparr>sc_match := False\<rparr>)) (\<lambda>s.
     if \<not> sc_match s then Inl (Fatal ''wal: snapshot not found'') else Inr s)"

fun wal_scan_files ::
  "wal_lib \<Rightarrow> wal_snapshot \<Rightarrow> hard_state \<Rightarrow> entry option list \<Rightarrow> u64 \<Rightarrow> wal_file list \<Rightarrow>
   (hard_state \<times> entry option list \<times> u64 \<times> wal_file list) res" where
  "wal_scan_files L start hs ents enti [] = Inr (hs, ents, enti, [])"
| "wal_scan_files L start hs ents enti (f # fs) =
     bindr (wal_scan_file L start
       \<lparr>sc_match = False, sc_hs = hs, sc_ents = ents, sc_enti = enti, sc_file = f\<rparr>) (\<lambda>s.
     bindr (wal_scan_files L start (sc_hs s) (sc_ents s) (sc_enti s) fs) (\<lambda>(hs, ents, enti, fs).
     Inr (hs, ents, enti, sc_file s # fs)))"

definition wal_read_all ::
  "wal_lib \<Rightarrow> hard_state \<Rightarrow> entry option list \<Rightarrow> wal \<Rightarrow> (status \<times> hard_state \<times> entry option list \<times> wal) res" where
  "wal_read_all L hs ents w =
     bindr (wal_scan_files L (w_start w) hs ents (w_enti w) (w_files w)) (\<lambda>(hs, ents, enti, fs).
     Inr (StatusOK, hs, ents, w\<lparr>w_enti := enti, w_files := fs\<rparr>))"

section \<open>Writing\<close>

text \<open>An operation on \<open>files_.back()\<close>.\<close>

definition wal_on_back :: "(wal_file \<Rightarrow> wal_file res) \<Rightarrow> wal \<Rightarrow> wal res" where
  "wal_on_back op w =
     (if w_files w = [] then Inl (Undefined ''files_.back()'')
      else bindr (op (last (w_files w))) (\<lambda>f. Inr (w\<lparr>w_files := butlast (w_files w) @ [f]\<rparr>)))"

definition wal_save_entry :: "wal_lib \<Rightarrow> entry \<Rightarrow> wal \<Rightarrow> wal res" where
  "wal_save_entry L e w =
     bindr (wal_on_back (\<lambda>f. Inr (wal_file_append L wal_EntryType (mp_pack (wl_entry L) e) f)) w) (\<lambda>w.
     Inr (w\<lparr>w_enti := e_index e\<rparr>))"

definition wal_save_hard_state :: "wal_lib \<Rightarrow> hard_state \<Rightarrow> wal \<Rightarrow> wal res" where
  "wal_save_hard_state L hs w =
     (if hard_state_is_empty hs then Inr w
      else wal_on_back (\<lambda>f. Inr (wal_file_append L wal_StateType (mp_pack (wl_state L) hs) f)) (w\<lparr>w_state := hs\<rparr>))"

definition wal_cut :: "wal \<Rightarrow> wal res" where
  "wal_cut w = wal_on_back wal_file_sync w"

definition wal_save_snapshot :: "wal_lib \<Rightarrow> wal_snapshot \<Rightarrow> wal \<Rightarrow> (status \<times> wal) res" where
  "wal_save_snapshot L snap w =
     bindr (wal_on_back (\<lambda>f. Inr (wal_file_append L wal_snapshot_Type (mp_pack (wl_snap L) snap) f)) w) (\<lambda>w.
     let w = (if w_enti w < ws_index snap then w\<lparr>w_enti := ws_index snap\<rparr> else w) in
     bindr (wal_on_back wal_file_sync w) (\<lambda>w. Inr (StatusOK, w)))"

definition wal_save :: "wal_lib \<Rightarrow> hard_state \<Rightarrow> entry list \<Rightarrow> wal \<Rightarrow> (status \<times> wal) res" where
  "wal_save L hs ents w =
     (if hard_state_is_empty hs \<and> ents = [] then Inr (StatusOK, w)
      else
        let mustSync = is_must_sync hs (w_state w) (length ents) in
        bindr (for_each (wal_save_entry L) ents w) (\<lambda>w.
        bindr (wal_save_hard_state L hs w) (\<lambda>w.
        if w_files w = [] then Inl (Undefined ''files_.back()'')
        else if wf_size (last (w_files w)) < SegmentSizeBytes then
          (if mustSync then bindr (wal_on_back wal_file_sync w) (\<lambda>w. Inr (StatusOK, w))
           else Inr (StatusOK, w))
        else bindr (wal_cut w) (\<lambda>w. Inr (StatusOK, w)))))"

definition wal_release_to :: "u64 \<Rightarrow> wal \<Rightarrow> status" where
  "wal_release_to index w = StatusOK"

end
