(* ===== verification/Wal_Recovery.thy ===== *)
theory Wal_Recovery
  imports Wal Storage
begin

unbundle bit_operations_syntax

text \<open>
  What is written to the log is what is read from it: record headers, sequences of records,
  a torn or damaged last record, and the replay of saved batches.
\<close>

section \<open>Headers\<close>

lemma bytes24:
  fixes n :: nat
  assumes "n \<le> MAX_WAL_RECORD_LEN"
  shows "push_bit 16 (drop_bit 16 n mod 256) OR push_bit 8 (drop_bit 8 n mod 256) OR n mod 256 = n"
proof -
  have m: "x mod 256 = take_bit 8 x" for x :: nat by (simp add: take_bit_eq_mod)
  have "n < 2 ^ 24" using assms by (simp add: MAX_WAL_RECORD_LEN_def)
  then have "take_bit 24 n = n" by (simp add: take_bit_nat_eq_self)
  then have b: "bit n k \<Longrightarrow> k < 24" for k by (metis bit_take_bit_iff)
  show ?thesis unfolding m
  proof (rule bit_eqI)
    fix k :: nat
    consider "k < 8" | "8 \<le> k" "k < 16" | "16 \<le> k" by linarith
    then show "bit (push_bit 16 (take_bit 8 (drop_bit 16 n)) OR push_bit 8 (take_bit 8 (drop_bit 8 n)) OR take_bit 8 n) k =
        bit n k"
      by cases (use b [of k] in \<open>auto simp: bit_simps\<close>)
  qed
qed

lemma and_255: "x AND 255 = x mod 256" for x :: nat
  using take_bit_eq_mask [of 8 x] by (simp add: take_bit_eq_mod mask_eq_exp_minus_1)

lemma WAL_Record_len_set [simp]:
  "WAL_Record_len (set_WAL_Record_len n r) = min n MAX_WAL_RECORD_LEN"
  unfolding WAL_Record_len_def set_WAL_Record_len_def Let_def
  using bytes24 [of "min n MAX_WAL_RECORD_LEN"] by (simp add: and_255)

lemma set_WAL_Record_len_keeps [simp]:
  "wr_type (set_WAL_Record_len n r) = wr_type r" "wr_crc (set_WAL_Record_len n r) = wr_crc r"
  by (simp_all add: set_WAL_Record_len_def Let_def)

lemma length_wal_record_bytes [simp]: "length (wal_record_bytes r) = 8"
  by (simp add: wal_record_bytes_def)

lemma wal_record_of_bytes: "wr_crc r \<le> u32_max \<Longrightarrow> wal_record_of (wal_record_bytes r) = r"
  by (cases r) (simp add: wal_record_of_def wal_record_bytes_def One_nat_def numeral_2_eq_2 numeral_3_eq_3)

lemma wal_file_read_from_all: "wal_file_read_from rest out = out @ rest"
  by (induction rest out rule: wal_file_read_from.induct) (subst wal_file_read_from.simps, simp)

lemma wal_file_read_all_disk [simp]: "wal_file_read_all f = wf_disk f"
  by (simp add: wal_file_read_all_def wal_file_read_from_all)

section \<open>Records\<close>

text \<open>A record as the program means it, and the bytes it has in the file.\<close>

datatype wal_rec = RecEntry entry | RecState hard_state | RecSnap wal_snapshot

fun rec_type :: "wal_rec \<Rightarrow> byte" where
  "rec_type (RecEntry e) = wal_EntryType"
| "rec_type (RecState hs) = wal_StateType"
| "rec_type (RecSnap s) = wal_snapshot_Type"

fun rec_data :: "wal_lib \<Rightarrow> wal_rec \<Rightarrow> byte list" where
  "rec_data L (RecEntry e) = mp_pack (wl_entry L) e"
| "rec_data L (RecState hs) = mp_pack (wl_state L) hs"
| "rec_data L (RecSnap s) = mp_pack (wl_snap L) s"

definition rec_header :: "wal_lib \<Rightarrow> byte \<Rightarrow> byte list \<Rightarrow> wal_record" where
  "rec_header L type data = set_WAL_Record_len (cast32 (length data))
     \<lparr>wr_type = type, wr_len0 = 0, wr_len1 = 0, wr_len2 = 0, wr_crc = wl_crc L data\<rparr>"

definition rec_bytes :: "wal_lib \<Rightarrow> wal_rec \<Rightarrow> byte list" where
  "rec_bytes L r = wal_record_bytes (rec_header L (rec_type r) (rec_data L r)) @ rec_data L r"

definition wal_snapshot_fits :: "wal_snapshot \<Rightarrow> bool" where
  "wal_snapshot_fits s \<longleftrightarrow> ws_index s \<le> u64_max \<and> ws_term s \<le> u64_max"

definition wal_lib_ok :: "wal_lib \<Rightarrow> bool" where
  "wal_lib_ok L \<longleftrightarrow> msgpack_ok entry_fits (wl_entry L) \<and> msgpack_ok hard_state_fits (wl_state L) \<and>
     msgpack_ok wal_snapshot_fits (wl_snap L) \<and> (\<forall>d. wl_crc L d \<le> u32_max)"

text \<open>The record holds values of its C++ types and its data is short enough for the header.\<close>

definition rec_ok :: "wal_lib \<Rightarrow> wal_rec \<Rightarrow> bool" where
  "rec_ok L r \<longleftrightarrow> length (rec_data L r) \<le> MAX_WAL_RECORD_LEN \<and>
     (case r of RecEntry e \<Rightarrow> entry_fits e | RecState hs \<Rightarrow> hard_state_fits hs | RecSnap s \<Rightarrow> wal_snapshot_fits s)"

text \<open>The effect of a record when it is read again.\<close>

definition put_entry :: "u64 \<Rightarrow> entry \<Rightarrow> entry option list \<Rightarrow> entry option list" where
  "put_entry start e ents =
     (if e_index e > start then resize_ptrs (e_index e - start - 1) ents @ [Some e] else ents)"

fun rec_apply :: "wal_snapshot \<Rightarrow> wal_rec \<Rightarrow> wal_scan \<Rightarrow> wal_scan" where
  "rec_apply start (RecEntry e) s = s\<lparr>sc_ents := put_entry (ws_index start) e (sc_ents s), sc_enti := e_index e\<rparr>"
| "rec_apply start (RecState hs) s = s\<lparr>sc_hs := hs\<rparr>"
| "rec_apply start (RecSnap p) s = s\<lparr>sc_match := True\<rparr>"

text \<open>A snapshot record at the index where reading starts must have its term.\<close>

fun rec_agrees :: "wal_snapshot \<Rightarrow> wal_rec \<Rightarrow> bool" where
  "rec_agrees start (RecSnap p) = (ws_index p = ws_index start \<longrightarrow> ws_term p = ws_term start)"
| "rec_agrees start r = True"

lemma rec_type_valid [simp]: "rec_type r \<noteq> wal_InvalidType"
  by (cases r) (simp_all add: wal_type_defs)

lemma MAX_u32: "n \<le> MAX_WAL_RECORD_LEN \<Longrightarrow> n \<le> u32_max"
  by (simp add: MAX_WAL_RECORD_LEN_def u32_max_def)

lemma length_rec_bytes: "length (rec_bytes L r) = 8 + length (rec_data L r)"
  by (simp add: rec_bytes_def)

lemma rec_header_of:
  assumes "wal_lib_ok L" "rec_ok L r"
  shows "wal_record_of (wal_record_bytes (rec_header L (rec_type r) (rec_data L r))) = rec_header L (rec_type r) (rec_data L r)"
    "WAL_Record_len (rec_header L (rec_type r) (rec_data L r)) = length (rec_data L r)"
    "wr_type (rec_header L (rec_type r) (rec_data L r)) = rec_type r"
    "wr_crc (rec_header L (rec_type r) (rec_data L r)) = wl_crc L (rec_data L r)"
  using assms by (simp_all add: rec_header_def wal_record_of_bytes wal_lib_ok_def rec_ok_def MAX_u32)

lemma handle_record_spec:
  assumes L: "wal_lib_ok L" and r: "rec_ok L r" and a: "rec_agrees start r"
  shows "\<exists>s'. handle_record_wal_record L start (rec_type r) (rec_data L r) s = Inr s' \<and>
    (if rec_type r = wal_snapshot_Type then s'\<lparr>sc_match := True\<rparr> else s') = rec_apply start r s"
proof (cases r)
  case (RecEntry e)
  have "unpack_or_throw (wl_entry L) (mp_pack (wl_entry L) e) = Inr e" "e_index e \<le> u64_max"
    using L r RecEntry by (auto simp: wal_lib_ok_def rec_ok_def entry_fits_def intro: unpack_pack)
  then show ?thesis
    by (auto simp: RecEntry handle_record_wal_record_def put_entry_def wal_type_defs)
next
  case (RecState hs)
  have "unpack_or_throw (wl_state L) (mp_pack (wl_state L) hs) = Inr hs"
    using L r RecState by (auto simp: wal_lib_ok_def rec_ok_def intro: unpack_pack)
  then show ?thesis by (simp add: RecState handle_record_wal_record_def wal_type_defs)
next
  case (RecSnap p)
  have "unpack_or_throw (wl_snap L) (mp_pack (wl_snap L) p) = Inr p"
    using L r RecSnap by (auto simp: wal_lib_ok_def rec_ok_def intro: unpack_pack)
  then show ?thesis using a by (simp add: RecSnap handle_record_wal_record_def wal_type_defs)
qed

text \<open>Reading goes over a whole record.\<close>

lemma wal_scan_record:
  assumes L: "wal_lib_ok L" and r: "rec_ok L r" and a: "rec_agrees start r"
  shows "wal_scan_from L start (pre @ rec_bytes L r @ rest) (length pre) s =
    wal_scan_from L start (pre @ rec_bytes L r @ rest) (length pre + length (rec_bytes L r)) (rec_apply start r s)"
proof -
  let ?h = "rec_header L (rec_type r) (rec_data L r)"
  obtain s' where s': "handle_record_wal_record L start (rec_type r) (rec_data L r) s = Inr s'"
    "(if rec_type r = wal_snapshot_Type then s'\<lparr>sc_match := True\<rparr> else s') = rec_apply start r s"
    using handle_record_spec [OF assms] by blast
  have "take 8 (drop (length pre) (pre @ rec_bytes L r @ rest)) = wal_record_bytes ?h"
    "take (length (rec_data L r)) (drop (length pre + 8) (pre @ rec_bytes L r @ rest)) = rec_data L r"
    by (simp_all add: rec_bytes_def)
  then show ?thesis
    by (subst wal_scan_from.simps) (simp add: rec_header_of [OF L r] length_rec_bytes Let_def s' add.assoc)
qed

lemma wal_scan_records:
  assumes L: "wal_lib_ok L" and r: "\<forall>r \<in> set rs. rec_ok L r \<and> rec_agrees start r"
  shows "wal_scan_from L start (pre @ concat (map (rec_bytes L) rs) @ rest) (length pre) s =
    wal_scan_from L start (pre @ concat (map (rec_bytes L) rs) @ rest)
      (length pre + length (concat (map (rec_bytes L) rs))) (fold (rec_apply start) rs s)"
  using r
proof (induction rs arbitrary: pre s)
  case (Cons r rs)
  have "wal_scan_from L start (pre @ rec_bytes L r @ concat (map (rec_bytes L) rs) @ rest) (length pre) s =
      wal_scan_from L start (pre @ rec_bytes L r @ concat (map (rec_bytes L) rs) @ rest)
        (length pre + length (rec_bytes L r)) (rec_apply start r s)"
    using Cons.prems by (intro wal_scan_record [OF L]) auto
  then show ?case using Cons.IH [of "pre @ rec_bytes L r" "rec_apply start r s"] Cons.prems by (simp add: add.assoc)
qed simp

lemma wal_scan_end: "wal_scan_from L start data (length data) s = Inr s"
  by (subst wal_scan_from.simps) simp

text \<open>A record that is cut off ends the reading and is removed from the file.\<close>

lemma wal_scan_torn:
  assumes L: "wal_lib_ok L" and r: "rec_ok L r" and t: "tail = take k (rec_bytes L r)" "tail \<noteq> []"
    and k: "k < length (rec_bytes L r)"
  shows "wal_scan_from L start (pre @ tail) (length pre) s = wal_scan_truncate (length pre) s"
proof -
  let ?h = "rec_header L (rec_type r) (rec_data L r)"
  have len: "length tail = k" "0 < k" using t k by auto
  show ?thesis
  proof (cases "k < 8")
    case True
    then show ?thesis using len by (subst wal_scan_from.simps) simp
  next
    case False
    then have "take 8 (drop (length pre) (pre @ tail)) = wal_record_bytes ?h"
      by (simp add: t(1) rec_bytes_def)
    moreover have "k - 8 < length (rec_data L r)" using k False by (simp add: length_rec_bytes)
    ultimately show ?thesis using False len k
      by (subst wal_scan_from.simps) (simp add: rec_header_of [OF L r] length_rec_bytes Let_def)
  qed
qed

text \<open>So does a record whose checksum does not fit its data.\<close>

lemma wal_scan_damaged:
  assumes h: "wr_crc h \<le> u32_max" "wr_type h \<noteq> wal_InvalidType" "WAL_Record_len h = length d"
    and bad: "wr_crc h \<noteq> 0" "wl_crc L d \<noteq> wr_crc h"
  shows "wal_scan_from L start (pre @ wal_record_bytes h @ d @ rest) (length pre) s = wal_scan_truncate (length pre) s"
proof -
  have "take 8 (drop (length pre) (pre @ wal_record_bytes h @ d @ rest)) = wal_record_bytes h"
    "take (length d) (drop (length pre + 8) (pre @ wal_record_bytes h @ d @ rest)) = d"
    by simp_all
  then show ?thesis
    by (subst wal_scan_from.simps) (simp add: wal_record_of_bytes h bad Let_def)
qed

section \<open>Replaying records\<close>

definition replay_hs :: "wal_rec list \<Rightarrow> hard_state \<Rightarrow> hard_state" where
  "replay_hs rs = fold (\<lambda>r hs. case r of RecState hs' \<Rightarrow> hs' | _ \<Rightarrow> hs) rs"

definition replay_ents :: "u64 \<Rightarrow> wal_rec list \<Rightarrow> entry option list \<Rightarrow> entry option list" where
  "replay_ents start rs = fold (\<lambda>r ents. case r of RecEntry e \<Rightarrow> put_entry start e ents | _ \<Rightarrow> ents) rs"

lemma fold_rec_apply:
  "sc_hs (fold (rec_apply start) rs s) = replay_hs rs (sc_hs s)"
  "sc_ents (fold (rec_apply start) rs s) = replay_ents (ws_index start) rs (sc_ents s)"
  "sc_file (fold (rec_apply start) rs s) = sc_file s"
  "sc_match (fold (rec_apply start) rs s) \<longleftrightarrow> sc_match s \<or> (\<exists>p. RecSnap p \<in> set rs)"
proof (induction rs arbitrary: s)
  case (Cons r rs)
  { case 1 show ?case using Cons.IH(1) by (cases r) (simp_all add: replay_hs_def) }
  { case 2 show ?case using Cons.IH(2) by (cases r) (simp_all add: replay_ents_def) }
  { case 3 show ?case using Cons.IH(3) by (cases r) simp_all }
  { case 4 show ?case using Cons.IH(4) by (cases r) auto }
qed (simp_all add: replay_hs_def replay_ents_def)

lemma rec_bytes_not_Nil: "rec_bytes L r \<noteq> []"
  by (simp add: rec_bytes_def wal_record_bytes_def)

text \<open>
  Reading whole records and a piece of another: the records are replayed and the piece is cut
  off the file.
\<close>

lemma wal_scan_prefix:
  assumes L: "wal_lib_ok L" and rs: "\<forall>r \<in> set rs. rec_ok L r \<and> rec_agrees start r"
    and tail: "tail = [] \<or> (\<exists>r j. rec_ok L r \<and> j < length (rec_bytes L r) \<and> tail = take j (rec_bytes L r))"
    and disk: "wf_disk (sc_file s) = concat (map (rec_bytes L) rs) @ tail"
    and f: "wf_io_ok (sc_file s)" "wf_buffer (sc_file s) = []"
  shows "\<exists>f'. wal_scan_from L start (concat (map (rec_bytes L) rs) @ tail) 0 s = Inr ((fold (rec_apply start) rs s)\<lparr>sc_file := f'\<rparr>) \<and>
    wf_disk f' = concat (map (rec_bytes L) rs) \<and> wf_buffer f' = [] \<and> wf_io_ok f' \<and> wf_name f' = wf_name (sc_file s)"
proof -
  let ?c = "concat (map (rec_bytes L) rs)" and ?s = "fold (rec_apply start) rs s"
  have scan: "wal_scan_from L start (?c @ tail) 0 s = wal_scan_from L start (?c @ tail) (length ?c) ?s"
    using wal_scan_records [OF L rs, of "[]" tail s] by simp
  have same: "?s\<lparr>sc_file := sc_file s\<rparr> = ?s"
    using fold_rec_apply(3) [of start rs s] by (metis (no_types) wal_scan.surjective wal_scan.update_convs(5))
  show ?thesis
  proof (cases "tail = []")
    case True
    then have "wal_scan_from L start (?c @ tail) 0 s = Inr (?s\<lparr>sc_file := sc_file s\<rparr>)"
      unfolding scan same using wal_scan_end [of L start ?c ?s] by simp
    then show ?thesis using disk f True by (intro exI [of _ "sc_file s"]) simp
  next
    case False
    then obtain r j where "rec_ok L r" "j < length (rec_bytes L r)" "tail = take j (rec_bytes L r)"
      using tail by blast
    note torn = wal_scan_torn [OF L this(1,3) False this(2), of start ?c ?s]
    show ?thesis unfolding scan torn using disk f
      by (intro exI [of _ "(sc_file s)\<lparr>wf_disk := ?c, wf_size := int (length ?c), wf_buffer := []\<rparr>"])
        (simp add: wal_scan_truncate_def wal_file_truncate_def fold_rec_apply(3))
  qed
qed

text \<open>Reading a file that was cut off at byte \<open>k\<close>, after the snapshot record it starts with.\<close>

lemma wal_scan_file_prefix:
  assumes L: "wal_lib_ok L" and rs: "\<forall>r \<in> set rs. rec_ok L r \<and> rec_agrees start r"
    and first: "rs = RecSnap p # rs'" and k: "length (rec_bytes L (RecSnap p)) \<le> k"
    and disk: "wf_disk (sc_file s) = take k (concat (map (rec_bytes L) rs))"
    and f: "wf_io_ok (sc_file s)" "wf_buffer (sc_file s) = []"
  shows "\<exists>n s'. n \<le> length rs \<and> length (concat (map (rec_bytes L) (take n rs))) \<le> k \<and>
    (n < length rs \<longrightarrow> k < length (concat (map (rec_bytes L) (take (Suc n) rs)))) \<and>
    wal_scan_file L start s = Inr s' \<and>
    sc_hs s' = replay_hs (take n rs) (sc_hs s) \<and> sc_ents s' = replay_ents (ws_index start) (take n rs) (sc_ents s) \<and>
    wf_disk (sc_file s') = concat (map (rec_bytes L) (take n rs)) \<and> wf_buffer (sc_file s') = [] \<and>
    wf_io_ok (sc_file s') \<and> wf_name (sc_file s') = wf_name (sc_file s)"
proof -
  let ?c = "\<lambda>n. concat (map (rec_bytes L) (take n rs))" and ?s0 = "s\<lparr>sc_match := False\<rparr>"
  obtain n tail where n: "n \<le> length rs" "take k (concat (map (rec_bytes L) rs)) = ?c n @ tail" "length (?c n) \<le> k"
      "n < length rs \<longrightarrow> k < length (?c (Suc n))"
    and tail: "tail = [] \<or> n < length rs \<and> (\<exists>j < length (rec_bytes L (rs ! n)). tail = take j (rec_bytes L (rs ! n)))"
    using take_concat_frames [where f = "rec_bytes L" and rs = rs and k = k, OF rec_bytes_not_Nil] by blast
  have "0 < n" using n(4) first k by (cases n) auto
  then have snap: "RecSnap p \<in> set (take n rs)" using first by (cases n) auto
  have ok: "\<forall>r \<in> set (take n rs). rec_ok L r \<and> rec_agrees start r" using rs by (meson in_set_takeD)
  have tail': "tail = [] \<or> (\<exists>r j. rec_ok L r \<and> j < length (rec_bytes L r) \<and> tail = take j (rec_bytes L r))"
    using tail rs nth_mem by blast
  have d0: "wf_disk (sc_file ?s0) = ?c n @ tail" "wf_io_ok (sc_file ?s0)" "wf_buffer (sc_file ?s0) = []"
    using disk n(2) f by simp_all
  obtain f' where f': "wal_scan_from L start (?c n @ tail) 0 ?s0 = Inr ((fold (rec_apply start) (take n rs) ?s0)\<lparr>sc_file := f'\<rparr>)"
    "wf_disk f' = ?c n" "wf_buffer f' = []" "wf_io_ok f'" "wf_name f' = wf_name (sc_file s)"
    using wal_scan_prefix [OF L ok tail' d0] by auto
  let ?s' = "(fold (rec_apply start) (take n rs) ?s0)\<lparr>sc_file := f'\<rparr>"
  have "wal_scan_file L start s = Inr ?s'"
    using snap by (auto simp: wal_scan_file_def disk n(2) f'(1) fold_rec_apply(4))
  moreover have "sc_hs ?s' = replay_hs (take n rs) (sc_hs s)" "sc_ents ?s' = replay_ents (ws_index start) (take n rs) (sc_ents s)"
    "sc_file ?s' = f'" by (simp_all add: fold_rec_apply)
  ultimately show ?thesis using n f'(2-5) by (intro exI [of _ n] exI [of _ ?s']) simp
qed

section \<open>Writing records\<close>

text \<open>The bytes of the file that is written to, on disk and in memory.\<close>

definition file_bytes :: "wal_file \<Rightarrow> byte list" where
  "file_bytes f = wf_disk f @ wf_buffer f"

lemma wal_file_append_record:
  "wal_file_append L (rec_type r) (rec_data L r) f = f\<lparr>wf_buffer := wf_buffer f @ rec_bytes L r\<rparr>"
  by (simp add: wal_file_append_def rec_bytes_def rec_header_def Let_def)

lemma wal_file_sync_spec:
  assumes "wf_io_ok f"
  shows "\<exists>f'. wal_file_sync f = Inr f' \<and> file_bytes f' = file_bytes f \<and> wf_buffer f' = [] \<and> wf_io_ok f' \<and>
    wf_name f' = wf_name f \<and> wf_seq f' = wf_seq f"
  using assms by (auto simp: wal_file_sync_def file_bytes_def)

text \<open>The records of one call of \<open>save\<close>.\<close>

definition save_recs :: "hard_state \<Rightarrow> entry list \<Rightarrow> wal_rec list" where
  "save_recs hs ents = map RecEntry ents @ (if hard_state_is_empty hs then [] else [RecState hs])"

lemma wal_save_entries:
  assumes "w_files w = fs @ [f]"
  shows "\<exists>w'. for_each (wal_save_entry L) ents w = Inr w' \<and> w_state w' = w_state w \<and> w_start w' = w_start w \<and>
    w_files w' = fs @ [f\<lparr>wf_buffer := wf_buffer f @ concat (map (rec_bytes L \<circ> RecEntry) ents)\<rparr>]"
  using assms
proof (induction ents arbitrary: w f)
  case (Cons e es)
  let ?f = "f\<lparr>wf_buffer := wf_buffer f @ rec_bytes L (RecEntry e)\<rparr>"
  let ?w = "w\<lparr>w_files := fs @ [?f], w_enti := e_index e\<rparr>"
  have "wal_save_entry L e w = Inr ?w"
    using Cons.prems wal_file_append_record [of L "RecEntry e" f] by (simp add: wal_save_entry_def wal_on_back_def)
  then show ?case using Cons.IH [of ?w ?f] by simp
qed simp

lemma wal_save_spec:
  assumes w: "w_files w = fs @ [f]" and io: "wf_io_ok f"
  shows "\<exists>w' f'. wal_save L hs ents w = Inr (StatusOK, w') \<and> w_files w' = fs @ [f'] \<and>
    file_bytes f' = file_bytes f @ concat (map (rec_bytes L) (save_recs hs ents)) \<and>
    wf_io_ok f' \<and> wf_name f' = wf_name f \<and> w_start w' = w_start w \<and>
    w_state w' = (if hard_state_is_empty hs then w_state w else hs) \<and>
    (if hard_state_is_empty hs \<and> ents = [] then f' = f
     else is_must_sync hs (w_state w) (length ents) \<longrightarrow> wf_buffer f' = []) \<and>
    (wf_buffer f' = [] \<or> wf_disk f' = wf_disk f)"
proof (cases "hard_state_is_empty hs \<and> ents = []")
  case True
  then show ?thesis using w io by (simp add: wal_save_def save_recs_def)
next
  case False
  obtain w1 where w1: "for_each (wal_save_entry L) ents w = Inr w1" "w_state w1 = w_state w" "w_start w1 = w_start w"
    "w_files w1 = fs @ [f\<lparr>wf_buffer := wf_buffer f @ concat (map (rec_bytes L \<circ> RecEntry) ents)\<rparr>]"
    using wal_save_entries [OF w] by blast
  let ?f2 = "f\<lparr>wf_buffer := wf_buffer f @ concat (map (rec_bytes L) (save_recs hs ents))\<rparr>"
  have "\<exists>w2. wal_save_hard_state L hs w1 = Inr w2 \<and> w_files w2 = fs @ [?f2] \<and> w_start w2 = w_start w \<and>
      w_state w2 = (if hard_state_is_empty hs then w_state w else hs)"
    using w1(2-4) wal_file_append_record [of L "RecState hs"]
    by (simp add: wal_save_hard_state_def save_recs_def wal_on_back_def)
  then obtain w2 where w2: "wal_save_hard_state L hs w1 = Inr w2" "w_files w2 = fs @ [?f2]" "w_start w2 = w_start w"
    "w_state w2 = (if hard_state_is_empty hs then w_state w else hs)" by blast
  obtain f' where f': "wal_file_sync ?f2 = Inr f'" "file_bytes f' = file_bytes ?f2" "wf_buffer f' = []" "wf_io_ok f'"
    "wf_name f' = wf_name ?f2"
    using wal_file_sync_spec [of ?f2] io by auto
  have sync: "wal_on_back wal_file_sync w2 = Inr (w2\<lparr>w_files := fs @ [f']\<rparr>)"
    using w2(2) f'(1) by (simp add: wal_on_back_def)
  have bytes: "file_bytes ?f2 = file_bytes f @ concat (map (rec_bytes L) (save_recs hs ents))"
    by (simp add: file_bytes_def)
  have "wal_save L hs ents w =
      (if wf_size ?f2 < SegmentSizeBytes \<and> \<not> is_must_sync hs (w_state w) (length ents)
       then Inr (StatusOK, w2) else Inr (StatusOK, w2\<lparr>w_files := fs @ [f']\<rparr>))"
    unfolding wal_save_def if_not_P [OF False] using w1(1) w2(1,2) sync by (simp add: wal_cut_def Let_def)
  then show ?thesis using False w2 f' io bytes by (auto split: if_splits)
qed

section \<open>Creating and opening the log\<close>

definition first_name :: string where "first_name = wal_name 0 0"

lemma ext_wal_name:
  assumes "ext_ok ext" "s \<le> u64_max" "i \<le> u64_max"
  shows "ext (wal_name s i) = ''.wal''"
  using parse_wal_name_spec [OF assms] by (auto simp: parse_wal_name_def split: if_splits)

lemma wal_create_spec:
  assumes "tell [] \<noteq> - 1"
  shows "wal_create L tell True [] = Inr [(first_name, rec_bytes L (RecSnap \<lparr>ws_index = 0, ws_term = 0\<rparr>))]"
proof -
  let ?r = "RecSnap \<lparr>ws_index = 0, ws_term = 0\<rparr>"
  note app = wal_file_append_record [of L ?r, unfolded rec_type.simps rec_data.simps]
  show ?thesis using assms rec_bytes_not_Nil [of L ?r]
    by (simp add: wal_create_def wal_file_open_def app wal_file_sync_def first_name_def)
qed

lemma wal_open_spec:
  assumes ext: "ext_ok ext" and tell: "tell bytes \<noteq> - 1"
  shows "wal_open ext tell True [(first_name, bytes)] snap = Inr \<lparr>w_state = new_hard_state, w_start = snap, w_enti = 0,
    w_files = [\<lparr>wf_name = first_name, wf_seq = 0, wf_buffer = [], wf_disk = bytes, wf_size = tell bytes, wf_io_ok = True\<rparr>]\<rparr>"
proof -
  have p: "parse_wal_name ext first_name = (True, 0, 0)" "ext first_name = ''.wal''"
    using parse_wal_name_spec [OF ext] ext_wal_name [OF ext] by (simp_all add: first_name_def)
  then show ?thesis using tell
    by (simp add: wal_open_def get_wal_names_def search_index_def is_valid_seq_def wal_open_file_def wal_file_open_def Let_def)
qed

text \<open>
  Opening a log of one file that was cut off at byte \<open>k\<close> and reading it: the records that are
  complete, and no others, are replayed, and the file is left with exactly these.
\<close>

lemma wal_reopen:
  assumes L: "wal_lib_ok L" and ext: "ext_ok ext" and tell: "\<forall>b. tell b \<noteq> - 1"
    and rs: "\<forall>r \<in> set rs. rec_ok L r \<and> rec_agrees start r"
    and first: "rs = RecSnap p # rs'" and k: "length (rec_bytes L (RecSnap p)) \<le> k"
  shows "\<exists>n w f. n \<le> length rs \<and> length (concat (map (rec_bytes L) (take n rs))) \<le> k \<and>
    (n < length rs \<longrightarrow> k < length (concat (map (rec_bytes L) (take (Suc n) rs)))) \<and>
    bindr (wal_open ext tell True [(first_name, take k (concat (map (rec_bytes L) rs)))] start) (wal_read_all L new_hard_state []) =
      Inr (StatusOK, replay_hs (take n rs) new_hard_state, replay_ents (ws_index start) (take n rs) [], w) \<and>
    w_files w = [f] \<and> wf_name f = first_name \<and> wf_io_ok f \<and> wf_disk f = concat (map (rec_bytes L) (take n rs)) \<and> wf_buffer f = [] \<and>
    w_state w = new_hard_state"
proof -
  let ?b = "take k (concat (map (rec_bytes L) rs))"
  let ?f = "\<lparr>wf_name = first_name, wf_seq = 0, wf_buffer = [], wf_disk = ?b, wf_size = tell ?b, wf_io_ok = True\<rparr>"
  let ?s = "\<lparr>sc_match = False, sc_hs = new_hard_state, sc_ents = [], sc_enti = 0, sc_file = ?f\<rparr>"
  obtain n s' where n: "n \<le> length rs" "length (concat (map (rec_bytes L) (take n rs))) \<le> k"
    "n < length rs \<longrightarrow> k < length (concat (map (rec_bytes L) (take (Suc n) rs)))"
    and s': "wal_scan_file L start ?s = Inr s'" "sc_hs s' = replay_hs (take n rs) new_hard_state"
      "sc_ents s' = replay_ents (ws_index start) (take n rs) []"
      "wf_disk (sc_file s') = concat (map (rec_bytes L) (take n rs))" "wf_buffer (sc_file s') = []"
      "wf_io_ok (sc_file s')" "wf_name (sc_file s') = first_name"
    using wal_scan_file_prefix [OF L rs first k, of ?s] by auto
  show ?thesis
    unfolding wal_open_spec [OF ext tell [rule_format]]
    by (rule exI [of _ n], rule exI [of _ "\<lparr>w_state = new_hard_state, w_start = start, w_enti = sc_enti s', w_files = [sc_file s']\<rparr>"],
        rule exI [of _ "sc_file s'"]) (use n s' in \<open>simp add: wal_read_all_def\<close>)
qed

section \<open>The log and the memory storage\<close>

text \<open>Batches of entries as the raft node hands them out, and the log they build up.\<close>

type_synonym batch = "hard_state \<times> entry list"

fun batch_log :: "batch list \<Rightarrow> alog \<Rightarrow> alog" where
  "batch_log [] a = a"
| "batch_log ((hs, es) # bs) a = batch_log bs (if es = [] then a else alog_splice a (e_index (hd es)) es)"

fun batches_ok :: "batch list \<Rightarrow> alog \<Rightarrow> bool" where
  "batches_ok [] a = True"
| "batches_ok ((hs, es) # bs) a =
     ((es \<noteq> [] \<longrightarrow> al_base a < e_index (hd es) \<and> e_index (hd es) \<le> Suc (alog_last a) \<and>
        contig (e_index (hd es)) es \<and> e_index (hd es) + length es \<le> u64_max) \<and>
      batches_ok bs (if es = [] then a else alog_splice a (e_index (hd es)) es))"

definition batch_recs :: "batch list \<Rightarrow> wal_rec list" where
  "batch_recs bs = concat (map (\<lambda>(hs, es). save_recs hs es) bs)"

lemma put_entry_in:
  "start < e_index e \<Longrightarrow> e_index e \<le> Suc (start + length ents) \<Longrightarrow>
   put_entry start e ents = take (e_index e - Suc start) ents @ [Some e]"
  by (simp add: put_entry_def resize_ptrs_def)

lemma replay_entries:
  "contig i es \<Longrightarrow> start < i \<Longrightarrow> i \<le> Suc (start + length ents) \<Longrightarrow>
   replay_ents start (map RecEntry es) ents = (if es = [] then ents else take (i - Suc start) ents @ map Some es)"
proof (induction es arbitrary: i ents)
  case (Cons e es)
  let ?ents = "take (i - Suc start) ents @ [Some e]"
  have "put_entry start e ents = ?ents" using Cons.prems by (simp add: put_entry_in)
  then have "replay_ents start (map RecEntry (e # es)) ents = replay_ents start (map RecEntry es) ?ents"
    by (simp add: replay_ents_def)
  also have "\<dots> = (if es = [] then ?ents else take (Suc i - Suc start) ?ents @ map Some es)"
    using Cons.prems by (intro Cons.IH) auto
  also have "\<dots> = take (i - Suc start) ents @ map Some (e # es)"
    using Cons.prems by auto
  finally show ?case by simp
qed (simp add: replay_ents_def)

lemma replay_ents_append: "replay_ents s (xs @ ys) ents = replay_ents s ys (replay_ents s xs ents)"
  by (simp add: replay_ents_def)

lemma replay_ents_save:
  assumes "es \<noteq> [] \<longrightarrow> start < i \<and> i \<le> Suc (start + length ents) \<and> contig i es"
  shows "replay_ents start (save_recs hs es) ents = (if es = [] then ents else take (i - Suc start) ents @ map Some es)"
proof -
  have "replay_ents start (if hard_state_is_empty hs then [] else [RecState hs]) x = x" for x
    by (simp add: replay_ents_def)
  then have "replay_ents start (save_recs hs es) ents = replay_ents start (map RecEntry es) ents"
    by (simp add: save_recs_def replay_ents_append)
  then show ?thesis using replay_entries [of i es start ents] assms by (cases "es = []") (simp_all add: replay_ents_def)
qed

lemma replay_batches:
  "batches_ok bs a \<Longrightarrow>
   replay_ents (al_base a) (batch_recs bs) (map Some (al_ents a)) = map Some (al_ents (batch_log bs a))"
proof (induction bs a rule: batches_ok.induct)
  case (2 hs es bs a)
  let ?a = "if es = [] then a else alog_splice a (e_index (hd es)) es"
  have "replay_ents (al_base a) (save_recs hs es) (map Some (al_ents a)) = map Some (al_ents ?a)"
    using "2.prems" replay_ents_save [of es "al_base a" "e_index (hd es)" "map Some (al_ents a)"]
    by (auto simp: alog_last_def alog_splice_def take_map)
  moreover have "al_base ?a = al_base a" by simp
  ultimately show ?case using 2 by (simp add: batch_recs_def replay_ents_append)
qed (simp add: batch_recs_def replay_ents_def)

lemma storage_batches:
  "storage_wf ms \<Longrightarrow> batches_ok bs (storage_abs ms) \<Longrightarrow>
   \<exists>ms'. for_each (\<lambda>(hs, es) ms. bindr (storage_append es ms) (\<lambda>(s, ms). Inr ms)) bs ms = Inr ms' \<and>
     storage_wf ms' \<and> storage_abs ms' = batch_log bs (storage_abs ms)"
proof (induction bs arbitrary: ms)
  case (Cons b bs)
  obtain hs es where b: "b = (hs, es)" by fastforce
  have "\<exists>ms1. storage_append es ms = Inr (StatusOK, ms1) \<and> storage_wf ms1 \<and>
      storage_abs ms1 = (if es = [] then storage_abs ms else alog_splice (storage_abs ms) (e_index (hd es)) es)"
  proof (cases "es = []")
    case True
    then show ?thesis using Cons.prems by (simp add: storage_append_def)
  next
    case False
    then show ?thesis using storage_append_refines [OF Cons.prems(1), of "e_index (hd es)" es] Cons.prems(2)
      by (auto simp: b)
  qed
  then obtain ms1 where "storage_append es ms = Inr (StatusOK, ms1)" "storage_wf ms1"
    "storage_abs ms1 = (if es = [] then storage_abs ms else alog_splice (storage_abs ms) (e_index (hd es)) es)" by blast
  with Cons.IH [of ms1] Cons.prems(2) show ?case by (simp add: b)
qed simp

text \<open>Saving batches one after the other adds their records to the file.\<close>

definition wal_save_batch :: "wal_lib \<Rightarrow> batch \<Rightarrow> wal \<Rightarrow> wal res" where
  "wal_save_batch L b w = bindr (wal_save L (fst b) (snd b) w) (\<lambda>(s, w). Inr w)"

lemma wal_save_batches:
  assumes "w_files w = fs @ [f]" "wf_io_ok f"
  shows "\<exists>w' f'. for_each (wal_save_batch L) bs w = Inr w' \<and> w_files w' = fs @ [f'] \<and> wf_io_ok f' \<and>
    wf_name f' = wf_name f \<and> w_start w' = w_start w \<and>
    file_bytes f' = file_bytes f @ concat (map (rec_bytes L) (batch_recs bs))"
  using assms
proof (induction bs arbitrary: w f)
  case (Cons b bs)
  obtain hs es where b: "b = (hs, es)" by fastforce
  obtain w1 f1 where 1: "wal_save L hs es w = Inr (StatusOK, w1)" "w_files w1 = fs @ [f1]" "wf_io_ok f1"
    "file_bytes f1 = file_bytes f @ concat (map (rec_bytes L) (save_recs hs es))" "w_start w1 = w_start w" "wf_name f1 = wf_name f"
    using wal_save_spec [OF Cons.prems] by blast
  from Cons.IH [OF 1(2,3)] 1 show ?case by (simp add: b wal_save_batch_def batch_recs_def)
qed (simp add: batch_recs_def)

end
