(* ===== verification/Snapshotter.thy ===== *)
theory Snapshotter
  imports File_Names Codec
begin

text \<open>
  Snapshot files: \<open>src/raft-kv/snap/snapshotter.h\<close> and \<open>snapshotter.cpp\<close>. The directory is the
  list of its files in the order of iteration. The directory names the program uses have at most
  30 characters, so the path always fits the 128 characters of \<open>save_path\<close>.

  \<open>MSGPACK_DEFINE\<close> of \<open>Snapshot\<close> and \<open>SnapshotMetadata\<close> (\<open>proto.h\<close>) names the fields that are
  written: the data, the index and the term, but not the configuration.
\<close>

section \<open>Operations\<close>

type_synonym snapshot_fields = "byte list \<times> u64 \<times> u64"

definition snapshot_packed :: "snapshot \<Rightarrow> snapshot_fields" where
  "snapshot_packed s = (snap_data s, sm_index (snap_metadata s), sm_term (snap_metadata s))"

text \<open>\<open>convert\<close> into an existing object.\<close>

definition snapshot_convert :: "snapshot_fields \<Rightarrow> snapshot \<Rightarrow> snapshot" where
  "snapshot_convert = (\<lambda>(d, i, t) s.
     s\<lparr>snap_data := d, snap_metadata := (snap_metadata s)\<lparr>sm_index := i, sm_term := t\<rparr>\<rparr>)"

text \<open>\<open>sl_residue\<close>: what a conversion that throws leaves in the object.\<close>

record snap_lib =
  sl_crc :: "byte list \<Rightarrow> u32"
  sl_snapshot :: "snapshot_fields msgpack"
  sl_residue :: "byte list \<Rightarrow> snapshot \<Rightarrow> snapshot"

type_synonym snap_dir = "(string \<times> byte list) list"

text \<open>
  The result of the file operations of \<open>save_snap\<close>: \<open>fopen\<close> fails with a message, or \<open>fwrite\<close>
  writes a number of bytes (all of them if it can) and otherwise fails with a message.
\<close>

datatype save_io = OpenFails string | Writes nat string

definition save_snap :: "snap_lib \<Rightarrow> save_io \<Rightarrow> snapshot \<Rightarrow> snap_dir \<Rightarrow> status \<times> snap_dir" where
  "save_snap L io snap dir =
     (let sbuf = mp_pack (sl_snapshot L) (snapshot_packed snap);
          data_len = cast32 (length sbuf);
          rec = le32 data_len @ le32 (sl_crc L sbuf) @ sbuf;
          name = snap_name (sm_term (snap_metadata snap)) (sm_index (snap_metadata snap))
      in
      case io of
        OpenFails err \<Rightarrow> (IOError err, dir)
      | Writes n err \<Rightarrow>
          let bytes = 8 + data_len; written = min n bytes in
          ((if written \<noteq> bytes then IOError err else StatusOK), AList.update name (take written rec) dir))"

definition get_snap_names :: "(string \<Rightarrow> string) \<Rightarrow> snap_dir \<Rightarrow> string list" where
  "get_snap_names ext dir = rev (sort (filter (\<lambda>name. ext name = ''.snap'') (map fst dir)))"

text \<open>The checks of \<open>load_snap\<close> up to the conversion: the data of a file that passes them.\<close>

definition snap_file_data :: "snap_lib \<Rightarrow> byte list \<Rightarrow> byte list option" where
  "snap_file_data L bytes =
     (if length bytes < 8 then None
      else
        let data_len = of_le32 (take 4 bytes); crc32 = of_le32 (take 4 (drop 4 bytes)) in
        if data_len = 0 \<or> crc32 = 0 then None
        else
          let data = take data_len (drop 8 bytes) in
          if length data \<noteq> data_len then None
          else if sl_crc L data \<noteq> crc32 then None
          else Some data)"

text \<open>A broken file is renamed, replacing an earlier one of that name.\<close>

definition snap_broken :: "string \<Rightarrow> byte list \<Rightarrow> snap_dir \<Rightarrow> snap_dir" where
  "snap_broken filename bytes dir = AList.update (filename @ ''.broken'') bytes (AList.delete filename dir)"

definition load_snap ::
  "snap_lib \<Rightarrow> string \<Rightarrow> snapshot \<Rightarrow> snap_dir \<Rightarrow> (status \<times> snapshot \<times> snap_dir) res" where
  "load_snap L filename snap dir =
     (case map_of dir filename of
        None \<Rightarrow> Inl (Fatal ''rename: no such file'')
      | Some bytes \<Rightarrow>
        let invalid = (\<lambda>s. Inr (IOError ''unexpected empty snapshot'', s, snap_broken filename bytes dir)) in
        (case snap_file_data L bytes of
           None \<Rightarrow> invalid snap
         | Some data \<Rightarrow>
             (case mp_unpack (sl_snapshot L) data of
                None \<Rightarrow> invalid (sl_residue L data snap)
              | Some x \<Rightarrow> Inr (StatusOK, snapshot_convert x snap, dir))))"

fun load_from :: "snap_lib \<Rightarrow> string list \<Rightarrow> snapshot \<Rightarrow> snap_dir \<Rightarrow> (status \<times> snapshot \<times> snap_dir) res" where
  "load_from L [] snap dir = Inr (NotFound ''snap not found'', snap, dir)"
| "load_from L (filename # names) snap dir =
     bindr (load_snap L filename snap dir) (\<lambda>(s, snap, dir).
     if is_ok s then Inr (StatusOK, snap, dir) else load_from L names snap dir)"

definition snapshotter_load ::
  "snap_lib \<Rightarrow> (string \<Rightarrow> string) \<Rightarrow> snapshot \<Rightarrow> snap_dir \<Rightarrow> (status \<times> snapshot \<times> snap_dir) res" where
  "snapshotter_load L ext snap dir = load_from L (get_snap_names ext dir) snap dir"

section \<open>What a file holds\<close>

text \<open>The snapshot in a file, if \<open>load_snap\<close> accepts it.\<close>

definition snap_content :: "snap_lib \<Rightarrow> byte list \<Rightarrow> snapshot_fields option" where
  "snap_content L bytes =
     (case snap_file_data L bytes of None \<Rightarrow> None | Some d \<Rightarrow> mp_unpack (sl_snapshot L) d)"

definition snapshot_fields_fit :: "snapshot_fields \<Rightarrow> bool" where
  "snapshot_fields_fit = (\<lambda>(d, i, t). i \<le> u64_max \<and> t \<le> u64_max)"

text \<open>
  What is documented of the libraries: values survive packing, the checksum has 32 bits, and a
  conversion writes no fields but those it is defined for.
\<close>

definition snapshot_conf :: "snapshot \<Rightarrow> conf_state" where
  "snapshot_conf s = sm_conf_state (snap_metadata s)"

definition snap_lib_ok :: "snap_lib \<Rightarrow> bool" where
  "snap_lib_ok L \<longleftrightarrow> msgpack_ok snapshot_fields_fit (sl_snapshot L) \<and> (\<forall>d. sl_crc L d \<le> u32_max) \<and>
     (\<forall>d s. snapshot_conf (sl_residue L d s) = snapshot_conf s)"

lemma snapshot_conf_convert [simp]: "snapshot_conf (snapshot_convert x s) = snapshot_conf s"
  by (cases x) (simp add: snapshot_conf_def snapshot_convert_def)

lemma load_snap_spec:
  assumes "map_of dir name = Some bytes" "snap_lib_ok L"
  shows "case snap_content L bytes of
      Some x \<Rightarrow> load_snap L name snap dir = Inr (StatusOK, snapshot_convert x snap, dir)
    | None \<Rightarrow> \<exists>snap'. load_snap L name snap dir = Inr (IOError ''unexpected empty snapshot'', snap', snap_broken name bytes dir) \<and>
        snapshot_conf snap' = snapshot_conf snap"
  using assms by (auto simp: load_snap_def snap_content_def snap_lib_ok_def Let_def split: option.splits)

text \<open>A file written completely is accepted, unless its checksum happens to be zero.\<close>

lemma snap_content_saved:
  assumes ok: "msgpack_ok snapshot_fields_fit (sl_snapshot L)" and fit: "snapshot_fields_fit x"
    and crc: "sl_crc L d \<le> u32_max" "sl_crc L d \<noteq> 0" and d: "d = mp_pack (sl_snapshot L) x" "d \<noteq> []" "length d \<le> u32_max"
  shows "snap_content L (le32 (cast32 (length d)) @ le32 (sl_crc L d) @ d) = Some x"
proof -
  have "mp_unpack (sl_snapshot L) d = Some x" using ok fit d(1) by (simp add: msgpack_okD)
  then show ?thesis using crc d by (simp add: snap_content_def snap_file_data_def Let_def)
qed

section \<open>Choosing the newest one\<close>

lemma snap_broken_keeps:
  assumes "name' \<noteq> name" "name' \<noteq> name @ ''.broken''"
  shows "map_of (snap_broken name bytes dir) name' = map_of dir name'"
  using assms by (simp add: snap_broken_def update_conv' delete_conv)

text \<open>Files whose snapshot is not accepted are renamed until one is.\<close>

definition snap_accepted :: "snap_lib \<Rightarrow> snap_dir \<Rightarrow> string \<Rightarrow> bool" where
  "snap_accepted L dir n \<longleftrightarrow> snap_content L (the (map_of dir n)) \<noteq> None"

lemma load_from_spec:
  assumes L: "snap_lib_ok L"
    and "\<forall>n \<in> set names. map_of dir n \<noteq> None" "distinct names" "\<forall>n \<in> set names. \<forall>m. n \<noteq> m @ ''.broken''"
  shows "case find (snap_accepted L dir) names of
      None \<Rightarrow> \<exists>snap' dir'. load_from L names snap dir = Inr (NotFound ''snap not found'', snap', dir') \<and>
        snapshot_conf snap' = snapshot_conf snap
    | Some n \<Rightarrow> \<exists>snap' dir'. load_from L names snap dir =
          Inr (StatusOK, snapshot_convert (the (snap_content L (the (map_of dir n)))) snap', dir') \<and>
        snapshot_conf snap' = snapshot_conf snap \<and> map_of dir' n = map_of dir n"
  using assms(2-)
proof (induction names arbitrary: snap dir)
  case (Cons n names)
  then obtain bytes where b: "map_of dir n = Some bytes" by auto
  show ?case
  proof (cases "snap_accepted L dir n")
    case True
    then have "load_snap L n snap dir = Inr (StatusOK, snapshot_convert (the (snap_content L bytes)) snap, dir)"
      using load_snap_spec [OF b L, of snap] b by (auto simp: snap_accepted_def)
    then show ?thesis using True b by (auto intro!: exI [of _ snap])
  next
    case False
    then have "snap_content L bytes = None" using b by (simp add: snap_accepted_def del: not_None_eq)
    then obtain snap1 where l: "load_snap L n snap dir = Inr (IOError ''unexpected empty snapshot'', snap1, snap_broken n bytes dir)"
      "snapshot_conf snap1 = snapshot_conf snap"
      using load_snap_spec [OF b L, of snap] by auto
    let ?dir = "snap_broken n bytes dir"
    have same: "map_of ?dir m = map_of dir m" if "m \<in> set names" for m
      using Cons.prems that by (intro snap_broken_keeps) auto
    have f: "find (snap_accepted L ?dir) names = find (snap_accepted L dir) names"
      using same by (intro find_cong) (auto simp: snap_accepted_def)
    have "find (snap_accepted L dir) names = Some m \<Longrightarrow> m \<in> set names" for m
      by (auto simp: find_Some_iff)
    then show ?thesis using Cons.IH [of ?dir snap1] l False f same Cons.prems
      by (simp split: option.splits)
  qed
qed simp

lemma find_rev_sort_Max:
  fixes xs :: "string list"
  assumes "find P (rev (sort xs)) = Some n" "m \<in> set xs" "P m"
  shows "m \<le> n"
proof -
  from assms(1) obtain i where i: "i < length xs" "n = rev (sort xs) ! i" "\<forall>j < i. \<not> P (rev (sort xs) ! j)"
    by (auto simp: find_Some_iff)
  from assms(2) obtain k where k: "k < length xs" "m = rev (sort xs) ! k"
    by (metis in_set_conv_nth length_rev length_sort set_rev set_sort)
  with i assms(3) have "i \<le> k" by (metis not_le)
  with i(1,2) k show ?thesis by (auto simp: rev_nth intro: sorted_nth_mono)
qed

end
