(* ===== verification/Glob.thy ===== *)
theory Glob
  imports Prelude
begin

text \<open>
  The pattern matching of the command \<open>keys\<close>: \<open>string_match_len\<close> in
  \<open>src/raft-kv/server/redis_store.cpp\<close>. Pattern and string are pointers with a length into
  buffers that end with a NUL character; the model keeps the remaining characters. Reading the
  character after the last one gives NUL; reading further is undefined. The characters are signed
  where they are compared as numbers.
\<close>

section \<open>The matcher\<close>

definition NUL :: char where "NUL = CHR 0x00"

definition pat_at :: "string \<Rightarrow> nat \<Rightarrow> char res" where
  "pat_at p i = (if i < length p then Inr (p ! i) else if i = length p then Inr NUL else Inl (Undefined ''pattern[i]''))"

definition signed_char :: "char \<Rightarrow> int" where
  "signed_char c = (let n = of_char c in if n < 128 then n else n - 256)"

text \<open>\<open>tolower\<close> in the default locale.\<close>

definition to_lower :: "int \<Rightarrow> int" where
  "to_lower n = (if 65 \<le> n \<and> n \<le> 90 then n + 32 else n)"

definition char_equal :: "bool \<Rightarrow> char \<Rightarrow> char \<Rightarrow> bool" where
  "char_equal nocase a b \<longleftrightarrow>
     (if \<not> nocase then a = b else to_lower (signed_char a) = to_lower (signed_char b))"

definition range_contains :: "bool \<Rightarrow> char \<Rightarrow> char \<Rightarrow> char \<Rightarrow> bool" where
  "range_contains nocase p0 p2 s0 \<longleftrightarrow>
     (let start = signed_char p0; end' = signed_char p2; c = signed_char s0;
          (start, end') = (if start > end' then (end', start) else (start, end'));
          (start, end', c) = (if nocase then (to_lower start, to_lower end', to_lower c) else (start, end', c))
      in c \<ge> start \<and> c \<le> end')"

text \<open>
  The loop over a bracket expression. The result is whether \<open>c\<close> was matched and the pattern after
  the \<open>pattern++\<close> that ends the case: behind the closing bracket, or at the end of the pattern
  when there is none (the loop then steps one character back first).
\<close>

function glob_class :: "bool \<Rightarrow> char \<Rightarrow> bool \<Rightarrow> string \<Rightarrow> (bool \<times> string) res" where
  "glob_class nocase c m p =
     bindr (pat_at p 0) (\<lambda>p0.
     if p0 = CHR 0x5C \<and> length p \<ge> 2 then
       bindr (pat_at (tl p) 0) (\<lambda>p0. glob_class nocase c (m \<or> p0 = c) (tl (tl p)))
     else if p0 = CHR '']'' then Inr (m, tl p)
     else if length p = 0 then Inr (m, [])
     else
       bindr (pat_at p 1) (\<lambda>p1.
       if p1 = CHR ''-'' \<and> length p \<ge> 3 then
         bindr (pat_at p 2) (\<lambda>p2. glob_class nocase c (m \<or> range_contains nocase p0 p2 c) (drop 3 p))
       else glob_class nocase c (m \<or> char_equal nocase p0 c) (tl p)))"
  by pat_completeness auto
termination by (relation "measure (\<lambda>(nocase, c, m, p). length p)") auto

declare glob_class.simps [simp del]

text \<open>\<open>while (pattern[1] == '*')\<close>, on a pattern that starts with a star.\<close>

fun skip_stars :: "string \<Rightarrow> string res" where
  "skip_stars [] = Inl (Undefined ''pattern[1]'')"
| "skip_stars (c # p) = bindr (pat_at (c # p) 1) (\<lambda>p1. if p1 = CHR ''*'' then skip_stars p else Inr (c # p))"

lemma pat_at_simps [simp]:
  "pat_at [] 0 = Inr NUL" "pat_at (c # p) 0 = Inr c" "pat_at (c # p) 1 = pat_at p 0" "pat_at (c # d # p) 2 = pat_at p 0"
  by (auto simp: pat_at_def nth_Cons' numeral_2_eq_2 One_nat_def)

lemma skip_stars_eq: "skip_stars (CHR ''*'' # p) = Inr (CHR ''*'' # dropWhile (\<lambda>c. c = CHR ''*'') p)"
proof (induction p)
  case (Cons c p)
  then show ?case by (cases "c = CHR ''*''") simp_all
qed (simp add: NUL_def)

text \<open>Every round of the bracket loop that does not end it shortens the pattern.\<close>

lemma glob_class_step:
  assumes "p \<noteq> []" "hd p \<noteq> CHR '']''"
  shows "\<exists>m' p'. length p' < length p \<and> glob_class nocase c m p = glob_class nocase c m' p'"
proof (cases p rule: remdups_adj.cases)
  case (3 a b r)
  show ?thesis
  proof (cases "a = CHR 0x5C")
    case True
    then have "glob_class nocase c m p = glob_class nocase c (m \<or> b = c) r"
      by (subst glob_class.simps) (simp add: 3)
    then show ?thesis by (intro exI [of _ "m \<or> b = c"] exI [of _ r]) (simp add: 3)
  next
    case False
    show ?thesis
    proof (cases "b = CHR ''-'' \<and> r \<noteq> []")
      case True
      then obtain d r' where r: "r = d # r'" by (cases r) auto
      have "glob_class nocase c m p = glob_class nocase c (m \<or> range_contains nocase a d c) r'"
        using True False assms(2) by (subst glob_class.simps) (simp add: 3 r)
      then show ?thesis by (intro exI [of _ "m \<or> range_contains nocase a d c"] exI [of _ r']) (simp add: 3 r)
    next
      case no: False
      have "glob_class nocase c m p = glob_class nocase c (m \<or> char_equal nocase a c) (b # r)"
        using no False assms(2) by (subst glob_class.simps) (auto simp: 3 Suc_le_eq numeral_3_eq_3)
      then show ?thesis by (intro exI [of _ "m \<or> char_equal nocase a c"] exI [of _ "b # r"]) (simp add: 3)
    qed
  qed
next
  case (2 a)
  have "glob_class nocase c m p = glob_class nocase c (m \<or> char_equal nocase a c) []"
    using assms(2) by (subst glob_class.simps) (simp add: 2)
  then show ?thesis by (intro exI [of _ "m \<or> char_equal nocase a c"] exI [of _ "[]"]) (simp add: 2)
qed (use assms in simp)

lemma glob_class_total: "\<exists>m' q. glob_class nocase c m p = Inr (m', q) \<and> length q \<le> length p"
proof (induction "length p" arbitrary: m p rule: less_induct)
  case less
  show ?case
  proof (cases "p \<noteq> [] \<and> hd p \<noteq> CHR '']''")
    case True
    then obtain m' p' where "length p' < length p" "glob_class nocase c m p = glob_class nocase c m' p'"
      using glob_class_step by blast
    with less [of p' m'] show ?thesis by fastforce
  next
    case False
    then show ?thesis by (subst glob_class.simps) (cases p; auto simp: NUL_def)
  qed
qed

lemma glob_class_length: "glob_class nocase c m p = Inr (m', q) \<Longrightarrow> length q \<le> length p"
  using glob_class_total [of nocase c m p] by auto

lemma skip_stars_length: "skip_stars p = Inr q \<Longrightarrow> hd p = CHR ''*'' \<Longrightarrow> q \<noteq> [] \<and> length q \<le> length p"
  using skip_stars_eq [of "tl p"] by (cases p) (auto simp: length_dropWhile_le)

text \<open>
  \<open>match_star\<close> is the loop that tries the rest of the pattern at every position, \<open>match_next\<close> the
  end of one round of the main loop.
\<close>

function string_match_len :: "bool \<Rightarrow> string \<Rightarrow> string \<Rightarrow> bool res"
  and match_star :: "bool \<Rightarrow> string \<Rightarrow> string \<Rightarrow> bool res"
  and match_next :: "bool \<Rightarrow> string \<Rightarrow> string \<Rightarrow> bool res" where
  "string_match_len nocase p s =
     (if p = [] \<or> s = [] then Inr (p = [] \<and> s = [])
      else if hd p = CHR ''*'' then
        bindr (skip_stars p) (\<lambda>p. if length p = 1 then Inr True else match_star nocase (tl p) s)
      else if hd p = CHR ''?'' then match_next nocase (tl p) (tl s)
      else if hd p = CHR ''['' then
        bindr (pat_at (tl p) 0) (\<lambda>p1.
        let not_match = (p1 = CHR ''^'') in
        bindr (glob_class nocase (hd s) False (if not_match then tl (tl p) else tl p)) (\<lambda>(m, q).
        if \<not> (if not_match then \<not> m else m) then Inr False else match_next nocase q (tl s)))
      else
        let p = (if hd p = CHR 0x5C \<and> length p \<ge> 2 then tl p else p) in
        if \<not> char_equal nocase (hd p) (hd s) then Inr False else match_next nocase (tl p) (tl s))"
| "match_star nocase q s =
     (if s = [] then Inr False
      else bindr (string_match_len nocase q s) (\<lambda>b. if b then Inr True else match_star nocase q (tl s)))"
| "match_next nocase p s =
     (if s = [] then Inr (dropWhile (\<lambda>c. c = CHR ''*'') p = []) else string_match_len nocase p s)"
  by pat_completeness auto
termination
proof (relation "measure (case_sum (\<lambda>(nocase, p, s). 3 * (length p + length s))
    (case_sum (\<lambda>(nocase, p, s). 3 * (length p + length s) + 1) (\<lambda>(nocase, p, s). 3 * (length p + length s) + 1)))",
    goal_cases)
  case (2 nocase p s q)
  then show ?case using skip_stars_length [of p q] by (cases q; cases s) auto
next
  case (4 nocase p s x xa m y)
  then show ?case by (cases p; cases s) (auto dest!: glob_class_length)
qed (auto simp: neq_Nil_conv)

declare string_match_len.simps [simp del] match_star.simps [simp del] match_next.simps [simp del]

section \<open>It reads within bounds and ends\<close>

lemma match_star_total:
  assumes "\<And>s'. length s' \<le> length s \<Longrightarrow> \<exists>b. string_match_len nocase q s' = Inr b"
  shows "\<exists>b. match_star nocase q s = Inr b"
  using assms
proof (induction s)
  case (Cons c s)
  then obtain b where b: "string_match_len nocase q (c # s) = Inr b" by blast
  have "\<exists>b. match_star nocase q s = Inr b" using Cons.prems by (intro Cons.IH) simp
  then show ?case using b by (subst match_star.simps) (cases b; auto)
qed (auto simp: match_star.simps)

lemma string_match_total: "\<exists>b. string_match_len nocase p s = Inr b"
proof (induction "length p + length s" arbitrary: p s rule: less_induct)
  case less
  have nxt: "\<exists>b. match_next nocase q t = Inr b" if "length q + length t < length p + length s" for q t
    using less [OF that] by (simp add: match_next.simps)
  show ?case
  proof (cases "p = [] \<or> s = []")
    case True
    then show ?thesis by (simp add: string_match_len.simps)
  next
    case False
    then obtain a q c t where p: "p = a # q" and s: "s = c # t" by (cases p; cases s) auto
    consider "a = CHR ''*''" | "a = CHR ''?''" | "a = CHR ''[''" | "a \<notin> {CHR ''*'', CHR ''?'', CHR ''[''}" by blast
    then show ?thesis
    proof cases
      case 1
      let ?r = "dropWhile (\<lambda>c. c = CHR ''*'') q"
      have "length ?r \<le> length q" by (rule length_dropWhile_le)
      then have "\<exists>b. match_star nocase ?r s = Inr b"
        by (intro match_star_total) (rule less, simp add: p)
      then show ?thesis using skip_stars_eq [of q] 1 by (subst string_match_len.simps) (auto simp: p s)
    next
      case 2
      then show ?thesis using nxt [of q t] by (subst string_match_len.simps) (simp add: p s)
    next
      case 3
      let ?p1 = "case q of [] \<Rightarrow> NUL | c # _ \<Rightarrow> c"
      have p1: "pat_at q 0 = Inr ?p1" by (cases q) simp_all
      let ?u = "if ?p1 = CHR ''^'' then tl q else q"
      obtain m r where r: "glob_class nocase c False ?u = Inr (m, r)" "length r \<le> length ?u"
        using glob_class_total by blast
      then have "\<exists>b. match_next nocase r t = Inr b" by (intro nxt) (auto simp: p s split: if_splits)
      then show ?thesis using 3 r(1) p1 by (subst string_match_len.simps) (auto simp: p s Let_def)
    next
      case 4
      have "\<exists>b. match_next nocase q t = Inr b" "\<exists>b. match_next nocase (tl q) t = Inr b"
        by (intro nxt; simp add: p s)+
      then show ?thesis using 4 by (subst string_match_len.simps) (auto simp: p s Let_def)
    qed
  qed
qed

section \<open>Patterns as data\<close>

text \<open>
  The meaning of a pattern, independent of how it is written: a sequence of items, of which a star
  stands for any string, a question mark for any character and a bracket expression for the
  characters it lists or, negated, for the others.
\<close>

datatype class_item = COne char | CRange char char

datatype glob = GLit char | GAny | GStar | GClass bool "class_item list"

fun item_matches :: "class_item \<Rightarrow> char \<Rightarrow> bool" where
  "item_matches (COne a) c = (a = c)"
| "item_matches (CRange a b) c =
     (min (signed_char a) (signed_char b) \<le> signed_char c \<and> signed_char c \<le> max (signed_char a) (signed_char b))"

fun glob_one :: "glob \<Rightarrow> char \<Rightarrow> bool" where
  "glob_one (GLit a) c = (a = c)"
| "glob_one GAny c = True"
| "glob_one GStar c = False"
| "glob_one (GClass neg items) c = (neg \<noteq> (\<exists>i \<in> set items. item_matches i c))"

fun glob_match :: "glob list \<Rightarrow> string \<Rightarrow> bool" where
  "glob_match [] s = (s = [])"
| "glob_match (g # gs) s =
     (if g = GStar then \<exists>k \<le> length s. glob_match gs (drop k s)
      else s \<noteq> [] \<and> glob_one g (hd s) \<and> glob_match gs (tl s))"

text \<open>How a pattern is written.\<close>

fun render_item :: "class_item \<Rightarrow> string" where
  "render_item (COne c) = [CHR 0x5C, c]"
| "render_item (CRange a b) = [a, CHR ''-'', b]"

fun render_glob :: "glob \<Rightarrow> string" where
  "render_glob (GLit c) = (if c \<in> {CHR ''*'', CHR ''?'', CHR ''['', CHR 0x5C} then [CHR 0x5C, c] else [c])"
| "render_glob GAny = ''?''"
| "render_glob GStar = ''*''"
| "render_glob (GClass neg items) = ''['' @ (if neg then ''^'' else []) @ concat (map render_item items) @ '']''"

definition render :: "glob list \<Rightarrow> string" where
  "render gs = concat (map render_glob gs)"

text \<open>A range must not start with a character that has a meaning of its own there.\<close>

fun item_ok :: "class_item \<Rightarrow> bool" where
  "item_ok (COne c) = True"
| "item_ok (CRange a b) = (a \<notin> {CHR 0x5C, CHR '']'', CHR ''^''})"

fun glob_ok :: "glob \<Rightarrow> bool" where
  "glob_ok (GClass neg items) = (\<forall>i \<in> set items. item_ok i)"
| "glob_ok g = True"

lemma range_contains_iff: "range_contains False a b c = item_matches (CRange a b) c"
  by (auto simp: range_contains_def Let_def)

lemma glob_class_render:
  assumes "\<forall>i \<in> set items. item_ok i"
  shows "glob_class False c m (concat (map render_item items) @ '']'' @ rest) =
    Inr (m \<or> (\<exists>i \<in> set items. item_matches i c), rest)"
  using assms
proof (induction items arbitrary: m)
  case Nil
  then show ?case by (subst glob_class.simps) simp
next
  case (Cons i items)
  then show ?case
  proof (cases i)
    case (COne a)
    then show ?thesis using Cons by (subst glob_class.simps) simp
  next
    case (CRange a b)
    then show ?thesis using Cons by (subst glob_class.simps) (simp add: range_contains_iff)
  qed
qed

lemma render_simps [simp]: "render [] = []" "render (g # gs) = render_glob g @ render gs"
  by (simp_all add: render_def)

lemma render_glob_hd: "render_glob g \<noteq> []" "hd (render_glob g) = CHR ''*'' \<longleftrightarrow> g = GStar"
  by (cases g; simp)+

lemma render_Nil: "render gs = [] \<longleftrightarrow> gs = []"
  by (cases gs) (simp_all add: render_glob_hd)

lemma drop_stars_render:
  "dropWhile (\<lambda>c. c = CHR ''*'') (render gs) = render (dropWhile (\<lambda>g. g = GStar) gs)"
proof (induction gs)
  case (Cons g gs)
  show ?case
  proof (cases "g = GStar")
    case False
    then show ?thesis using render_glob_hd [of g] by (cases "render_glob g") auto
  qed (simp add: Cons)
qed simp

lemma glob_match_Nil: "glob_match gs [] \<longleftrightarrow> dropWhile (\<lambda>g. g = GStar) gs = []"
  by (induction gs) auto

lemma glob_match_stars:
  "glob_match (GStar # gs) s \<longleftrightarrow> glob_match (GStar # dropWhile (\<lambda>g. g = GStar) gs) s"
proof (induction gs arbitrary: s)
  case (Cons g gs)
  show ?case
  proof (cases "g = GStar")
    case True
    have "glob_match (GStar # GStar # gs) s \<longleftrightarrow> (\<exists>k \<le> length s. glob_match (GStar # gs) (drop k s))"
      by simp
    also have "\<dots> \<longleftrightarrow> glob_match (GStar # gs) s"
    proof
      assume "\<exists>k \<le> length s. glob_match (GStar # gs) (drop k s)"
      then obtain k j where "k \<le> length s" "j \<le> length s - k" "glob_match gs (drop (j + k) s)" by auto
      then show "glob_match (GStar # gs) s" by (auto intro!: exI [of _ "j + k"])
    next
      assume "glob_match (GStar # gs) s"
      then show "\<exists>k \<le> length s. glob_match (GStar # gs) (drop k s)" by (intro exI [of _ 0]) simp
    qed
    finally show ?thesis using True Cons.IH [of s] by simp
  qed simp
qed simp

lemma match_star_eq:
  assumes "\<And>s. s \<noteq> [] \<Longrightarrow> string_match_len nocase q s = Inr (P s)"
  shows "match_star nocase q s = Inr (\<exists>k < length s. P (drop k s))"
proof (induction s)
  case (Cons c s)
  have "(\<exists>k < length (c # s). P (drop k (c # s))) \<longleftrightarrow> P (c # s) \<or> (\<exists>k < length s. P (drop k s))"
    by (auto simp: less_Suc_eq_0_disj)
  then show ?case using assms [of "c # s"] Cons by (subst match_star.simps) simp
qed (simp add: match_star.simps)

lemma string_match_item:
  assumes "glob_ok g" "g \<noteq> GStar"
  shows "string_match_len False (render_glob g @ q) (c # s) =
    (if glob_one g c then match_next False q s else Inr False)"
proof (cases g)
  case (GClass neg items)
  let ?t = "concat (map render_item items) @ '']'' @ q"
  have cls: "glob_class False c False ?t = Inr (\<exists>i \<in> set items. item_matches i c, q)"
    using glob_class_render [of items] assms(1) GClass by simp
  have "pat_at ?t 0 \<noteq> Inr CHR ''^''"
    using assms(1) GClass by (cases items; cases "hd items") auto
  moreover obtain a where "pat_at ?t 0 = Inr a" by (cases ?t) auto
  ultimately show ?thesis using cls
    by (subst string_match_len.simps) (auto simp: GClass Let_def)
qed (use assms in \<open>auto simp: string_match_len.simps char_equal_def Let_def\<close>)

lemma string_match_render:
  assumes "\<forall>g \<in> set gs. glob_ok g" "s \<noteq> []"
  shows "string_match_len False (render gs) s = Inr (glob_match gs s)"
  using assms
proof (induction "length gs" arbitrary: gs s rule: less_induct)
  case less
  show ?case
  proof (cases gs)
    case Nil
    then show ?thesis using less.prems by (simp add: string_match_len.simps)
  next
    case (Cons g gs')
    obtain c s' where s: "s = c # s'" using less.prems(2) by (cases s) auto
    have ih: "string_match_len False (render hs) t = Inr (glob_match hs t)"
      if "length hs \<le> length gs'" "set hs \<subseteq> set gs'" "t \<noteq> []" for hs t
      using less.hyps [of hs t] less.prems(1) that Cons by auto
    show ?thesis
    proof (cases "g = GStar")
      case False
      have "match_next False (render gs') s' = Inr (glob_match gs' s')"
        using ih [of gs' s'] by (simp add: match_next.simps drop_stars_render glob_match_Nil render_Nil)
      then show ?thesis using string_match_item [of g "render gs'" c s'] False less.prems(1) Cons s by simp
    next
      case True
      define hs where "hs = dropWhile (\<lambda>g. g = GStar) gs'"
      have len: "length hs \<le> length gs'" "set hs \<subseteq> set gs'" by (auto simp: hs_def length_dropWhile_le dest: set_dropWhileD)
      have skip: "skip_stars (render gs) = Inr (CHR ''*'' # render hs)"
        using skip_stars_eq [of "render gs'"] True Cons by (simp add: drop_stars_render hs_def)
      have ne: "\<not> glob_match hs []" if "hs \<noteq> []"
        using that hd_dropWhile [OF that [unfolded hs_def]] by (cases hs) (auto simp: hs_def [symmetric])
      have gm: "glob_match gs s \<longleftrightarrow> (\<exists>k \<le> length s. glob_match hs (drop k s))"
        using glob_match_stars [of gs' s] True Cons by (simp add: hs_def)
      have "string_match_len False (render gs) s =
          (if render hs = [] then Inr True else match_star False (render hs) s)"
        using skip by (subst string_match_len.simps) (simp add: Cons True s One_nat_def)
      also have "\<dots> = Inr (glob_match gs s)"
      proof (cases "hs = []")
        case True
        then show ?thesis unfolding gm by (auto intro: exI [of _ "length s"])
      next
        case False
        have "match_star False (render hs) s = Inr (\<exists>k < length s. glob_match hs (drop k s))"
          by (intro match_star_eq ih len)
        moreover have "render hs \<noteq> []" using False by (simp add: render_Nil)
        moreover have "(\<exists>k < length s. glob_match hs (drop k s)) \<longleftrightarrow> glob_match gs s"
          unfolding gm using ne [OF False] by (metis drop_all le_less order_refl)
        ultimately show ?thesis by simp
      qed
      finally show ?thesis .
    qed
  qed
qed

end
