(* ===== verification/Redis_Store.thy ===== *)
theory Redis_Store
  imports Glob Codec
begin

text \<open>
  The key-value store: \<open>src/raft-kv/server/redis_store.h\<close> and \<open>redis_store.cpp\<close>. Requests are
  proposed to raft and applied when raft commits them; a map of pending requests remembers whom to
  answer. Everything the store posts to its \<open>io_service\<close> runs in one thread, one after the other:
  each posted function is an operation of the model. Calls that leave the store (proposals to the
  raft node, answers to sessions) are results. \<open>'c\<close> stands for the callback of a session.

  \<open>std::unordered_map\<close> is a map; where its order of iteration matters, the order is an argument.
\<close>

section \<open>State\<close>

definition kCommitSet :: nat where "kCommitSet = 0"
definition kCommitDel :: nat where "kCommitDel = 1"

record raft_commit =
  rc_node_id :: u32
  rc_commit_id :: u32
  rc_type :: nat
  rc_strs :: "string list"

type_synonym kv = "string \<rightharpoonup> string"

text \<open>Packing, and whether data is well-formed msgpack at all (else \<open>unpack\<close> throws).\<close>

record store_lib =
  st_commit :: "raft_commit msgpack"
  st_kv :: "kv msgpack"
  st_parses :: "byte list \<Rightarrow> bool"

record 'c redis_store =
  rs_node_id :: u64
  rs_kv :: kv
  rs_next_request_id :: u32
  rs_pending :: "u32 \<rightharpoonup> 'c"

section \<open>Operations\<close>

text \<open>
  The constructor: an empty map if the snapshot cannot be converted. \<open>listens\<close> says at which
  addresses and ports the process can listen.
\<close>

definition new_redis_store ::
  "store_lib \<Rightarrow> (string \<Rightarrow> nat \<Rightarrow> bool) \<Rightarrow> u64 \<Rightarrow> byte list \<Rightarrow> nat \<Rightarrow> 'c redis_store res" where
  "new_redis_store L listens node snap port =
     bindr
       (if snap = [] then Inr Map.empty
        else if \<not> st_parses L snap then Inl (Fatal ''msgpack'')
        else Inr (case mp_unpack (st_kv L) snap of None \<Rightarrow> Map.empty | Some kv \<Rightarrow> kv))
     (\<lambda>kv.
       if \<not> listens ''0.0.0.0'' port then Inl (Fatal ''acceptor: bind or listen'')
       else Inr \<lparr>rs_node_id = node, rs_kv = kv, rs_next_request_id = 0, rs_pending = Map.empty\<rparr>)"

definition store_get :: "string \<Rightarrow> 'c redis_store \<Rightarrow> string option" where
  "store_get key s = rs_kv s key"

text \<open>\<open>set\<close> and \<open>del\<close>: the request id, the data to propose and the new state.\<close>

definition store_request ::
  "store_lib \<Rightarrow> nat \<Rightarrow> string list \<Rightarrow> 'c \<Rightarrow> 'c redis_store \<Rightarrow> u32 \<times> byte list \<times> 'c redis_store" where
  "store_request L type strs callback s =
     (let commit_id = rs_next_request_id s;
          commit = \<lparr>rc_node_id = cast32 (rs_node_id s), rc_commit_id = commit_id, rc_type = type, rc_strs = strs\<rparr>
      in (commit_id, mp_pack (st_commit L) commit,
          s\<lparr>rs_next_request_id := add32 commit_id 1, rs_pending := (rs_pending s)(commit_id \<mapsto> callback)\<rparr>))"

definition store_set ::
  "store_lib \<Rightarrow> string \<Rightarrow> string \<Rightarrow> 'c \<Rightarrow> 'c redis_store \<Rightarrow> u32 \<times> byte list \<times> 'c redis_store" where
  "store_set L key val callback s = store_request L kCommitSet [key, val] callback s"

definition store_del ::
  "store_lib \<Rightarrow> string list \<Rightarrow> 'c \<Rightarrow> 'c redis_store \<Rightarrow> u32 \<times> byte list \<times> 'c redis_store" where
  "store_del L keys callback s = store_request L kCommitDel keys callback s"

text \<open>Answer a pending request, if there is one, and forget it.\<close>

definition store_answer :: "u32 \<Rightarrow> status \<Rightarrow> 'c redis_store \<Rightarrow> ('c \<times> status) list \<times> 'c redis_store" where
  "store_answer commit_id st s =
     (case rs_pending s commit_id of
        None \<Rightarrow> ([], s)
      | Some cb \<Rightarrow> ([(cb, st)], s\<lparr>rs_pending := (rs_pending s)(commit_id := None)\<rparr>))"

text \<open>What is posted when the raft node has taken or refused the proposal.\<close>

definition store_set_proposed :: "u32 \<Rightarrow> status \<Rightarrow> 'c redis_store \<Rightarrow> ('c \<times> status) list \<times> 'c redis_store" where
  "store_set_proposed commit_id st s = (if is_ok st then ([], s) else store_answer commit_id st s)"

definition store_del_proposed :: "u32 \<Rightarrow> status \<Rightarrow> 'c redis_store \<Rightarrow> ('c \<times> status) list \<times> 'c redis_store" where
  "store_del_proposed commit_id st s = store_answer commit_id st s"

definition store_get_snapshot :: "store_lib \<Rightarrow> 'c redis_store \<Rightarrow> byte list" where
  "store_get_snapshot L s = mp_pack (st_kv L) (rs_kv s)"

definition store_recover_from_snapshot :: "store_lib \<Rightarrow> byte list \<Rightarrow> 'c redis_store \<Rightarrow> (status \<times> 'c redis_store) res" where
  "store_recover_from_snapshot L snap s =
     (if \<not> st_parses L snap then Inl (Fatal ''msgpack'')
      else case mp_unpack (st_kv L) snap of
        None \<Rightarrow> Inr (IOError ''invalid snapshot'', s)
      | Some kv \<Rightarrow> Inr (StatusOK, s\<lparr>rs_kv := kv\<rparr>))"

text \<open>\<open>order\<close>: the keys in the order of iteration.\<close>

fun store_keys_from :: "string \<Rightarrow> string list \<Rightarrow> string list res" where
  "store_keys_from pattern [] = Inr []"
| "store_keys_from pattern (k # ks) =
     bindr (string_match_len False pattern k) (\<lambda>b.
     bindr (store_keys_from pattern ks) (\<lambda>out. Inr (if b then k # out else out)))"

definition store_keys :: "string \<Rightarrow> string list \<Rightarrow> 'c redis_store \<Rightarrow> string list res" where
  "store_keys pattern order s = store_keys_from pattern order"

definition kv_erase :: "string list \<Rightarrow> kv \<Rightarrow> kv" where
  "kv_erase keys kv = fold (\<lambda>k kv. kv(k := None)) keys kv"

definition store_read_commit ::
  "store_lib \<Rightarrow> byte list \<Rightarrow> 'c redis_store \<Rightarrow> (('c \<times> status) list \<times> 'c redis_store) res" where
  "store_read_commit L data s =
     (case mp_unpack (st_commit L) data of
        None \<Rightarrow> Inr ([], s)
      | Some commit \<Rightarrow>
        bindr
          (if rc_type commit = kCommitSet then
             bindr (assertr ''data.strs.size() == 2'' (length (rc_strs commit) = 2)) (\<lambda>_.
             Inr (s\<lparr>rs_kv := (rs_kv s)(rc_strs commit ! 0 \<mapsto> rc_strs commit ! 1)\<rparr>))
           else if rc_type commit = kCommitDel then Inr (s\<lparr>rs_kv := kv_erase (rc_strs commit) (rs_kv s)\<rparr>)
           else Inr s)
        (\<lambda>s.
        if rc_node_id commit = rs_node_id s then Inr (store_answer (rc_commit_id commit) StatusOK s)
        else Inr ([], s)))"

section \<open>What the store does\<close>

text \<open>The effect of a committed entry on the map alone.\<close>

fun commit_apply :: "raft_commit option \<Rightarrow> kv \<Rightarrow> kv" where
  "commit_apply None kv = kv"
| "commit_apply (Some c) kv =
     (if rc_type c = kCommitSet then kv(rc_strs c ! 0 \<mapsto> rc_strs c ! 1)
      else if rc_type c = kCommitDel then kv_erase (rc_strs c) kv else kv)"

fun commit_ok :: "raft_commit option \<Rightarrow> bool" where
  "commit_ok None = True"
| "commit_ok (Some c) = (rc_type c = kCommitSet \<longrightarrow> length (rc_strs c) = 2)"

lemma kv_erase_apply: "kv_erase ks kv k = (if k \<in> set ks then None else kv k)"
  unfolding kv_erase_def by (induction ks arbitrary: kv) auto

lemma store_answer_kv [simp]:
  "rs_kv (snd (store_answer i st s)) = rs_kv s" "rs_node_id (snd (store_answer i st s)) = rs_node_id s"
  "rs_next_request_id (snd (store_answer i st s)) = rs_next_request_id s"
  by (auto simp: store_answer_def split: option.splits)

lemma store_answer_pending: "rs_pending (snd (store_answer i st s)) = (rs_pending s)(i := None)"
  by (auto simp: store_answer_def split: option.splits)

lemma store_answer_out: "fst (store_answer i st s) = (case rs_pending s i of None \<Rightarrow> [] | Some cb \<Rightarrow> [(cb, st)])"
  by (auto simp: store_answer_def split: option.splits)

text \<open>Applying an entry: the map changes as the entry says; its request is answered and forgotten.\<close>

lemma store_read_commit_spec:
  assumes "commit_ok (mp_unpack (st_commit L) data)"
  shows "\<exists>out s'. store_read_commit L data s = Inr (out, s') \<and>
    rs_kv s' = commit_apply (mp_unpack (st_commit L) data) (rs_kv s) \<and> rs_node_id s' = rs_node_id s \<and>
    rs_next_request_id s' = rs_next_request_id s \<and>
    (case mp_unpack (st_commit L) data of
       None \<Rightarrow> out = [] \<and> rs_pending s' = rs_pending s
     | Some c \<Rightarrow>
         if rc_node_id c = rs_node_id s
         then out = (case rs_pending s (rc_commit_id c) of None \<Rightarrow> [] | Some cb \<Rightarrow> [(cb, StatusOK)]) \<and>
              rs_pending s' = (rs_pending s)(rc_commit_id c := None)
         else out = [] \<and> rs_pending s' = rs_pending s)"
proof (cases "mp_unpack (st_commit L) data")
  case None
  then show ?thesis by (simp add: store_read_commit_def)
next
  case (Some c)
  let ?s = "s\<lparr>rs_kv := commit_apply (Some c) (rs_kv s)\<rparr>"
  have "store_read_commit L data s =
      (if rc_node_id c = rs_node_id s then Inr (store_answer (rc_commit_id c) StatusOK ?s) else Inr ([], ?s))"
    using assms Some by (auto simp: store_read_commit_def kCommitSet_def kCommitDel_def)
  then show ?thesis using Some
    by (cases "store_answer (rc_commit_id c) StatusOK ?s")
      (use store_answer_kv [of "rc_commit_id c" StatusOK ?s] store_answer_pending [of "rc_commit_id c" StatusOK ?s]
        store_answer_out [of "rc_commit_id c" StatusOK ?s] in auto)
qed

text \<open>A sequence of committed entries.\<close>

fun store_read_commits ::
  "store_lib \<Rightarrow> byte list list \<Rightarrow> 'c redis_store \<Rightarrow> (('c \<times> status) list \<times> 'c redis_store) res" where
  "store_read_commits L [] s = Inr ([], s)"
| "store_read_commits L (d # ds) s =
     bindr (store_read_commit L d s) (\<lambda>(out, s).
     bindr (store_read_commits L ds s) (\<lambda>(outs, s). Inr (out @ outs, s)))"

definition kv_replay :: "store_lib \<Rightarrow> byte list list \<Rightarrow> kv \<Rightarrow> kv" where
  "kv_replay L ds = fold (\<lambda>d. commit_apply (mp_unpack (st_commit L) d)) ds"

lemma store_read_commits_spec:
  assumes "\<forall>d \<in> set ds. commit_ok (mp_unpack (st_commit L) d)"
  shows "\<exists>outs s'. store_read_commits L ds s = Inr (outs, s') \<and> rs_kv s' = kv_replay L ds (rs_kv s) \<and>
    rs_node_id s' = rs_node_id s \<and> rs_next_request_id s' = rs_next_request_id s"
  using assms
proof (induction ds arbitrary: s)
  case (Cons d ds)
  then obtain out t where t: "store_read_commit L d s = Inr (out, t)" "rs_kv t = commit_apply (mp_unpack (st_commit L) d) (rs_kv s)"
    "rs_node_id t = rs_node_id s" "rs_next_request_id t = rs_next_request_id s"
    using store_read_commit_spec [of L d s] by auto
  from Cons.prems have "\<forall>d \<in> set ds. commit_ok (mp_unpack (st_commit L) d)" by simp
  from Cons.IH [OF this, of t] t show ?case by (auto simp: kv_replay_def)
qed (simp add: kv_replay_def)

lemma store_keys_from_filter:
  assumes "\<And>k. k \<in> set ks \<Longrightarrow> string_match_len False pattern k = Inr (P k)"
  shows "store_keys_from pattern ks = Inr (filter P ks)"
  using assms by (induction ks) auto

end
