(* ===== verification/ByteBuffer.thy ===== *)
theory ByteBuffer
  imports Proto
begin

text \<open>
  Byte sequences: \<open>src/raft-kv/common/slice.h\<close>, a view of bytes with a three-way comparison, and
  \<open>src/raft-kv/common/bytebuffer.h\<close> and \<open>bytebuffer.cpp\<close>, the growing buffer between a session
  and its socket. The buffer is shown to implement the contract of the locale \<open>byte_queue\<close>: what
  comes out is what went in, in order, whatever the sizes of the single writes and reads.
\<close>

section \<open>Slices\<close>

text \<open>A slice is the bytes it refers to. \<open>memcmp\<close> promises only a sign; the model returns it.\<close>

type_synonym slice = "byte list"

fun memcmp :: "byte list \<Rightarrow> byte list \<Rightarrow> int" where
  "memcmp (x # xs) (y # ys) = (if x < y then - 1 else if y < x then 1 else memcmp xs ys)"
| "memcmp _ _ = 0"

definition slice_at :: "slice \<Rightarrow> nat \<Rightarrow> byte res" where
  "slice_at s n = bindr (assertr ''n < size()'' (n < length s)) (\<lambda>_. Inr (s ! n))"

definition slice_remove_prefix :: "nat \<Rightarrow> slice \<Rightarrow> slice res" where
  "slice_remove_prefix n s = bindr (assertr ''n <= size()'' (n \<le> length s)) (\<lambda>_. Inr (drop n s))"

definition slice_starts_with :: "slice \<Rightarrow> slice \<Rightarrow> bool" where
  "slice_starts_with s x \<longleftrightarrow> length s \<ge> length x \<and> memcmp (take (length x) s) x = 0"

definition slice_equal :: "slice \<Rightarrow> slice \<Rightarrow> bool" where
  "slice_equal x y \<longleftrightarrow> length x = length y \<and> memcmp x y = 0"

definition slice_compare :: "slice \<Rightarrow> slice \<Rightarrow> int" where
  "slice_compare a b =
     (let min_len = (if length a < length b then length a else length b);
          r = memcmp (take min_len a) (take min_len b)
      in if r = 0 then (if length a < length b then - 1 else if length a > length b then 1 else r) else r)"

lemma memcmp_eq_0: "length x = length y \<Longrightarrow> memcmp x y = 0 \<longleftrightarrow> x = y"
  by (induction x y rule: memcmp.induct) auto

lemma slice_equal_iff: "slice_equal x y \<longleftrightarrow> x = y"
  by (auto simp: slice_equal_def memcmp_eq_0)

lemma slice_starts_with_iff: "slice_starts_with s x \<longleftrightarrow> (\<exists>t. s = x @ t)"
proof
  assume "slice_starts_with s x"
  then have "take (length x) s = x" using memcmp_eq_0 [of "take (length x) s" x] by (simp add: slice_starts_with_def)
  then show "\<exists>t. s = x @ t" by (metis append_take_drop_id)
qed (auto simp: slice_starts_with_def memcmp_eq_0)

lemma slice_compare_Nil: "slice_compare [] [] = 0" "slice_compare [] (y # ys) = - 1" "slice_compare (x # xs) [] = 1"
  by (simp_all add: slice_compare_def)

lemma slice_compare_Cons:
  "slice_compare (x # xs) (y # ys) = (if x < y then - 1 else if y < x then 1 else slice_compare xs ys)"
  by (simp add: slice_compare_def Let_def)

text \<open>The comparison is the lexicographic order on unsigned bytes.\<close>

lemma slice_compare_lexord:
  "slice_compare a b = (if ord_class.lexordp a b then - 1 else if a = b then 0 else 1)"
proof (induction a arbitrary: b)
  case Nil
  then show ?case by (cases b) (auto simp: slice_compare_Nil)
next
  case (Cons x xs)
  then show ?case by (cases b) (auto simp: slice_compare_Nil slice_compare_Cons)
qed

section \<open>The byte buffer\<close>

definition sub32 :: "u32 \<Rightarrow> u32 \<Rightarrow> u32" where
  "sub32 a b = (a + (u32_max + 1) - b) mod (u32_max + 1)"

lemma sub32_id [simp]: "b \<le> a \<Longrightarrow> a \<le> u32_max \<Longrightarrow> sub32 a b = a - b"
proof -
  assume "b \<le> a" "a \<le> u32_max"
  then have "a + (u32_max + 1) - b = (a - b) + (u32_max + 1)" "a - b < u32_max + 1" by auto
  then show ?thesis unfolding sub32_def by (simp only: mod_add_self2 mod_less)
qed

definition MIN_BUFFERING :: nat where "MIN_BUFFERING = 4096"

record byte_buffer =
  bb_reader :: u32
  bb_writer :: u32
  bb_buff :: "byte list"

definition new_byte_buffer :: byte_buffer where
  "new_byte_buffer = \<lparr>bb_reader = 0, bb_writer = 0, bb_buff = replicate MIN_BUFFERING 0\<rparr>"

text \<open>\<open>std::vector::resize\<close> fills with zero; \<open>memcpy\<close> past the end of the vector is undefined.\<close>

definition vec_resize0 :: "nat \<Rightarrow> byte list \<Rightarrow> byte list" where
  "vec_resize0 n xs = take n xs @ replicate (n - length xs) 0"

definition bytebuffer_put :: "byte list \<Rightarrow> byte_buffer \<Rightarrow> byte_buffer res" where
  "bytebuffer_put data b =
     (let len = length data;
          left = sub32 (cast32 (length (bb_buff b))) (bb_writer b);
          buff = (if left < len then vec_resize0 (length (bb_buff b) * 2 + len) (bb_buff b) else bb_buff b)
      in
      if bb_writer b + len \<le> length buff then
        Inr (b\<lparr>bb_buff := take (bb_writer b) buff @ data @ drop (bb_writer b + len) buff,
               bb_writer := add32 (bb_writer b) len\<rparr>)
      else Inl (Undefined ''memcpy''))"

definition bytebuffer_readable :: "byte_buffer \<Rightarrow> bool" where
  "bytebuffer_readable b \<longleftrightarrow> bb_writer b > bb_reader b"

definition bytebuffer_readable_bytes :: "byte_buffer \<Rightarrow> u32 res" where
  "bytebuffer_readable_bytes b =
     bindr (assertr ''writer_ >= reader_'' (bb_writer b \<ge> bb_reader b)) (\<lambda>_.
     Inr (sub32 (bb_writer b) (bb_reader b)))"

definition bytebuffer_may_shrink_to_fit :: "byte_buffer \<Rightarrow> byte_buffer" where
  "bytebuffer_may_shrink_to_fit b =
     (if bb_reader b = bb_writer b then b\<lparr>bb_reader := 0, bb_writer := 0\<rparr> else b)"

definition bytebuffer_read_bytes :: "u32 \<Rightarrow> byte_buffer \<Rightarrow> byte_buffer res" where
  "bytebuffer_read_bytes bytes b =
     bindr (bytebuffer_readable_bytes b) (\<lambda>n.
     bindr (assertr ''readable_bytes() >= bytes'' (n \<ge> bytes)) (\<lambda>_.
     Inr (bytebuffer_may_shrink_to_fit (b\<lparr>bb_reader := add32 (bb_reader b) bytes\<rparr>))))"

text \<open>The bytes from \<open>reader()\<close> on, as far as they are readable.\<close>

definition bytebuffer_slice :: "byte_buffer \<Rightarrow> slice res" where
  "bytebuffer_slice b =
     bindr (bytebuffer_readable_bytes b) (\<lambda>n.
     vec_range (bb_buff b) (bb_reader b) (bb_reader b + n))"

definition bytebuffer_reset :: "byte_buffer \<Rightarrow> byte_buffer" where
  "bytebuffer_reset b =
     b\<lparr>bb_reader := 0, bb_writer := 0, bb_buff := vec_resize0 MIN_BUFFERING (bb_buff b)\<rparr>"

text \<open>
  Writing while an asynchronous write of the buffer is outstanding (\<open>inflight\<close>). The outstanding
  write keeps a pointer into the vector; \<open>resize\<close> to a larger size moves the vector, since its
  capacity is its size, and leaves the pointer dangling.
\<close>

definition bytebuffer_put_shared :: "nat option \<Rightarrow> byte list \<Rightarrow> byte_buffer \<Rightarrow> byte_buffer res" where
  "bytebuffer_put_shared inflight data b =
     bindr (bytebuffer_put data b) (\<lambda>b'.
     if inflight \<noteq> None \<and> length (bb_buff b') \<noteq> length (bb_buff b)
     then Inl (Undefined ''async_write from a freed buffer'') else Inr b')"

section \<open>The contract of a byte queue\<close>

text \<open>
  \<open>ok t b\<close>: the buffer is consistent after at most \<open>t\<close> bytes have been put into it over its
  life; \<open>limit\<close> bounds the bytes for which the 32-bit counters are enough.
\<close>

text \<open>The reference: a list of bytes. \<open>Inl d\<close> appends, \<open>Inr n\<close> takes \<open>n\<close> bytes from the front.\<close>

fun fifo_run :: "(byte list + nat) list \<Rightarrow> byte list \<Rightarrow> byte list \<Rightarrow> (byte list \<times> byte list) option" where
  "fifo_run [] q out = Some (q, out)"
| "fifo_run (Inl d # ops) q out = fifo_run ops (q @ d) out"
| "fifo_run (Inr n # ops) q out = (if n \<le> length q then fifo_run ops (drop n q) (out @ take n q) else None)"

locale byte_queue =
  fixes ok :: "nat \<Rightarrow> 'b \<Rightarrow> bool" and contents :: "'b \<Rightarrow> byte list"
    and put :: "byte list \<Rightarrow> 'b \<Rightarrow> 'b res" and get :: "nat \<Rightarrow> 'b \<Rightarrow> 'b res"
    and limit :: nat
  assumes put_ok: "ok t b \<Longrightarrow> t + length d \<le> limit \<Longrightarrow>
      \<exists>b'. put d b = Inr b' \<and> ok (t + length d) b' \<and> contents b' = contents b @ d"
    and get_ok: "ok t b \<Longrightarrow> t \<le> limit \<Longrightarrow> n \<le> length (contents b) \<Longrightarrow>
      \<exists>b'. get n b = Inr b' \<and> ok t b' \<and> contents b' = drop n (contents b)"
    and get_error: "ok t b \<Longrightarrow> t \<le> limit \<Longrightarrow> length (contents b) < n \<Longrightarrow> \<exists>e. get n b = Inl e"
begin

text \<open>A session interleaves writes of messages with reads by the socket.\<close>

fun run :: "(byte list + nat) list \<Rightarrow> 'b \<Rightarrow> byte list \<Rightarrow> ('b \<times> byte list) res" where
  "run [] b out = Inr (b, out)"
| "run (Inl d # ops) b out = bindr (put d b) (\<lambda>b'. run ops b' out)"
| "run (Inr n # ops) b out = bindr (get n b) (\<lambda>b'. run ops b' (out @ take n (contents b)))"

fun written :: "(byte list + nat) list \<Rightarrow> byte list" where
  "written [] = []"
| "written (Inl d # ops) = d @ written ops"
| "written (Inr n # ops) = written ops"

lemma run_stream:
  assumes "run ops b out = Inr (b', out')" "ok t b" "t + length (written ops) \<le> limit"
  shows "out' @ contents b' = out @ contents b @ written ops \<and> ok (t + length (written ops)) b'"
  using assms
proof (induction ops b out arbitrary: t rule: run.induct)
  case (1 b out)
  then show ?case by simp
next
  case (2 d ops b out)
  from 2(3,4) put_ok [of t b d] obtain c where c: "put d b = Inr c" "ok (t + length d) c" "contents c = contents b @ d"
    by auto
  show ?case using 2(1) [OF c(1), of "t + length d"] 2(2,4) c by (simp add: add.assoc)
next
  case (3 n ops b out)
  from 3(2) obtain c where g: "get n b = Inr c" "run ops c (out @ take n (contents b)) = Inr (b', out')"
    by (auto simp: res_simps)
  have n: "n \<le> length (contents b)" using get_error [OF 3(3), of n] 3(4) g(1) by (cases "n \<le> length (contents b)") auto
  then obtain c' where "get n b = Inr c'" "ok t c'" "contents c' = drop n (contents b)"
    using get_ok [OF 3(3)] 3(4) by fastforce
  then have c: "ok t c" "contents c = drop n (contents b)" using g(1) by auto
  show ?case using 3(1) [OF g(1) g(2) c(1)] 3(4) c(2) by simp
qed

text \<open>Every sequence of operations does what it does on the reference.\<close>

lemma run_refines:
  assumes "ok t b" "t + length (written ops) \<le> limit"
  shows "case fifo_run ops (contents b) out of
      Some (q, out') \<Rightarrow> \<exists>b'. run ops b out = Inr (b', out') \<and> contents b' = q
    | None \<Rightarrow> \<exists>e. run ops b out = Inl e"
  using assms
proof (induction ops "contents b" out arbitrary: b t rule: fifo_run.induct)
  case (1 out)
  then show ?case by simp
next
  case (2 d ops out)
  from 2(2,3) put_ok [of t b d] obtain c where c: "put d b = Inr c" "ok (t + length d) c" "contents c = contents b @ d" by auto
  show ?case using 2(1) [of c "t + length d"] 2(3) c by (auto simp: add.assoc split: option.splits)
next
  case (3 n ops out)
  show ?case
  proof (cases "n \<le> length (contents b)")
    case True
    then obtain c where c: "get n b = Inr c" "ok t c" "contents c = drop n (contents b)"
      using get_ok [OF 3(2)] 3(3) by fastforce
    show ?thesis using 3(1) [OF True, of c t] 3(3) c True by (auto split: option.splits)
  next
    case False
    then obtain e where "get n b = Inl e" using get_error [OF 3(2), of n] 3(3) by auto
    then show ?thesis using False by simp
  qed
qed

end

section \<open>The buffer implements it\<close>

definition bytebuffer_wf :: "nat \<Rightarrow> byte_buffer \<Rightarrow> bool" where
  "bytebuffer_wf t b \<longleftrightarrow> bb_reader b \<le> bb_writer b \<and> bb_writer b \<le> t \<and> bb_writer b \<le> length (bb_buff b) \<and>
     length (bb_buff b) \<le> MIN_BUFFERING + 3 * t"

definition bytebuffer_contents :: "byte_buffer \<Rightarrow> byte list" where
  "bytebuffer_contents b = drop (bb_reader b) (take (bb_writer b) (bb_buff b))"

text \<open>One gibibyte of data: the buffer then stays below the range of \<open>uint32_t\<close>.\<close>

definition bytebuffer_limit :: nat where "bytebuffer_limit = 2 ^ 30"

lemma limit_room:
  assumes "t \<le> bytebuffer_limit" "n \<le> MIN_BUFFERING + 3 * t"
  shows "n \<le> u32_max"
proof -
  have "MIN_BUFFERING + 3 * bytebuffer_limit \<le> u32_max"
    by (simp add: MIN_BUFFERING_def bytebuffer_limit_def u32_max_def)
  with assms show ?thesis by linarith
qed

lemma new_byte_buffer_wf: "bytebuffer_wf 0 new_byte_buffer" "bytebuffer_contents new_byte_buffer = []"
  by (simp_all add: bytebuffer_wf_def bytebuffer_contents_def new_byte_buffer_def MIN_BUFFERING_def)

lemma length_bytebuffer_contents: "bytebuffer_wf t b \<Longrightarrow> length (bytebuffer_contents b) = bb_writer b - bb_reader b"
  by (auto simp: bytebuffer_wf_def bytebuffer_contents_def)

lemma bytebuffer_put_spec:
  assumes wf: "bytebuffer_wf t b" and room: "t + length d \<le> bytebuffer_limit"
  shows "\<exists>b'. bytebuffer_put d b = Inr b' \<and> bytebuffer_wf (t + length d) b' \<and>
    bytebuffer_contents b' = bytebuffer_contents b @ d"
proof -
  let ?w = "bb_writer b" and ?n = "length (bb_buff b)" and ?l = "length d"
  define buff where "buff = (if ?n - ?w < ?l then vec_resize0 (?n * 2 + ?l) (bb_buff b) else bb_buff b)"
  from wf have w: "bb_reader b \<le> ?w" "?w \<le> t" "?w \<le> ?n" "?n \<le> MIN_BUFFERING + 3 * t"
    by (simp_all add: bytebuffer_wf_def)
  have n: "?n \<le> u32_max" using w(4) room by (intro limit_room [of t]) auto
  have wl: "?w + ?l \<le> u32_max" using w(2) room by (intro limit_room [of "t + ?l"]) auto
  have len: "?w + ?l \<le> length buff" "length buff \<le> MIN_BUFFERING + 3 * (t + ?l)"
    using w by (auto simp: buff_def vec_resize0_def)
  have keep: "take ?w buff = take ?w (bb_buff b)" using w by (simp add: buff_def vec_resize0_def)
  let ?b' = "b\<lparr>bb_buff := take ?w buff @ d @ drop (?w + ?l) buff, bb_writer := ?w + ?l\<rparr>"
  have put: "bytebuffer_put d b = Inr ?b'"
    using n w(3) wl len(1) by (simp add: bytebuffer_put_def buff_def Let_def)
  have "bytebuffer_wf (t + ?l) ?b'" using w len by (simp add: bytebuffer_wf_def)
  moreover have "bytebuffer_contents ?b' = bytebuffer_contents b @ d"
  proof -
    have sel: "bb_reader ?b' = bb_reader b" "bb_writer ?b' = ?w + ?l"
      "bb_buff ?b' = take ?w buff @ d @ drop (?w + ?l) buff" by simp_all
    have "take (?w + ?l) (take ?w buff @ d @ drop (?w + ?l) buff) = take ?w (bb_buff b) @ d"
      using w(3) len(1) by (simp add: keep)
    then have "bytebuffer_contents ?b' = drop (bb_reader b) (take ?w (bb_buff b) @ d)"
      unfolding bytebuffer_contents_def sel by (simp only:)
    then show ?thesis using w by (simp add: bytebuffer_contents_def)
  qed
  ultimately show ?thesis using put by blast
qed

lemma bytebuffer_put_shared_spec:
  assumes "bytebuffer_wf t b" "t + length d \<le> bytebuffer_limit"
  shows "\<exists>b'. bytebuffer_wf (t + length d) b' \<and> bytebuffer_contents b' = bytebuffer_contents b @ d \<and>
    (bytebuffer_put_shared inflight d b = Inr b' \<or>
     inflight \<noteq> None \<and> bytebuffer_put_shared inflight d b = Inl (Undefined ''async_write from a freed buffer''))"
  using bytebuffer_put_spec [OF assms] by (auto simp: bytebuffer_put_shared_def)

lemma bytebuffer_readable_bytes_spec:
  assumes "bytebuffer_wf t b" "t \<le> bytebuffer_limit"
  shows "bytebuffer_readable_bytes b = Inr (length (bytebuffer_contents b))"
proof -
  have "bb_writer b \<le> u32_max" using assms by (intro limit_room [of t]) (auto simp: bytebuffer_wf_def)
  with assms(1) show ?thesis
    by (simp add: bytebuffer_readable_bytes_def length_bytebuffer_contents [OF assms(1)] bytebuffer_wf_def)
qed

lemma bytebuffer_readable_iff:
  "bytebuffer_wf t b \<Longrightarrow> bytebuffer_readable b \<longleftrightarrow> bytebuffer_contents b \<noteq> []"
  using length_bytebuffer_contents [of t b] by (simp add: bytebuffer_readable_def flip: length_greater_0_conv)

lemma bytebuffer_read_spec:
  assumes wf: "bytebuffer_wf t b" and t: "t \<le> bytebuffer_limit"
  shows "bytebuffer_read_bytes n b =
     (if n \<le> length (bytebuffer_contents b) then
        Inr (bytebuffer_may_shrink_to_fit (b\<lparr>bb_reader := bb_reader b + n\<rparr>))
      else Inl (AssertFailed ''readable_bytes() >= bytes''))"
proof -
  have "bb_writer b \<le> u32_max" using assms by (intro limit_room [of t]) (auto simp: bytebuffer_wf_def)
  then show ?thesis using wf
    by (auto simp: bytebuffer_read_bytes_def bytebuffer_readable_bytes_spec [OF assms] assertr_def
        length_bytebuffer_contents [OF wf] bytebuffer_wf_def)
qed

lemma bytebuffer_shrink_spec:
  assumes "bytebuffer_wf t b" "n \<le> length (bytebuffer_contents b)"
  defines "b' \<equiv> bytebuffer_may_shrink_to_fit (b\<lparr>bb_reader := bb_reader b + n\<rparr>)"
  shows "bytebuffer_wf t b'" "bytebuffer_contents b' = drop n (bytebuffer_contents b)"
  using assms(1,2) by (auto simp: b'_def bytebuffer_may_shrink_to_fit_def length_bytebuffer_contents [OF assms(1)]
      bytebuffer_wf_def bytebuffer_contents_def add.commute)

lemma bytebuffer_slice_spec:
  assumes "bytebuffer_wf t b" "t \<le> bytebuffer_limit"
  shows "bytebuffer_slice b = Inr (bytebuffer_contents b)"
  using assms by (simp add: bytebuffer_slice_def bytebuffer_readable_bytes_spec length_bytebuffer_contents)
    (auto simp: bytebuffer_contents_def bytebuffer_wf_def drop_take)

lemma bytebuffer_reset_spec:
  "bytebuffer_wf 0 (bytebuffer_reset b)" "bytebuffer_contents (bytebuffer_reset b) = []"
  by (simp_all add: bytebuffer_reset_def bytebuffer_wf_def bytebuffer_contents_def vec_resize0_def min_def)

interpretation bq: byte_queue bytebuffer_wf bytebuffer_contents bytebuffer_put bytebuffer_read_bytes bytebuffer_limit
proof
  fix t b n
  assume *: "bytebuffer_wf t b" "t \<le> bytebuffer_limit" "n \<le> length (bytebuffer_contents b)"
  show "\<exists>b'. bytebuffer_read_bytes n b = Inr b' \<and> bytebuffer_wf t b' \<and>
      bytebuffer_contents b' = drop n (bytebuffer_contents b)"
    using bytebuffer_read_spec [OF *(1,2), of n] bytebuffer_shrink_spec [OF *(1,3)] *(3) by simp
qed (auto simp: bytebuffer_read_spec intro: bytebuffer_put_spec)

end
