(* ===== verification/Transport.thy ===== *)
theory Transport
  imports ByteBuffer Codec File_Names
begin

text \<open>
  Messages between nodes: \<open>src/raft-kv/transport\<close>. A client session (\<open>peer.cpp\<close>) writes frames
  into its byte buffer and hands the buffer to an asynchronous write; a server session
  (\<open>raft_server.cpp\<close>) reads frames from its socket and passes messages on; the transport
  (\<open>transport.cpp\<close>) picks the session of the addressee.

  The socket is what \<open>boost::asio\<close> promises: an asynchronous write ends with an error or with all
  its bytes on the connection, and an asynchronous read completes when it has exactly the bytes
  asked for. Handlers of one \<open>io_service\<close> run one after the other: they are the steps of the model.

  \<open>MSGPACK_DEFINE\<close> of \<open>Message\<close> (\<open>proto.h\<close>) names all fields but the snapshot, so a received
  message has the snapshot of a new object.
\<close>

section \<open>Frames\<close>

definition TransportTypeStream :: byte where "TransportTypeStream = 1"
definition TransportTypePipeline :: byte where "TransportTypePipeline = 3"
definition TransportTypeDebug :: byte where "TransportTypeDebug = 5"

lemmas transport_type_defs = TransportTypeStream_def TransportTypePipeline_def TransportTypeDebug_def

definition transport_meta :: "byte \<Rightarrow> u32 \<Rightarrow> byte list" where
  "transport_meta type len = type # be32 len"

definition message_packed :: "message \<Rightarrow> message" where
  "message_packed m = m\<lparr>m_snapshot := new_snapshot\<rparr>"

text \<open>The structure \<open>DebugMessage\<close> in memory.\<close>

definition debug_message :: "u32 \<Rightarrow> u32 \<Rightarrow> byte list" where
  "debug_message a b = le32 a @ le32 b"

section \<open>Client sessions\<close>

text \<open>
  \<open>cs_inflight\<close>: the number of bytes of the outstanding \<open>async_write\<close>, which starts at the read
  position; \<open>cs_wire\<close>: the bytes put on the connection so far.
\<close>

record client_session =
  cs_buffer :: byte_buffer
  cs_connected :: bool
  cs_inflight :: "nat option"
  cs_wire :: "byte list"

definition new_client_session :: client_session where
  "new_client_session = \<lparr>cs_buffer = new_byte_buffer, cs_connected = False, cs_inflight = None, cs_wire = []\<rparr>"

definition client_put :: "byte list \<Rightarrow> client_session \<Rightarrow> client_session res" where
  "client_put data s =
     bindr (bytebuffer_put_shared (cs_inflight s) data (cs_buffer s)) (\<lambda>b. Inr (s\<lparr>cs_buffer := b\<rparr>))"

definition client_start_write :: "client_session \<Rightarrow> client_session res" where
  "client_start_write s =
     (if \<not> bytebuffer_readable (cs_buffer s) then Inr s
      else bindr (bytebuffer_readable_bytes (cs_buffer s)) (\<lambda>remaining. Inr (s\<lparr>cs_inflight := Some remaining\<rparr>)))"

definition client_send :: "byte \<Rightarrow> byte list \<Rightarrow> client_session \<Rightarrow> client_session res" where
  "client_send type data s =
     bindr (bytebuffer_readable_bytes (cs_buffer s)) (\<lambda>remaining.
     bindr (client_put (transport_meta type (length data)) s) (\<lambda>s.
     bindr (client_put data s) (\<lambda>s.
     bindr (bytebuffer_readable_bytes (cs_buffer s)) (\<lambda>n.
     bindr (assertr ''remaining + sizeof(TransportMeta) + len == readable_bytes()'' (remaining + 5 + length data = n)) (\<lambda>_.
     if cs_connected s \<and> remaining = 0 then client_start_write s else Inr s)))))"

text \<open>The handler of \<open>async_connect\<close>; \<open>None\<close> when the session is given up.\<close>

definition client_on_connect :: "bool \<Rightarrow> client_session \<Rightarrow> client_session option res" where
  "client_on_connect err s =
     (if err then Inr None
      else
        let s = s\<lparr>cs_connected := True\<rparr> in
        if bytebuffer_readable (cs_buffer s) then bindr (client_start_write s) (\<lambda>s. Inr (Some s)) else Inr (Some s))"

text \<open>The handler of \<open>async_write\<close>: \<open>bytes\<close> of the bytes at the read position were sent.\<close>

definition client_on_write :: "bool \<Rightarrow> nat \<Rightarrow> client_session \<Rightarrow> client_session option res" where
  "client_on_write err bytes s =
     (if err \<or> bytes = 0 then Inr None
      else
        bindr (bytebuffer_slice (cs_buffer s)) (\<lambda>sl.
        bindr (bytebuffer_read_bytes bytes (cs_buffer s)) (\<lambda>b.
        bindr (client_start_write (s\<lparr>cs_buffer := b, cs_inflight := None, cs_wire := cs_wire s @ take bytes sl\<rparr>)) (\<lambda>s.
        Inr (Some s)))))"

section \<open>Peers and the transport\<close>

text \<open>
  Addresses: \<open>boost::split\<close> cuts a string at every separator; \<open>std::atoi\<close> skips white space, takes a
  sign and digits, and is undefined when the number is no \<open>int\<close>; the port is cut to 16 bits. Whether
  \<open>asio\<close> can parse the address is its business (\<open>address_ok\<close>).
\<close>

fun split_on :: "char \<Rightarrow> string \<Rightarrow> string list" where
  "split_on c [] = [[]]"
| "split_on c (x # xs) =
     (if x = c then [] # split_on c xs
      else case split_on c xs of [] \<Rightarrow> [[x]] | w # ws \<Rightarrow> (x # w) # ws)"

definition c_atoi :: "string \<Rightarrow> int res" where
  "c_atoi s =
     (let s = dropWhile is_space s; minus = (s \<noteq> [] \<and> hd s = CHR ''-'');
          s = (if s \<noteq> [] \<and> (hd s = CHR ''-'' \<or> hd s = CHR ''+'') then tl s else s);
          v = int (dec_value (takeWhile is_digit s)); r = (if minus then - v else v)
      in if r < - (2 ^ 31) \<or> 2 ^ 31 \<le> r then Inl (Undefined ''atoi'') else Inr r)"

definition endpoint_of :: "(string \<Rightarrow> bool) \<Rightarrow> string \<Rightarrow> (string \<times> nat) res" where
  "endpoint_of address_ok host =
     (case split_on CHR '':'' host of
        [address, port] \<Rightarrow>
          if \<not> address_ok address then Inl (Fatal ''address::from_string'')
          else bindr (c_atoi port) (\<lambda>p. Inr (address, nat (p mod 2 ^ 16)))
      | _ \<Rightarrow> Inl (Fatal ''exit(0): invalid host''))"

record peer =
  pe_id :: u64
  pe_endpoint :: "string \<times> nat"
  pe_session :: "client_session option"

text \<open>A new session starts to connect; it is not yet connected when the data is sent.\<close>

definition peer_do_send_data :: "byte \<Rightarrow> byte list \<Rightarrow> peer \<Rightarrow> peer res" where
  "peer_do_send_data type data p =
     bindr (client_send type data (case pe_session p of None \<Rightarrow> new_client_session | Some s \<Rightarrow> s)) (\<lambda>s.
     Inr (p\<lparr>pe_session := Some s\<rparr>))"

definition peer_send :: "message msgpack \<Rightarrow> message \<Rightarrow> peer \<Rightarrow> peer res" where
  "peer_send mp msg p =
     (let sbuf = mp_pack mp (message_packed msg) in
      peer_do_send_data TransportTypeStream (take (cast32 (length sbuf)) sbuf) p)"

text \<open>
  The timer sends two values of a counter that all peers of the process share; \<open>others\<close> is how
  often other threads advance it in between.
\<close>

definition peer_timer :: "nat \<Rightarrow> u32 \<Rightarrow> peer \<Rightarrow> (u32 \<times> peer) res" where
  "peer_timer others tick p =
     (let a = tick; tick = add32 tick 1; b = add32 tick others; tick = add32 b 1 in
      bindr (peer_do_send_data TransportTypeDebug (debug_message a b) p) (\<lambda>p. Inr (tick, p)))"

record transport =
  tr_peers :: "(u64 \<times> peer) list"
  tr_tick :: u32

definition transport_add_peer :: "nat \<Rightarrow> (string \<Rightarrow> bool) \<Rightarrow> u64 \<Rightarrow> string \<Rightarrow> transport \<Rightarrow> transport res" where
  "transport_add_peer others address_ok pid peer_str t =
     (case map_of (tr_peers t) pid of
        Some _ \<Rightarrow> Inr t
      | None \<Rightarrow>
          bindr (endpoint_of address_ok peer_str) (\<lambda>ep.
          bindr (peer_timer others (tr_tick t) \<lparr>pe_id = pid, pe_endpoint = ep, pe_session = None\<rparr>) (\<lambda>(tick, p).
          Inr (t\<lparr>tr_tick := tick, tr_peers := AList.update pid p (tr_peers t)\<rparr>))))"

definition transport_send_one :: "message msgpack \<Rightarrow> message \<Rightarrow> transport \<Rightarrow> transport res" where
  "transport_send_one mp msg t =
     (if m_to msg = 0 then Inr t
      else
        case map_of (tr_peers t) (m_to msg) of
          None \<Rightarrow> Inr t
        | Some p \<Rightarrow> bindr (peer_send mp msg p) (\<lambda>p. Inr (t\<lparr>tr_peers := AList.update (m_to msg) p (tr_peers t)\<rparr>)))"

definition transport_send :: "message msgpack \<Rightarrow> message list \<Rightarrow> transport \<Rightarrow> transport res" where
  "transport_send mp msgs t = for_each (transport_send_one mp) msgs t"

section \<open>Server sessions\<close>

datatype server_state = WaitMeta | WaitMessage byte u32 | Closed

text \<open>
  A session works on the bytes that have arrived (\<open>ss_input\<close>) and passes messages to
  \<open>RaftNode::process\<close> (\<open>ss_received\<close>).
\<close>

record server_session =
  ss_state :: server_state
  ss_input :: "byte list"
  ss_received :: "message list"

definition new_server_session :: server_session where
  "new_server_session = \<lparr>ss_state = WaitMeta, ss_input = [], ss_received = []\<rparr>"

definition server_decode :: "message msgpack \<Rightarrow> byte \<Rightarrow> byte list \<Rightarrow> server_session \<Rightarrow> server_session res" where
  "server_decode mp type data s =
     (if type = TransportTypeDebug then
        bindr (assertr ''len == sizeof(DebugMessage)'' (length data = 8)) (\<lambda>_.
        bindr (assertr ''dbg->a + 1 == dbg->b'' (add32 (of_le32 (take 4 data)) 1 = of_le32 (drop 4 data))) (\<lambda>_.
        Inr (s\<lparr>ss_state := WaitMeta\<rparr>)))
      else if type = TransportTypeStream then
        (case mp_unpack mp data of
           None \<Rightarrow> Inr (s\<lparr>ss_state := Closed\<rparr>)
         | Some msg \<Rightarrow> Inr (s\<lparr>ss_received := ss_received s @ [msg], ss_state := WaitMeta\<rparr>))
      else Inr (s\<lparr>ss_state := Closed\<rparr>))"

text \<open>The completion of the read that is outstanding, if its bytes are there.\<close>

definition server_step :: "message msgpack \<Rightarrow> server_session \<Rightarrow> server_session option res" where
  "server_step mp s =
     (case ss_state s of
        Closed \<Rightarrow> Inr None
      | WaitMeta \<Rightarrow>
          if length (ss_input s) < 5 then Inr None
          else Inr (Some (s\<lparr>ss_state := WaitMessage (ss_input s ! 0) (of_be32 (take 4 (drop 1 (ss_input s)))),
                            ss_input := drop 5 (ss_input s)\<rparr>))
      | WaitMessage type len \<Rightarrow>
          if len = 0 then Inr (Some (s\<lparr>ss_state := Closed\<rparr>))
          else if length (ss_input s) < len then Inr None
          else bindr (server_decode mp type (take len (ss_input s)) (s\<lparr>ss_input := drop len (ss_input s)\<rparr>)) (\<lambda>s. Inr (Some s)))"

lemma server_decode_keeps:
  "server_decode mp type data s = Inr s' \<Longrightarrow> ss_input s' = ss_input s \<and> (ss_state s' = WaitMeta \<or> ss_state s' = Closed)"
  by (auto simp: server_decode_def res_simps split: if_splits option.splits)

fun server_rank :: "server_state \<Rightarrow> nat" where
  "server_rank WaitMeta = 1"
| "server_rank (WaitMessage t n) = 1"
| "server_rank Closed = 0"

lemma server_step_progress:
  "server_step mp s = Inr (Some s') \<Longrightarrow>
   length (ss_input s') + server_rank (ss_state s') < length (ss_input s) + server_rank (ss_state s)"
  by (auto simp: server_step_def res_simps split: server_state.splits if_splits dest!: server_decode_keeps)

text \<open>All completions that the bytes present allow.\<close>

function server_run :: "message msgpack \<Rightarrow> server_session \<Rightarrow> server_session res" where
  "server_run mp s =
     (case server_step mp s of
        Inl e \<Rightarrow> Inl e
      | Inr None \<Rightarrow> Inr s
      | Inr (Some s') \<Rightarrow> server_run mp s')"
  by pat_completeness auto
termination
  by (relation "measure (\<lambda>(mp, s). length (ss_input s) + server_rank (ss_state s))") (auto dest: server_step_progress)

declare server_run.simps [simp del]

definition server_receive :: "message msgpack \<Rightarrow> byte list \<Rightarrow> server_session \<Rightarrow> server_session res" where
  "server_receive mp bytes s = server_run mp (s\<lparr>ss_input := ss_input s @ bytes\<rparr>)"

section \<open>The server that accepts connections\<close>

text \<open>
  \<open>AsioServer\<close>: whether the operating system lets it bind and listen is a parameter. A failed accept
  ends the accepting; a successful one starts the next accept and the session's first read.
\<close>

record net =
  ne_address :: "string \<Rightarrow> bool"
  ne_listen :: "string \<Rightarrow> nat \<Rightarrow> bool"

record io_server =
  io_endpoint :: "string \<times> nat"
  io_accepting :: bool
  io_sessions :: "server_session list"

definition io_server_create :: "net \<Rightarrow> string \<Rightarrow> io_server res" where
  "io_server_create N host =
     bindr (endpoint_of (ne_address N) host) (\<lambda>(address, port).
     if \<not> ne_listen N address port then Inl (Fatal ''acceptor: bind or listen'')
     else Inr \<lparr>io_endpoint = (address, port), io_accepting = False, io_sessions = []\<rparr>)"

definition io_server_start :: "io_server \<Rightarrow> io_server" where
  "io_server_start s = s\<lparr>io_accepting := True\<rparr>"

definition io_server_on_accept :: "bool \<Rightarrow> io_server \<Rightarrow> io_server" where
  "io_server_on_accept err s =
     (let s = s\<lparr>io_accepting := False\<rparr> in
      if err then s else (io_server_start s)\<lparr>io_sessions := io_sessions s @ [new_server_session]\<rparr>)"

text \<open>Bytes for the session at position \<open>k\<close>: the messages it passes on to the raft server.\<close>

definition io_server_receive :: "message msgpack \<Rightarrow> nat \<Rightarrow> byte list \<Rightarrow> io_server \<Rightarrow> (message list \<times> io_server) res" where
  "io_server_receive mp k bytes s =
     bindr (vec_at (io_sessions s) k) (\<lambda>ss.
     bindr (server_receive mp bytes ss) (\<lambda>ss'.
     Inr (drop (length (ss_received ss)) (ss_received ss'), s\<lparr>io_sessions := (io_sessions s)[k := ss']\<rparr>)))"

definition transport_start :: "net \<Rightarrow> string \<Rightarrow> io_server res" where
  "transport_start N host = bindr (io_server_create N host) (\<lambda>s. Inr (io_server_start s))"

end
