(* ===== verification/Raft_Server.thy ===== *)
theory Raft_Server
  imports Node_Run Wal_Recovery Snapshotter Redis_Store Transport
begin

text \<open>
  The server around a raft node: \<open>src/raft-kv/server/raft_node.h\<close> and \<open>raft_node.cpp\<close>. It
  recovers the log from disk, drives the rounds of the raft node, publishes committed entries to
  the key-value store and takes snapshots.

  The memory storage is shared with the raft log, where the model keeps it. The functions that are
  posted to the thread of the store run in the order in which they are posted; the model runs them
  at once. Messages for the transport, answers for sessions and new peers are collected in lists.
\<close>

section \<open>State\<close>

definition defaultSnapCount :: u64 where "defaultSnapCount = 100000"
definition snapshotCatchUpEntriesN :: u64 where "snapshotCatchUpEntriesN = 100000"

record server_lib =
  vl_wal :: wal_lib
  vl_snap :: snap_lib
  vl_store :: store_lib
  vl_conf :: "conf_change msgpack"

record 'c raft_server =
  sv_id :: u64
  sv_last_index :: u64
  sv_conf_state :: conf_state
  sv_snapshot_index :: u64
  sv_applied_index :: u64
  sv_snap_count :: u64
  sv_node :: raw_node
  sv_wal :: wal
  sv_snap_dir :: snap_dir
  sv_store :: "'c redis_store"
  sv_sent :: "message list"
  sv_answers :: "('c \<times> status) list"
  sv_peers :: "(u64 \<times> string) list"
  sv_io :: io_server

abbreviation sv_storage :: "'c raft_server \<Rightarrow> memory_storage" where
  "sv_storage s \<equiv> rl_storage (r_log (rn_raft (sv_node s)))"

definition sv_set_storage :: "memory_storage \<Rightarrow> 'c raft_server \<Rightarrow> 'c raft_server" where
  "sv_set_storage st s = s\<lparr>sv_node := node_set_storage st (sv_node s)\<rparr>"

section \<open>Snapshots\<close>

text \<open>\<open>io\<close>: what the file system does when the snapshot file is written.\<close>

definition server_save_snap :: "server_lib \<Rightarrow> save_io \<Rightarrow> snapshot \<Rightarrow> 'c raft_server \<Rightarrow> (status \<times> 'c raft_server) res" where
  "server_save_snap L io snap s =
     bindr (wal_save_snapshot (vl_wal L) \<lparr>ws_index = snap_index snap, ws_term = snap_term snap\<rparr> (sv_wal s)) (\<lambda>(st, w).
     let s = s\<lparr>sv_wal := w\<rparr> in
     if \<not> is_ok st then Inr (st, s)
     else
       let (st, dir) = save_snap (vl_snap L) io snap (sv_snap_dir s); s = s\<lparr>sv_snap_dir := dir\<rparr> in
       if \<not> is_ok st then Inl (Fatal ''save snapshot error'') else Inr (st, s))"

text \<open>The callback that the store runs after a failed recovery is fatal.\<close>

definition publish_snapshot :: "server_lib \<Rightarrow> snapshot \<Rightarrow> 'c raft_server \<Rightarrow> 'c raft_server res" where
  "publish_snapshot L snap s =
     (if snapshot_is_empty snap then Inr s
      else if snap_index snap \<le> sv_applied_index s then Inl (Fatal ''snapshot index should > progress.appliedIndex + 1'')
      else
        let s = s\<lparr>sv_conf_state := sm_conf_state (snap_metadata snap), sv_snapshot_index := snap_index snap,
                  sv_applied_index := snap_index snap\<rparr> in
        bindr (store_recover_from_snapshot (vl_store L) (snap_data snap) (sv_store s)) (\<lambda>(st, store).
        if \<not> is_ok st then Inl (Fatal ''recover from snapshot error'') else Inr (s\<lparr>sv_store := store\<rparr>)))"

definition maybe_trigger_snapshot :: "server_lib \<Rightarrow> save_io \<Rightarrow> 'c raft_server \<Rightarrow> 'c raft_server res" where
  "maybe_trigger_snapshot L io s =
     (if sub64 (sv_applied_index s) (sv_snapshot_index s) \<le> sv_snap_count s then Inr s
      else
        let data = store_get_snapshot (vl_store L) (sv_store s) in
        bindr (storage_create_snapshot (sv_applied_index s) (Some (sv_conf_state s)) data (sv_storage s)) (\<lambda>(st, snap, ms).
        if \<not> is_ok st then Inl (Fatal ''create snapshot error'')
        else
          bindr (server_save_snap L io snap (sv_set_storage ms s)) (\<lambda>(st, s).
          if \<not> is_ok st then Inl (Fatal ''save snapshot error'')
          else
            let compactIndex = (if sv_applied_index s > snapshotCatchUpEntriesN
                  then sub64 (sv_applied_index s) snapshotCatchUpEntriesN else 1) in
            bindr (storage_compact compactIndex (sv_storage s)) (\<lambda>(st, ms).
            if \<not> is_ok st then Inl (Fatal ''compact error'')
            else Inr ((sv_set_storage ms s)\<lparr>sv_snapshot_index := sv_applied_index s\<rparr>)))))"

section \<open>Publishing committed entries\<close>

definition entries_to_apply :: "u64 \<Rightarrow> entry list \<Rightarrow> entry list res" where
  "entries_to_apply applied entries =
     (case entries of
        [] \<Rightarrow> Inr []
      | e # _ \<Rightarrow>
          let first = e_index e in
          if first > add64 applied 1 then Inl (Fatal ''first index of committed entry should <= progress.appliedIndex+1'')
          else if add64 (sub64 applied first) 1 < length entries
          then vec_range entries (add64 (sub64 applied first) 1) (length entries)
          else Inr [])"

text \<open>
  \<open>publish_entries\<close>: an entry whose configuration change cannot be unpacked is skipped without
  counting as applied; being removed from the cluster ends the loop.
\<close>

definition publish_normal :: "server_lib \<Rightarrow> entry \<Rightarrow> 'c raft_server \<Rightarrow> 'c raft_server res" where
  "publish_normal L e s =
     (if e_data e = [] then Inr s
      else
        bindr (store_read_commit (vl_store L) (e_data e) (sv_store s)) (\<lambda>(out, store).
        Inr (s\<lparr>sv_store := store, sv_answers := sv_answers s @ out\<rparr>)))"

fun publish_entries :: "server_lib \<Rightarrow> entry list \<Rightarrow> 'c raft_server \<Rightarrow> (bool \<times> 'c raft_server) res" where
  "publish_entries L [] s = Inr (True, s)"
| "publish_entries L (e # es) s =
     (case e_type e of
        EntryNormal \<Rightarrow>
          bindr (publish_normal L e s) (\<lambda>s. publish_entries L es (s\<lparr>sv_applied_index := e_index e\<rparr>))
      | EntryConfChange \<Rightarrow>
          (case mp_unpack (vl_conf L) (e_data e) of
             None \<Rightarrow> publish_entries L es s
           | Some cc \<Rightarrow>
               bindr (node_apply_conf_change cc (sv_node s)) (\<lambda>(cs, n).
               let s = s\<lparr>sv_node := n, sv_conf_state := cs\<rparr> in
               if cc_type cc = ConfChangeRemoveNode \<and> cc_node_id cc = sv_id s then Inr (False, s)
               else
                 let s = (if cc_type cc = ConfChangeAddNode \<and> cc_context cc \<noteq> []
                          then s\<lparr>sv_peers := sv_peers s @ [(cc_node_id cc, map (\<lambda>b. char_of (unat b)) (cc_context cc))]\<rparr>
                          else s)
                 in publish_entries L es (s\<lparr>sv_applied_index := e_index e\<rparr>)))
      | EntryInvalid _ \<Rightarrow> Inl (Fatal ''unknown type''))"

section \<open>Rounds\<close>

text \<open>
  One round of \<open>pull_ready_events\<close>, and whether the loop goes on: it is left when the ready has
  nothing in it. \<open>io\<close> gives the outcome of the file operations for the snapshot of the ready and for a
  snapshot that is triggered.
\<close>

definition server_publish_ready :: "server_lib \<Rightarrow> ready \<Rightarrow> 'c raft_server \<Rightarrow> 'c raft_server res" where
  "server_publish_ready L rd s =
     (if rd_committed_entries rd = [] then Inr s
      else
        bindr (entries_to_apply (sv_applied_index s) (rd_committed_entries rd)) (\<lambda>ents.
        if ents = [] then Inr s else bindr (publish_entries L ents s) (\<lambda>(_, s). Inr s)))"

definition server_ready_snapshot :: "server_lib \<Rightarrow> save_io \<Rightarrow> ready \<Rightarrow> 'c raft_server \<Rightarrow> 'c raft_server res" where
  "server_ready_snapshot L io rd s =
     (if snapshot_is_empty (rd_snapshot rd) then Inr s
      else
        bindr (server_save_snap L io (rd_snapshot rd) s) (\<lambda>(st, s).
        if \<not> is_ok st then Inl (Fatal ''save snapshot error'')
        else publish_snapshot L (rd_snapshot rd)
               (sv_set_storage (snd (storage_apply_snapshot (rd_snapshot rd) (sv_storage s))) s)))"

definition server_round :: "server_lib \<Rightarrow> save_io \<times> save_io \<Rightarrow> 'c raft_server \<Rightarrow> (bool \<times> 'c raft_server) res" where
  "server_round L io s =
     bindr (node_ready (sv_node s)) (\<lambda>(rd, n).
     let s = s\<lparr>sv_node := n\<rparr> in
     if \<not> ready_contains_updates rd then Inr (False, s)
     else
       bindr (wal_save (vl_wal L) (rd_hard_state rd) (rd_entries rd) (sv_wal s)) (\<lambda>(_, w).
       bindr (server_ready_snapshot L (fst io) rd (s\<lparr>sv_wal := w\<rparr>)) (\<lambda>s.
       bindr (if rd_entries rd \<noteq> [] then
                bindr (storage_append (rd_entries rd) (sv_storage s)) (\<lambda>(_, ms). Inr (sv_set_storage ms s))
              else Inr s) (\<lambda>s.
       let s = (if rd_messages rd \<noteq> [] then s\<lparr>sv_sent := sv_sent s @ rd_messages rd\<rparr> else s) in
       bindr (server_publish_ready L rd s) (\<lambda>s.
       bindr (maybe_trigger_snapshot L (snd io) s) (\<lambda>s.
       bindr (node_advance rd (sv_node s)) (\<lambda>n. Inr (True, s\<lparr>sv_node := n\<rparr>))))))))"

text \<open>The loop: as many rounds as there are outcomes of file operations given.\<close>

fun pull_ready_events :: "server_lib \<Rightarrow> (save_io \<times> save_io) list \<Rightarrow> 'c raft_server \<Rightarrow> 'c raft_server res" where
  "pull_ready_events L [] s = bindr (node_has_ready (sv_node s)) (\<lambda>b. if b then Inl Diverges else Inr s)"
| "pull_ready_events L (io # ios) s =
     bindr (node_has_ready (sv_node s)) (\<lambda>b.
     if \<not> b then Inr s
     else bindr (server_round L io s) (\<lambda>(more, s). if more then pull_ready_events L ios s else Inr s))"

definition server_timer :: "server_lib \<Rightarrow> (save_io \<times> save_io) list \<Rightarrow> 'c raft_server \<Rightarrow> 'c raft_server res" where
  "server_timer L ios s =
     bindr (node_tick (sv_node s)) (\<lambda>n. pull_ready_events L ios (s\<lparr>sv_node := n\<rparr>))"

definition server_propose ::
  "server_lib \<Rightarrow> (save_io \<times> save_io) list \<Rightarrow> byte list \<Rightarrow> 'c raft_server \<Rightarrow> (status \<times> 'c raft_server) res" where
  "server_propose L ios data s =
     bindr (node_propose data (sv_node s)) (\<lambda>(st, n).
     bindr (pull_ready_events L ios (s\<lparr>sv_node := n\<rparr>)) (\<lambda>s. Inr (st, s)))"

definition server_process ::
  "server_lib \<Rightarrow> (save_io \<times> save_io) list \<Rightarrow> message \<Rightarrow> 'c raft_server \<Rightarrow> (status \<times> 'c raft_server) res" where
  "server_process L ios msg s =
     bindr (node_step msg (sv_node s)) (\<lambda>(st, n).
     bindr (pull_ready_events L ios (s\<lparr>sv_node := n\<rparr>)) (\<lambda>s. Inr (st, s)))"

section \<open>Start-up\<close>

text \<open>What is on disk: the log directory, if it exists, and the snapshot directory.\<close>

record disk =
  dk_wal :: "dir option"
  dk_snap :: snap_dir

text \<open>
  What \<open>replay_WAL\<close> leaves behind: the storage, the log, the snapshot directory, \<open>last_index_\<close> and
  \<open>snap_data_\<close>.
\<close>

record recovered =
  rv_storage :: memory_storage
  rv_wal :: wal
  rv_snap_dir :: snap_dir
  rv_last_index :: u64
  rv_snap_data :: "byte list"

definition open_WAL ::
  "server_lib \<Rightarrow> (string \<Rightarrow> string) \<Rightarrow> (byte list \<Rightarrow> int) \<Rightarrow> bool \<Rightarrow> dir option \<Rightarrow> snapshot \<Rightarrow> wal res" where
  "open_WAL L ext tell io waldir snap =
     bindr (case waldir of None \<Rightarrow> wal_create (vl_wal L) tell io [] | Some d \<Rightarrow> Inr d) (\<lambda>d.
     wal_open ext tell io d \<lparr>ws_index = snap_index snap, ws_term = snap_term snap\<rparr>)"

text \<open>Null pointers that \<open>read_all\<close> left between entries are dereferenced.\<close>

definition deref_entries :: "entry option list \<Rightarrow> entry list res" where
  "deref_entries ents = (if None \<in> set ents then Inl (Undefined ''null EntryPtr'') else Inr (map the ents))"

definition replay_WAL ::
  "server_lib \<Rightarrow> (string \<Rightarrow> string) \<Rightarrow> (byte list \<Rightarrow> int) \<Rightarrow> bool \<Rightarrow> disk \<Rightarrow> recovered res" where
  "replay_WAL L ext tell io d =
     bindr (snapshotter_load (vl_snap L) ext new_snapshot (dk_snap d)) (\<lambda>(st, snap, sdir).
     bindr
       (if \<not> is_ok st then
          if is_not_found st then Inr new_memory_storage else Inl (Fatal ''error loading snapshot'')
        else Inr (snd (storage_apply_snapshot snap new_memory_storage)))
     (\<lambda>ms.
     bindr (open_WAL L ext tell io (dk_wal d) snap) (\<lambda>w.
     bindr (wal_read_all (vl_wal L) new_hard_state [] w) (\<lambda>(st, hs, ptrs, w).
     if \<not> is_ok st then Inl (Fatal ''failed to read WAL'')
     else
       bindr (deref_entries ptrs) (\<lambda>ents.
       bindr (storage_append ents (storage_set_hard_state hs ms)) (\<lambda>(_, ms).
       Inr \<lparr>rv_storage = ms, rv_wal = w, rv_snap_dir = sdir,
            rv_last_index = (if ents \<noteq> [] then e_index (last ents) else 0),
            rv_snap_data = (if ents \<noteq> [] then [] else snap_data snap)\<rparr>))))))"

definition server_config :: "u64 \<Rightarrow> memory_storage \<Rightarrow> config" where
  "server_config i ms =
     (new_config ms)\<lparr>c_id := i, c_election_tick := 10, c_heartbeat_tick := 1, c_applied := 0,
       c_max_size_per_msg := 1024 * 1024, c_max_committed_size_per_ready := 0,
       c_max_uncommitted_entries_size := 2 ^ 30, c_max_inflight_msgs := 256, c_check_quorum := True,
       c_pre_vote := True, c_read_only_option := ReadOnlySafe, c_disable_proposal_forwarding := False\<rparr>"

definition server_node :: "server_lib \<Rightarrow> u64 \<Rightarrow> nat \<Rightarrow> nat list \<Rightarrow> bool \<Rightarrow> memory_storage \<Rightarrow> raw_node res" where
  "server_node L i peers draws wal_exists ms =
     (let (st, c) = config_validate (server_config i ms) in
      if \<not> is_ok st then Inl (Fatal ''invalid configure'')
      else if wal_exists then restart_node c draws
      else start_node (mp_pack (vl_conf L)) c draws (map (\<lambda>k. \<lparr>pc_id = k + 1, pc_context = []\<rparr>) [0..<peers]))"

text \<open>The constructor of \<open>RaftNode\<close>.\<close>

definition server_construct ::
  "server_lib \<Rightarrow> (string \<Rightarrow> string) \<Rightarrow> (byte list \<Rightarrow> int) \<Rightarrow> bool \<Rightarrow> u64 \<Rightarrow> string \<Rightarrow> nat list \<Rightarrow> disk \<Rightarrow> (recovered \<times> raw_node) res" where
  "server_construct L ext tell io i cluster draws d =
     bindr (replay_WAL L ext tell io d) (\<lambda>rv.
     bindr (server_node L i (length (split_on CHR '','' cluster)) draws (dk_wal d \<noteq> None) (rv_storage rv)) (\<lambda>n.
     Inr (rv, n)))"

definition server_schedule ::
  "server_lib \<Rightarrow> net \<Rightarrow> u64 \<Rightarrow> nat \<Rightarrow> io_server \<Rightarrow> (u64 \<times> string) list \<Rightarrow> recovered \<Rightarrow> raw_node \<Rightarrow> 'c raft_server res" where
  "server_schedule L N i port io peers rv n =
     (let snap = ms_snapshot (rv_storage rv) in
     bindr (new_redis_store (vl_store L) (ne_listen N) i (rv_snap_data rv) port) (\<lambda>store.
     Inr \<lparr>sv_id = i, sv_last_index = rv_last_index rv, sv_conf_state = sm_conf_state (snap_metadata snap),
          sv_snapshot_index = snap_index snap, sv_applied_index = snap_index snap, sv_snap_count = defaultSnapCount,
          sv_node = n, sv_wal = rv_wal rv, sv_snap_dir = rv_snap_dir rv, sv_store = store, sv_sent = [],
          sv_answers = [], sv_peers = peers, sv_io = io\<rparr>))"

text \<open>
  \<open>RaftNode::main\<close>: the transport listens at the own address, and every other member of the cluster
  becomes a peer of the transport.
\<close>

definition server_peers :: "u64 \<Rightarrow> string list \<Rightarrow> (u64 \<times> string) list" where
  "server_peers i peers = filter (\<lambda>(k, _). k \<noteq> i) (enumerate 1 peers)"

definition server_main ::
  "server_lib \<Rightarrow> (string \<Rightarrow> string) \<Rightarrow> (byte list \<Rightarrow> int) \<Rightarrow> bool \<Rightarrow> net \<Rightarrow> u64 \<Rightarrow> string \<Rightarrow> nat \<Rightarrow> nat list \<Rightarrow> disk \<Rightarrow>
   'c raft_server res" where
  "server_main L ext tell io N i cluster port draws d =
     bindr (server_construct L ext tell io i cluster draws d) (\<lambda>(rv, n).
     let peers = split_on CHR '','' cluster in
     if i = 0 \<or> length peers < i then Inl (Undefined ''peers_[id - 1]'')
     else
       bindr (transport_start N (peers ! (i - 1))) (\<lambda>srv.
       server_schedule L N i port srv (server_peers i peers) rv n))"

section \<open>Messages from peers\<close>

text \<open>
  \<open>AsioServer::on_message\<close> passes the messages that a session has decoded to \<open>process\<close>, in order; a
  status that is not ok is only logged. \<open>ios j\<close> is for the rounds after the message at position \<open>j\<close>.
\<close>

fun server_process_all ::
  "server_lib \<Rightarrow> (nat \<Rightarrow> (save_io \<times> save_io) list) \<Rightarrow> message list \<Rightarrow> 'c raft_server \<Rightarrow> 'c raft_server res" where
  "server_process_all L ios [] s = Inr s"
| "server_process_all L ios (msg # msgs) s =
     bindr (server_process L (ios 0) msg s) (\<lambda>(_, s). server_process_all L (\<lambda>j. ios (Suc j)) msgs s)"

definition server_on_bytes ::
  "server_lib \<Rightarrow> (nat \<Rightarrow> (save_io \<times> save_io) list) \<Rightarrow> message msgpack \<Rightarrow> nat \<Rightarrow> byte list \<Rightarrow> 'c raft_server \<Rightarrow>
   'c raft_server res" where
  "server_on_bytes L ios mp k bytes s =
     bindr (io_server_receive mp k bytes (sv_io s)) (\<lambda>(msgs, srv). server_process_all L ios msgs (s\<lparr>sv_io := srv\<rparr>))"

end
