(* ===== verification/Server_Spec.thy ===== *)
theory Server_Spec
  imports Raft_Server
begin

text \<open>
  What the server does with what the raft node hands out: which entries it applies, when it takes
  snapshots, what a restart finds, and whole rounds in the steady state.
\<close>

section \<open>Entries to apply\<close>

lemma entries_to_apply_spec:
  assumes c: "contig i es" and ne: "es \<noteq> []" and b: "i + length es \<le> u64_max" "applied < u64_max"
  shows "entries_to_apply applied es =
    (if Suc applied < i then Inl (Fatal ''first index of committed entry should <= progress.appliedIndex+1'')
     else Inr (drop (Suc applied - i) es))"
proof -
  obtain e r where e: "es = e # r" "e_index e = i" using c ne by (cases es) auto
  have k: "add64 (sub64 applied i) 1 = Suc applied - i" if "i \<le> Suc applied"
  proof (cases "i \<le> applied")
    case True
    then have "sub64 applied i = applied - i" using b by simp
    moreover have "applied - i + 1 \<le> u64_max" using b by linarith
    ultimately show ?thesis using True by simp
  next
    case False
    with that have "i = Suc applied" by simp
    then show ?thesis using b sub64_wraps [of applied i] by (simp add: add64_def)
  qed
  have "add64 applied 1 = Suc applied" using b by simp
  then show ?thesis using k e by (auto simp: entries_to_apply_def Let_def vec_range_def)
qed

section \<open>Publishing\<close>

definition plain_entry :: "server_lib \<Rightarrow> entry \<Rightarrow> bool" where
  "plain_entry L e \<longleftrightarrow> e_type e = EntryNormal \<and>
     (e_data e \<noteq> [] \<longrightarrow> commit_ok (mp_unpack (st_commit (vl_store L)) (e_data e)))"

text \<open>The data of entries that is passed to the store.\<close>

definition commands :: "entry list \<Rightarrow> byte list list" where
  "commands es = map e_data (filter (\<lambda>e. e_data e \<noteq> []) es)"

lemma commands_append: "commands (xs @ ys) = commands xs @ commands ys"
  by (simp add: commands_def)

lemma publish_plain:
  assumes "\<forall>e \<in> set es. plain_entry L e"
  shows "\<exists>out store. publish_entries L es s =
      Inr (True, s\<lparr>sv_store := store, sv_answers := sv_answers s @ out,
        sv_applied_index := (if es = [] then sv_applied_index s else e_index (last es))\<rparr>) \<and>
    rs_kv store = kv_replay (vl_store L) (commands es) (rs_kv (sv_store s)) \<and> rs_node_id store = rs_node_id (sv_store s)"
  using assms
proof (induction es arbitrary: s)
  case Nil
  have "s = s\<lparr>sv_store := sv_store s, sv_answers := sv_answers s @ [], sv_applied_index := sv_applied_index s\<rparr>" by simp
  then show ?case
    by (intro exI [of _ "[]"] exI [of _ "sv_store s"]) (simp add: commands_def kv_replay_def)
next
  case (Cons e es)
  then have e: "e_type e = EntryNormal" "e_data e \<noteq> [] \<longrightarrow> commit_ok (mp_unpack (st_commit (vl_store L)) (e_data e))"
    by (simp_all add: plain_entry_def)
  obtain o1 st1 where p: "publish_normal L e s = Inr (s\<lparr>sv_store := st1, sv_answers := sv_answers s @ o1\<rparr>)"
    "rs_kv st1 = (if e_data e = [] then rs_kv (sv_store s)
       else commit_apply (mp_unpack (st_commit (vl_store L)) (e_data e)) (rs_kv (sv_store s)))"
    "rs_node_id st1 = rs_node_id (sv_store s)"
  proof (cases "e_data e = []")
    case True
    then show ?thesis using that [of "[]" "sv_store s"] by (simp add: publish_normal_def)
  next
    case False
    then obtain o1 st1 where "store_read_commit (vl_store L) (e_data e) (sv_store s) = Inr (o1, st1)"
      "rs_kv st1 = commit_apply (mp_unpack (st_commit (vl_store L)) (e_data e)) (rs_kv (sv_store s))"
      "rs_node_id st1 = rs_node_id (sv_store s)"
      using store_read_commit_spec [of "vl_store L" "e_data e" "sv_store s"] e(2) by auto
    then show ?thesis using that [of o1 st1] False by (simp add: publish_normal_def)
  qed
  let ?s = "s\<lparr>sv_store := st1, sv_answers := sv_answers s @ o1, sv_applied_index := e_index e\<rparr>"
  obtain o2 st2 where q: "publish_entries L es ?s = Inr (True, ?s\<lparr>sv_store := st2, sv_answers := sv_answers ?s @ o2,
        sv_applied_index := (if es = [] then sv_applied_index ?s else e_index (last es))\<rparr>)"
    "rs_kv st2 = kv_replay (vl_store L) (commands es) (rs_kv st1)" "rs_node_id st2 = rs_node_id st1"
    using Cons.IH [of ?s] Cons.prems by auto
  have "rs_kv st2 = kv_replay (vl_store L) (commands (e # es)) (rs_kv (sv_store s))"
    using q(2) p(2) by (simp add: commands_def kv_replay_def)
  then show ?case using p q(1,3) e(1) by (intro exI [of _ "o1 @ o2"] exI [of _ st2]) (simp split: if_splits)
qed

section \<open>Taking a snapshot\<close>

text \<open>
  Whenever a snapshot is due, it is created, saved and the log compacted without an error, given
  that the file system writes the file.
\<close>

lemma save_snap_ok:
  assumes "8 + length (mp_pack (sl_snapshot L) (snapshot_packed snap)) \<le> n" "length (mp_pack (sl_snapshot L) (snapshot_packed snap)) \<le> u32_max"
  shows "\<exists>dir'. save_snap L (Writes n err) snap dir = (StatusOK, dir')"
  using assms by (simp add: save_snap_def Let_def)

lemma wal_save_snapshot_ok:
  assumes "w_files w = fs @ [f]" "wf_io_ok f"
  shows "\<exists>w' f'. wal_save_snapshot L snap w = Inr (StatusOK, w') \<and> w_files w' = fs @ [f'] \<and> wf_io_ok f' \<and>
    file_bytes f' = file_bytes f @ rec_bytes L (RecSnap snap) \<and> wf_buffer f' = []"
proof -
  let ?f = "f\<lparr>wf_buffer := wf_buffer f @ rec_bytes L (RecSnap snap)\<rparr>"
  let ?w = "w\<lparr>w_files := fs @ [?f]\<rparr>"
  define w1 where "w1 = (if w_enti ?w < ws_index snap then ?w\<lparr>w_enti := ws_index snap\<rparr> else ?w)"
  have w1: "w_files w1 = fs @ [?f]" by (simp add: w1_def)
  obtain f' where f': "wal_file_sync ?f = Inr f'" "file_bytes f' = file_bytes ?f" "wf_buffer f' = []" "wf_io_ok f'"
    using wal_file_sync_spec [of ?f] assms(2) by auto
  have "wal_on_back (\<lambda>f. Inr (wal_file_append L wal_snapshot_Type (mp_pack (wl_snap L) snap) f)) w = Inr ?w"
    using assms(1) wal_file_append_record [of L "RecSnap snap" f] by (simp add: wal_on_back_def)
  moreover have "wal_on_back wal_file_sync w1 = Inr (w1\<lparr>w_files := fs @ [f']\<rparr>)"
    using w1 f'(1) by (simp add: wal_on_back_def)
  ultimately have "wal_save_snapshot L snap w = Inr (StatusOK, w1\<lparr>w_files := fs @ [f']\<rparr>)"
    by (simp only: wal_save_snapshot_def bindr.simps Let_def w1_def [symmetric])
  then show ?thesis using f' by (simp add: file_bytes_def)
qed

lemma trigger_compact_index:
  assumes "base \<le> snap" "snap + snapshotCatchUpEntriesN < applied" "applied \<le> u64_max"
  defines "c \<equiv> if applied > snapshotCatchUpEntriesN then sub64 applied snapshotCatchUpEntriesN else 1"
  shows "base < c" "c < applied"
  using assms by (auto simp: c_def snapshotCatchUpEntriesN_def)

lemma storage_set_node [simp]: "rl_storage (r_log (rn_raft (node_set_storage ms n))) = ms"
  by (simp add: node_set_storage_def set_storage_def)

lemma server_save_snap_ok:
  assumes w: "w_files (sv_wal s) = fs @ [f]" "wf_io_ok f"
    and snap: "8 + length (mp_pack (sl_snapshot (vl_snap L)) (snapshot_packed snap)) \<le> n"
      "length (mp_pack (sl_snapshot (vl_snap L)) (snapshot_packed snap)) \<le> u32_max"
  shows "\<exists>w dir. server_save_snap L (Writes n err) snap s = Inr (StatusOK, s\<lparr>sv_wal := w, sv_snap_dir := dir\<rparr>)"
proof -
  obtain w' where "wal_save_snapshot (vl_wal L) \<lparr>ws_index = snap_index snap, ws_term = snap_term snap\<rparr> (sv_wal s) = Inr (StatusOK, w')"
    using wal_save_snapshot_ok [OF w] by blast
  moreover obtain dir' where "save_snap (vl_snap L) (Writes n err) snap (sv_snap_dir s) = (StatusOK, dir')"
    using save_snap_ok [OF snap] by blast
  ultimately show ?thesis by (simp add: server_save_snap_def Let_def) blast
qed

lemma create_snapshot_exact:
  assumes "storage_wf ms" "snap_index (ms_snapshot ms) < i" "al_base (storage_abs ms) \<le> i" "i \<le> alog_last (storage_abs ms)"
  shows "\<exists>ms'. storage_create_snapshot i (Some cs) data ms =
      Inr (StatusOK, \<lparr>snap_data = data, snap_metadata = \<lparr>sm_conf_state = cs, sm_index = i, sm_term = alog_term_at (storage_abs ms) i\<rparr>\<rparr>, ms') \<and>
    storage_wf ms' \<and> storage_abs ms' = storage_abs ms \<and>
    ms_snapshot ms' = \<lparr>snap_data = data, snap_metadata = \<lparr>sm_conf_state = cs, sm_index = i, sm_term = alog_term_at (storage_abs ms) i\<rparr>\<rparr>"
proof -
  obtain snap ms' where s: "storage_create_snapshot i (Some cs) data ms = Inr (StatusOK, snap, ms')" "ms_snapshot ms' = snap"
    "snap_index snap = i" "snap_term snap = alog_term_at (storage_abs ms) i" "snap_data snap = data"
    "storage_abs ms' = storage_abs ms" "storage_wf ms'"
    using storage_create_snapshot_refines [OF assms] by blast
  have "sm_conf_state (snap_metadata snap) = cs"
    using s(1) by (auto simp: storage_create_snapshot_def Let_def res_simps split: if_splits)
  then have "snap = \<lparr>snap_data = data, snap_metadata = \<lparr>sm_conf_state = cs, sm_index = i, sm_term = alog_term_at (storage_abs ms) i\<rparr>\<rparr>"
    using s(3-5) by (cases snap; cases "snap_metadata snap") auto
  then show ?thesis using s by blast
qed

definition due_snapshot :: "server_lib \<Rightarrow> 'c raft_server \<Rightarrow> snapshot" where
  "due_snapshot L s =
     \<lparr>snap_data = store_get_snapshot (vl_store L) (sv_store s),
      snap_metadata = \<lparr>sm_conf_state = sv_conf_state s, sm_index = sv_applied_index s,
        sm_term = alog_term_at (storage_abs (sv_storage s)) (sv_applied_index s)\<rparr>\<rparr>"

lemma maybe_trigger_snapshot_spec:
  assumes wf: "storage_wf (sv_storage s)" and base: "al_base (storage_abs (sv_storage s)) \<le> sv_snapshot_index s"
    and old: "snap_index (ms_snapshot (sv_storage s)) < sv_applied_index s"
    and hi: "sv_applied_index s \<le> alog_last (storage_abs (sv_storage s))"
    and due: "sv_snap_count s = defaultSnapCount" "sv_snapshot_index s + sv_snap_count s < sv_applied_index s"
    and w: "w_files (sv_wal s) = fs @ [f]" "wf_io_ok f"
    and io: "8 + length (mp_pack (sl_snapshot (vl_snap L)) (snapshot_packed (due_snapshot L s))) \<le> n"
      "length (mp_pack (sl_snapshot (vl_snap L)) (snapshot_packed (due_snapshot L s))) \<le> u32_max"
  shows "\<exists>s'. maybe_trigger_snapshot L (Writes n err) s = Inr s' \<and> storage_wf (sv_storage s') \<and>
    sv_snapshot_index s' = sv_applied_index s \<and> sv_applied_index s' = sv_applied_index s \<and> sv_store s' = sv_store s \<and>
    ms_snapshot (sv_storage s') = due_snapshot L s \<and>
    al_base (storage_abs (sv_storage s')) = sv_applied_index s - snapshotCatchUpEntriesN \<and>
    alog_last (storage_abs (sv_storage s')) = alog_last (storage_abs (sv_storage s)) \<and>
    (\<forall>j > sv_applied_index s - snapshotCatchUpEntriesN.
       alog_entry (storage_abs (sv_storage s')) j = alog_entry (storage_abs (sv_storage s)) j)"
proof -
  let ?a = "storage_abs (sv_storage s)" and ?i = "sv_applied_index s" and ?d = "store_get_snapshot (vl_store L) (sv_store s)"
  let ?snap = "\<lparr>snap_data = ?d, snap_metadata = \<lparr>sm_conf_state = sv_conf_state s, sm_index = ?i, sm_term = alog_term_at ?a ?i\<rparr>\<rparr>"
  have big: "alog_last ?a < u64_max" using wf by (simp add: storage_wf_def alog_wf_def alog_last_def)
  then have i: "?i \<le> u64_max" using hi by simp
  have cnt: "sv_snapshot_index s + snapshotCatchUpEntriesN < ?i"
    using due by (simp add: defaultSnapCount_def snapshotCatchUpEntriesN_def)
  note c = trigger_compact_index [OF base cnt i]
  have N: "?i > snapshotCatchUpEntriesN" "sub64 ?i snapshotCatchUpEntriesN = ?i - snapshotCatchUpEntriesN"
    using cnt i by simp_all
  obtain ms1 where ms1: "storage_create_snapshot ?i (Some (sv_conf_state s)) ?d (sv_storage s) = Inr (StatusOK, ?snap, ms1)"
    "storage_wf ms1" "storage_abs ms1 = ?a" "ms_snapshot ms1 = ?snap"
    using create_snapshot_exact [OF wf old _ hi] base cnt by fastforce
  let ?s1 = "sv_set_storage ms1 s"
  have st1: "sv_storage ?s1 = ms1" by (simp add: sv_set_storage_def)
  obtain w' dir' where sv: "server_save_snap L (Writes n err) ?snap ?s1 = Inr (StatusOK, ?s1\<lparr>sv_wal := w', sv_snap_dir := dir'\<rparr>)"
    using server_save_snap_ok [of ?s1 fs f L ?snap n err] w io by (auto simp: sv_set_storage_def due_snapshot_def)
  have c': "al_base (storage_abs ms1) < ?i - snapshotCatchUpEntriesN" "?i - snapshotCatchUpEntriesN \<le> alog_last (storage_abs ms1)"
    using c N hi by (simp_all add: ms1(3))
  obtain ms2 where ms2: "storage_compact (?i - snapshotCatchUpEntriesN) ms1 = Inr (StatusOK, ms2)" "storage_wf ms2"
    "al_base (storage_abs ms2) = ?i - snapshotCatchUpEntriesN" "alog_last (storage_abs ms2) = alog_last (storage_abs ms1)"
    "\<forall>j > ?i - snapshotCatchUpEntriesN. alog_entry (storage_abs ms2) j = alog_entry (storage_abs ms1) j" "ms_snapshot ms2 = ms_snapshot ms1"
    using storage_compact_refines [OF ms1(2) c'] by blast
  have "\<not> sub64 ?i (sv_snapshot_index s) \<le> sv_snap_count s" using due(2) i by simp
  then have "maybe_trigger_snapshot L (Writes n err) s =
      Inr ((sv_set_storage ms2 (?s1\<lparr>sv_wal := w', sv_snap_dir := dir'\<rparr>))\<lparr>sv_snapshot_index := ?i\<rparr>)"
    using ms1(1) sv ms2(1) N by (simp add: maybe_trigger_snapshot_def Let_def) (simp add: sv_set_storage_def)
  then show ?thesis using ms2 ms1(3,4) by (simp add: sv_set_storage_def due_snapshot_def)
qed

section \<open>Restarting\<close>

text \<open>A prefix of the records of some batches is the records of batches, the last one cut short.\<close>

lemma save_recs_prefix:
  assumes "n < length (save_recs hs es)"
  shows "take n (save_recs hs es) = save_recs new_hard_state (take n es)"
proof -
  have "n \<le> length es" using assms by (auto simp: save_recs_def split: if_splits)
  then show ?thesis by (simp add: save_recs_def take_map new_hard_state_def hard_state_is_empty_def)
qed

lemma batch_recs_prefix:
  "batches_ok bs a \<Longrightarrow> \<exists>bs'. take n (batch_recs bs) = batch_recs bs' \<and> batches_ok bs' a"
proof (induction bs a arbitrary: n rule: batches_ok.induct)
  case (1 a)
  then show ?case by (intro exI [of _ "[]"]) (simp add: batch_recs_def)
next
  case (2 hs es bs a)
  let ?r = "save_recs hs es" and ?a = "if es = [] then a else alog_splice a (e_index (hd es)) es"
  have split: "batch_recs ((hs, es) # bs) = ?r @ batch_recs bs" by (simp add: batch_recs_def)
  show ?case
  proof (cases "n < length ?r")
    case True
    have "contig (e_index (hd es)) (take n es)" if "es \<noteq> []" using that "2.prems" by simp
    moreover have "hd (take n es) = hd es" if "take n es \<noteq> []" using that by (cases es; cases n) auto
    ultimately have "batches_ok [(new_hard_state, take n es)] a" using "2.prems" by auto
    then show ?thesis using True save_recs_prefix [OF True] unfolding split
      by (intro exI [of _ "[(new_hard_state, take n es)]"]) (simp add: batch_recs_def)
  next
    case False
    obtain bs' where bs': "take (n - length ?r) (batch_recs bs) = batch_recs bs'" "batches_ok bs' ?a"
      using "2.IH" [of "n - length ?r"] "2.prems" by auto
    then show ?thesis using False "2.prems" unfolding split
      by (intro exI [of _ "(hs, es) # bs'"]) (simp add: batch_recs_def)
  qed
qed

abbreviation empty_log :: alog where
  "empty_log \<equiv> \<lparr>al_base = 0, al_bterm = 0, al_ents = []\<rparr>"

lemma new_storage_abs: "storage_abs new_memory_storage = empty_log"
  by (simp add: storage_abs_def new_memory_storage_def new_entry_def)

lemma batch_log_base: "al_base (batch_log bs a) = al_base a" "al_bterm (batch_log bs a) = al_bterm a"
  by (induction bs a rule: batch_log.induct) simp_all

text \<open>Appending the recovered entries to a new storage gives back the log.\<close>

lemma storage_restored:
  assumes "batches_ok bs empty_log"
  shows "\<exists>ms. storage_append (al_ents (batch_log bs empty_log)) (storage_set_hard_state hs new_memory_storage) = Inr (StatusOK, ms) \<and>
    storage_wf ms \<and> storage_abs ms = batch_log bs empty_log \<and> ms_hard_state ms = hs \<and> ms_snapshot ms = new_snapshot"
proof -
  let ?a = "batch_log bs empty_log" and ?ms = "storage_set_hard_state hs new_memory_storage"
  have base: "al_base ?a = 0" "al_bterm ?a = 0" by (simp_all add: batch_log_base)
  have wf: "storage_wf ?ms" "storage_abs ?ms = empty_log" "ms_snapshot ?ms = new_snapshot"
    using new_memory_storage_wf new_storage_abs
    by (simp_all add: storage_set_hard_state_def storage_wf_def storage_abs_def new_memory_storage_def)
  have "alog_wf ?a"
    using storage_batches [OF new_memory_storage_wf, of bs] assms ms.abs_wf by (force simp: new_storage_abs)
  then have c: "contig 1 (al_ents ?a)" "1 + length (al_ents ?a) \<le> u64_max" using base by (simp_all add: alog_wf_def One_nat_def)
  show ?thesis
  proof (cases "al_ents ?a = []")
    case True
    then have "?a = empty_log" using base by simp
    then show ?thesis using wf by (simp add: storage_append_def storage_set_hard_state_def)
  next
    case False
    have "alog_splice empty_log 1 (al_ents ?a) = ?a" using base by (simp add: alog_splice_def)
    then show ?thesis
      using storage_append_refines [OF wf(1) c, unfolded wf(2), OF _ _ False] wf(3)
      by (auto simp: alog_last_def storage_set_hard_state_def)
  qed
qed

lemma replay_ents_snap: "replay_ents s (RecSnap p # rs) ents = replay_ents s rs ents"
  by (simp add: replay_ents_def)

definition first_snap :: wal_rec where
  "first_snap = RecSnap \<lparr>ws_index = 0, ws_term = 0\<rparr>"

text \<open>
  Restarting after a crash that left the log file cut off at byte \<open>k\<close>, without a snapshot: the
  storage holds the log that the complete records describe, and the last hard state among them.
\<close>

lemma replay_after_crash:
  assumes L: "wal_lib_ok (vl_wal L)" and ext: "ext_ok ext" and tell: "\<forall>b. tell b \<noteq> - 1"
    and bs: "batches_ok bs empty_log" "\<forall>r \<in> set (first_snap # batch_recs bs). rec_ok (vl_wal L) r"
    and k: "length (rec_bytes (vl_wal L) first_snap) \<le> k"
  defines "rs \<equiv> first_snap # batch_recs bs"
  shows "\<exists>n bs' rv. n \<le> length rs \<and> length (concat (map (rec_bytes (vl_wal L)) (take n rs))) \<le> k \<and>
    (n < length rs \<longrightarrow> k < length (concat (map (rec_bytes (vl_wal L)) (take (Suc n) rs)))) \<and>
    take n rs = first_snap # batch_recs bs' \<and> batches_ok bs' empty_log \<and>
    replay_WAL L ext tell True \<lparr>dk_wal = Some [(first_name, take k (concat (map (rec_bytes (vl_wal L)) rs)))], dk_snap = []\<rparr> = Inr rv \<and>
    storage_wf (rv_storage rv) \<and> storage_abs (rv_storage rv) = batch_log bs' empty_log \<and>
    ms_hard_state (rv_storage rv) = replay_hs (take n rs) new_hard_state \<and>
    (\<exists>f. w_files (rv_wal rv) = [f] \<and> wf_name f = first_name \<and> wf_io_ok f \<and>
       wf_disk f = concat (map (rec_bytes (vl_wal L)) (take n rs)) \<and> wf_buffer f = []) \<and>
    w_state (rv_wal rv) = new_hard_state \<and> rv_snap_dir rv = []"
proof -
  let ?start = "\<lparr>ws_index = 0, ws_term = 0\<rparr>"
  have agree: "\<forall>r \<in> set rs. rec_ok (vl_wal L) r \<and> rec_agrees ?start r"
    using bs(2) by (auto simp: rs_def first_snap_def batch_recs_def save_recs_def split: if_splits)
  obtain n w f where n: "n \<le> length rs" "length (concat (map (rec_bytes (vl_wal L)) (take n rs))) \<le> k"
    "n < length rs \<longrightarrow> k < length (concat (map (rec_bytes (vl_wal L)) (take (Suc n) rs)))"
    and rd: "bindr (wal_open ext tell True [(first_name, take k (concat (map (rec_bytes (vl_wal L)) rs)))] ?start)
        (wal_read_all (vl_wal L) new_hard_state []) =
      Inr (StatusOK, replay_hs (take n rs) new_hard_state, replay_ents 0 (take n rs) [], w)"
    and w: "w_files w = [f]" "wf_name f = first_name" "wf_io_ok f" "wf_disk f = concat (map (rec_bytes (vl_wal L)) (take n rs))"
      "wf_buffer f = []" "w_state w = new_hard_state"
    using wal_reopen [OF L ext tell agree, of _ "batch_recs bs" k] k by (auto simp: rs_def first_snap_def)
  have "0 < n" using n(3) k by (cases n) (auto simp: rs_def)
  then have tk: "take n rs = first_snap # take (n - 1) (batch_recs bs)" by (cases n) (simp_all add: rs_def)
  obtain bs' where bs': "take (n - 1) (batch_recs bs) = batch_recs bs'" "batches_ok bs' empty_log"
    using batch_recs_prefix [OF bs(1)] by blast
  have tk': "take n rs = first_snap # batch_recs bs'" using tk bs'(1) by (simp only:)
  have ents: "replay_ents 0 (take n rs) [] = map Some (al_ents (batch_log bs' empty_log))"
    using replay_batches [OF bs'(2)] by (simp add: tk' first_snap_def replay_ents_snap)
  have deref: "deref_entries (map Some es) = Inr es" for es by (simp add: deref_entries_def comp_def)
  obtain ms where ms: "storage_append (al_ents (batch_log bs' empty_log))
      (storage_set_hard_state (replay_hs (take n rs) new_hard_state) new_memory_storage) = Inr (StatusOK, ms)"
    "storage_wf ms" "storage_abs ms = batch_log bs' empty_log" "ms_hard_state ms = replay_hs (take n rs) new_hard_state"
    using storage_restored [OF bs'(2)] by blast
  have load: "snapshotter_load (vl_snap L) ext new_snapshot [] = Inr (NotFound ''snap not found'', new_snapshot, [])"
    by (simp add: snapshotter_load_def get_snap_names_def)
  have start: "\<lparr>ws_index = snap_index new_snapshot, ws_term = snap_term new_snapshot\<rparr> = ?start"
    by (simp add: new_snapshot_def)
  obtain w0 where w0: "wal_open ext tell True [(first_name, take k (concat (map (rec_bytes (vl_wal L)) rs)))] ?start = Inr w0"
    "wal_read_all (vl_wal L) new_hard_state [] w0 =
      Inr (StatusOK, replay_hs (take n rs) new_hard_state, map Some (al_ents (batch_log bs' empty_log)), w)"
    using rd ents by (auto simp: res_simps)
  have "\<exists>rv. replay_WAL L ext tell True \<lparr>dk_wal = Some [(first_name, take k (concat (map (rec_bytes (vl_wal L)) rs)))], dk_snap = []\<rparr> = Inr rv \<and>
      rv_storage rv = ms \<and> rv_wal rv = w \<and> rv_snap_dir rv = []"
    by (simp add: replay_WAL_def load is_not_found_def open_WAL_def start w0 deref ms(1))
  then show ?thesis using n tk' bs'(2) ms(2-4) w by metis
qed

end
