(* ===== verification/Server_Run.thy ===== *)
theory Server_Run
  imports Server_Spec
begin

text \<open>
  Rounds of the server in the steady state: no snapshot is pending or due and the committed entries
  are ordinary commands. A round persists, sends, applies and advances; the loop of rounds ends
  with everything committed applied to the store.
\<close>

section \<open>What a round does to the node\<close>

lemma node_ready_fields:
  assumes "node_ready n = Inr (rd, n1)"
  shows "rd_soft_state rd = (if soft_state_equal (raft_soft_state (rn_raft n)) (rn_prev_soft_state n) then None
      else Some (raft_soft_state (rn_raft n)))"
    "rd_hard_state rd = (if hard_state_equal (raft_hard_state (rn_raft n)) (rn_prev_hard_state n) then new_hard_state
      else raft_hard_state (rn_raft n))"
    "rd_read_state rd = r_read_states (rn_raft n)" "r_log (rn_raft n1) = r_log (rn_raft n)"
    "r_read_states (rn_raft n1) = r_read_states (rn_raft n)"
    "raft_soft_state (rn_raft n1) = raft_soft_state (rn_raft n)" "raft_hard_state (rn_raft n1) = raft_hard_state (rn_raft n)"
    "rn_prev_soft_state n1 = rn_prev_soft_state n" "rn_prev_hard_state n1 = rn_prev_hard_state n"
  using assms
  by (auto simp: node_ready_def new_ready_def Let_def res_simps raft_reduce_uncommitted_size_def
      raft_soft_state_def raft_hard_state_def)

lemma node_advance_fields:
  assumes "node_advance rd n = Inr n2"
  shows "rn_prev_soft_state n2 = (case rd_soft_state rd of Some s \<Rightarrow> s | None \<Rightarrow> rn_prev_soft_state n)"
    "rn_prev_hard_state n2 = (if hard_state_is_empty (rd_hard_state rd) then rn_prev_hard_state n else rd_hard_state rd)"
    "r_read_states (rn_raft n2) = (if rd_read_state rd \<noteq> [] then [] else r_read_states (rn_raft n))"
    "raft_soft_state (rn_raft n2) = raft_soft_state (rn_raft n)"
    "r_term (rn_raft n2) = r_term (rn_raft n)" "r_vote (rn_raft n2) = r_vote (rn_raft n)"
proof -
  define m where "m = (case rd_soft_state rd of Some s \<Rightarrow> n\<lparr>rn_prev_soft_state := s\<rparr> | None \<Rightarrow> n)"
  define m' where "m' = (if \<not> hard_state_is_empty (rd_hard_state rd)
    then m\<lparr>rn_prev_hard_state := rd_hard_state rd\<rparr> else m)"
  have m': "rn_raft m' = rn_raft n"
    "rn_prev_soft_state m' = (case rd_soft_state rd of Some s \<Rightarrow> s | None \<Rightarrow> rn_prev_soft_state n)"
    "rn_prev_hard_state m' = (if hard_state_is_empty (rd_hard_state rd) then rn_prev_hard_state n else rd_hard_state rd)"
    by (simp_all add: m_def m'_def split: option.split)
  note adv = assms [unfolded node_advance_def Let_def, folded m_def, folded m'_def, unfolded m'(1)]
  obtain l where n2: "n2 = m'\<lparr>rn_raft := (if rd_read_state rd \<noteq> [] then (rn_raft n)\<lparr>r_log := l, r_read_states := []\<rparr>
      else (rn_raft n)\<lparr>r_log := l\<rparr>)\<rparr>"
    using adv by (elim bindr_Inr_E) (simp only: sum.inject, blast)
  show "rn_prev_soft_state n2 = (case rd_soft_state rd of Some s \<Rightarrow> s | None \<Rightarrow> rn_prev_soft_state n)"
    "rn_prev_hard_state n2 = (if hard_state_is_empty (rd_hard_state rd) then rn_prev_hard_state n else rd_hard_state rd)"
    by (simp_all add: n2 m'(2,3))
  show "r_read_states (rn_raft n2) = (if rd_read_state rd \<noteq> [] then [] else r_read_states (rn_raft n))"
    "raft_soft_state (rn_raft n2) = raft_soft_state (rn_raft n)"
    "r_term (rn_raft n2) = r_term (rn_raft n)" "r_vote (rn_raft n2) = r_vote (rn_raft n)"
    by (simp_all add: n2 raft_soft_state_def)
qed

text \<open>After a round the node has something to do exactly if committed entries are left to apply.\<close>

lemma node_round_ready:
  assumes wf: "node_wf n" and none: "r_read_states (rn_raft n) = []"
    and rd: "node_ready n = Inr (rd, n1)" and adv: "node_advance rd (node_set_storage st n1) = Inr n2"
    and n2: "node_wf n2" "r_msgs (rn_raft n2) = []" "raft_log_unstable_entries (r_log (rn_raft n2)) = []"
      "u_snapshot (rl_unstable (r_log (rn_raft n2))) = None" "rl_committed (r_log (rn_raft n2)) = rl_committed (r_log (rn_raft n))"
  shows "r_read_states (rn_raft n2) = []" "raft_hard_state (rn_raft n2) = raft_hard_state (rn_raft n)"
    "node_has_ready n2 = Inr (max (rl_applied (r_log (rn_raft n2))) (log_base (r_log (rn_raft n2))) < rl_committed (r_log (rn_raft n2)))"
    "hard_state_is_empty (if hard_state_equal (raft_hard_state (rn_raft n2)) (rn_prev_hard_state n2) then new_hard_state
       else raft_hard_state (rn_raft n2))"
proof -
  note r = node_ready_fields [OF rd] and a = node_advance_fields [OF adv]
  let ?m = "node_set_storage st n1"
  have m: "r_read_states (rn_raft ?m) = []" "raft_soft_state (rn_raft ?m) = raft_soft_state (rn_raft n)"
    "r_term (rn_raft ?m) = r_term (rn_raft n)" "r_vote (rn_raft ?m) = r_vote (rn_raft n)"
    "rn_prev_soft_state ?m = rn_prev_soft_state n" "rn_prev_hard_state ?m = rn_prev_hard_state n"
    using r(5-9) none by (simp_all add: node_set_storage_def raft_soft_state_def raft_hard_state_def)
  show rs: "r_read_states (rn_raft n2) = []" using a(3) m(1) by simp
  show hs: "raft_hard_state (rn_raft n2) = raft_hard_state (rn_raft n)"
    using a(5,6) m(3,4) n2(5) by (simp add: raft_hard_state_def)
  have soft: "soft_state_equal (raft_soft_state (rn_raft n2)) (rn_prev_soft_state n2)"
    using a(1,4) m(2,5) r(1) by (auto simp: soft_state_equal_def)
  show hard: "hard_state_is_empty (if hard_state_equal (raft_hard_state (rn_raft n2)) (rn_prev_hard_state n2) then new_hard_state
       else raft_hard_state (rn_raft n2))"
    using a(2) m(6) r(2) hs by (auto simp: hard_state_equal_iff new_hard_state_def hard_state_is_empty_def split: if_splits)
  have ap: "rl_applied (r_log (rn_raft n2)) \<le> rl_committed (r_log (rn_raft n2))" "raft_log_wf (r_log (rn_raft n2))"
    using n2(1) by (simp_all add: node_wf_def log_synced_def raft_wfD(1))
  show "node_has_ready n2 = Inr (max (rl_applied (r_log (rn_raft n2))) (log_base (r_log (rn_raft n2))) < rl_committed (r_log (rn_raft n2)))"
    using soft hard n2(2-4) rs raft_log_next_entries_wf(2) [OF ap(2,1)]
    by (auto simp: node_has_ready_def Let_def split: if_splits)
qed

section \<open>A round of the server\<close>

text \<open>The committed entries that are still to be applied.\<close>

definition to_apply :: "raft_log \<Rightarrow> entry list" where
  "to_apply l = alog_slice (raft_log_abs l) (Suc (rl_applied l)) (Suc (rl_committed l))"

lemma next_entries_steady:
  assumes wf: "raft_log_wf l" and ap: "rl_applied l \<le> rl_committed l" "log_base l \<le> rl_applied l"
    and es: "raft_log_next_entries l = Inr es"
  shows "es = take (length es) (to_apply l)" "contig (Suc (rl_applied l)) es" "length es \<le> rl_committed l - rl_applied l"
    "rl_applied l < rl_committed l \<Longrightarrow> es \<noteq> []" "es \<noteq> [] \<Longrightarrow> e_index (last es) = rl_applied l + length es"
    "length (to_apply l) = rl_committed l - rl_applied l"
proof -
  have e: "es = entry_limit_size (rl_max_next_ents_size l) (to_apply l)"
    using es raft_log_next_entries_wf(1) [OF wf ap(1)] ap(2) by (simp add: to_apply_def max_absorb1)
  have h: "Suc (rl_committed l) \<le> Suc (log_last l)" using raft_log_wfD(5) [OF wf] by simp
  show len: "length (to_apply l) = rl_committed l - rl_applied l"
    using alog_slice_length [of "raft_log_abs l" "Suc (rl_applied l)" "Suc (rl_committed l)"] ap h by (simp add: to_apply_def)
  show "es = take (length es) (to_apply l)" unfolding e by (rule entry_limit_size_take)
  show c: "contig (Suc (rl_applied l)) es"
    unfolding e to_apply_def using ap h by (intro entry_limit_contig alog_slice_contig raft_log_abs_wf [OF wf]) simp_all
  show "length es \<le> rl_committed l - rl_applied l" using entry_limit_size_length [of _ "to_apply l"] len e by metis
  show "es \<noteq> []" if "rl_applied l < rl_committed l"
  proof -
    have "to_apply l \<noteq> []" using len that by auto
    then show ?thesis by (simp add: e)
  qed
  show "e_index (last es) = rl_applied l + length es" if "es \<noteq> []" using contig_last [OF c that] that by (cases es) simp_all
qed

lemma server_publish_plain:
  assumes c: "contig (Suc (sv_applied_index s)) (rd_committed_entries rd)"
    and b: "sv_applied_index s + length (rd_committed_entries rd) < u64_max"
    and pl: "\<forall>e \<in> set (rd_committed_entries rd). plain_entry L e"
  shows "\<exists>out store. server_publish_ready L rd s = Inr (s\<lparr>sv_store := store, sv_answers := sv_answers s @ out,
      sv_applied_index := sv_applied_index s + length (rd_committed_entries rd)\<rparr>) \<and>
    rs_kv store = kv_replay (vl_store L) (commands (rd_committed_entries rd)) (rs_kv (sv_store s))"
proof (cases "rd_committed_entries rd = []")
  case True
  have "s = s\<lparr>sv_store := sv_store s, sv_answers := sv_answers s @ [], sv_applied_index := sv_applied_index s + 0\<rparr>" by simp
  with True show ?thesis
    by (intro exI [of _ "[]"] exI [of _ "sv_store s"]) (simp add: server_publish_ready_def commands_def kv_replay_def)
next
  case False
  let ?es = "rd_committed_entries rd"
  have i: "e_index (last ?es) = sv_applied_index s + length ?es" using contig_last [OF c False] False by (cases ?es) simp_all
  have "entries_to_apply (sv_applied_index s) ?es = Inr ?es" using entries_to_apply_spec [OF c False] b by simp
  moreover obtain out store where "publish_entries L ?es s = Inr (True, s\<lparr>sv_store := store, sv_answers := sv_answers s @ out,
      sv_applied_index := e_index (last ?es)\<rparr>)" "rs_kv store = kv_replay (vl_store L) (commands ?es) (rs_kv (sv_store s))"
    using publish_plain [OF pl, of s] False by auto
  ultimately show ?thesis using False i
    by (intro exI [of _ out] exI [of _ store]) (simp add: server_publish_ready_def)
qed

text \<open>
  The steady state: no snapshot is pending, none becomes due before the committed entries are
  applied, no reads are answered, and the committed entries are ordinary commands that the store
  understands.
\<close>

definition server_steady :: "server_lib \<Rightarrow> 'c raft_server \<Rightarrow> bool" where
  "server_steady L s \<longleftrightarrow>
     (let l = r_log (rn_raft (sv_node s)) in
      node_wf (sv_node s) \<and> u_snapshot (rl_unstable l) = None \<and> r_read_states (rn_raft (sv_node s)) = [] \<and>
      log_base l \<le> rl_applied l \<and> sv_applied_index s = rl_applied l \<and> sv_snapshot_index s \<le> rl_applied l \<and>
      rl_committed l \<le> sv_snapshot_index s + sv_snap_count s \<and> (\<forall>e \<in> set (to_apply l). plain_entry L e) \<and>
      w_files (sv_wal s) \<noteq> [] \<and> wf_io_ok (last (w_files (sv_wal s))))"

text \<open>The hard state that a round hands out: the current one if it changed.\<close>

definition hard_state_update :: "raw_node \<Rightarrow> hard_state" where
  "hard_state_update n =
     (if hard_state_equal (raft_hard_state (rn_raft n)) (rn_prev_hard_state n) then new_hard_state
      else raft_hard_state (rn_raft n))"

lemma to_apply_later:
  assumes "raft_log_abs l' = raft_log_abs l" "rl_committed l' = rl_committed l" "rl_applied l' = rl_applied l + k"
    "k \<le> rl_committed l - rl_applied l" "log_base l \<le> rl_applied l"
  shows "to_apply l' = drop k (to_apply l)"
  using assms by (simp add: to_apply_def alog_slice_def drop_take Suc_diff_le) (simp add: add.commute)

lemma node_set_storage_same: "node_set_storage (rl_storage (r_log (rn_raft n))) n = n"
  by (simp add: node_set_storage_def set_storage_def)

text \<open>Writing the entries of a ready without a snapshot to the storage.\<close>

lemma server_append_ready:
  assumes "persist_ready rd (sv_storage s) = Inr ms" "snapshot_is_empty (rd_snapshot rd)"
  shows "(if rd_entries rd \<noteq> [] then
        bindr (storage_append (rd_entries rd) (sv_storage s)) (\<lambda>(_, ms). Inr (sv_set_storage ms s))
      else Inr s) = Inr (sv_set_storage ms s)"
proof (cases "rd_entries rd = []")
  case True
  then have "ms = sv_storage s" using assms by (simp add: persist_ready_def storage_append_def)
  then show ?thesis using True by (simp add: sv_set_storage_def node_set_storage_same)
next
  case False
  obtain x where "storage_append (rd_entries rd) (sv_storage s) = Inr (x, ms)"
    using assms by (auto simp: persist_ready_def res_simps)
  then show ?thesis using False by simp
qed

lemma server_round_steady:
  assumes st: "server_steady L s"
  defines "n \<equiv> sv_node s" and "l \<equiv> r_log (rn_raft (sv_node s))"
  shows "\<exists>s' k. server_round L io s = Inr (True, s') \<and> server_steady L s' \<and>
    k \<le> rl_committed l - rl_applied l \<and> (rl_applied l < rl_committed l \<longrightarrow> 0 < k) \<and>
    rl_applied (r_log (rn_raft (sv_node s'))) = rl_applied l + k \<and>
    rl_committed (r_log (rn_raft (sv_node s'))) = rl_committed l \<and>
    raft_log_abs (r_log (rn_raft (sv_node s'))) = raft_log_abs l \<and> storage_abs (sv_storage s') = raft_log_abs l \<and>
    r_msgs (rn_raft (sv_node s')) = [] \<and> raft_log_unstable_entries (r_log (rn_raft (sv_node s'))) = [] \<and>
    sv_sent s' = sv_sent s @ r_msgs (rn_raft n) \<and>
    rs_kv (sv_store s') = kv_replay (vl_store L) (commands (take k (to_apply l))) (rs_kv (sv_store s)) \<and>
    node_has_ready (sv_node s') = Inr (rl_applied l + k < rl_committed l) \<and>
    file_bytes (last (w_files (sv_wal s'))) = file_bytes (last (w_files (sv_wal s))) @
      concat (map (rec_bytes (vl_wal L)) (save_recs (hard_state_update n) (u_entries (rl_unstable l)))) \<and>
    hard_state_is_empty (hard_state_update (sv_node s'))"
proof -
  note st = st [unfolded server_steady_def Let_def, folded l_def, folded n_def]
  have wf: "node_wf n" and lw: "raft_log_wf l" and ap: "rl_applied l \<le> rl_committed l"
    using st by (simp_all add: node_wf_def raft_wfD(1) log_synced_def l_def n_def)
  obtain rd n1 ms n2 where r: "node_ready n = Inr (rd, n1)"
    "persist_ready rd (rl_storage (r_log (rn_raft n1))) = Inr ms" "node_advance rd (node_set_storage ms n1) = Inr n2"
    "node_wf n2" "raft_log_abs (r_log (rn_raft n2)) = raft_log_abs l" "storage_abs ms = raft_log_abs l"
    "raft_log_unstable_entries (r_log (rn_raft n2)) = []" "rd_messages rd = r_msgs (rn_raft n)" "r_msgs (rn_raft n2) = []"
    "rl_storage (r_log (rn_raft n2)) = ms" "rd_entries rd = u_entries (rl_unstable l)"
    "raft_log_next_entries l = Inr (rd_committed_entries rd)" "rd_snapshot rd = new_snapshot"
    "rl_committed (r_log (rn_raft n2)) = rl_committed l"
    "rl_applied (r_log (rn_raft n2)) = (if 0 < ready_applied_cursor rd then ready_applied_cursor rd else rl_applied l)"
    "u_snapshot (rl_unstable (r_log (rn_raft n2))) = None"
    using node_round_full [OF wf] st unfolding l_def n_def by auto
  note f = node_ready_fields [OF r(1)]
  let ?es = "rd_committed_entries rd" and ?k = "length (rd_committed_entries rd)"
  note e = next_entries_steady [OF lw ap _ r(12)]
  have base: "log_base l \<le> rl_applied l" and ai: "sv_applied_index s = rl_applied l" using st by simp_all
  note e = e [OF base]
  have cur: "rl_applied (r_log (rn_raft n2)) = rl_applied l + ?k"
    using r(15) e(5) by (cases "?es = []") (simp_all add: ready_applied_cursor_def r(13) new_snapshot_def)
  have snap: "snapshot_is_empty (rd_snapshot rd)" by (simp add: r(13) snapshot_is_empty_def new_snapshot_def)
  obtain fs g where w: "w_files (sv_wal s) = fs @ [g]" "wf_io_ok g"
    using st by (metis append_butlast_last_id)
  obtain w' g' where w': "wal_save (vl_wal L) (rd_hard_state rd) (rd_entries rd) (sv_wal s) = Inr (StatusOK, w')"
    "w_files w' = fs @ [g']" "file_bytes g' = file_bytes g @ concat (map (rec_bytes (vl_wal L)) (save_recs (rd_hard_state rd) (rd_entries rd)))"
    "wf_io_ok g'" using wal_save_spec [OF w] by blast
  have upd: "ready_contains_updates rd" using f(3) st by (simp add: ready_contains_updates_def n_def)
  let ?s1 = "s\<lparr>sv_node := n1, sv_wal := w'\<rparr>"
  have app: "(if rd_entries rd \<noteq> [] then
        bindr (storage_append (rd_entries rd) (sv_storage ?s1)) (\<lambda>(_, ms). Inr (sv_set_storage ms ?s1))
      else Inr ?s1) = Inr (sv_set_storage ms ?s1)"
    using r(2) by (intro server_append_ready snap) simp
  let ?s2 = "s\<lparr>sv_node := node_set_storage ms n1, sv_wal := w', sv_sent := sv_sent s @ r_msgs (rn_raft n)\<rparr>"
  have s2: "(if rd_messages rd \<noteq> [] then (sv_set_storage ms ?s1)\<lparr>sv_sent := sv_sent (sv_set_storage ms ?s1) @ rd_messages rd\<rparr>
      else sv_set_storage ms ?s1) = ?s2"
    by (simp add: sv_set_storage_def r(8))
  have big: "rl_applied l + ?k < u64_max" using e(3) ap raft_log_wfD(5) [OF lw] log_last_bound [OF lw] by linarith
  have "set ?es \<subseteq> set (to_apply l)" using e(1) set_take_subset by metis
  then obtain out store where p: "server_publish_ready L rd ?s2 = Inr (?s2\<lparr>sv_store := store, sv_answers := sv_answers ?s2 @ out,
      sv_applied_index := rl_applied l + ?k\<rparr>)" "rs_kv store = kv_replay (vl_store L) (commands ?es) (rs_kv (sv_store s))"
    using server_publish_plain [of ?s2 rd L] ai e(2) big st by auto
  let ?s3 = "?s2\<lparr>sv_store := store, sv_answers := sv_answers ?s2 @ out, sv_applied_index := rl_applied l + ?k\<rparr>"
  have cnt: "rl_applied l + ?k \<le> sv_snapshot_index s + sv_snap_count s" "sv_snapshot_index s \<le> rl_applied l"
    using st e(3) ap by linarith+
  have trig: "maybe_trigger_snapshot L (snd io) ?s3 = Inr ?s3"
  proof -
    have "sub64 (rl_applied l + ?k) (sv_snapshot_index s) \<le> sv_snap_count s" using cnt big by (simp add: le_diff_conv)
    then show ?thesis by (simp add: maybe_trigger_snapshot_def)
  qed
  let ?s' = "?s3\<lparr>sv_node := n2\<rparr>"
  have "server_round L io s = Inr (True, ?s')"
    unfolding server_round_def n_def [symmetric] r(1) bindr.simps Let_def prod.case
    using upd w'(1) app s2 p(1) trig r(3) snap
    by (simp add: server_ready_snapshot_def)
  moreover have "node_has_ready n2 = Inr (rl_applied l + ?k < rl_committed l)" "r_read_states (rn_raft n2) = []"
    "hard_state_is_empty (hard_state_update n2)"
  proof -
    have rs: "r_read_states (rn_raft n) = []" and c: "rl_committed (r_log (rn_raft n2)) = rl_committed (r_log (rn_raft n))"
      using st r(14) by (simp_all add: l_def n_def)
    note q = node_round_ready [OF wf rs r(1,3,4,9,7,16) c]
    show "node_has_ready n2 = Inr (rl_applied l + ?k < rl_committed l)"
      using q(3) cur base by (simp add: r(5) r(14) max_absorb1)
    show "r_read_states (rn_raft n2) = []" by (rule q(1))
    show "hard_state_is_empty (hard_state_update n2)" using q(4) by (simp add: hard_state_update_def)
  qed
  moreover have "to_apply (r_log (rn_raft n2)) = drop ?k (to_apply l)" by (intro to_apply_later r(5,14) cur e(3) base)
  moreover have "\<forall>e \<in> set (drop ?k (to_apply l)). plain_entry L e" using st set_drop_subset by fast
  moreover have "hard_state_update n = rd_hard_state rd" by (simp add: hard_state_update_def f(2))
  ultimately show ?thesis
    using st r(4-7,9,10,14,16) w' w cur e(3,4) p(2) e(1) cnt base ai
    by (intro exI [of _ ?s'] exI [of _ ?k]) (simp add: server_steady_def r(11))
qed

section \<open>The loop of rounds\<close>

lemma kv_replay_append: "kv_replay L (xs @ ys) kv = kv_replay L ys (kv_replay L xs kv)"
  by (simp add: kv_replay_def)

text \<open>After its first round the loop only has committed entries to apply.\<close>

definition server_drained :: "'c raft_server \<Rightarrow> bool" where
  "server_drained s \<longleftrightarrow>
     (let l = r_log (rn_raft (sv_node s)) in
      r_msgs (rn_raft (sv_node s)) = [] \<and> raft_log_unstable_entries l = [] \<and> storage_abs (sv_storage s) = raft_log_abs l \<and>
      hard_state_is_empty (hard_state_update (sv_node s)) \<and>
      node_has_ready (sv_node s) = Inr (rl_applied l < rl_committed l))"

definition server_settled :: "server_lib \<Rightarrow> 'c raft_server \<Rightarrow> 'c raft_server \<Rightarrow> bool" where
  "server_settled L s s' \<longleftrightarrow>
     (let l = r_log (rn_raft (sv_node s)); l' = r_log (rn_raft (sv_node s')) in
      server_steady L s' \<and> server_drained s' \<and> rl_committed l' = rl_committed l \<and> rl_applied l' = rl_committed l \<and>
      raft_log_abs l' = raft_log_abs l \<and>
      rs_kv (sv_store s') = kv_replay (vl_store L) (commands (to_apply l)) (rs_kv (sv_store s)) \<and>
      sv_sent s' = sv_sent s @ r_msgs (rn_raft (sv_node s)) \<and>
      file_bytes (last (w_files (sv_wal s'))) = file_bytes (last (w_files (sv_wal s))) @
        concat (map (rec_bytes (vl_wal L)) (save_recs (hard_state_update (sv_node s)) (u_entries (rl_unstable l)))))"

lemma server_settled_here:
  assumes "server_steady L s" "server_drained s" "rl_applied (r_log (rn_raft (sv_node s))) = rl_committed (r_log (rn_raft (sv_node s)))"
  shows "server_settled L s s"
  using assms
  by (simp add: server_settled_def server_drained_def Let_def to_apply_def alog_slice_def commands_def kv_replay_def
      save_recs_def raft_log_unstable_entries_def)

text \<open>One round, and then the rest of the loop.\<close>

lemma server_round_then:
  assumes st: "server_steady L s"
  shows "\<exists>s' k. server_round L io s = Inr (True, s') \<and> server_steady L s' \<and> server_drained s' \<and>
    rl_committed (r_log (rn_raft (sv_node s'))) - rl_applied (r_log (rn_raft (sv_node s'))) =
      rl_committed (r_log (rn_raft (sv_node s))) - rl_applied (r_log (rn_raft (sv_node s))) - k \<and>
    (rl_applied (r_log (rn_raft (sv_node s))) < rl_committed (r_log (rn_raft (sv_node s))) \<longrightarrow> 0 < k) \<and>
    (\<forall>t. server_settled L s' t \<longrightarrow> server_settled L s t)"
proof -
  let ?l = "r_log (rn_raft (sv_node s))"
  obtain s' k where r: "server_round L io s = Inr (True, s')" "server_steady L s'"
    "k \<le> rl_committed ?l - rl_applied ?l" "rl_applied ?l < rl_committed ?l \<longrightarrow> 0 < k"
    "rl_applied (r_log (rn_raft (sv_node s'))) = rl_applied ?l + k"
    "rl_committed (r_log (rn_raft (sv_node s'))) = rl_committed ?l"
    "raft_log_abs (r_log (rn_raft (sv_node s'))) = raft_log_abs ?l" "storage_abs (sv_storage s') = raft_log_abs ?l"
    "r_msgs (rn_raft (sv_node s')) = []" "raft_log_unstable_entries (r_log (rn_raft (sv_node s'))) = []"
    "sv_sent s' = sv_sent s @ r_msgs (rn_raft (sv_node s))"
    "rs_kv (sv_store s') = kv_replay (vl_store L) (commands (take k (to_apply ?l))) (rs_kv (sv_store s))"
    "node_has_ready (sv_node s') = Inr (rl_applied ?l + k < rl_committed ?l)"
    "file_bytes (last (w_files (sv_wal s'))) = file_bytes (last (w_files (sv_wal s))) @
      concat (map (rec_bytes (vl_wal L)) (save_recs (hard_state_update (sv_node s)) (u_entries (rl_unstable ?l))))"
    "hard_state_is_empty (hard_state_update (sv_node s'))"
    using server_round_steady [OF st, of io] by blast
  have base: "log_base ?l \<le> rl_applied ?l" using st by (simp add: server_steady_def Let_def)
  have dr: "server_drained s'" using r by (simp add: server_drained_def Let_def)
  have ta: "to_apply (r_log (rn_raft (sv_node s'))) = drop k (to_apply ?l)" by (rule to_apply_later [OF r(7,6,5,3) base])
  have "kv_replay (vl_store L) (commands (drop k (to_apply ?l))) (kv_replay (vl_store L) (commands (take k (to_apply ?l))) kv)
      = kv_replay (vl_store L) (commands (to_apply ?l)) kv" for kv
    by (simp add: kv_replay_append [symmetric] commands_append [symmetric])
  moreover have "save_recs (hard_state_update (sv_node s')) (u_entries (rl_unstable (r_log (rn_raft (sv_node s'))))) = []"
    using r(10,15) by (simp add: save_recs_def raft_log_unstable_entries_def)
  ultimately have "server_settled L s t" if "server_settled L s' t" for t
    using that r(6-14) ta by (simp add: server_settled_def Let_def)
  then show ?thesis using r(1-6) dr by (intro exI [of _ s'] exI [of _ k]) simp
qed

lemma server_steady_drained:
  assumes "server_steady L s" "server_drained s"
  shows "node_has_ready (sv_node s) = Inr (rl_applied (r_log (rn_raft (sv_node s))) < rl_committed (r_log (rn_raft (sv_node s))))"
    "rl_applied (r_log (rn_raft (sv_node s))) \<le> rl_committed (r_log (rn_raft (sv_node s)))"
  using assms(2) [unfolded server_drained_def Let_def] assms(1) [unfolded server_steady_def Let_def node_wf_def log_synced_def]
  by simp_all

lemma pull_ready_drained:
  assumes "server_steady L s" "server_drained s"
    "rl_committed (r_log (rn_raft (sv_node s))) - rl_applied (r_log (rn_raft (sv_node s))) \<le> length ios"
  shows "\<exists>s'. pull_ready_events L ios s = Inr s' \<and> server_settled L s s'"
  using assms
proof (induction ios arbitrary: s)
  case Nil
  note h = server_steady_drained [OF Nil.prems(1,2)]
  have eq: "rl_applied (r_log (rn_raft (sv_node s))) = rl_committed (r_log (rn_raft (sv_node s)))"
    using h(2) Nil.prems(3) by simp
  have "pull_ready_events L [] s = Inr s" using h(1) by (simp add: eq)
  then show ?case using server_settled_here [OF Nil.prems(1,2) eq] by blast
next
  case (Cons io ios)
  let ?l = "r_log (rn_raft (sv_node s))"
  note h = server_steady_drained [OF Cons.prems(1,2)]
  show ?case
  proof (cases "rl_applied ?l < rl_committed ?l")
    case False
    then have "pull_ready_events L (io # ios) s = Inr s" "rl_applied ?l = rl_committed ?l" using h by simp_all
    then show ?thesis using server_settled_here [OF Cons.prems(1,2)] by blast
  next
    case True
    obtain s' k where r: "server_round L io s = Inr (True, s')" "server_steady L s'" "server_drained s'"
      "rl_committed (r_log (rn_raft (sv_node s'))) - rl_applied (r_log (rn_raft (sv_node s'))) = rl_committed ?l - rl_applied ?l - k"
      "0 < k" "\<forall>t. server_settled L s' t \<longrightarrow> server_settled L s t"
      using server_round_then [OF Cons.prems(1), of io] True by blast
    have "rl_committed (r_log (rn_raft (sv_node s'))) - rl_applied (r_log (rn_raft (sv_node s'))) \<le> length ios"
      unfolding r(4) using Cons.prems(3) r(5) by simp
    then obtain t where "pull_ready_events L ios s' = Inr t" "server_settled L s' t" using Cons.IH [OF r(2,3)] by blast
    then show ?thesis using r(1,6) h(1) True by (intro exI [of _ t]) simp
  qed
qed

text \<open>
  The loop ends after at most one round more than there are entries to apply, with everything
  committed applied to the store, all new entries and the new hard state in the log file, and all
  messages handed to the transport.
\<close>

lemma pull_ready_completes:
  assumes st: "server_steady L s"
    and fuel: "rl_committed (r_log (rn_raft (sv_node s))) - rl_applied (r_log (rn_raft (sv_node s))) < length ios"
  shows "\<exists>s'. pull_ready_events L ios s = Inr s' \<and> server_settled L s s'"
proof -
  let ?n = "sv_node s" and ?l = "r_log (rn_raft (sv_node s))"
  obtain io ios' where ios: "ios = io # ios'" using fuel by (cases ios) auto
  have wf: "raft_log_wf ?l" "rl_applied ?l \<le> rl_committed ?l" "log_base ?l \<le> rl_applied ?l" "u_snapshot (rl_unstable ?l) = None"
    "r_read_states (rn_raft ?n) = []"
    using st by (simp_all add: server_steady_def Let_def node_wf_def log_synced_def raft_wfD(1))
  note more = raft_log_next_entries_wf(2) [OF wf(1,2)]
  obtain b where b: "node_has_ready ?n = Inr b" using more by (cases "node_has_ready ?n") (auto simp: node_has_ready_def Let_def split: if_splits)
  show ?thesis
  proof (cases b)
    case True
    obtain s' k where r: "server_round L io s = Inr (True, s')" "server_steady L s'" "server_drained s'"
      "rl_committed (r_log (rn_raft (sv_node s'))) - rl_applied (r_log (rn_raft (sv_node s'))) = rl_committed ?l - rl_applied ?l - k"
      "\<forall>t. server_settled L s' t \<longrightarrow> server_settled L s t"
      using server_round_then [OF st, of io] by blast
    have "rl_committed (r_log (rn_raft (sv_node s'))) - rl_applied (r_log (rn_raft (sv_node s'))) \<le> length ios'"
      unfolding r(4) using fuel by (simp add: ios)
    then obtain t where "pull_ready_events L ios' s' = Inr t" "server_settled L s' t" using pull_ready_drained [OF r(2,3)] by blast
    then show ?thesis using r(1,5) b True by (intro exI [of _ t]) (simp add: ios)
  next
    case False
    have q: "r_msgs (rn_raft ?n) = []" "raft_log_unstable_entries ?l = []" "hard_state_is_empty (hard_state_update ?n)"
      "rl_applied ?l = rl_committed ?l"
      using b False more wf(2,3)
      by (auto simp: node_has_ready_def Let_def hard_state_update_def new_hard_state_def hard_state_is_empty_def split: if_splits)
    have "storage_abs (sv_storage s) = raft_log_abs ?l"
      using raft_log_wfD(3) [OF wf(1)] wf(4) q(2)
      by (simp add: raft_log_abs_def log_joined_def raft_log_unstable_entries_def alog_splice_def alog_last_def)
    then have "server_drained s" using q b False by (simp add: server_drained_def Let_def)
    then show ?thesis using server_settled_here [OF st _ q(4)] b False by (simp add: ios)
  qed
qed

end
