(* ===== verification/Server_Restart.thy ===== *)
theory Server_Restart
  imports Server_Run
begin

text \<open>
  What a restart recovers: the snapshot that is read back has no configuration, so the raft node
  starts without members, and the data of the snapshot reaches the store only if the log has no
  entries after the snapshot.
\<close>

section \<open>The configuration\<close>

lemma load_snap_conf:
  assumes "snap_lib_ok L" "load_snap L name snap dir = Inr (st, snap', dir')"
  shows "snapshot_conf snap' = snapshot_conf snap"
  using assms by (auto simp: load_snap_def snap_lib_ok_def Let_def split: option.splits)

lemma load_from_conf:
  "snap_lib_ok L \<Longrightarrow> load_from L names snap dir = Inr (st, snap', dir') \<Longrightarrow> snapshot_conf snap' = snapshot_conf snap"
proof (induction L names snap dir rule: load_from.induct)
  case (2 L filename names snap dir)
  from "2.prems"(2) obtain s1 snap1 dir1 where l: "load_snap L filename snap dir = Inr (s1, snap1, dir1)"
    "(if is_ok s1 then Inr (StatusOK, snap1, dir1) else load_from L names snap1 dir1) = Inr (st, snap', dir')"
    by (auto simp: res_simps)
  note c = load_snap_conf [OF "2.prems"(1) l(1)]
  show ?case
  proof (cases "is_ok s1")
    case True
    then show ?thesis using l(2) c by simp
  next
    case False
    then show ?thesis using "2.IH" [of "(s1, snap1, dir1)" s1 "(snap1, dir1)" snap1 dir1] "2.prems"(1) l c by simp
  qed
qed simp

lemma storage_append_snapshot:
  assumes "storage_append es ms = Inr (st, ms')"
  shows "ms_snapshot ms' = ms_snapshot ms"
  using assms by (auto simp: storage_append_def res_simps Let_def split: list.splits if_splits)

lemma if_Inl_E: "(if c then Inl e else m) = Inr y \<Longrightarrow> (\<not> c \<Longrightarrow> m = Inr y \<Longrightarrow> P) \<Longrightarrow> P"
  by (cases c) simp_all

text \<open>The pieces of a successful replay.\<close>

lemma replay_WAL_cases:
  assumes "replay_WAL L ext tell io d = Inr rv"
  obtains st snap sdir w st2 hs ptrs w' ents where
    "snapshotter_load (vl_snap L) ext new_snapshot (dk_snap d) = Inr (st, snap, sdir)"
    "ms_snapshot (rv_storage rv) = ms_snapshot (if is_ok st then snd (storage_apply_snapshot snap new_memory_storage) else new_memory_storage)"
    "open_WAL L ext tell io (dk_wal d) snap = Inr w" "wal_read_all (vl_wal L) new_hard_state [] w = Inr (st2, hs, ptrs, w')"
    "deref_entries ptrs = Inr ents" "rv_last_index rv = (if ents \<noteq> [] then e_index (last ents) else 0)"
    "rv_snap_data rv = (if ents \<noteq> [] then [] else snap_data snap)"
proof -
  from assms obtain x ms w y ents z where r:
    "snapshotter_load (vl_snap L) ext new_snapshot (dk_snap d) = Inr x"
    "(if \<not> is_ok (fst x) then if is_not_found (fst x) then Inr new_memory_storage else Inl (Fatal ''error loading snapshot'')
      else Inr (snd (storage_apply_snapshot (fst (snd x)) new_memory_storage))) = Inr ms"
    "open_WAL L ext tell io (dk_wal d) (fst (snd x)) = Inr w" "wal_read_all (vl_wal L) new_hard_state [] w = Inr y"
    "deref_entries (fst (snd (snd y))) = Inr ents"
    "storage_append ents (storage_set_hard_state (fst (snd y)) ms) = Inr z"
    "rv = \<lparr>rv_storage = snd z, rv_wal = snd (snd (snd y)), rv_snap_dir = snd (snd x),
       rv_last_index = (if ents \<noteq> [] then e_index (last ents) else 0),
       rv_snap_data = (if ents \<noteq> [] then [] else snap_data (fst (snd x)))\<rparr>"
    unfolding replay_WAL_def case_prod_beta
    by (elim bindr_Inr_E if_Inl_E) (simp only: sum.simps)
  have "ms_snapshot (snd z) = ms_snapshot ms"
    using storage_append_snapshot [of ents "storage_set_hard_state (fst (snd y)) ms" "fst z" "snd z"] r(6)
    by (simp add: storage_set_hard_state_def)
  then have "ms_snapshot (rv_storage rv) =
      ms_snapshot (if is_ok (fst x) then snd (storage_apply_snapshot (fst (snd x)) new_memory_storage) else new_memory_storage)"
    using r(2,7) by (simp split: if_split_asm)
  then show thesis
    using that [of "fst x" "fst (snd x)" "snd (snd x)" w "fst y" "fst (snd y)" "fst (snd (snd y))" "snd (snd (snd y))" ents] r by simp
qed

lemma replay_WAL_conf:
  assumes "snap_lib_ok (vl_snap L)" "replay_WAL L ext tell io d = Inr rv"
  shows "snapshot_conf (ms_snapshot (rv_storage rv)) = new_conf_state"
proof -
  obtain st snap sdir where r: "snapshotter_load (vl_snap L) ext new_snapshot (dk_snap d) = Inr (st, snap, sdir)"
    "ms_snapshot (rv_storage rv) = ms_snapshot (if is_ok st then snd (storage_apply_snapshot snap new_memory_storage) else new_memory_storage)"
    using replay_WAL_cases [OF assms(2)] by metis
  have "snapshot_conf snap = new_conf_state"
    using load_from_conf [OF assms(1), of _ new_snapshot] r(1) by (auto simp: snapshotter_load_def snapshot_conf_def new_snapshot_def)
  then show ?thesis
    by (auto simp: r(2) storage_apply_snapshot_def snapshot_conf_def new_memory_storage_def new_snapshot_def)
qed

lemma become_follower_no_peers:
  assumes "raft_become_follower t ld r = Inr r'" "r_prs r = []" "r_learner_prs r = []"
  shows "r_prs r' = []" "r_learner_prs r' = []"
  using assms
  by (auto simp: raft_become_follower_def raft_reset_def raft_reset_randomized_election_timeout_def
      raft_abort_leader_transfer_def Let_def res_simps case_prod_beta split: if_splits)

lemma new_raft_no_members:
  assumes "new_raft c draws = Inr r" "c_peers c = []" "c_learners c = []"
    "snapshot_conf (ms_snapshot (c_storage c)) = new_conf_state"
  shows "r_prs r = []" "r_learner_prs r = []"
proof -
  let ?cs = "sm_conf_state (snap_metadata (ms_snapshot (c_storage c)))"
  have cs: "cs_nodes ?cs = []" "cs_learners ?cs = []" using assms(4) by (simp_all add: snapshot_conf_def new_conf_state_def)
  from assms(1) obtain l r1 r2 where r:
    "(if \<not> hard_state_is_empty (ms_hard_state (c_storage c)) then raft_load_state (ms_hard_state (c_storage c)) (raft_initial c draws l)
      else Inr (raft_initial c draws l)) = Inr r1"
    "r2 = (if c_applied c > 0 then r1\<lparr>r_log := raft_log_applied_to (c_applied c) (r_log r1)\<rparr> else r1)"
    "raft_become_follower (r_term r2) 0 r2 = Inr r"
    unfolding new_raft_def Let_def storage_initial_state_def prod.case cs assms(2,3)
    by (auto elim!: bindr_Inr_E split: if_split_asm)
  have "r_prs r1 = [] \<and> r_learner_prs r1 = []"
    using r(1) by (auto simp: raft_load_state_def raft_initial_def res_simps split: if_split_asm)
  then have "r_prs r2 = []" "r_learner_prs r2 = []" by (simp_all add: r(2))
  then show "r_prs r = []" "r_learner_prs r = []" using become_follower_no_peers [OF r(3)] by simp_all
qed

end
