(* ===== verification/Status_Rep.thy ===== *)
theory Status_Rep
  imports Codec
begin

text \<open>
  The representation of a \<open>Status\<close> (\<open>src/raft-kv/common/status.h\<close>, \<open>status.cpp\<close>): no memory for
  success, otherwise a block that holds the length of the message in four bytes, the code and the
  message. The type \<open>status\<close> of theory \<open>Proto\<close> is its abstraction.
\<close>

section \<open>Operations\<close>

type_synonym status_rep = "byte list option"

definition bytes_of_string :: "string \<Rightarrow> byte list" where
  "bytes_of_string s = map (\<lambda>c. word_of_nat (of_char c)) s"

definition string_of_bytes :: "byte list \<Rightarrow> string" where
  "string_of_bytes bs = map (\<lambda>b. char_of (unat b)) bs"

definition code_NotFound :: byte where "code_NotFound = 1"
definition code_NotSupported :: byte where "code_NotSupported = 2"
definition code_InvalidArgument :: byte where "code_InvalidArgument = 3"
definition code_IOError :: byte where "code_IOError = 4"

lemmas code_defs = code_NotFound_def code_NotSupported_def code_InvalidArgument_def code_IOError_def

text \<open>\<open>Status(code, msg)\<close>; \<open>msg\<close> has no NUL character, since its length is that of \<open>strlen\<close>.\<close>

definition new_status :: "byte \<Rightarrow> string \<Rightarrow> status_rep" where
  "new_status code msg = Some (le32 (cast32 (length msg)) @ [code] @ bytes_of_string msg)"

definition status_rep_is_ok :: "status_rep \<Rightarrow> bool" where
  "status_rep_is_ok r \<longleftrightarrow> r = None"

definition status_rep_code :: "status_rep \<Rightarrow> byte res" where
  "status_rep_code r = (case r of None \<Rightarrow> Inr 0 | Some bs \<Rightarrow> vec_at bs 4)"

text \<open>\<open>memcpy\<close> beyond the block is undefined.\<close>

definition status_rep_copy :: "status_rep \<Rightarrow> status_rep res" where
  "status_rep_copy r =
     (case r of
        None \<Rightarrow> Inr None
      | Some bs \<Rightarrow>
          bindr (vec_range bs 0 4) (\<lambda>l.
          bindr (vec_range bs 0 (of_le32 l + 5)) (\<lambda>c. Inr (Some c))))"

definition code_text :: "byte \<Rightarrow> string" where
  "code_text c =
     (if c = 0 then ''ok''
      else if c = code_NotFound then ''not found''
      else if c = code_NotSupported then ''not supported''
      else if c = code_InvalidArgument then ''invalid argument''
      else if c = code_IOError then ''io error''
      else take 29 (''Unknown code('' @ dec_int (sint c) @ ''):''))"

definition status_rep_to_string :: "status_rep \<Rightarrow> string res" where
  "status_rep_to_string r =
     (case r of
        None \<Rightarrow> Inr ''ok''
      | Some bs \<Rightarrow>
          bindr (status_rep_code r) (\<lambda>c.
          bindr (vec_range bs 0 4) (\<lambda>l.
          if of_le32 l > 0 then
            bindr (vec_range bs 5 (5 + of_le32 l)) (\<lambda>m. Inr (code_text c @ string_of_bytes m))
          else Inr (butlast (code_text c)))))"

section \<open>Abstraction\<close>

fun status_repr :: "status \<Rightarrow> status_rep" where
  "status_repr StatusOK = None"
| "status_repr (NotFound msg) = new_status code_NotFound msg"
| "status_repr (NotSupported msg) = new_status code_NotSupported msg"
| "status_repr (InvalidArgument msg) = new_status code_InvalidArgument msg"
| "status_repr (IOError msg) = new_status code_IOError msg"

fun status_message :: "status \<Rightarrow> string" where
  "status_message StatusOK = []"
| "status_message (NotFound msg) = msg"
| "status_message (NotSupported msg) = msg"
| "status_message (InvalidArgument msg) = msg"
| "status_message (IOError msg) = msg"

fun status_text :: "status \<Rightarrow> string" where
  "status_text StatusOK = ''ok''"
| "status_text (NotFound msg) = ''not found''"
| "status_text (NotSupported msg) = ''not supported''"
| "status_text (InvalidArgument msg) = ''invalid argument''"
| "status_text (IOError msg) = ''io error''"

text \<open>What \<open>to_string\<close> returns.\<close>

definition status_to_string :: "status \<Rightarrow> string" where
  "status_to_string s =
     (if s = StatusOK then ''ok''
      else if status_message s = [] then butlast (status_text s) else status_text s @ status_message s)"

lemma string_bytes [simp]: "string_of_bytes (bytes_of_string s) = s"
proof -
  have "char_of (unat (word_of_nat (of_char c) :: byte)) = c" for c
    by (simp add: of_char_mod_256)
  then show ?thesis by (simp add: string_of_bytes_def bytes_of_string_def comp_def)
qed

lemma length_bytes_of_string [simp]: "length (bytes_of_string s) = length s"
  by (simp add: bytes_of_string_def)

lemma new_status_spec:
  assumes "length msg \<le> u32_max"
  shows "status_rep_code (new_status c msg) = Inr c" "status_rep_copy (new_status c msg) = Inr (new_status c msg)"
    "status_rep_to_string (new_status c msg) = Inr (if msg = [] then butlast (code_text c) else code_text c @ msg)"
  using assms
  by (simp_all add: status_rep_code_def status_rep_copy_def status_rep_to_string_def new_status_def vec_at_def vec_range_def nth_append)

lemma status_repr_spec:
  assumes "length (status_message s) \<le> u32_max"
  shows "status_rep_is_ok (status_repr s) = is_ok s"
    "status_rep_copy (status_repr s) = Inr (status_repr s)"
    "status_rep_to_string (status_repr s) = Inr (status_to_string s)"
proof -
  show "status_rep_is_ok (status_repr s) = is_ok s"
    by (cases s) (simp_all add: status_rep_is_ok_def is_ok_def new_status_def)
  show "status_rep_copy (status_repr s) = Inr (status_repr s)"
    using assms by (cases s) (simp_all add: new_status_spec, simp add: status_rep_copy_def)
  show "status_rep_to_string (status_repr s) = Inr (status_to_string s)"
    using assms by (cases s) (simp_all add: new_status_spec status_to_string_def code_text_def code_defs, simp add: status_rep_to_string_def)
qed

end
