(* ===== verification/Redis_Session.thy ===== *)
theory Redis_Session
  imports Redis_Store Status_Rep ByteBuffer
begin

text \<open>
  Sessions of clients: \<open>src/raft-kv/server/redis_session.h\<close> and \<open>redis_session.cpp\<close>. The parser
  of requests is the one of \<open>hiredis\<close>, a parameter; a parsed request is its tree of replies. A
  command is answered at once or turned into a request to the store. Texts are strings of
  characters; the send buffer holds their bytes.
\<close>

section \<open>Texts\<close>

definition CRLF :: string where "CRLF = [CHR 0x0D, CHR 0x0A]"

definition shared_ok :: string where "shared_ok = ''+OK'' @ CRLF"
definition shared_err :: "string \<Rightarrow> string" where "shared_err s = ''-ERR '' @ s @ CRLF"
definition shared_wrong_type :: string where
  "shared_wrong_type = ''-WRONGTYPE Operation against a key holding the wrong kind of value'' @ CRLF"
definition shared_unknown_command :: "string \<Rightarrow> string" where
  "shared_unknown_command s = ''-ERR unknown command `'' @ s @ ''`'' @ CRLF"
definition shared_wrong_number_arguments :: "string \<Rightarrow> string" where
  "shared_wrong_number_arguments s = ''-ERR wrong number of arguments for '' @ [CHR 0x27] @ s @ [CHR 0x27] @ '' command'' @ CRLF"
definition shared_pong :: string where "shared_pong = ''+PONG'' @ CRLF"
definition shared_null :: string where "shared_null = ''$-1'' @ CRLF"

text \<open>\<open>%s\<close> with \<open>c_str()\<close>: the text ends at the first NUL.\<close>

definition c_str :: "string \<Rightarrow> string" where
  "c_str s = takeWhile (\<lambda>c. c \<noteq> NUL) s"

text \<open>
  \<open>n = snprintf(buffer, sizeof(buffer), ...); send_reply(buffer, n)\<close> with a buffer of 256 bytes:
  \<open>n\<close> is the length of the whole text, of which the buffer holds at most 255 characters and a
  NUL. A longer text makes \<open>send_reply\<close> read past the buffer.
\<close>

definition snprintf_reply :: "string \<Rightarrow> string res" where
  "snprintf_reply s =
     (let n = length s in
      if n < 256 then Inr s
      else if n = 256 then Inr (take 255 s @ [NUL])
      else Inl (Undefined ''send_reply reads past the buffer''))"

definition bulk_reply :: "string \<Rightarrow> string" where
  "bulk_reply s = ''$'' @ dec_string (length s) @ CRLF @ (if s \<noteq> [] then s @ CRLF else [])"

definition build_redis_string_array_reply :: "string list \<Rightarrow> string" where
  "build_redis_string_array_reply strs = ''*'' @ dec_string (length strs) @ CRLF @ concat (map bulk_reply strs)"

section \<open>Commands\<close>

datatype redis_reply = ReplyString string | ReplyArray "redis_reply list" | ReplyOther int

text \<open>What a command does: an answer, or a request to the store whose callback answers.\<close>

datatype effect = Reply string | CmdSet string string | CmdDel "string list"

definition wrong_arguments :: "string \<Rightarrow> effect res" where
  "wrong_arguments name = bindr (snprintf_reply (shared_wrong_number_arguments name)) (\<lambda>s. Inr (Reply s))"

definition ping_command :: "redis_reply list \<Rightarrow> effect res" where
  "ping_command elements = Inr (Reply shared_pong)"

definition get_command :: "kv \<Rightarrow> redis_reply list \<Rightarrow> effect res" where
  "get_command kv elements =
     bindr (assertr ''reply->elements > 0'' (length elements > 0)) (\<lambda>_.
     case elements of
       [_, ReplyString key] \<Rightarrow>
         (case kv key of
            None \<Rightarrow> Inr (Reply shared_null)
          | Some v \<Rightarrow> Inr (Reply (''$'' @ dec_string (length v) @ CRLF @ c_str v @ CRLF)))
     | [_, _] \<Rightarrow> Inr (Reply shared_wrong_type)
     | _ \<Rightarrow> wrong_arguments ''get'')"

definition set_command :: "redis_reply list \<Rightarrow> effect res" where
  "set_command elements =
     bindr (assertr ''reply->elements > 0'' (length elements > 0)) (\<lambda>_.
     case elements of
       [_, ReplyString key, ReplyString v] \<Rightarrow> Inr (CmdSet key v)
     | [_, _, _] \<Rightarrow> Inr (Reply shared_wrong_type)
     | _ \<Rightarrow> wrong_arguments ''set'')"

fun reply_strings :: "redis_reply list \<Rightarrow> string list option" where
  "reply_strings [] = Some []"
| "reply_strings (ReplyString s # rs) = (case reply_strings rs of None \<Rightarrow> None | Some ss \<Rightarrow> Some (s # ss))"
| "reply_strings (_ # rs) = None"

definition del_command :: "redis_reply list \<Rightarrow> effect res" where
  "del_command elements =
     bindr (assertr ''reply->elements > 0'' (length elements > 0)) (\<lambda>_.
     if length elements \<le> 1 then wrong_arguments ''del''
     else case reply_strings (tl elements) of
       None \<Rightarrow> Inr (Reply shared_wrong_type)
     | Some keys \<Rightarrow> Inr (CmdDel keys))"

text \<open>\<open>order\<close>: the keys of the store in the order of iteration.\<close>

definition keys_command :: "string list \<Rightarrow> redis_reply list \<Rightarrow> effect res" where
  "keys_command order elements =
     bindr (assertr ''reply->elements > 0'' (length elements > 0)) (\<lambda>_.
     case elements of
       [_, ReplyString pattern] \<Rightarrow>
         bindr (store_keys_from pattern order) (\<lambda>keys. Inr (Reply (build_redis_string_array_reply keys)))
     | [_, _] \<Rightarrow> Inr (Reply shared_wrong_type)
     | _ \<Rightarrow> wrong_arguments ''keys'')"

definition command_table :: "kv \<Rightarrow> string list \<Rightarrow> string \<Rightarrow> (redis_reply list \<Rightarrow> effect res) option" where
  "command_table kv order =
     map_of [(''ping'', ping_command), (''PING'', ping_command), (''get'', get_command kv), (''Get'', get_command kv),
       (''set'', set_command), (''SET'', set_command), (''del'', del_command), (''DEL'', del_command),
       (''keys'', keys_command order), (''KEYS'', keys_command order)]"

definition on_redis_reply :: "kv \<Rightarrow> string list \<Rightarrow> redis_reply \<Rightarrow> effect res" where
  "on_redis_reply kv order reply =
     (case reply of
        ReplyArray elements \<Rightarrow>
          (case elements of
             [] \<Rightarrow> wrong_arguments ''''
           | ReplyString command # _ \<Rightarrow>
               (case command_table kv order command of
                  None \<Rightarrow> bindr (snprintf_reply (shared_unknown_command (c_str command))) (\<lambda>s. Inr (Reply s))
                | Some cb \<Rightarrow> cb elements)
           | _ \<Rightarrow> Inr (Reply shared_wrong_type))
      | _ \<Rightarrow> Inr (Reply shared_wrong_type))"

text \<open>The callbacks of \<open>set_command\<close> and \<open>del_command\<close>.\<close>

definition answer_text :: "status \<Rightarrow> string res" where
  "answer_text st = (if is_ok st then Inr shared_ok else snprintf_reply (shared_err (c_str (status_to_string st))))"

section \<open>Receiving\<close>

text \<open>The reader of \<open>hiredis\<close>: feeding text and taking the next complete request, each may fail.\<close>

record 'r redis_reader =
  rr_feed :: "'r \<Rightarrow> string \<Rightarrow> 'r option"
  rr_get :: "'r \<Rightarrow> ('r \<times> redis_reply option) option"

text \<open>
  The loop of \<open>handle_read\<close> over the bytes received: whether it ended without an error, the reader,
  the requests found and how often \<open>start\<close> was called to read more.
\<close>

function handle_read_from ::
  "'r redis_reader \<Rightarrow> string \<Rightarrow> 'r \<Rightarrow> redis_reply list \<Rightarrow> bool \<times> 'r \<times> redis_reply list \<times> nat" where
  "handle_read_from R bytes r replies =
     (if bytes = [] then (True, r, replies, 0)
      else if CHR 0x0A \<notin> set bytes then (True, r, replies, 1)
      else
        let n = length (takeWhile (\<lambda>c. c \<noteq> CHR 0x0A) bytes) + 1 in
        case rr_feed R r (take n bytes) of
          None \<Rightarrow> (False, r, replies, 0)
        | Some r1 \<Rightarrow>
            (case rr_get R r1 of
               None \<Rightarrow> (False, r1, replies, 0)
             | Some (r2, reply) \<Rightarrow>
                 handle_read_from R (drop n bytes) r2 (case reply of None \<Rightarrow> replies | Some x \<Rightarrow> replies @ [x])))"
  by pat_completeness auto
termination by (relation "measure (\<lambda>(R, bytes, r, replies). length bytes)") auto

declare handle_read_from.simps [simp del]

definition handle_read ::
  "'r redis_reader \<Rightarrow> string \<Rightarrow> 'r \<Rightarrow> bool \<times> 'r \<times> redis_reply list \<times> nat" where
  "handle_read R bytes r =
     (let (ok, r, replies, starts) = handle_read_from R bytes r []
      in (\<not> ok, r, if ok then replies else [], if ok then starts + 1 else starts))"

text \<open>The handler of \<open>async_read_some\<close> in \<open>start\<close>: no bytes or an error end the session's reading.\<close>

definition session_on_read ::
  "'r redis_reader \<Rightarrow> bool \<Rightarrow> string \<Rightarrow> 'r \<Rightarrow> bool \<times> 'r \<times> redis_reply list \<times> nat" where
  "session_on_read R err bytes r =
     (if bytes = [] then (False, r, [], 0) else if err then (False, r, [], 0) else handle_read R bytes r)"

section \<open>Sending\<close>

record redis_session =
  se_buffer :: byte_buffer
  se_inflight :: "nat option"
  se_wire :: "byte list"

definition new_redis_session :: redis_session where
  "new_redis_session = \<lparr>se_buffer = new_byte_buffer, se_inflight = None, se_wire = []\<rparr>"

definition session_start_send :: "redis_session \<Rightarrow> redis_session res" where
  "session_start_send s =
     (if \<not> bytebuffer_readable (se_buffer s) then Inr s
      else bindr (bytebuffer_readable_bytes (se_buffer s)) (\<lambda>n. Inr (s\<lparr>se_inflight := Some n\<rparr>)))"

definition session_send_reply :: "byte list \<Rightarrow> redis_session \<Rightarrow> redis_session res" where
  "session_send_reply data s =
     bindr (bytebuffer_readable_bytes (se_buffer s)) (\<lambda>bytes.
     bindr (bytebuffer_put_shared (se_inflight s) data (se_buffer s)) (\<lambda>b.
     let s = s\<lparr>se_buffer := b\<rparr> in
     if bytes = 0 then session_start_send s else Inr s))"

text \<open>The handler of \<open>async_write\<close>; after an error nothing is sent any more.\<close>

definition session_on_write :: "bool \<Rightarrow> nat \<Rightarrow> redis_session \<Rightarrow> redis_session res" where
  "session_on_write err bytes s =
     (if bytes = 0 \<or> err then Inr (s\<lparr>se_inflight := None\<rparr>)
      else
        bindr (bytebuffer_slice (se_buffer s)) (\<lambda>sl.
        bindr (bytebuffer_read_bytes bytes (se_buffer s)) (\<lambda>b.
        session_start_send (s\<lparr>se_buffer := b, se_inflight := None, se_wire := se_wire s @ take bytes sl\<rparr>))))"

section \<open>Accepting sessions\<close>

record redis_acceptor =
  ra_accepting :: bool
  ra_sessions :: "redis_session list"

definition redis_start_accept :: "redis_acceptor \<Rightarrow> redis_acceptor" where
  "redis_start_accept a = a\<lparr>ra_accepting := True\<rparr>"

definition redis_on_accept :: "bool \<Rightarrow> redis_acceptor \<Rightarrow> redis_acceptor" where
  "redis_on_accept err a =
     (let a = a\<lparr>ra_accepting := False\<rparr> in
      if err then a else (redis_start_accept a)\<lparr>ra_sessions := ra_sessions a @ [new_redis_session]\<rparr>)"

section \<open>A session and the store\<close>

text \<open>
  Executing a request of session \<open>sid\<close>: the text sent at once, the proposal handed to the raft
  node (request id, data, and whether it is a \<open>set\<close>), and the store.
\<close>

definition session_execute ::
  "store_lib \<Rightarrow> 'c \<Rightarrow> string list \<Rightarrow> redis_reply \<Rightarrow> 'c redis_store \<Rightarrow>
   (string option \<times> (u32 \<times> byte list \<times> bool) option \<times> 'c redis_store) res" where
  "session_execute L sid order reply s =
     bindr (on_redis_reply (rs_kv s) order reply) (\<lambda>eff.
     case eff of
       Reply text \<Rightarrow> Inr (Some text, None, s)
     | CmdSet key v \<Rightarrow> (let (i, d, s) = store_set L key v sid s in Inr (None, Some (i, d, True), s))
     | CmdDel keys \<Rightarrow> (let (i, d, s) = store_del L keys sid s in Inr (None, Some (i, d, False), s)))"

end
