(* ===== verification/Redis_Spec.thy ===== *)
theory Redis_Spec
  imports Redis_Session
begin

text \<open>
  The sessions against the Redis protocol: a reference parser for the answers, and what each
  request leads to; the bytes sent are the answers in order.
\<close>

section \<open>A parser of answers\<close>

definition resp_number :: "string \<Rightarrow> (nat \<times> string) option" where
  "resp_number s =
     (let ds = takeWhile is_digit s; r = dropWhile is_digit s in
      if ds \<noteq> [] \<and> take 2 r = CRLF then Some (dec_value ds, drop 2 r) else None)"

definition resp_bulk :: "string \<Rightarrow> (string \<times> string) option" where
  "resp_bulk s =
     (if take 1 s \<noteq> ''$'' then None
      else case resp_number (drop 1 s) of
        None \<Rightarrow> None
      | Some (n, r) \<Rightarrow> if take 2 (drop n r) = CRLF then Some (take n r, drop (n + 2) r) else None)"

fun resp_bulks :: "nat \<Rightarrow> string \<Rightarrow> (string list \<times> string) option" where
  "resp_bulks 0 s = Some ([], s)"
| "resp_bulks (Suc n) s =
     (case resp_bulk s of
        None \<Rightarrow> None
      | Some (x, r) \<Rightarrow> (case resp_bulks n r of None \<Rightarrow> None | Some (xs, r) \<Rightarrow> Some (x # xs, r)))"

definition resp_array :: "string \<Rightarrow> (string list \<times> string) option" where
  "resp_array s =
     (if take 1 s \<noteq> ''*'' then None
      else case resp_number (drop 1 s) of None \<Rightarrow> None | Some (n, r) \<Rightarrow> resp_bulks n r)"

lemma length_CRLF [simp]: "length CRLF = 2"
  by (simp add: CRLF_def)

lemma dec_string_not_Nil: "dec_string n \<noteq> []"
  by (subst dec_string.simps) simp

lemma resp_number_dec: "resp_number (dec_string n @ CRLF @ rest) = Some (n, rest)"
proof -
  have digits: "\<forall>c \<in> set (dec_string n). is_digit c" using dec_string_digits by blast
  have "takeWhile is_digit (dec_string n @ CRLF @ rest) = dec_string n"
    "dropWhile is_digit (dec_string n @ CRLF @ rest) = CRLF @ rest"
    using digits by (simp_all add: CRLF_def is_digit_def)
  then show ?thesis using dec_string_not_Nil [of n] by (simp add: resp_number_def)
qed

lemma resp_bulk_spec: "resp_bulk (''$'' @ dec_string (length s) @ CRLF @ s @ CRLF @ rest) = Some (s, rest)"
  using resp_number_dec [of "length s" "s @ CRLF @ rest"] by (simp add: resp_bulk_def)

lemma resp_bulks_spec:
  "\<forall>s \<in> set strs. s \<noteq> [] \<Longrightarrow> resp_bulks (length strs) (concat (map bulk_reply strs) @ rest) = Some (strs, rest)"
proof (induction strs)
  case (Cons s strs)
  have "resp_bulk (concat (map bulk_reply (s # strs)) @ rest) = Some (s, concat (map bulk_reply strs) @ rest)"
    using Cons.prems resp_bulk_spec [of s "concat (map bulk_reply strs) @ rest"] by (simp add: bulk_reply_def)
  then show ?case using Cons by simp
qed simp

lemma resp_array_spec:
  assumes "\<forall>s \<in> set strs. s \<noteq> []"
  shows "resp_array (build_redis_string_array_reply strs @ rest) = Some (strs, rest)"
  using resp_number_dec [of "length strs" "concat (map bulk_reply strs) @ rest"] resp_bulks_spec [OF assms]
  by (simp add: resp_array_def build_redis_string_array_reply_def)

section \<open>Requests\<close>

lemma c_str_id: "NUL \<notin> set s \<Longrightarrow> c_str s = s"
  by (auto simp: c_str_def takeWhile_eq_all_conv)

lemma length_c_str: "length (c_str s) \<le> length s"
  by (simp add: c_str_def length_takeWhile_le)

lemma wrong_arguments_spec:
  "length name \<le> 4 \<Longrightarrow> wrong_arguments name = Inr (Reply (shared_wrong_number_arguments name))"
  by (simp add: wrong_arguments_def snprintf_reply_def shared_wrong_number_arguments_def CRLF_def Let_def)

text \<open>The text about an unknown command has 25 characters besides the name.\<close>

lemma unknown_command_reply:
  "snprintf_reply (shared_unknown_command s) =
    (if length s \<le> 230 then Inr (shared_unknown_command s)
     else if length s = 231 then Inr (take 255 (shared_unknown_command s) @ [NUL])
     else Inl (Undefined ''send_reply reads past the buffer''))"
  by (simp add: snprintf_reply_def shared_unknown_command_def CRLF_def Let_def)

lemma store_keys_from_total: "\<exists>ks. store_keys_from p order = Inr ks"
proof (induction order)
  case (Cons k order)
  then show ?case using string_match_total [of False p k] by auto
qed simp

lemma command_table_cases:
  "command_table kv order c = Some cb \<Longrightarrow>
   cb \<in> {ping_command, get_command kv, set_command, del_command, keys_command order}"
  unfolding command_table_def by (drule map_of_SomeD) auto

text \<open>Every request has exactly one outcome, as long as the name of the command is short.\<close>

lemma on_redis_reply_total:
  assumes "\<And>c es. reply = ReplyArray (ReplyString c # es) \<Longrightarrow> length (c_str c) \<le> 231"
  shows "\<exists>eff. on_redis_reply kv order reply = Inr eff"
proof (cases reply)
  case (ReplyArray elements)
  have w: "\<exists>eff. wrong_arguments n = Inr eff" if "length n \<le> 4" for n
    using wrong_arguments_spec [OF that] by simp
  have cmds: "\<exists>eff. ping_command es = Inr eff" "es \<noteq> [] \<Longrightarrow> \<exists>eff. get_command kv es = Inr eff"
    "es \<noteq> [] \<Longrightarrow> \<exists>eff. set_command es = Inr eff" "es \<noteq> [] \<Longrightarrow> \<exists>eff. del_command es = Inr eff"
    "es \<noteq> [] \<Longrightarrow> \<exists>eff. keys_command order es = Inr eff" for es
    using w store_keys_from_total [of _ order]
    by (auto simp: ping_command_def get_command_def set_command_def del_command_def keys_command_def
        split: list.splits redis_reply.splits option.splits) (simp add: res_simps)
  show ?thesis
  proof (cases elements)
    case Nil
    then show ?thesis using ReplyArray w [of "[]"] by (simp add: on_redis_reply_def)
  next
    case (Cons e es)
    show ?thesis
    proof (cases e)
      case (ReplyString c)
      have "length (c_str c) \<le> 231" using assms ReplyArray Cons ReplyString by simp
      then have "\<exists>s. snprintf_reply (shared_unknown_command (c_str c)) = Inr s" by (simp add: unknown_command_reply)
      moreover have "\<exists>eff. cb elements = Inr eff" if "command_table kv order c = Some cb" for cb
        using command_table_cases [OF that] cmds [of elements] Cons by auto
      ultimately show ?thesis using ReplyArray Cons ReplyString
        by (auto simp: on_redis_reply_def split: option.splits)
    qed (use ReplyArray Cons in \<open>simp_all add: on_redis_reply_def\<close>)
  qed
qed (simp_all add: on_redis_reply_def)

section \<open>What is not parsed\<close>

text \<open>Bytes after the last line feed never reach the parser.\<close>

lemma handle_read_from_tail:
  assumes "CHR 0x0A \<notin> set tail" "bytes = [] \<or> last bytes = CHR 0x0A"
  shows "let (ok, r', replies', n) = handle_read_from R (bytes @ tail) r replies;
             (ok2, r2, replies2, n2) = handle_read_from R bytes r replies
         in ok = ok2 \<and> r' = r2 \<and> replies' = replies2 \<and> n = (if ok \<and> tail \<noteq> [] then 1 else 0) \<and> n2 = 0"
  using assms(2)
proof (induction R bytes r replies rule: handle_read_from.induct)
  case (1 R bytes r replies)
  show ?case
  proof (cases "bytes = []")
    case True
    then show ?thesis using assms(1) by (simp add: handle_read_from.simps)
  next
    case False
    with "1.prems" have lf: "CHR 0x0A \<in> set bytes" by (metis last_in_set)
    define n where "n = length (takeWhile (\<lambda>c. c \<noteq> CHR 0x0A) bytes) + 1"
    have tw: "takeWhile (\<lambda>c. c \<noteq> CHR 0x0A) (bytes @ tail) = takeWhile (\<lambda>c. c \<noteq> CHR 0x0A) bytes"
      using lf by (simp add: takeWhile_append1)
    obtain xs ys where "bytes = xs @ CHR 0x0A # ys" "CHR 0x0A \<notin> set xs" using split_list_first [OF lf] by blast
    then have n: "n \<le> length bytes" by (auto simp: n_def takeWhile_append)
    have l: "drop n bytes = [] \<or> last (drop n bytes) = CHR 0x0A"
      using "1.prems" False by (metis drop_eq_Nil last_drop not_le)
    have split: "handle_read_from R (b @ t) r replies =
        (case rr_feed R r (take n bytes) of None \<Rightarrow> (False, r, replies, 0)
         | Some r1 \<Rightarrow> (case rr_get R r1 of None \<Rightarrow> (False, r1, replies, 0)
             | Some (r2, reply) \<Rightarrow> handle_read_from R (drop n bytes @ t) r2 (case reply of None \<Rightarrow> replies | Some x \<Rightarrow> replies @ [x])))"
      if "b = bytes" "takeWhile (\<lambda>c. c \<noteq> CHR 0x0A) (b @ t) = takeWhile (\<lambda>c. c \<noteq> CHR 0x0A) bytes" for b t
    proof -
      have "drop n (b @ t) = drop n bytes @ t" using n that(1) by simp
      then show ?thesis using lf n that False
        by (subst handle_read_from.simps) (simp add: n_def [symmetric] Let_def cong: option.case_cong)
    qed
    show ?thesis
      unfolding split [OF refl tw] using split [of bytes "[]"] False lf "1.IH" [OF False _ n_def] l
      by (auto simp: Let_def split: option.splits prod.splits)
  qed
qed

section \<open>Answers are sent in order\<close>

text \<open>The life of a session: answers are written at any time and outstanding writes complete.\<close>

inductive session_reach :: "byte list list \<Rightarrow> redis_session \<Rightarrow> bool" where
  New: "session_reach [] new_redis_session"
| Reply: "session_reach rs s \<Longrightarrow> session_send_reply d s = Inr s' \<Longrightarrow> session_reach (rs @ [d]) s'"
| Write: "session_reach rs s \<Longrightarrow> se_inflight s = Some n \<Longrightarrow> session_on_write False n s = Inr s' \<Longrightarrow> session_reach rs s'"

definition session_wf :: "nat \<Rightarrow> redis_session \<Rightarrow> bool" where
  "session_wf t s \<longleftrightarrow> bytebuffer_wf t (se_buffer s) \<and>
     (case se_inflight s of
        None \<Rightarrow> bytebuffer_contents (se_buffer s) = []
      | Some n \<Rightarrow> 0 < n \<and> n \<le> length (bytebuffer_contents (se_buffer s)))"

lemma session_start_send_spec:
  assumes "bytebuffer_wf t (se_buffer s)" "t \<le> bytebuffer_limit"
  shows "session_start_send s =
    Inr (if bytebuffer_contents (se_buffer s) = [] then s
         else s\<lparr>se_inflight := Some (length (bytebuffer_contents (se_buffer s)))\<rparr>)"
  using assms by (simp add: session_start_send_def bytebuffer_readable_iff bytebuffer_readable_bytes_spec)

lemma session_send_reply_spec:
  assumes wf: "session_wf t s" and room: "t + length d \<le> bytebuffer_limit" and ok: "session_send_reply d s = Inr s'"
  shows "session_wf (t + length d) s' \<and> se_wire s' = se_wire s \<and>
    bytebuffer_contents (se_buffer s') = bytebuffer_contents (se_buffer s) @ d"
proof -
  let ?c = "bytebuffer_contents (se_buffer s)"
  have t: "bytebuffer_wf t (se_buffer s)" "t \<le> bytebuffer_limit" using wf room by (simp_all add: session_wf_def)
  obtain b where b: "bytebuffer_wf (t + length d) b" "bytebuffer_contents b = ?c @ d"
    "bytebuffer_put_shared (se_inflight s) d (se_buffer s) = Inr b"
    using bytebuffer_put_shared_spec [OF t(1) room, of "se_inflight s"] ok
    by (auto simp: session_send_reply_def res_simps bytebuffer_readable_bytes_spec [OF t])
  have "Inr s' = (if length ?c = 0 then session_start_send (s\<lparr>se_buffer := b\<rparr>) else Inr (s\<lparr>se_buffer := b\<rparr>))"
    using ok b(3) by (simp add: session_send_reply_def bytebuffer_readable_bytes_spec [OF t] Let_def)
  then have "s' = (if ?c = [] \<and> d \<noteq> [] then s\<lparr>se_buffer := b, se_inflight := Some (length d)\<rparr> else s\<lparr>se_buffer := b\<rparr>)"
    using session_start_send_spec [of "t + length d" "s\<lparr>se_buffer := b\<rparr>"] b(1,2) room by (auto split: if_splits)
  then show ?thesis using wf b by (auto simp: session_wf_def split: option.splits if_splits)
qed

lemma session_on_write_spec:
  assumes wf: "session_wf t s" and t: "t \<le> bytebuffer_limit" and n: "se_inflight s = Some n"
  shows "\<exists>s'. session_on_write False n s = Inr s' \<and> session_wf t s' \<and>
    se_wire s' @ bytebuffer_contents (se_buffer s') = se_wire s @ bytebuffer_contents (se_buffer s)"
proof -
  let ?c = "bytebuffer_contents (se_buffer s)"
  have b: "bytebuffer_wf t (se_buffer s)" "0 < n" "n \<le> length ?c" using wf n by (auto simp: session_wf_def)
  obtain b' where b': "bytebuffer_read_bytes n (se_buffer s) = Inr b'" "bytebuffer_wf t b'" "bytebuffer_contents b' = drop n ?c"
    using bq.get_ok [OF b(1) t b(3)] by blast
  let ?s = "s\<lparr>se_buffer := b', se_inflight := None, se_wire := se_wire s @ take n ?c\<rparr>"
  have "session_on_write False n s = session_start_send ?s"
    using b b' bytebuffer_slice_spec [OF b(1) t] by (simp add: session_on_write_def)
  then show ?thesis using session_start_send_spec [of t ?s] b' b t by (auto simp: session_wf_def)
qed

lemma session_stream:
  assumes "session_reach rs s" "length (concat rs) \<le> bytebuffer_limit"
  shows "session_wf (length (concat rs)) s \<and> se_wire s @ bytebuffer_contents (se_buffer s) = concat rs"
  using assms
proof (induction rule: session_reach.induct)
  case New
  then show ?case using new_byte_buffer_wf by (simp add: new_redis_session_def session_wf_def)
next
  case (Reply rs s d s')
  then show ?case using session_send_reply_spec [of "length (concat rs)" s d s'] by auto
next
  case (Write rs s n s')
  then show ?case using session_on_write_spec [of "length (concat rs)" s n] by auto
qed

end
