(* ===== verification/Transport_Stream.thy ===== *)
theory Transport_Stream
  imports Transport
begin

text \<open>
  From one end of a connection to the other: the frames a client session sends are the bytes on
  the wire, in order, whatever the interleaving of sending, connecting and writing; the server
  session decodes exactly the frames that have arrived completely.
\<close>

section \<open>The receiving side\<close>

text \<open>What a peer sends: a message, or the two counter values of the timer.\<close>

datatype outgoing = OutMessage message | OutDebug u32

fun out_type :: "outgoing \<Rightarrow> byte" where
  "out_type (OutMessage m) = TransportTypeStream"
| "out_type (OutDebug a) = TransportTypeDebug"

fun out_data :: "message msgpack \<Rightarrow> outgoing \<Rightarrow> byte list" where
  "out_data mp (OutMessage m) = mp_pack mp (message_packed m)"
| "out_data mp (OutDebug a) = debug_message a (add32 a 1)"

definition frame :: "byte \<Rightarrow> byte list \<Rightarrow> byte list" where
  "frame type data = transport_meta type (length data) @ data"

definition out_frame :: "message msgpack \<Rightarrow> outgoing \<Rightarrow> byte list" where
  "out_frame mp x = frame (out_type x) (out_data mp x)"

fun out_messages :: "outgoing list \<Rightarrow> message list" where
  "out_messages [] = []"
| "out_messages (OutMessage m # xs) = message_packed m # out_messages xs"
| "out_messages (OutDebug a # xs) = out_messages xs"

text \<open>The outgoing data survives packing and fits the 32-bit length field.\<close>

definition out_ok :: "message msgpack \<Rightarrow> outgoing \<Rightarrow> bool" where
  "out_ok mp x \<longleftrightarrow> out_data mp x \<noteq> [] \<and> length (out_data mp x) \<le> u32_max \<and>
     (case x of OutMessage m \<Rightarrow> mp_unpack mp (out_data mp x) = Some (message_packed m) | OutDebug a \<Rightarrow> a \<le> u32_max)"

lemma length_out_frame: "length (out_frame mp x) = 5 + length (out_data mp x)"
  by (simp add: out_frame_def frame_def transport_meta_def)

lemma out_messages_append: "out_messages (xs @ ys) = out_messages xs @ out_messages ys"
  by (induction xs rule: out_messages.induct) auto

lemma server_run_step: "server_step mp s = Inr (Some s') \<Longrightarrow> server_run mp s = server_run mp s'"
  by (subst server_run.simps) simp

lemma server_run_stop: "server_step mp s = Inr None \<Longrightarrow> server_run mp s = Inr s"
  by (subst server_run.simps) simp

lemma server_decode_out:
  assumes "out_ok mp x"
  shows "server_decode mp (out_type x) (out_data mp x) s =
    Inr (s\<lparr>ss_received := ss_received s @ out_messages [x], ss_state := WaitMeta\<rparr>)"
  using assms
  by (cases x) (auto simp: server_decode_def out_ok_def transport_type_defs debug_message_def)

lemma meta_fields:
  "n \<le> u32_max \<Longrightarrow> of_be32 (take 4 (drop 1 (transport_meta type n @ rest))) = n"
  "(transport_meta type n @ rest) ! 0 = type" "drop 5 (transport_meta type n @ rest) = rest"
  by (simp_all add: transport_meta_def)

lemma length_transport_meta [simp]: "length (transport_meta type n) = 5"
  by (simp add: transport_meta_def)

lemma server_run_frame:
  assumes x: "out_ok mp x" and s: "ss_state s = WaitMeta" "ss_input s = out_frame mp x @ rest"
  shows "server_run mp s = server_run mp (s\<lparr>ss_input := rest, ss_received := ss_received s @ out_messages [x]\<rparr>)"
proof -
  let ?d = "out_data mp x"
  let ?s1 = "s\<lparr>ss_state := WaitMessage (out_type x) (length ?d), ss_input := ?d @ rest\<rparr>"
  have len: "length ?d \<le> u32_max" "?d \<noteq> []" using x by (simp_all add: out_ok_def)
  have "server_step mp s = Inr (Some ?s1)"
    using s meta_fields [where n = "length ?d" and type = "out_type x" and rest = "?d @ rest"] len
    by (simp add: server_step_def out_frame_def frame_def)
  moreover have "server_step mp ?s1 = Inr (Some (s\<lparr>ss_input := rest, ss_received := ss_received s @ out_messages [x]\<rparr>))"
    using len s(1) server_decode_out [OF x] by (simp add: server_step_def)
  ultimately show ?thesis by (simp add: server_run_step)
qed

lemma server_run_frames:
  assumes "\<forall>x \<in> set xs. out_ok mp x" "ss_state s = WaitMeta" "ss_input s = concat (map (out_frame mp) xs) @ rest"
  shows "server_run mp s = server_run mp (s\<lparr>ss_input := rest, ss_received := ss_received s @ out_messages xs\<rparr>)"
  using assms
proof (induction xs arbitrary: s)
  case (Cons x xs)
  let ?s = "s\<lparr>ss_input := concat (map (out_frame mp) xs) @ rest, ss_received := ss_received s @ out_messages [x]\<rparr>"
  have "server_run mp s = server_run mp ?s" using Cons.prems by (intro server_run_frame) auto
  also have "\<dots> = server_run mp (s\<lparr>ss_input := rest, ss_received := ss_received s @ out_messages [x] @ out_messages xs\<rparr>)"
    using Cons.prems Cons.IH [of ?s] by simp
  finally show ?case using out_messages_append [of "[x]" xs] by simp
next
  case Nil
  then have "s\<lparr>ss_input := rest, ss_received := ss_received s @ out_messages []\<rparr> = s" by (cases s) simp
  then show ?case by (simp only:)
qed

text \<open>A piece of a frame only makes the session wait.\<close>

lemma server_run_piece:
  assumes x: "out_ok mp x" and s: "ss_state s = WaitMeta" "ss_input s = take j (out_frame mp x)" "j < length (out_frame mp x)"
  shows "\<exists>s'. server_run mp s = Inr s' \<and> ss_received s' = ss_received s \<and> ss_state s' \<noteq> Closed"
proof (cases "j < 5")
  case True
  then have "server_step mp s = Inr None" using s by (simp add: server_step_def)
  then show ?thesis using s by (simp add: server_run_stop)
next
  case False
  let ?d = "out_data mp x"
  let ?s1 = "s\<lparr>ss_state := WaitMessage (out_type x) (length ?d), ss_input := take (j - 5) ?d\<rparr>"
  have len: "length ?d \<le> u32_max" "?d \<noteq> []" using x by (simp_all add: out_ok_def)
  have inp: "ss_input s = transport_meta (out_type x) (length ?d) @ take (j - 5) ?d"
    using s(2) False by (simp add: out_frame_def frame_def)
  have "server_step mp s = Inr (Some ?s1)"
    using s(1) inp meta_fields [where n = "length ?d" and type = "out_type x" and rest = "take (j - 5) ?d"] len
    by (simp add: server_step_def)
  moreover have "server_step mp ?s1 = Inr None"
    using s(3) False len by (auto simp: server_step_def length_out_frame)
  ultimately show ?thesis by (simp add: server_run_step server_run_stop)
qed

lemma out_frame_not_Nil: "out_frame mp x \<noteq> []"
  by (simp add: out_frame_def frame_def transport_meta_def)

lemma server_receive_new:
  "server_receive mp b new_server_session = server_run mp (new_server_session\<lparr>ss_input := b\<rparr>)"
  by (simp add: server_receive_def new_server_session_def)

text \<open>It does not matter in which pieces the bytes arrive.\<close>

lemma server_decode_input:
  "server_decode mp type d (s\<lparr>ss_input := x\<rparr>) = bindr (server_decode mp type d s) (\<lambda>s. Inr (s\<lparr>ss_input := x\<rparr>))"
  by (simp add: server_decode_def assertr_def split: option.split)

lemma server_step_more:
  assumes "server_step mp s = Inr (Some s')"
  shows "server_step mp (s\<lparr>ss_input := ss_input s @ b\<rparr>) = Inr (Some (s'\<lparr>ss_input := ss_input s' @ b\<rparr>))"
  using assms
  by (auto simp: server_step_def server_decode_input nth_append res_simps split: server_state.splits if_splits)

lemma server_step_more_fails:
  "server_step mp s = Inl e \<Longrightarrow> server_step mp (s\<lparr>ss_input := ss_input s @ b\<rparr>) = Inl e"
  by (auto simp: server_step_def server_decode_input res_simps split: server_state.splits if_splits)

lemma server_run_more:
  "server_run mp (s\<lparr>ss_input := ss_input s @ b\<rparr>) = bindr (server_run mp s) (\<lambda>s. server_run mp (s\<lparr>ss_input := ss_input s @ b\<rparr>))"
proof (induction mp s rule: server_run.induct)
  case (1 mp s)
  show ?case
  proof (cases "server_step mp s")
    case (Inl e)
    then show ?thesis using server_step_more_fails [OF Inl, of b] by (simp add: server_run.simps)
  next
    case (Inr x)
    show ?thesis
    proof (cases x)
      case None
      then show ?thesis using Inr by (simp add: server_run_stop)
    next
      case (Some s')
      then show ?thesis using 1 Inr server_step_more [of mp s s' b] by (simp add: server_run_step)
    qed
  qed
qed

lemma server_run_again: "server_run mp s = Inr s' \<Longrightarrow> server_run mp s' = Inr s'"
proof (induction mp s rule: server_run.induct)
  case (1 mp s)
  show ?case
  proof (cases "server_step mp s")
    case (Inl e)
    then show ?thesis using 1(2) by (simp add: server_run.simps)
  next
    case (Inr x)
    then show ?thesis using 1 by (cases x) (auto simp: server_run_stop server_run_step)
  qed
qed

lemma server_receive_append: "server_receive mp (a @ b) s = bindr (server_receive mp a s) (server_receive mp b)"
  using server_run_more [of mp "s\<lparr>ss_input := ss_input s @ a\<rparr>" b] by (simp add: server_receive_def [abs_def])

fun server_receives :: "message msgpack \<Rightarrow> byte list list \<Rightarrow> server_session \<Rightarrow> server_session res" where
  "server_receives mp [] s = Inr s"
| "server_receives mp (b # bs) s = bindr (server_receive mp b s) (server_receives mp bs)"

lemma server_receives_concat:
  assumes "server_run mp s = Inr s"
  shows "server_receives mp bs s = server_receive mp (concat bs) s"
  using assms
proof (induction bs arbitrary: s)
  case Nil
  then show ?case by (simp add: server_receive_def)
next
  case (Cons b bs)
  have "server_receives mp bs s1 = server_receive mp (concat bs) s1" if "server_receive mp b s = Inr s1" for s1
    using that Cons.IH server_run_again [of mp "s\<lparr>ss_input := ss_input s @ b\<rparr>" s1] by (simp add: server_receive_def)
  then show ?case by (cases "server_receive mp b s") (simp_all add: server_receive_append)
qed

lemma new_server_session_waits: "server_run mp new_server_session = Inr new_server_session"
  by (rule server_run_stop) (simp add: server_step_def new_server_session_def)

lemma server_receive_prefix:
  assumes xs: "\<forall>x \<in> set xs. out_ok mp x"
  shows "\<exists>n s. n \<le> length xs \<and> length (concat (map (out_frame mp) (take n xs))) \<le> k \<and>
    (n < length xs \<longrightarrow> k < length (concat (map (out_frame mp) (take (Suc n) xs)))) \<and>
    server_receive mp (take k (concat (map (out_frame mp) xs))) new_server_session = Inr s \<and>
    ss_received s = out_messages (take n xs) \<and> ss_state s \<noteq> Closed"
proof -
  let ?c = "\<lambda>n. concat (map (out_frame mp) (take n xs))"
  obtain n tail where n: "n \<le> length xs" "take k (concat (map (out_frame mp) xs)) = ?c n @ tail" "length (?c n) \<le> k"
      "n < length xs \<longrightarrow> k < length (?c (Suc n))"
    and tail: "tail = [] \<or> n < length xs \<and> (\<exists>j < length (out_frame mp (xs ! n)). tail = take j (out_frame mp (xs ! n)))"
    using take_concat_frames [where f = "out_frame mp" and rs = xs and k = k, OF out_frame_not_Nil] by blast
  let ?init = "new_server_session\<lparr>ss_input := ?c n @ tail\<rparr>" and ?s = "new_server_session\<lparr>ss_input := tail, ss_received := out_messages (take n xs)\<rparr>"
  have ok: "\<forall>x \<in> set (take n xs). out_ok mp x" using xs by (meson in_set_takeD)
  have run: "server_run mp ?init = server_run mp ?s"
    using server_run_frames [OF ok, of ?init tail] by (simp add: new_server_session_def)
  have "\<exists>s'. server_run mp ?s = Inr s' \<and> ss_received s' = out_messages (take n xs) \<and> ss_state s' \<noteq> Closed"
  proof (cases "tail = []")
    case True
    then have "server_step mp ?s = Inr None" by (simp add: server_step_def new_server_session_def)
    then show ?thesis by (simp add: server_run_stop new_server_session_def)
  next
    case False
    then obtain j where j: "n < length xs" "j < length (out_frame mp (xs ! n))" "tail = take j (out_frame mp (xs ! n))"
      using tail by blast
    then have "out_ok mp (xs ! n)" using xs by simp
    from server_run_piece [OF this, of ?s j] j show ?thesis by (simp add: new_server_session_def)
  qed
  moreover have "server_receive mp (take k (concat (map (out_frame mp) xs))) new_server_session = server_run mp ?s"
    unfolding n(2) by (rule trans [OF server_receive_new run])
  ultimately show ?thesis using n by auto
qed

section \<open>The sending side\<close>

text \<open>
  The life of a session as a sequence of handlers: frames are sent at any time, the connection is
  established once, and an outstanding write completes.
\<close>

inductive client_reach :: "(byte \<times> byte list) list \<Rightarrow> client_session \<Rightarrow> bool" where
  New: "client_reach [] new_client_session"
| Send: "client_reach fs s \<Longrightarrow> client_send type data s = Inr s' \<Longrightarrow> client_reach (fs @ [(type, data)]) s'"
| Connect: "client_reach fs s \<Longrightarrow> \<not> cs_connected s \<Longrightarrow> client_on_connect False s = Inr (Some s') \<Longrightarrow> client_reach fs s'"
| Write: "client_reach fs s \<Longrightarrow> cs_inflight s = Some n \<Longrightarrow> client_on_write False n s = Inr (Some s') \<Longrightarrow> client_reach fs s'"

definition frames_bytes :: "(byte \<times> byte list) list \<Rightarrow> byte list" where
  "frames_bytes fs = concat (map (\<lambda>(type, data). frame type data) fs)"

text \<open>
  Invariant: the buffer is consistent after \<open>t\<close> bytes, a write is outstanding exactly when the
  session is connected and has bytes to send, and it covers some of them.
\<close>

definition client_wf :: "nat \<Rightarrow> client_session \<Rightarrow> bool" where
  "client_wf t s \<longleftrightarrow> bytebuffer_wf t (cs_buffer s) \<and>
     (case cs_inflight s of
        None \<Rightarrow> cs_connected s \<longrightarrow> bytebuffer_contents (cs_buffer s) = []
      | Some n \<Rightarrow> cs_connected s \<and> 0 < n \<and> n \<le> length (bytebuffer_contents (cs_buffer s)))"

lemma client_put_spec:
  assumes "bytebuffer_wf t (cs_buffer s)" "t + length d \<le> bytebuffer_limit"
  shows "\<exists>b. bytebuffer_wf (t + length d) b \<and> bytebuffer_contents b = bytebuffer_contents (cs_buffer s) @ d \<and>
    (client_put d s = Inr (s\<lparr>cs_buffer := b\<rparr>) \<or>
     cs_inflight s \<noteq> None \<and> client_put d s = Inl (Undefined ''async_write from a freed buffer''))"
  using bytebuffer_put_shared_spec [OF assms, of "cs_inflight s"] by (auto simp: client_put_def)

lemma client_start_write_spec:
  assumes "bytebuffer_wf t (cs_buffer s)" "t \<le> bytebuffer_limit"
  shows "client_start_write s =
    Inr (if bytebuffer_contents (cs_buffer s) = [] then s
         else s\<lparr>cs_inflight := Some (length (bytebuffer_contents (cs_buffer s)))\<rparr>)"
  using assms by (simp add: client_start_write_def bytebuffer_readable_iff bytebuffer_readable_bytes_spec)

text \<open>Sending either adds the frame or hits the buffer of an outstanding write.\<close>

lemma client_send_spec:
  assumes wf: "client_wf t s" and room: "t + length (frame type data) \<le> bytebuffer_limit"
  shows "(\<exists>s'. client_send type data s = Inr s' \<and> client_wf (t + length (frame type data)) s' \<and> cs_wire s' = cs_wire s \<and>
      bytebuffer_contents (cs_buffer s') = bytebuffer_contents (cs_buffer s) @ frame type data \<and>
      (cs_connected s \<and> bytebuffer_contents (cs_buffer s) = [] \<longrightarrow> cs_inflight s' = Some (length (frame type data)))) \<or>
    cs_inflight s \<noteq> None \<and> client_send type data s = Inl (Undefined ''async_write from a freed buffer'')"
proof -
  let ?m = "transport_meta type (length data)" and ?c = "bytebuffer_contents (cs_buffer s)"
  have t: "bytebuffer_wf t (cs_buffer s)" "t \<le> bytebuffer_limit" "t + 5 + length data \<le> bytebuffer_limit"
    "t + length (frame type data) = t + 5 + length data"
    using wf room by (simp_all add: client_wf_def frame_def)
  obtain b1 where b1: "bytebuffer_wf (t + 5) b1" "bytebuffer_contents b1 = ?c @ ?m"
    and p1: "client_put ?m s = Inr (s\<lparr>cs_buffer := b1\<rparr>) \<or>
      cs_inflight s \<noteq> None \<and> client_put ?m s = Inl (Undefined ''async_write from a freed buffer'')"
    using client_put_spec [OF t(1), of ?m] t(3) by auto
  let ?s1 = "s\<lparr>cs_buffer := b1\<rparr>"
  obtain b2 where b2: "bytebuffer_wf (t + 5 + length data) b2" "bytebuffer_contents b2 = ?c @ frame type data"
    and p2: "client_put data ?s1 = Inr (s\<lparr>cs_buffer := b2\<rparr>) \<or>
      cs_inflight s \<noteq> None \<and> client_put data ?s1 = Inl (Undefined ''async_write from a freed buffer'')"
    using client_put_spec [of "t + 5" ?s1 data] b1 t(3) by (auto simp: frame_def)
  let ?s2 = "s\<lparr>cs_buffer := b2\<rparr>"
  have n: "bytebuffer_readable_bytes (cs_buffer s) = Inr (length ?c)"
    "bytebuffer_readable_bytes b2 = Inr (length ?c + 5 + length data)"
    using bytebuffer_readable_bytes_spec [OF t(1,2)] bytebuffer_readable_bytes_spec [OF b2(1) t(3)] b2(2) by (simp_all add: frame_def)
  have w: "client_start_write ?s2 = Inr (?s2\<lparr>cs_inflight := Some (length (?c @ frame type data))\<rparr>)"
    using client_start_write_spec [of _ ?s2, OF _ t(3)] b2 by (simp add: frame_def transport_meta_def)
  have idle: "client_wf (t + length (frame type data)) ?s2" if "\<not> (cs_connected s \<and> ?c = [])"
    using wf b2 that unfolding t(4) by (auto simp: client_wf_def split: option.splits)
  have writing: "client_wf (t + length (frame type data)) (?s2\<lparr>cs_inflight := Some (length (?c @ frame type data))\<rparr>)"
    if "cs_connected s"
    using b2 that unfolding t(4) by (simp add: client_wf_def frame_def)
  define s3 where "s3 = (if cs_connected s \<and> ?c = [] then ?s2\<lparr>cs_inflight := Some (length (?c @ frame type data))\<rparr> else ?s2)"
  have s3: "client_wf (t + length (frame type data)) s3" "cs_wire s3 = cs_wire s" "cs_buffer s3 = b2"
    "cs_connected s \<and> ?c = [] \<longrightarrow> cs_inflight s3 = Some (length (frame type data))"
    using idle writing by (auto simp: s3_def)
  show ?thesis
  proof (cases "client_put ?m s = Inr ?s1 \<and> client_put data ?s1 = Inr ?s2")
    case True
    then have "client_send type data s = Inr s3" using n w by (simp add: client_send_def s3_def)
    then show ?thesis using s3 b2(2) by (intro disjI1 exI [of _ s3]) simp
  next
    case False
    then have "cs_inflight s \<noteq> None \<and> client_send type data s = Inl (Undefined ''async_write from a freed buffer'')"
      using p1 p2 n(1) by (auto simp: client_send_def)
    then show ?thesis ..
  qed
qed

lemma client_on_connect_spec:
  assumes wf: "client_wf t s" and t: "t \<le> bytebuffer_limit" and c: "\<not> cs_connected s"
  shows "\<exists>s'. client_on_connect False s = Inr (Some s') \<and> client_wf t s' \<and> cs_wire s' = cs_wire s \<and> cs_buffer s' = cs_buffer s"
proof -
  have b: "bytebuffer_wf t (cs_buffer s)" "cs_inflight s = None"
    using wf c by (auto simp: client_wf_def split: option.splits)
  let ?s = "s\<lparr>cs_connected := True\<rparr>" and ?c = "bytebuffer_contents (cs_buffer s)"
  have "client_on_connect False s = Inr (Some (if ?c = [] then ?s else ?s\<lparr>cs_inflight := Some (length ?c)\<rparr>))"
    using client_start_write_spec [of t ?s] b t by (simp add: client_on_connect_def bytebuffer_readable_iff)
  then show ?thesis using b by (auto simp: client_wf_def)
qed

lemma client_on_write_spec:
  assumes wf: "client_wf t s" and t: "t \<le> bytebuffer_limit" and n: "cs_inflight s = Some n"
  shows "\<exists>s'. client_on_write False n s = Inr (Some s') \<and> client_wf t s' \<and>
    bytebuffer_contents (cs_buffer s') = drop n (bytebuffer_contents (cs_buffer s)) \<and>
    cs_wire s' @ bytebuffer_contents (cs_buffer s') = cs_wire s @ bytebuffer_contents (cs_buffer s)"
proof -
  let ?c = "bytebuffer_contents (cs_buffer s)"
  have b: "bytebuffer_wf t (cs_buffer s)" "cs_connected s" "0 < n" "n \<le> length ?c"
    using wf n by (auto simp: client_wf_def)
  obtain b' where b': "bytebuffer_read_bytes n (cs_buffer s) = Inr b'" "bytebuffer_wf t b'" "bytebuffer_contents b' = drop n ?c"
    using bq.get_ok [OF b(1) t b(4)] by blast
  let ?s = "s\<lparr>cs_buffer := b', cs_inflight := None, cs_wire := cs_wire s @ take n ?c\<rparr>"
  have "client_on_write False n s = bindr (client_start_write ?s) (\<lambda>s. Inr (Some s))"
    using b b' bytebuffer_slice_spec [OF b(1) t] by (simp add: client_on_write_def)
  then show ?thesis using client_start_write_spec [of t ?s] b' b t by (auto simp: client_wf_def)
qed

lemma client_stream:
  assumes "client_reach fs s" "length (frames_bytes fs) \<le> bytebuffer_limit"
  shows "client_wf (length (frames_bytes fs)) s \<and> cs_wire s @ bytebuffer_contents (cs_buffer s) = frames_bytes fs"
  using assms
proof (induction rule: client_reach.induct)
  case New
  then show ?case using new_byte_buffer_wf by (simp add: new_client_session_def client_wf_def frames_bytes_def)
next
  case (Send fs s type data s')
  have "frames_bytes (fs @ [(type, data)]) = frames_bytes fs @ frame type data" by (simp add: frames_bytes_def)
  with Send client_send_spec [of "length (frames_bytes fs)" s type data] show ?case by auto
next
  case (Connect fs s s')
  then show ?case using client_on_connect_spec [of "length (frames_bytes fs)" s] by auto
next
  case (Write fs s n s')
  then show ?case using client_on_write_spec [of "length (frames_bytes fs)" s n] by auto
qed

end
