(* ===== verification/Demo_Codec.thy ===== *)
theory Demo_Codec
  imports Server_Restart Redis_Spec Transport_Stream
begin

text \<open>
  A simple serialization that satisfies what is assumed of the libraries, for evaluating the model
  on concrete inputs: every number in unary, ended by a zero byte. The checksum is constant and
  the extension of a file name starts at its last dot.
\<close>

section \<open>Lists of numbers\<close>

definition nats_pack :: "nat list \<Rightarrow> byte list" where
  "nats_pack ns = concat (map (\<lambda>n. replicate n 1 @ [0]) ns)"

fun nats_of :: "nat \<Rightarrow> byte list \<Rightarrow> nat list" where
  "nats_of k [] = []"
| "nats_of k (b # bs) = (if b = 0 then k # nats_of 0 bs else nats_of (Suc k) bs)"

lemma nats_of_unary: "nats_of k (replicate n 1 @ 0 # bs) = (k + n) # nats_of 0 bs"
  by (induction n arbitrary: k) simp_all

lemma nats_of_pack [simp]: "nats_of 0 (nats_pack ns) = ns"
  by (induction ns) (simp_all add: nats_pack_def nats_of_unary)

lemma nats_pack_Cons [simp]: "nats_pack (n # ns) = replicate n 1 @ 0 # nats_pack ns" "nats_pack [] = []"
  by (simp_all add: nats_pack_def)

lemma length_nats_pack: "length (nats_pack ns) = sum_list ns + length ns"
  by (induction ns) simp_all

lemma sum_nats_pack: "sum_list (map unat (nats_pack ns)) = sum_list ns"
  by (induction ns) (simp_all add: map_replicate_const sum_list_replicate)

definition nats_codec :: "('a \<Rightarrow> nat list) \<Rightarrow> (nat list \<Rightarrow> 'a option) \<Rightarrow> 'a msgpack" where
  "nats_codec f g = \<lparr>mp_pack = \<lambda>x. nats_pack (f x), mp_unpack = \<lambda>bs. g (nats_of 0 bs)\<rparr>"

lemma nats_codec_ok: "(\<And>x. valid x \<Longrightarrow> g (f x) = Some x) \<Longrightarrow> msgpack_ok valid (nats_codec f g)"
  by (simp add: msgpack_ok_def nats_codec_def)

lemma nats_codec_sel [simp]: "mp_pack (nats_codec f g) x = nats_pack (f x)" "mp_unpack (nats_codec f g) bs = g (nats_of 0 bs)"
  by (simp_all add: nats_codec_def)

section \<open>The types that are serialized\<close>

definition entry_nats :: "entry \<Rightarrow> nat list" where
  "entry_nats e = [(case e_type e of EntryNormal \<Rightarrow> 0 | EntryConfChange \<Rightarrow> 1 | EntryInvalid n \<Rightarrow> n), e_term e, e_index e] @
     map unat (e_data e)"

fun entry_of_nats :: "nat list \<Rightarrow> entry option" where
  "entry_of_nats (t # tm # i # d) =
     Some (new_entry\<lparr>e_type := (if t = 0 then EntryNormal else if t = 1 then EntryConfChange else EntryInvalid t),
       e_term := tm, e_index := i, e_data := map word_of_nat d\<rparr>)"
| "entry_of_nats _ = None"

fun hard_state_of_nats :: "nat list \<Rightarrow> hard_state option" where
  "hard_state_of_nats [t, v, c] = Some \<lparr>hs_term = t, hs_vote = v, hs_commit = c\<rparr>"
| "hard_state_of_nats _ = None"

fun wal_snapshot_of_nats :: "nat list \<Rightarrow> wal_snapshot option" where
  "wal_snapshot_of_nats [i, t] = Some \<lparr>ws_index = i, ws_term = t\<rparr>"
| "wal_snapshot_of_nats _ = None"

definition demo_wal_lib :: wal_lib where
  "demo_wal_lib = \<lparr>wl_crc = \<lambda>_. 1, wl_entry = nats_codec entry_nats entry_of_nats,
     wl_state = nats_codec (\<lambda>hs. [hs_term hs, hs_vote hs, hs_commit hs]) hard_state_of_nats,
     wl_snap = nats_codec (\<lambda>s. [ws_index s, ws_term s]) wal_snapshot_of_nats\<rparr>"

lemma entry_of_entry_nats: "entry_fits e \<Longrightarrow> entry_of_nats (entry_nats e) = Some e"
  by (cases e) (auto simp: entry_nats_def entry_fits_def entry_type_fits_def new_entry_def comp_def split: entry_type.splits)

lemma demo_wal_lib_ok: "wal_lib_ok demo_wal_lib"
  unfolding wal_lib_ok_def demo_wal_lib_def
  by (auto intro!: nats_codec_ok simp: entry_of_entry_nats u32_max_def)

fun snapshot_of_nats :: "nat list \<Rightarrow> snapshot_fields option" where
  "snapshot_of_nats (i # t # d) = Some (map word_of_nat d, i, t)"
| "snapshot_of_nats _ = None"

definition demo_snap_lib :: snap_lib where
  "demo_snap_lib = \<lparr>sl_crc = \<lambda>_. 1, sl_snapshot = nats_codec (\<lambda>(d, i, t). i # t # map unat d) snapshot_of_nats,
     sl_residue = \<lambda>_ s. s\<rparr>"

lemma demo_snap_lib_ok: "snap_lib_ok demo_snap_lib"
  unfolding snap_lib_ok_def demo_snap_lib_def
  by (auto intro!: nats_codec_ok simp: comp_def u32_max_def)

text \<open>Strings are written with their lengths in front.\<close>

definition strs_nats :: "string list \<Rightarrow> nat list" where
  "strs_nats ss = concat (map (\<lambda>s. length s # map of_char s) ss)"

function strs_of_nats :: "nat list \<Rightarrow> string list" where
  "strs_of_nats [] = []"
| "strs_of_nats (n # ns) = map char_of (take n ns) # strs_of_nats (drop n ns)"
  by pat_completeness auto
termination by (relation "measure length") auto

lemma strs_of_strs_nats [simp]: "strs_of_nats (strs_nats ss) = ss"
  by (induction ss) (simp_all add: strs_nats_def comp_def)

fun commit_of_nats :: "nat list \<Rightarrow> raft_commit option" where
  "commit_of_nats (n # i # t # ss) = Some \<lparr>rc_node_id = n, rc_commit_id = i, rc_type = t, rc_strs = strs_of_nats ss\<rparr>"
| "commit_of_nats _ = None"

definition demo_store_lib :: store_lib where
  "demo_store_lib = \<lparr>st_commit = nats_codec (\<lambda>c. rc_node_id c # rc_commit_id c # rc_type c # strs_nats (rc_strs c)) commit_of_nats,
     st_kv = \<lparr>mp_pack = \<lambda>kv. [], mp_unpack = \<lambda>bs. if bs = [] then Some Map.empty else None\<rparr>, st_parses = \<lambda>_. True\<rparr>"

lemma demo_commit_unpack [simp]:
  "mp_unpack (st_commit demo_store_lib) (mp_pack (st_commit demo_store_lib) c) = Some c"
  by (simp add: demo_store_lib_def nats_of_unary)

definition demo_lib :: server_lib where
  "demo_lib = \<lparr>vl_wal = demo_wal_lib, vl_snap = demo_snap_lib, vl_store = demo_store_lib,
     vl_conf = \<lparr>mp_pack = \<lambda>_. [], mp_unpack = \<lambda>_. None\<rparr>\<rparr>"

lemma demo_lib_sel [simp]: "vl_wal demo_lib = demo_wal_lib" "vl_snap demo_lib = demo_snap_lib" "vl_store demo_lib = demo_store_lib"
  by (simp_all add: demo_lib_def)

section \<open>File names\<close>

definition demo_ext :: "string \<Rightarrow> string" where
  "demo_ext name = (if CHR ''.'' \<in> set name then CHR ''.'' # rev (takeWhile (\<lambda>c. c \<noteq> CHR ''.'') (rev name)) else [])"

lemma demo_ext_ok: "ext_ok demo_ext"
proof -
  have "takeWhile (\<lambda>c. c \<noteq> CHR ''.'') (rev (stem @ ''.'' @ e)) = rev e" if "CHR ''.'' \<notin> set e" for stem e :: string
    using that by (subst rev_append, subst rev_append, subst append_assoc, subst takeWhile_append2) auto
  then show ?thesis by (auto simp: ext_ok_def demo_ext_def)
qed

end
