(* ===== verification/Client_Properties.thy ===== *)
theory Client_Properties
  imports Demo_Codec
begin

text \<open>
  Properties of the parts that talk to other nodes and to clients: buffers, transport, pattern
  matching, the store and the sessions.
\<close>

section \<open>Buffers and transport\<close>

text \<open>C19.
  The byte buffer refines a list of bytes: for every sequence of writes and reads of at most
  \<open>2 ^ 30\<close> bytes in all, running it on a new buffer reads the same bytes and leaves the same bytes as
  on the list, and it fails exactly when a read asks for more than there is.\<close>

theorem bytebuffer_refines_fifo:
  assumes "length (byte_queue.written ops) \<le> bytebuffer_limit"
  shows "case fifo_run ops [] [] of
      Some (q, out) \<Rightarrow> \<exists>b. byte_queue.run bytebuffer_contents bytebuffer_put bytebuffer_read_bytes ops new_byte_buffer [] = Inr (b, out) \<and>
        bytebuffer_contents b = q
    | None \<Rightarrow> \<exists>e. byte_queue.run bytebuffer_contents bytebuffer_put bytebuffer_read_bytes ops new_byte_buffer [] = Inl e"
  using bq.run_refines [OF new_byte_buffer_wf(1), of ops "[]"] assms by (simp add: new_byte_buffer_wf(2))

theorem bytebuffer_refines_fifo_witness:
  "\<exists>b. byte_queue.run bytebuffer_contents bytebuffer_put bytebuffer_read_bytes [Inl [1, 2, 3], Inr 2, Inl [4]] new_byte_buffer [] =
      Inr (b, [1, 2]) \<and> bytebuffer_contents b = [3, 4]"
  using bytebuffer_refines_fifo [of "[Inl [1, 2, 3], Inr 2, Inl [4]]"] by (simp add: bytebuffer_limit_def)


text \<open>A codec for messages of which only the type, the addressee and the term matter.\<close>

definition demo_message :: message where
  "demo_message = new_message\<lparr>m_type := MsgApp, m_to := 2, m_term := 5\<rparr>"

definition demo_message_codec :: "message msgpack" where
  "demo_message_codec = nats_codec (\<lambda>m. [m_to m, m_term m])
     (\<lambda>ns. case ns of [t, tm] \<Rightarrow> Some (new_message\<lparr>m_type := MsgApp, m_to := t, m_term := tm\<rparr>) | _ \<Rightarrow> None)"


section \<open>Pattern matching\<close>




section \<open>The store\<close>



text \<open>C38.
  Deleting keys: unlike a set, the client is answered with success as soon as the raft node has
  taken the proposal, while the keys can still be read; when the entry is committed the keys
  disappear and nobody is answered.\<close>

theorem del_answered_before_commit:
  assumes req: "store_del L keys cb s = (i, data, s1)"
    and codec: "\<And>c. mp_unpack (st_commit L) (mp_pack (st_commit L) c) = Some c" and node: "rs_node_id s \<le> u32_max"
  shows "\<exists>s2. store_del_proposed i StatusOK s1 = ([(cb, StatusOK)], s2) \<and> rs_kv s2 = rs_kv s \<and>
    (\<exists>s3. store_read_commit L data s2 = Inr ([], s3) \<and> (\<forall>k. store_get k s3 = (if k \<in> set keys then None else store_get k s)))"
  using req node
  by (auto simp: store_del_def store_request_def store_read_commit_def store_del_proposed_def store_answer_def codec
      kCommitSet_def kCommitDel_def Let_def store_get_def kv_erase_apply)

theorem del_answered_before_commit_witness:
  "\<exists>i data s1 s2. store_del demo_store_lib [''a''] (7 :: nat)
      \<lparr>rs_node_id = 1, rs_kv = [''a'' \<mapsto> ''b''], rs_next_request_id = 0, rs_pending = Map.empty\<rparr> = (i, data, s1) \<and>
    store_del_proposed i StatusOK s1 = ([(7, StatusOK)], s2) \<and> store_get ''a'' s2 = Some ''b''"
proof -
  let ?s = "\<lparr>rs_node_id = 1, rs_kv = [''a'' \<mapsto> ''b''], rs_next_request_id = 0, rs_pending = Map.empty\<rparr> :: nat redis_store"
  obtain i data s1 where r: "store_del demo_store_lib [''a''] 7 ?s = (i, data, s1)" by (metis prod_cases3)
  show ?thesis
    using del_answered_before_commit [OF r demo_commit_unpack] r by (auto simp: u32_max_def store_get_def)
qed

section \<open>Sessions\<close>





text \<open>C39.
  Bytes after the last line feed that was received are lost: a read whose data ends with an
  incomplete line gives the parser, and the requests it finds, exactly what the data without that
  line would; and two reads are started at once instead of one.\<close>

theorem incomplete_line_is_dropped:
  assumes "CHR 0x0A \<notin> set tail" "tail \<noteq> []" "bytes = [] \<or> last bytes = CHR 0x0A"
    "handle_read R bytes r = (False, r1, replies, starts)"
  shows "starts = 1 \<and> handle_read R (bytes @ tail) r = (False, r1, replies, 2)"
  using handle_read_from_tail [OF assms(1,3), of R r "[]"] assms(2,4)
  by (auto simp: handle_read_def Let_def split: prod.splits)

theorem incomplete_line_is_dropped_witness:
  "handle_read \<lparr>rr_feed = \<lambda>r s. Some (r @ s), rr_get = \<lambda>r. Some (r, None)\<rparr> ([CHR ''a'', CHR 0x0A] @ ''bc'') [] =
    (False, [CHR ''a'', CHR 0x0A], [], 2)"
proof -
  have "handle_read \<lparr>rr_feed = \<lambda>r s. Some (r @ s), rr_get = \<lambda>r. Some (r, None)\<rparr> [CHR ''a'', CHR 0x0A] [] =
    (False, [CHR ''a'', CHR 0x0A], [], 1)"
    by (simp add: handle_read_def handle_read_from.simps)
  from incomplete_line_is_dropped [OF _ _ _ this, of "''bc''"] show ?thesis by simp
qed

text \<open>C40.
  An unknown command whose name has more than 231 characters: the session passes the length of the
  whole text to \<open>send_reply\<close> although its buffer holds 256 bytes, and reads past the buffer; with
  exactly 231 the last character is replaced by NUL, and shorter names are answered in full.\<close>

theorem unknown_command_reads_past_buffer:
  assumes "command_table kv order c = None"
  shows "on_redis_reply kv order (ReplyArray (ReplyString c # args)) =
    (if length (c_str c) \<le> 230 then Inr (Reply (''-ERR unknown command `'' @ c_str c @ ''`'' @ CRLF))
     else if length (c_str c) = 231 then Inr (Reply (''-ERR unknown command `'' @ c_str c @ ''`'' @ [CHR 0x0D, NUL]))
     else Inl (Undefined ''send_reply reads past the buffer''))"
proof -
  have "on_redis_reply kv order (ReplyArray (ReplyString c # args)) =
      bindr (snprintf_reply (shared_unknown_command (c_str c))) (\<lambda>s. Inr (Reply s))"
    using assms by (simp add: on_redis_reply_def)
  then show ?thesis unfolding unknown_command_reply by (simp add: shared_unknown_command_def CRLF_def)
qed

theorem unknown_command_reads_past_buffer_witness:
  "on_redis_reply Map.empty [] (ReplyArray [ReplyString (replicate 300 CHR ''x'')]) = Inl (Undefined ''send_reply reads past the buffer'')"
proof -
  have "replicate 300 CHR ''x'' \<noteq> c" if "length c < 300" for c using that by auto
  then have "command_table Map.empty [] (replicate 300 CHR ''x'') = None" by (simp add: command_table_def)
  moreover have "c_str (replicate 300 CHR ''x'') = replicate 300 CHR ''x''" by (rule c_str_id) (simp add: NUL_def)
  ultimately show ?thesis using unknown_command_reads_past_buffer [of Map.empty "[]" "replicate 300 CHR ''x''" "[]"] by simp
qed

end
