(* ===== verification/Disk_Properties.thy ===== *)
theory Disk_Properties
  imports Demo_Codec
begin

text \<open>Properties of what is kept on disk: the write-ahead log and the snapshot files.\<close>

section \<open>The write-ahead log\<close>

text \<open>
  Creating the log, opening it and reading it for the first time, and saving batches of hard states
  and entries.
\<close>

definition wal_session ::
  "wal_lib \<Rightarrow> (string \<Rightarrow> string) \<Rightarrow> (byte list \<Rightarrow> int) \<Rightarrow> batch list \<Rightarrow> wal res" where
  "wal_session L ext tell bs =
     bindr (wal_create L tell True []) (\<lambda>dir.
     bindr (bindr (wal_open ext tell True dir \<lparr>ws_index = 0, ws_term = 0\<rparr>) (wal_read_all L new_hard_state [])) (\<lambda>(_, _, _, w).
     for_each (wal_save_batch L) bs w))"

lemma wal_session_bytes:
  assumes L: "wal_lib_ok L" "ext_ok ext" "\<forall>b. tell b \<noteq> - 1" and r: "rec_ok L first_snap"
  shows "\<exists>w f. wal_session L ext tell bs = Inr w \<and> w_files w = [f] \<and> wf_name f = first_name \<and>
    file_bytes f = concat (map (rec_bytes L) (first_snap # batch_recs bs))"
proof -
  let ?start = "\<lparr>ws_index = 0, ws_term = 0\<rparr>" and ?b = "rec_bytes L first_snap"
  have create: "wal_create L tell True [] = Inr [(first_name, ?b)]"
    using wal_create_spec [of tell L] L(3) by (simp add: first_snap_def)
  have one: "\<forall>x \<in> set [first_snap]. rec_ok L x \<and> rec_agrees ?start x" using r by (simp add: first_snap_def)
  obtain n w f where n: "n \<le> length [first_snap]" "n < length [first_snap] \<longrightarrow> length ?b < length (concat (map (rec_bytes L) (take (Suc n) [first_snap])))"
    and w: "bindr (wal_open ext tell True [(first_name, take (length ?b) (concat (map (rec_bytes L) [first_snap])))] ?start)
        (wal_read_all L new_hard_state []) =
      Inr (StatusOK, replay_hs (take n [first_snap]) new_hard_state, replay_ents (ws_index ?start) (take n [first_snap]) [], w)"
    "w_files w = [f]" "wf_name f = first_name" "wf_io_ok f" "wf_disk f = concat (map (rec_bytes L) (take n [first_snap]))" "wf_buffer f = []"
    using wal_reopen [OF L one, of "\<lparr>ws_index = 0, ws_term = 0\<rparr>" "[]" "length ?b"] by (auto simp: first_snap_def)
  have "n = 1" using n by (cases n) auto
  then have fb: "file_bytes f = ?b" using w(5,6) by (simp add: file_bytes_def)
  obtain w' f' where w': "for_each (wal_save_batch L) bs w = Inr w'" "w_files w' = [f']" "wf_name f' = wf_name f"
    "file_bytes f' = file_bytes f @ concat (map (rec_bytes L) (batch_recs bs))"
    using wal_save_batches [of w "[]" f L bs] w(2,4) by auto
  have "wal_session L ext tell bs = Inr w'" using create w(1) w'(1) by (simp add: wal_session_def del: bindr_assoc)
  then show ?thesis using w' w(3) fb by simp
qed

text \<open>C9.
  Crash recovery: however many batches of entries and hard states were saved, and at whatever byte
  the file ends after a crash (the first record being complete), the restart succeeds. Its storage
  holds exactly the log and the hard state that the complete records describe: the batches saved
  before the crash, the last of them possibly cut short.\<close>

theorem wal_crash_recovery:
  assumes L: "wal_lib_ok (vl_wal L)" "ext_ok ext" "\<forall>b. tell b \<noteq> - 1"
    and bs: "batches_ok bs empty_log" "\<forall>r \<in> set (first_snap # batch_recs bs). rec_ok (vl_wal L) r"
    and k: "length (rec_bytes (vl_wal L) first_snap) \<le> k"
  shows "\<exists>w f n bs' rv. wal_session (vl_wal L) ext tell bs = Inr w \<and> w_files w = [f] \<and>
    n \<le> length (first_snap # batch_recs bs) \<and>
    length (concat (map (rec_bytes (vl_wal L)) (take n (first_snap # batch_recs bs)))) \<le> k \<and>
    (n < length (first_snap # batch_recs bs) \<longrightarrow>
       k < length (concat (map (rec_bytes (vl_wal L)) (take (Suc n) (first_snap # batch_recs bs))))) \<and>
    take n (first_snap # batch_recs bs) = first_snap # batch_recs bs' \<and> batches_ok bs' empty_log \<and>
    replay_WAL L ext tell True \<lparr>dk_wal = Some [(wf_name f, take k (file_bytes f))], dk_snap = []\<rparr> = Inr rv \<and>
    storage_wf (rv_storage rv) \<and> storage_abs (rv_storage rv) = batch_log bs' empty_log \<and>
    ms_hard_state (rv_storage rv) = replay_hs (first_snap # batch_recs bs') new_hard_state"
proof -
  obtain w f where w: "wal_session (vl_wal L) ext tell bs = Inr w" "w_files w = [f]" "wf_name f = first_name"
    "file_bytes f = concat (map (rec_bytes (vl_wal L)) (first_snap # batch_recs bs))"
    using wal_session_bytes [OF L] bs(2) by fastforce
  show ?thesis using replay_after_crash [OF L bs k] unfolding w(3,4) [symmetric] using w(1,2) by metis
qed

definition demo_command :: "nat \<Rightarrow> entry" where
  "demo_command i = new_entry\<lparr>e_term := 1, e_index := i,
     e_data := mp_pack (st_commit demo_store_lib) \<lparr>rc_node_id = 1, rc_commit_id = i, rc_type = kCommitSet, rc_strs = [''a'', ''b'']\<rparr>\<rparr>"

definition demo_batches :: "batch list" where
  "demo_batches = [(\<lparr>hs_term = 1, hs_vote = 1, hs_commit = 0\<rparr>, [demo_command 1, demo_command 2]),
     (\<lparr>hs_term = 1, hs_vote = 1, hs_commit = 2\<rparr>, [])]"

lemma demo_batches_ok: "batches_ok demo_batches empty_log"
  by (simp add: demo_batches_def demo_command_def new_entry_def alog_last_def u64_max_def)

lemma demo_recs_ok: "r \<in> set (first_snap # batch_recs demo_batches) \<Longrightarrow> rec_ok (vl_wal demo_lib) r"
  by (auto simp: demo_batches_def batch_recs_def save_recs_def first_snap_def rec_ok_def demo_command_def demo_wal_lib_def
      demo_store_lib_def length_nats_pack sum_nats_pack entry_nats_def strs_nats_def MAX_WAL_RECORD_LEN_def entry_fits_def entry_type_fits_def
      new_entry_def hard_state_fits_def wal_snapshot_fits_def u64_max_def hard_state_is_empty_def kCommitSet_def
      simp del: nats_pack_Cons)

theorem wal_crash_recovery_witness:
  "\<exists>w f n bs' rv. wal_session demo_wal_lib demo_ext (\<lambda>b. 0) demo_batches = Inr w \<and> w_files w = [f] \<and>
    replay_WAL demo_lib demo_ext (\<lambda>b. 0) True \<lparr>dk_wal = Some [(wf_name f, take 100 (file_bytes f))], dk_snap = []\<rparr> = Inr rv \<and>
    storage_abs (rv_storage rv) = batch_log bs' empty_log \<and> take n (first_snap # batch_recs demo_batches) = first_snap # batch_recs bs'"
proof -
  have k: "length (rec_bytes (vl_wal demo_lib) first_snap) \<le> 100"
    by (simp add: rec_bytes_def first_snap_def demo_wal_lib_def)
  have L: "wal_lib_ok (vl_wal demo_lib)" "\<forall>b :: byte list. (0 :: int) \<noteq> - 1" using demo_wal_lib_ok by simp_all
  show ?thesis
    using wal_crash_recovery [OF L(1) demo_ext_ok L(2) demo_batches_ok _ k] demo_recs_ok unfolding demo_lib_sel by blast
qed

text \<open>\<open>WAL::save\<close> on an open log whose files can be written: it succeeds, adds to the last file
  exactly the records of the entries followed by one for the hard state unless that is empty, and
  everything buffered is written out when there are entries or the term or vote changed.\<close>

theorem wal_save_appends_records:
  assumes "w_files w = fs @ [f]" "wf_io_ok f"
  shows "\<exists>w' f'. wal_save L hs ents w = Inr (StatusOK, w') \<and> w_files w' = fs @ [f'] \<and> wf_io_ok f' \<and>
    wf_disk f' @ wf_buffer f' = wf_disk f @ wf_buffer f @ concat (map (rec_bytes L) (save_recs hs ents)) \<and>
    (ents \<noteq> [] \<or> \<not> hard_state_is_empty hs \<and> (hs_term hs \<noteq> hs_term (w_state w) \<or> hs_vote hs \<noteq> hs_vote (w_state w)) \<longrightarrow>
       wf_buffer f' = []) \<and>
    w_state w' = (if hard_state_is_empty hs then w_state w else hs)"
proof -
  obtain w' f' where "wal_save L hs ents w = Inr (StatusOK, w')" "w_files w' = fs @ [f']" "wf_io_ok f'"
    "file_bytes f' = file_bytes f @ concat (map (rec_bytes L) (save_recs hs ents))"
    "w_state w' = (if hard_state_is_empty hs then w_state w else hs)"
    "if hard_state_is_empty hs \<and> ents = [] then f' = f else is_must_sync hs (w_state w) (length ents) \<longrightarrow> wf_buffer f' = []"
    using wal_save_spec [OF assms, of L hs ents] by blast
  then show ?thesis by (auto simp: file_bytes_def is_must_sync_def split: if_splits)
qed

theorem wal_save_appends_records_witness:
  "\<exists>w' f'. wal_save demo_wal_lib new_hard_state [demo_command 1]
      \<lparr>w_state = new_hard_state, w_start = \<lparr>ws_index = 0, ws_term = 0\<rparr>, w_enti = 0,
       w_files = [\<lparr>wf_name = first_name, wf_seq = 0, wf_buffer = [], wf_disk = [], wf_size = 0, wf_io_ok = True\<rparr>]\<rparr> = Inr (StatusOK, w') \<and>
    w_files w' = [f'] \<and> wf_disk f' = rec_bytes demo_wal_lib (RecEntry (demo_command 1)) \<and> wf_buffer f' = []"
  using wal_save_appends_records [of "\<lparr>w_state = new_hard_state, w_start = \<lparr>ws_index = 0, ws_term = 0\<rparr>, w_enti = 0,
       w_files = [\<lparr>wf_name = first_name, wf_seq = 0, wf_buffer = [], wf_disk = [], wf_size = 0, wf_io_ok = True\<rparr>]\<rparr>"
     "[]" "\<lparr>wf_name = first_name, wf_seq = 0, wf_buffer = [], wf_disk = [], wf_size = 0, wf_io_ok = True\<rparr>"
     demo_wal_lib new_hard_state "[demo_command 1]"]
  by (auto simp: save_recs_def new_hard_state_def hard_state_is_empty_def)

text \<open>C28.
  A damaged record: scanning a file of correct records followed by a record whose stored checksum
  is not zero and does not match its data applies exactly the correct records, and cuts the file
  at the beginning of the damaged one, whatever follows.\<close>

theorem wal_damaged_record_cut:
  assumes L: "wal_lib_ok L" and rs: "\<forall>r \<in> set rs. rec_ok L r \<and> rec_agrees start r"
    and h: "wr_crc h \<le> u32_max" "wr_type h \<noteq> wal_InvalidType" "WAL_Record_len h = length d"
    and bad: "wr_crc h \<noteq> 0" "wl_crc L d \<noteq> wr_crc h" and io: "wf_io_ok (sc_file s)"
    and disk: "wf_disk (sc_file s) = concat (map (rec_bytes L) rs) @ wal_record_bytes h @ d @ rest"
  shows "\<exists>s'. wal_scan_from L start (wf_disk (sc_file s)) 0 s = Inr s' \<and>
    sc_hs s' = replay_hs rs (sc_hs s) \<and> sc_ents s' = replay_ents (ws_index start) rs (sc_ents s) \<and>
    wf_disk (sc_file s') = concat (map (rec_bytes L) rs)"
proof -
  let ?c = "concat (map (rec_bytes L) rs)" and ?tail = "wal_record_bytes h @ d @ rest"
  have "wal_scan_from L start (?c @ ?tail) 0 s = wal_scan_from L start (?c @ ?tail) (length ?c) (fold (rec_apply start) rs s)"
    using wal_scan_records [OF L rs, of "[]" ?tail s] by simp
  also have "\<dots> = wal_scan_truncate (length ?c) (fold (rec_apply start) rs s)"
    by (rule wal_scan_damaged [OF h bad])
  finally show ?thesis using io fold_rec_apply [of start rs s]
    by (simp add: disk wal_scan_truncate_def wal_file_truncate_def)
qed

theorem wal_damaged_record_cut_witness:
  "\<exists>s'. wal_scan_from demo_wal_lib \<lparr>ws_index = 0, ws_term = 0\<rparr>
      (rec_bytes demo_wal_lib first_snap @ wal_record_bytes \<lparr>wr_type = 1, wr_len0 = 1, wr_len1 = 0, wr_len2 = 0, wr_crc = 2\<rparr> @ [7, 8, 9]) 0
      \<lparr>sc_match = False, sc_hs = new_hard_state, sc_ents = [], sc_enti = 0,
       sc_file = \<lparr>wf_name = first_name, wf_seq = 0, wf_buffer = [],
         wf_disk = rec_bytes demo_wal_lib first_snap @ wal_record_bytes \<lparr>wr_type = 1, wr_len0 = 1, wr_len1 = 0, wr_len2 = 0, wr_crc = 2\<rparr> @ [7, 8, 9],
         wf_size = 0, wf_io_ok = True\<rparr>\<rparr> = Inr s' \<and>
    sc_hs s' = new_hard_state \<and> wf_disk (sc_file s') = rec_bytes demo_wal_lib first_snap"
proof -
  let ?h = "\<lparr>wr_type = 1, wr_len0 = 1, wr_len1 = 0, wr_len2 = 0, wr_crc = 2\<rparr>"
  let ?f = "\<lparr>wf_name = first_name, wf_seq = 0, wf_buffer = [],
    wf_disk = rec_bytes demo_wal_lib first_snap @ wal_record_bytes ?h @ [7, 8, 9], wf_size = 0, wf_io_ok = True\<rparr>"
  have "\<forall>r \<in> set [first_snap]. rec_ok demo_wal_lib r \<and> rec_agrees \<lparr>ws_index = 0, ws_term = 0\<rparr> r"
    using demo_recs_ok [of first_snap] by (simp add: first_snap_def)
  moreover have crc: "wl_crc demo_wal_lib d = 1" for d by (simp add: demo_wal_lib_def)
  moreover have "WAL_Record_len ?h = length [7 :: byte]" by (simp add: WAL_Record_len_def)
  ultimately show ?thesis
    using wal_damaged_record_cut [of demo_wal_lib "[first_snap]" "\<lparr>ws_index = 0, ws_term = 0\<rparr>" ?h "[7]"
        "\<lparr>sc_match = False, sc_hs = new_hard_state, sc_ents = [], sc_enti = 0, sc_file = ?f\<rparr>" "[8, 9]"] demo_wal_lib_ok
      crc by (auto simp: u32_max_def wal_InvalidType_def replay_hs_def first_snap_def)
qed

text \<open>C29.
  Names of log files: parsing a name gives back the sequence number and the index it was made
  from, the order of names is the order of sequence numbers and then of indices, and of several
  names \<open>search_index\<close> finds the last one whose index is not above the index looked for.\<close>

theorem wal_names_parse_and_order:
  assumes ext: "ext_ok ext" and b: "s \<le> u64_max" "i \<le> u64_max" "s' \<le> u64_max" "i' \<le> u64_max" and ps: "u64_pairs ps" "ps \<noteq> []"
  shows "parse_wal_name ext (wal_name s i) = (True, s, i) \<and>
    (wal_name s i < wal_name s' i' \<longleftrightarrow> s < s' \<or> s = s' \<and> i < i') \<and>
    (wal_name s i = wal_name s' i' \<longleftrightarrow> s = s' \<and> i = i') \<and>
    search_index ext (wal_names ps) index =
      Inr (if \<exists>k < length ps. snd (ps ! k) \<le> index then (True, GREATEST k. k < length ps \<and> snd (ps ! k) \<le> index)
           else (False, u64_max))"
proof (intro conjI)
  show "search_index ext (wal_names ps) index =
      Inr (if \<exists>k < length ps. snd (ps ! k) \<le> index then (True, GREATEST k. k < length ps \<and> snd (ps ! k) \<le> index)
           else (False, u64_max))"
    using search_index_from_spec [OF ext ps(1), of "length ps" index] ps(2)
    by (simp add: search_index_def wal_names_def)
  show "parse_wal_name ext (wal_name s i) = (True, s, i)" by (rule parse_wal_name_spec [OF ext b(1,2)])
qed (use b in \<open>simp_all add: wal_name_two_part two_part_less two_part_inject\<close>)

theorem wal_names_parse_and_order_witness:
  "parse_wal_name demo_ext (wal_name 1 100) = (True, 1, 100) \<and> wal_name 1 100 < wal_name 2 20 \<and>
   search_index demo_ext (wal_names [(0, 0), (1, 100)]) 99 = Inr (True, 0)"
proof -
  have "(GREATEST k. k < length [(0, 0), (1, 100)] \<and> snd ([(0 :: nat, 0 :: nat), (1, 100)] ! k) \<le> 99) = 0"
    by (rule Greatest_equality) (auto simp: less_Suc_eq)
  then show ?thesis
    using wal_names_parse_and_order [OF demo_ext_ok, of 1 100 2 20 "[(0, 0), (1, 100)]" 99]
    by (auto simp: u64_max_def u64_pairs_def)
qed

section \<open>Snapshot files\<close>

text \<open>A directory that holds snapshot files only.\<close>

definition snap_files :: "((u64 \<times> u64) \<times> byte list) list \<Rightarrow> snap_dir" where
  "snap_files files = map (\<lambda>((t, i), bytes). (snap_name t i, bytes)) files"

definition snap_key_less :: "u64 \<times> u64 \<Rightarrow> u64 \<times> u64 \<Rightarrow> bool" where
  "snap_key_less a b \<longleftrightarrow> fst a < fst b \<or> fst a = fst b \<and> snd a < snd b"

lemma snap_files_bound:
  "u64_pairs (map fst files) \<Longrightarrow> ((t, i), bytes) \<in> set files \<Longrightarrow> t \<le> u64_max \<and> i \<le> u64_max"
  by (fastforce simp: u64_pairs_def)

lemma snap_files_distinct:
  assumes "u64_pairs (map fst files)" "distinct (map fst files)"
  shows "distinct (map fst (snap_files files))"
proof -
  have inj: "inj_on (\<lambda>(t, i). snap_name t i) (fst ` set files)"
  proof (rule inj_onI, clarsimp)
    fix t i b t' i' b'
    assume *: "((t, i), b) \<in> set files" "((t', i'), b') \<in> set files" "snap_name t i = snap_name t' i'"
    show "t = t' \<and> i = i'"
      using *(3) snap_files_bound [OF assms(1) *(1)] snap_files_bound [OF assms(1) *(2)]
      by (simp add: snap_name_two_part two_part_inject)
  qed
  have "map fst (snap_files files) = map (\<lambda>(t, i). snap_name t i) (map fst files)" by (auto simp: snap_files_def)
  then show ?thesis using assms(2) inj by (simp add: distinct_map comp_inj_on)
qed

lemma snap_files_lookup:
  assumes "u64_pairs (map fst files)" "distinct (map fst files)" "((t, i), bytes) \<in> set files"
  shows "map_of (snap_files files) (snap_name t i) = Some bytes"
proof -
  have "(snap_name t i, bytes) \<in> set (snap_files files)" using assms(3) by (force simp: snap_files_def)
  then show ?thesis using snap_files_distinct [OF assms(1,2)] by simp
qed

lemma snap_files_names:
  assumes ext: "ext_ok ext" and b: "u64_pairs (map fst files)"
  shows "filter (\<lambda>name. ext name = ''.snap'') (map fst (snap_files files)) = map fst (snap_files files)"
    "\<forall>n \<in> set (map fst (snap_files files)). \<forall>m. n \<noteq> m @ ''.broken''"
proof -
  have name: "\<exists>stem. stem \<noteq> [] \<and> n = stem @ ''.'' @ ''snap''" if n: "n \<in> set (map fst (snap_files files))" for n
  proof -
    obtain t i where n: "n = snap_name t i" "t \<le> u64_max" "i \<le> u64_max"
      using n snap_files_bound [OF b] by (fastforce simp: snap_files_def)
    then show ?thesis
      by (intro exI [of _ "hex_fixed 16 t @ ''-'' @ hex_fixed 16 i"]) (simp add: snap_name_two_part two_part_def)
  qed
  have "ext n = ''.snap''" if n: "n \<in> set (map fst (snap_files files))" for n
    using name [OF n] ext [unfolded ext_ok_def, rule_format, of _ "''snap''"] by auto
  then show "filter (\<lambda>name. ext name = ''.snap'') (map fst (snap_files files)) = map fst (snap_files files)"
    by (simp add: filter_id_conv)
  have "stem @ ''.snap'' \<noteq> m @ ''.broken''" for stem m
  proof
    assume "stem @ ''.snap'' = m @ ''.broken''"
    from arg_cong [where f = last, OF this] show False by simp
  qed
  then show "\<forall>n \<in> set (map fst (snap_files files)). \<forall>m. n \<noteq> m @ ''.broken''" using name by force
qed

text \<open>C23.
  Loading a snapshot: of the files in the directory the newest one, by term and then by index,
  that passes the checks is loaded, whatever is in the others; if none passes, the answer is that
  there is no snapshot. Loading never fails in another way.\<close>

theorem snapshot_load_newest:
  assumes L: "snap_lib_ok L" "ext_ok ext" and files: "u64_pairs (map fst files)" "distinct (map fst files)"
  shows "(\<exists>snap' dir'. snapshotter_load L ext snap (snap_files files) = Inr (NotFound ''snap not found'', snap', dir') \<and>
      (\<forall>(k, bytes) \<in> set files. snap_content L bytes = None)) \<or>
    (\<exists>k bytes x snap' dir'. (k, bytes) \<in> set files \<and> snap_content L bytes = Some x \<and>
      snapshotter_load L ext snap (snap_files files) = Inr (StatusOK, snapshot_convert x snap', dir') \<and>
      (\<forall>(k', bytes') \<in> set files. snap_key_less k k' \<longrightarrow> snap_content L bytes' = None))"
proof -
  let ?dir = "snap_files files" and ?names = "map fst (snap_files files)"
  note nm = snap_files_names [OF L(2) files(1)]
  note look = snap_files_lookup [OF files]
  have names: "get_snap_names ext ?dir = rev (sort ?names)" by (simp only: get_snap_names_def nm(1))
  have key: "\<exists>t i bytes. ((t, i), bytes) \<in> set files \<and> n = snap_name t i \<and> t \<le> u64_max \<and> i \<le> u64_max" if "n \<in> set ?names" for n
    using that snap_files_bound [OF files(1)] by (fastforce simp: snap_files_def)
  have d: "distinct (rev (sort ?names))" using snap_files_distinct [OF files] by simp
  have in_names: "\<forall>n \<in> set (rev (sort ?names)). map_of ?dir n \<noteq> None" using key look by fastforce
  have nb: "\<forall>n \<in> set (rev (sort ?names)). \<forall>m. n \<noteq> m @ ''.broken''" using nm(2) by simp
  note spec = load_from_spec [OF L(1) in_names d nb, of snap, folded names]
  show ?thesis
  proof (cases "find (snap_accepted L ?dir) (rev (sort ?names))")
    case None
    then have none: "\<forall>n \<in> set ?names. \<not> snap_accepted L ?dir n" by (simp add: find_None_iff)
    have "snap_content L bytes = None" if "((t, i), bytes) \<in> set files" for t i bytes
    proof -
      have "snap_name t i \<in> set ?names" using that by (force simp: snap_files_def)
      with none have "\<not> snap_accepted L ?dir (snap_name t i)" by blast
      then show ?thesis using look [OF that] by (simp add: snap_accepted_def del: not_None_eq)
    qed
    then have "\<forall>(k, bytes) \<in> set files. snap_content L bytes = None" by auto
    then show ?thesis using spec None unfolding snapshotter_load_def names by auto
  next
    case (Some n)
    obtain j where j: "j < length (rev (sort ?names))" "snap_accepted L ?dir (rev (sort ?names) ! j)" "n = rev (sort ?names) ! j"
      using Some unfolding find_Some_iff by blast
    have n: "n \<in> set ?names" "snap_accepted L ?dir n" using nth_mem [OF j(1)] j(2,3) by simp_all
    obtain t i bytes where k: "((t, i), bytes) \<in> set files" "n = snap_name t i" "t \<le> u64_max" "i \<le> u64_max" using key [OF n(1)] by blast
    then obtain x where x: "snap_content L bytes = Some x" using n(2) look [OF k(1)] by (auto simp: snap_accepted_def)
    have "snap_content L bytes' = None" if k': "((t', i'), bytes') \<in> set files" "snap_key_less (t, i) (t', i')" for t' i' bytes'
    proof (rule ccontr)
      assume c: "snap_content L bytes' \<noteq> None"
      have b': "t' \<le> u64_max" "i' \<le> u64_max" using snap_files_bound [OF files(1) k'(1)] by simp_all
      have "snap_name t' i' \<in> set ?names" using k'(1) by (force simp: snap_files_def)
      moreover have "snap_accepted L ?dir (snap_name t' i')" using c look [OF k'(1)] by (simp add: snap_accepted_def)
      ultimately have "snap_name t' i' \<le> n" using find_rev_sort_Max [OF Some] by blast
      moreover have "n < snap_name t' i'" using k'(2) k(2-4) b'
        by (simp add: snap_key_less_def snap_name_two_part two_part_less)
      ultimately show False by simp
    qed
    then have newest: "\<forall>(k', bytes') \<in> set files. snap_key_less (t, i) k' \<longrightarrow> snap_content L bytes' = None" by auto
    have "the (snap_content L (the (map_of ?dir n))) = x" using look [OF k(1)] k(2) x by simp
    with spec Some obtain snap' dir' where
      "snapshotter_load L ext snap ?dir = Inr (StatusOK, snapshot_convert x snap', dir')"
      by (auto simp: snapshotter_load_def names)
    with newest k(1) x show ?thesis by blast
  qed
qed

theorem snapshot_load_newest_witness:
  "\<exists>snap' dir'. snapshotter_load demo_snap_lib demo_ext new_snapshot
      (snap_files [((1, 3), le32 6 @ le32 1 @ nats_pack [3, 1]), ((1, 4), [7])]) = Inr (StatusOK, snapshot_convert ([], 3, 1) snap', dir')"
proof -
  let ?good = "le32 6 @ le32 1 @ nats_pack [3, 1]"
  have len: "length (nats_pack [3, 1]) = 6" by (simp add: length_nats_pack)
  have crc: "sl_crc demo_snap_lib d = 1" for d by (simp add: demo_snap_lib_def)
  have un: "mp_unpack (sl_snapshot demo_snap_lib) (nats_pack [3, 1]) = Some ([], 3, 1)"
    by (simp add: demo_snap_lib_def nats_of_unary del: nats_pack_Cons)
  have "snap_file_data demo_snap_lib ?good = Some (nats_pack [3, 1])"
    using len by (simp add: snap_file_data_def u32_max_def crc Let_def del: nats_pack_Cons)
  then have good: "snap_content demo_snap_lib ?good = Some ([], 3, 1)" by (simp only: snap_content_def option.case un)
  have bad: "snap_content demo_snap_lib [7] = None" by (simp add: snap_content_def snap_file_data_def)
  have ok: "u64_pairs (map fst [((1, 3), ?good), ((1, 4), [7])])" "distinct (map fst [((1 :: nat, 3 :: nat), ?good), ((1, 4), [7])])"
    by (simp_all add: u64_pairs_def u64_max_def)
  show ?thesis
    using snapshot_load_newest [OF demo_snap_lib_ok demo_ext_ok ok, of new_snapshot] good bad by fastforce
qed

end
