(* ===== verification/Server_Crash.thy ===== *)
theory Server_Crash
  imports Server_Restart Election
begin

text \<open>
  Crashes. The log file describes the storage and the hard state of the node at every moment, and
  everything but the newest commit indexes has been written out; so a server that crashes, at any
  point of any run, comes back with its log, its term and its vote. Snapshots are left aside here.
\<close>

section \<open>Hard states\<close>

text \<open>Later hard states: the term grows, a vote stays within its term, the commit index grows.\<close>

definition hs_follows :: "hard_state \<Rightarrow> hard_state \<Rightarrow> bool" where
  "hs_follows h h' \<longleftrightarrow>
     hs_term h \<le> hs_term h' \<and> (hs_term h' = hs_term h \<and> hs_vote h \<noteq> 0 \<longrightarrow> hs_vote h' = hs_vote h) \<and>
     hs_commit h \<le> hs_commit h'"

definition same_vote :: "hard_state \<Rightarrow> hard_state \<Rightarrow> bool" where
  "same_vote h h' \<longleftrightarrow> hs_term h = hs_term h' \<and> hs_vote h = hs_vote h'"

interpretation hf: run_relation "\<lambda>_. True" hs_follows
  by unfold_locales (auto simp: hs_follows_def)

lemma same_vote_refl [simp]: "same_vote h h"
  by (simp add: same_vote_def)

lemma raft_advances_hs: "raft_advances r r' \<Longrightarrow> hs_follows (raft_hard_state r) (raft_hard_state r')"
  by (auto simp: raft_advances_def log_advances_def hs_follows_def raft_hard_state_def)

lemma hs_follows_empty:
  assumes "hs_follows h h'" "hard_state_is_empty h'"
  shows "h = h'"
  using assms by (cases h; cases h') (auto simp: hs_follows_def hard_state_is_empty_def)

section \<open>Batches\<close>

lemma batch_log_append: "batch_log (bs @ cs) a = batch_log cs (batch_log bs a)"
  by (induction bs a rule: batch_log.induct) simp_all

lemma batches_ok_append: "batches_ok (bs @ cs) a \<longleftrightarrow> batches_ok bs a \<and> batches_ok cs (batch_log bs a)"
  by (induction bs a rule: batches_ok.induct) auto

lemma batch_recs_append: "batch_recs (bs @ cs) = batch_recs bs @ batch_recs cs"
  by (simp add: batch_recs_def)

lemma replay_hs_append: "replay_hs (rs @ qs) h = replay_hs qs (replay_hs rs h)"
  by (simp add: replay_hs_def)

lemma replay_hs_save: "replay_hs (save_recs hs es) h = (if hard_state_is_empty hs then h else hs)"
proof -
  have "replay_hs (map RecEntry es) h = h" for h by (induction es) (simp_all add: replay_hs_def)
  then show ?thesis by (simp add: save_recs_def replay_hs_append) (simp add: replay_hs_def)
qed

text \<open>Records of hard states alone do not change the log.\<close>

lemma batch_log_states:
  assumes "batches_ok bs empty_log" "batches_ok cs empty_log" "batch_recs bs = batch_recs cs @ late"
    "\<forall>r \<in> set late. \<exists>hs. r = RecState hs"
  shows "batch_log bs empty_log = batch_log cs empty_log"
proof -
  have "replay_ents 0 late x = x" for x
    using assms(4) by (induction late arbitrary: x) (auto simp: replay_ents_def)
  then have "replay_ents 0 (batch_recs bs) [] = replay_ents 0 (batch_recs cs) []"
    by (simp add: assms(3) replay_ents_append)
  then have "map Some (al_ents (batch_log bs empty_log)) = map Some (al_ents (batch_log cs empty_log))"
    using replay_batches [OF assms(1)] replay_batches [OF assms(2)] by simp
  then have "al_ents (batch_log bs empty_log) = al_ents (batch_log cs empty_log)"
    by (metis inj_Some inj_map_eq_map)
  then show ?thesis using batch_log_base [of bs empty_log] batch_log_base [of cs empty_log]
    by (intro alog.equality) simp_all
qed

section \<open>The log file\<close>

abbreviation wal_hs :: "wal_rec list \<Rightarrow> hard_state" where
  "wal_hs rs \<equiv> replay_hs rs new_hard_state"

text \<open>
  The log is one file with the records of the batches \<open>bs\<close>: \<open>rs\<close> written out, \<open>late\<close> still in
  memory. Only hard states with the term and the vote of those written out may be late.
\<close>

definition wal_holds :: "wal_lib \<Rightarrow> wal \<Rightarrow> batch list \<Rightarrow> wal_rec list \<Rightarrow> wal_rec list \<Rightarrow> bool" where
  "wal_holds L w bs rs late \<longleftrightarrow>
     (\<exists>f. w_files w = [f] \<and> wf_name f = first_name \<and> wf_io_ok f \<and>
        wf_disk f = concat (map (rec_bytes L) (first_snap # rs)) \<and> wf_buffer f = concat (map (rec_bytes L) late)) \<and>
     batch_recs bs = rs @ late \<and> (\<forall>r \<in> set (first_snap # batch_recs bs). rec_ok L r) \<and> batches_ok bs empty_log \<and>
     (\<forall>r \<in> set late. \<exists>hs. r = RecState hs) \<and>
     same_vote (wal_hs rs) (wal_hs (batch_recs bs)) \<and> hs_follows (wal_hs rs) (wal_hs (batch_recs bs)) \<and>
     (same_vote (w_state w) (wal_hs (batch_recs bs)) \<or> w_state w = new_hard_state)"

lemma wal_save_holds:
  assumes w: "wal_holds L w bs rs late" and b: "batches_ok [(hs, es)] (batch_log bs empty_log)"
    and r: "\<forall>r \<in> set (save_recs hs es). rec_ok L r"
    and h: "hard_state_is_empty hs \<or> hs_follows (wal_hs (batch_recs bs)) hs"
  shows "\<exists>w' rs' late'. wal_save L hs es w = Inr (StatusOK, w') \<and> wal_holds L w' (bs @ [(hs, es)]) rs' late' \<and>
    hs_follows (wal_hs rs) (wal_hs rs')"
proof -
  let ?D = "wal_hs (batch_recs bs)" and ?bs = "bs @ [(hs, es)]"
  obtain f where f: "w_files w = [] @ [f]" "wf_name f = first_name" "wf_io_ok f"
    "wf_disk f = concat (map (rec_bytes L) (first_snap # rs))" "wf_buffer f = concat (map (rec_bytes L) late)"
    using w by (auto simp: wal_holds_def)
  note q = w [unfolded wal_holds_def]
  obtain w' f' where w': "wal_save L hs es w = Inr (StatusOK, w')" "w_files w' = [f']"
    "file_bytes f' = file_bytes f @ concat (map (rec_bytes L) (save_recs hs es))" "wf_io_ok f'" "wf_name f' = first_name"
    "w_state w' = (if hard_state_is_empty hs then w_state w else hs)"
    "if hard_state_is_empty hs \<and> es = [] then f' = f else is_must_sync hs (w_state w) (length es) \<longrightarrow> wf_buffer f' = []"
    "wf_buffer f' = [] \<or> wf_disk f' = wf_disk f"
    using wal_save_spec [OF f(1,3), of L hs es] f(2) by auto
  have recs: "batch_recs ?bs = rs @ late @ save_recs hs es" using q by (simp add: batch_recs_append) (simp add: batch_recs_def)
  have D': "wal_hs (batch_recs ?bs) = (if hard_state_is_empty hs then ?D else hs)"
    using q by (simp add: recs replay_hs_append replay_hs_save)
  have ok: "(\<forall>r \<in> set (first_snap # batch_recs ?bs). rec_ok L r) \<and> batches_ok ?bs empty_log"
    using q r b by (auto simp: recs batches_ok_append)
  have fol: "hs_follows (wal_hs rs) (wal_hs (batch_recs ?bs))"
    using q h by (auto simp: D' intro: hf.rel_trans)
  have st: "same_vote (w_state w') (wal_hs (batch_recs ?bs)) \<or> w_state w' = new_hard_state"
    using q unfolding w'(6) D' by auto
  show ?thesis
  proof (cases "wf_buffer f' = []")
    case True
    have "wf_disk f' = concat (map (rec_bytes L) (first_snap # batch_recs ?bs))"
      using w'(3) f(4,5) by (simp add: file_bytes_def True recs)
    then have "wal_holds L w' ?bs (batch_recs ?bs) []"
      unfolding wal_holds_def using w'(2,4,5) True ok st by (simp add: hf.rel_refl)
    then show ?thesis using w'(1) fol by blast
  next
    case False
    have same: "wf_disk f' = wf_disk f" using w'(8) False by simp
    have buf: "wf_buffer f' = concat (map (rec_bytes L) (late @ save_recs hs es))"
      using w'(3) f(5) by (simp add: file_bytes_def same)
    have quiet: "es = []" "hard_state_is_empty hs \<or> same_vote hs (w_state w)"
      using w'(7) False by (auto simp: is_must_sync_def same_vote_def split: if_splits)
    have hs: "same_vote (wal_hs rs) (wal_hs (batch_recs ?bs))"
    proof (cases "hard_state_is_empty hs")
      case True
      then show ?thesis using q unfolding D' by auto
    next
      case h0: False
      then have "hs_follows ?D hs" "same_vote hs (w_state w)" using h quiet by simp_all
      then have "same_vote ?D hs"
        using q by (auto simp: same_vote_def hs_follows_def new_hard_state_def)
      then show ?thesis using q h0 by (auto simp: D' same_vote_def)
    qed
    have late: "\<forall>r \<in> set (late @ save_recs hs es). \<exists>hs. r = RecState hs"
      using q quiet(1) by (auto simp: save_recs_def split: if_splits)
    have "wal_holds L w' ?bs rs (late @ save_recs hs es)"
      unfolding wal_holds_def using w'(2,4,5) same f(4) buf recs ok late hs fol st by simp
    then show ?thesis using w'(1) hf.rel_refl by blast
  qed
qed

text \<open>A restart with what was written out.\<close>

definition libs_ok :: "server_lib \<Rightarrow> (string \<Rightarrow> string) \<Rightarrow> (byte list \<Rightarrow> int) \<Rightarrow> bool" where
  "libs_ok L ext tell \<longleftrightarrow>
     wal_lib_ok (vl_wal L) \<and> ext_ok ext \<and> (\<forall>b. tell b \<noteq> - 1) \<and> rec_ok (vl_wal L) first_snap"

definition wal_disk :: "wal \<Rightarrow> disk" where
  "wal_disk w = \<lparr>dk_wal = Some (map (\<lambda>f. (wf_name f, wf_disk f)) (w_files w)), dk_snap = []\<rparr>"

lemma replay_WAL_no_snapshot:
  assumes "replay_WAL L ext tell io \<lparr>dk_wal = d, dk_snap = []\<rparr> = Inr rv"
  shows "ms_snapshot (rv_storage rv) = new_snapshot" "rv_snap_data rv = []"
  by (rule replay_WAL_cases [OF assms],
    auto simp: snapshotter_load_def get_snap_names_def new_memory_storage_def new_snapshot_def)+

lemma wal_holds_recovers:
  assumes L: "libs_ok L ext tell" and w: "wal_holds (vl_wal L) w bs rs late"
  shows "\<exists>rv cs. replay_WAL L ext tell True (wal_disk w) = Inr rv \<and> storage_wf (rv_storage rv) \<and>
    storage_abs (rv_storage rv) = batch_log bs empty_log \<and> ms_hard_state (rv_storage rv) = wal_hs rs \<and>
    wal_holds (vl_wal L) (rv_wal rv) cs rs [] \<and> batch_log cs empty_log = batch_log bs empty_log \<and>
    ms_snapshot (rv_storage rv) = new_snapshot \<and> rv_snap_dir rv = []"
proof -
  note q = w [unfolded wal_holds_def]
  let ?B = "concat (map (rec_bytes (vl_wal L)) (first_snap # rs))"
  have "rs = take (length rs) (batch_recs bs)" using q by simp
  then obtain cs where cs: "rs = batch_recs cs" "batches_ok cs empty_log"
    using batch_recs_prefix [of bs empty_log "length rs"] q by auto
  have ok: "\<forall>r \<in> set (first_snap # batch_recs cs). rec_ok (vl_wal L) r" using q cs(1) by auto
  have disk: "wal_disk w = \<lparr>dk_wal = Some [(first_name, take (length ?B) ?B)], dk_snap = []\<rparr>"
    using q by (auto simp: wal_disk_def)
  have k: "length (rec_bytes (vl_wal L) first_snap) \<le> length ?B" by simp
  obtain n bs' rv where n: "n \<le> length (first_snap # rs)"
    "n < length (first_snap # rs) \<longrightarrow> length ?B < length (concat (map (rec_bytes (vl_wal L)) (take (Suc n) (first_snap # rs))))"
    and rv: "take n (first_snap # rs) = first_snap # batch_recs bs'" "batches_ok bs' empty_log"
    "replay_WAL L ext tell True (wal_disk w) = Inr rv" "storage_wf (rv_storage rv)" "storage_abs (rv_storage rv) = batch_log bs' empty_log"
    "ms_hard_state (rv_storage rv) = replay_hs (take n (first_snap # rs)) new_hard_state"
    and rw: "\<exists>f. w_files (rv_wal rv) = [f] \<and> wf_name f = first_name \<and> wf_io_ok f \<and>
       wf_disk f = concat (map (rec_bytes (vl_wal L)) (take n (first_snap # rs))) \<and> wf_buffer f = []"
    "w_state (rv_wal rv) = new_hard_state" "rv_snap_dir rv = []"
    using replay_after_crash [of L ext tell cs, OF _ _ _ cs(2) ok k] L unfolding disk cs(1) [symmetric] libs_ok_def by metis
  have "length (concat (map (rec_bytes (vl_wal L)) (take m (first_snap # rs)))) \<le> length ?B" for m
    using append_take_drop_id [of m "first_snap # rs"] by (metis concat_append length_append le_add1 map_append)
  then have all: "take n (first_snap # rs) = first_snap # rs" using n by (metis linorder_not_less take_all)
  have bs': "batch_recs bs' = rs" using rv(1) all by simp
  have late: "\<forall>r \<in> set late. \<exists>hs. r = RecState hs" using q by simp
  have logs: "batch_log bs empty_log = batch_log bs' empty_log" "batch_log cs empty_log = batch_log bs' empty_log"
    using batch_log_states [of bs bs' late] batch_log_states [of cs bs' "[]"] q rv(2) cs bs' late by auto
  have hs: "ms_hard_state (rv_storage rv) = wal_hs rs" using rv(6) unfolding all by (simp add: first_snap_def replay_hs_def)
  have "wal_holds (vl_wal L) (rv_wal rv) cs rs []"
    unfolding wal_holds_def using rw(1,2) cs ok unfolding all by (simp add: hf.rel_refl)
  then show ?thesis
    using rv(3-5) logs hs rw(3) replay_WAL_no_snapshot(1) [OF rv(3) [unfolded wal_disk_def]] by metis
qed

section \<open>Configuration changes between a ready and its advance\<close>

text \<open>Applying configuration changes moves nothing in the log but the commit index.\<close>

definition conf_rel :: "raw_node \<Rightarrow> raw_node \<Rightarrow> bool" where
  "conf_rel n n' \<longleftrightarrow>
     raft_grows (rn_raft n) (rn_raft n') \<and> rl_unstable (r_log (rn_raft n')) = rl_unstable (r_log (rn_raft n)) \<and>
     rn_prev_hard_state n' = rn_prev_hard_state n"

interpretation cr: run_relation node_wf conf_rel
  by unfold_locales
    (auto simp: conf_rel_def node_wf_def re.rel_refl raft_grows_wf intro: re.rel_trans,
     auto simp: raft_grows_def log_keeps_defs)

lemma conf_rel_abs:
  assumes "conf_rel n n'"
  shows "raft_log_abs (r_log (rn_raft n')) = raft_log_abs (r_log (rn_raft n))"
    "rl_storage (r_log (rn_raft n')) = rl_storage (r_log (rn_raft n))"
    "rl_committed (r_log (rn_raft n)) \<le> rl_committed (r_log (rn_raft n'))"
proof -
  show s: "rl_storage (r_log (rn_raft n')) = rl_storage (r_log (rn_raft n))"
    "rl_committed (r_log (rn_raft n)) \<le> rl_committed (r_log (rn_raft n'))"
    using assms by (simp_all add: conf_rel_def raft_grows_def log_keeps_defs)
  have "rl_unstable (r_log (rn_raft n')) = rl_unstable (r_log (rn_raft n))" using assms by (simp add: conf_rel_def)
  with s(1) show "raft_log_abs (r_log (rn_raft n')) = raft_log_abs (r_log (rn_raft n))"
    by (simp add: raft_log_abs_def split: option.split)
qed

lemma raft_mark_active_log: "raft_mark_active i b r = Inr r' \<Longrightarrow> r_log r' = r_log r"
  by (auto simp: raft_mark_active_def Let_def res_simps raft_put_progress_def split: if_splits)

lemma raft_set_progress_log: "raft_set_progress i m nx b r = Inr r' \<Longrightarrow> r_log r' = r_log r"
  by (auto simp: raft_set_progress_def Let_def split: if_splits)

lemma raft_add_node_or_learner_log: "raft_add_node_or_learner i b r = Inr r' \<Longrightarrow> r_log r' = r_log r"
  by (auto simp: raft_add_node_or_learner_def res_simps dest!: raft_mark_active_log raft_set_progress_log
      split: option.splits if_split_asm)

lemma raft_maybe_commit_unstable: "raft_maybe_commit r = Inr (b, r') \<Longrightarrow> rl_unstable (r_log r') = rl_unstable (r_log r)"
  by (auto simp: raft_maybe_commit_def raft_log_maybe_commit_def raft_log_commit_to_def Let_def res_simps split: if_splits)

lemma raft_remove_node_unstable:
  assumes wf: "raft_wf r" and res: "raft_remove_node i r = Inr r'"
  shows "rl_unstable (r_log r') = rl_unstable (r_log r)"
proof -
  let ?r = "raft_del_progress i r"
  have l: "r_log ?r = r_log r" by (simp add: raft_del_progress_def)
  have w: "raft_wf ?r"
    using wf peers_wf_delete [OF raft_wfD(2) [OF wf], of i]
    by (simp add: raft_wf_def raft_base_wf_def timer_wf_def mode_wf_def raft_del_progress_def)
  show ?thesis
  proof (cases "r_prs ?r = [] \<and> r_learner_prs ?r = []")
    case True
    with res l show ?thesis by (simp add: raft_remove_node_def)
  next
    case False
    from res [unfolded raft_remove_node_def Let_def if_not_P [OF False]] obtain b r1 r2 where
      c: "raft_maybe_commit ?r = Inr (b, r1)" and s: "(if b then raft_bcast_append r1 else Inr r1) = Inr r2"
      and t: "Inr (if r_state r2 = Leader \<and> r_lead_transferee r2 = i then raft_abort_leader_transfer r2 else r2) =
        (Inr r' :: raft res)"
      by (elim bindr_pair_E bindr_Inr_E) (rule that)
    have "r_log r2 = r_log r1"
      using s raft_bcast_append_quiet [OF raft_grows_wf [OF raft_maybe_commit_ext(1) [OF w c]]]
      by (auto simp: raft_quiet_def split: if_splits)
    moreover have "r_log r' = r_log r2" using t by (auto simp: raft_abort_leader_transfer_def split: if_split_asm)
    ultimately show ?thesis using raft_maybe_commit_unstable [OF c] l by simp
  qed
qed

lemma node_apply_conf_change_rel:
  assumes wf: "node_wf n" and res: "node_apply_conf_change cc n = Inr (cs, n')"
  shows "conf_rel n n'"
proof -
  have w: "raft_wf (rn_raft n)" using wf by (simp add: node_wf_def)
  have "rl_unstable (r_log (rn_raft n')) = rl_unstable (r_log (rn_raft n))"
    using res raft_remove_node_unstable [OF w] raft_add_node_or_learner_log
    by (auto simp: node_apply_conf_change_def bindr_eq_Inr split: if_split_asm conf_change_type.split_asm)
  then show ?thesis
    using node_apply_conf_change_ext [OF wf res] node_local_prev [OF Apply_conf [OF res]] by (simp add: conf_rel_def)
qed

text \<open>Publishing committed entries.\<close>

definition server_frame :: "'c raft_server \<Rightarrow> 'c raft_server \<Rightarrow> bool" where
  "server_frame s s' \<longleftrightarrow>
     conf_rel (sv_node s) (sv_node s') \<and> sv_wal s' = sv_wal s \<and> sv_snap_dir s' = sv_snap_dir s \<and>
     sv_snapshot_index s' = sv_snapshot_index s"

interpretation sf: run_relation "\<lambda>s. node_wf (sv_node s)" server_frame
  by unfold_locales (auto simp: server_frame_def cr.rel_refl intro: cr.rel_trans cr.rel_ok)

lemma publish_entries_frame:
  "node_wf (sv_node s) \<Longrightarrow> publish_entries L es s = Inr (b, s') \<Longrightarrow> server_frame s s'"
proof (induction es arbitrary: s)
  case Nil
  then show ?case by (simp add: sf.rel_refl)
next
  case (Cons e es)
  show ?case
  proof (cases "e_type e")
    case EntryNormal
    obtain s1 where s1: "publish_normal L e s = Inr s1" "publish_entries L es (s1\<lparr>sv_applied_index := e_index e\<rparr>) = Inr (b, s')"
      using Cons.prems(2) EntryNormal by (auto elim!: bindr_Inr_E)
    have "server_frame s (s1\<lparr>sv_applied_index := e_index e\<rparr>)"
      using s1(1) cr.rel_refl [OF Cons.prems(1)]
      by (auto simp: publish_normal_def server_frame_def elim!: bindr_pair_E split: if_split_asm)
    then show ?thesis using Cons.IH [OF _ s1(2)] sf.rel_ok [OF Cons.prems(1)] by (blast intro: sf.rel_trans)
  next
    case EntryConfChange
    show ?thesis
    proof (cases "mp_unpack (vl_conf L) (e_data e)")
      case None
      then show ?thesis using Cons.prems Cons.IH EntryConfChange by simp
    next
      case (Some cc)
      obtain cs n where n: "node_apply_conf_change cc (sv_node s) = Inr (cs, n)"
        and more: "(let s = s\<lparr>sv_node := n, sv_conf_state := cs\<rparr> in
          (if cc_type cc = ConfChangeRemoveNode \<and> cc_node_id cc = sv_id s then Inr (False, s)
           else let s = (if cc_type cc = ConfChangeAddNode \<and> cc_context cc \<noteq> []
                          then s\<lparr>sv_peers := sv_peers s @ [(cc_node_id cc, map (\<lambda>b. char_of (unat b)) (cc_context cc))]\<rparr>
                          else s)
                in publish_entries L es (s\<lparr>sv_applied_index := e_index e\<rparr>))) = Inr (b, s')"
        using Cons.prems(2) EntryConfChange Some by (auto elim!: bindr_pair_E)
      have f: "server_frame s (s\<lparr>sv_node := n, sv_conf_state := cs, sv_peers := p, sv_applied_index := a\<rparr>)"
        "server_frame s (s\<lparr>sv_node := n, sv_conf_state := cs\<rparr>)" for p a
        using node_apply_conf_change_rel [OF Cons.prems(1) n] by (simp_all add: server_frame_def)
      show ?thesis
      proof (cases "cc_type cc = ConfChangeRemoveNode \<and> cc_node_id cc = sv_id s")
        case True
        then show ?thesis using more f(2) by simp
      next
        case False
        define p where "p = (if cc_type cc = ConfChangeAddNode \<and> cc_context cc \<noteq> []
          then sv_peers s @ [(cc_node_id cc, map (\<lambda>b. char_of (unat b)) (cc_context cc))] else sv_peers s)"
        have rest: "publish_entries L es (s\<lparr>sv_node := n, sv_conf_state := cs, sv_peers := p, sv_applied_index := e_index e\<rparr>) = Inr (b, s')"
          using more False by (cases "cc_type cc = ConfChangeAddNode"; cases "cc_context cc = []") (simp_all add: p_def)
        show ?thesis using Cons.IH [OF _ rest] f(1) sf.rel_ok [OF Cons.prems(1)] by (blast intro: sf.rel_trans)
      qed
    qed
  next
    case (EntryInvalid c)
    then show ?thesis using Cons.prems by simp
  qed
qed

section \<open>Rounds\<close>

lemma node_ready_grows:
  assumes wf: "node_wf n" and rd: "node_ready n = Inr (rd, n1)"
  shows "raft_grows (rn_raft n) (rn_raft n1)" "node_wf n1"
proof -
  let ?r = "rn_raft n"
  have w: "raft_wf ?r" using wf by (simp add: node_wf_def)
  have g: "raft_grows ?r (?r\<lparr>r_msgs := []\<rparr>)" using w by (intro raft_grows_frame) (simp_all add: raft_wf_def)
  have n1: "rn_raft n1 = raft_reduce_uncommitted_size (rd_committed_entries rd) (?r\<lparr>r_msgs := []\<rparr>)"
    using rd by (auto simp: node_ready_def new_ready_def Let_def res_simps)
  from raft_quiet_ext [OF raft_grows_wf [OF g] raft_reduce_uncommitted_quiet [OF raft_grows_wf [OF g]]] g
  show gr: "raft_grows ?r (rn_raft n1)" unfolding n1 by (blast intro: re.rel_trans)
  show "node_wf n1" using gr wf by (simp add: node_wf_def raft_grows_def log_keeps_defs)
qed

lemma alog_splice_twice:
  assumes "al_base a < n" "n \<le> Suc (alog_last a)"
  shows "alog_splice (alog_splice a n es) n es = alog_splice a n es" "n \<le> Suc (alog_last (alog_splice a n es))"
  using assms by (simp_all add: alog_splice_def alog_last_def)

text \<open>Writing the log to the storage before the node is told so.\<close>

lemma node_stored:
  assumes wf: "node_wf n" and none: "u_snapshot (rl_unstable (r_log (rn_raft n))) = None"
    and ms: "storage_wf ms" "storage_abs ms = raft_log_abs (r_log (rn_raft n))" "ms_snapshot ms = ms_snapshot (rl_storage (r_log (rn_raft n)))"
  shows "node_wf (node_set_storage ms n)" "raft_advances (rn_raft n) (rn_raft (node_set_storage ms n))"
    "raft_log_abs (r_log (rn_raft (node_set_storage ms n))) = raft_log_abs (r_log (rn_raft n))"
proof -
  let ?l = "r_log (rn_raft n)" and ?m = "set_storage ms (r_log (rn_raft n))"
  have w: "raft_wf (rn_raft n)" and sy: "log_synced ?l" using wf by (simp_all add: node_wf_def)
  note lw = raft_wfD(1) [OF w]
  let ?u = "rl_unstable ?l"
  have abs: "raft_log_abs ?l = alog_splice (storage_abs (rl_storage ?l)) (u_offset ?u) (u_entries ?u)"
    using none by (simp add: raft_log_abs_def)
  have j: "al_base (storage_abs (rl_storage ?l)) < u_offset ?u" "u_offset ?u \<le> Suc (alog_last (storage_abs (rl_storage ?l)))"
    "u_entries ?u = [] \<longrightarrow> u_offset ?u = Suc (alog_last (storage_abs (rl_storage ?l)))"
    using raft_log_wfD(3) [OF lw] none by (simp_all add: log_joined_def)
  have same: "raft_log_abs ?m = raft_log_abs ?l"
  proof -
    have "raft_log_abs ?m = alog_splice (storage_abs ms) (u_offset ?u) (u_entries ?u)"
      using none by (simp add: raft_log_abs_def set_storage_def)
    then show ?thesis using alog_splice_twice(1) [OF j(1,2)] by (simp add: ms(2) abs)
  qed
  have "log_joined ?m"
    using none j alog_splice_twice(2) [OF j(1,2), of "u_entries ?u"]
    by (simp add: log_joined_def set_storage_def ms(2) abs) (auto simp: alog_splice_def alog_last_def)
  then have mw: "raft_log_wf ?m"
    using lw ms(1) unfolding raft_log_wf_def same by (simp add: set_storage_def)
  have sm: "log_synced ?m" using sy ms(3) none by (simp add: log_synced_def set_storage_def)
  have la: "log_advances ?l ?m" using mw sm same by (simp add: log_advances_def) (simp add: set_storage_def)
  then show g: "raft_advances (rn_raft n) (rn_raft (node_set_storage ms n))"
    using raft_advances_log [OF w la] by (simp add: node_set_storage_def)
  show "raft_log_abs (r_log (rn_raft (node_set_storage ms n))) = raft_log_abs ?l" using same by (simp add: node_set_storage_def)
  show "node_wf (node_set_storage ms n)" using g sm by (simp add: node_wf_def raft_advances_def) (simp add: node_set_storage_def)
qed

text \<open>Advancing when the storage already has the whole log.\<close>

lemma node_advance_stored:
  assumes wf: "node_wf m" and none: "u_snapshot (rl_unstable (r_log (rn_raft m))) = None"
    and st: "storage_abs (rl_storage (r_log (rn_raft m))) = raft_log_abs (r_log (rn_raft m))"
    and rd: "rd_entries rd = u_entries (rl_unstable (r_log (rn_raft m)))" "rd_snapshot rd = new_snapshot"
      "ready_applied_cursor rd \<le> rl_committed (r_log (rn_raft m))"
  shows "\<exists>n2. node_advance rd m = Inr n2 \<and> node_wf n2 \<and> raft_advances (rn_raft m) (rn_raft n2) \<and>
    raft_log_abs (r_log (rn_raft n2)) = raft_log_abs (r_log (rn_raft m)) \<and>
    rl_storage (r_log (rn_raft n2)) = rl_storage (r_log (rn_raft m)) \<and> u_snapshot (rl_unstable (r_log (rn_raft n2))) = None"
proof -
  let ?l = "r_log (rn_raft m)" and ?i = "ready_applied_cursor rd"
  have w: "raft_wf (rn_raft m)" and sy: "log_synced ?l" using wf by (simp_all add: node_wf_def)
  note lw = raft_wfD(1) [OF w]
  define l0 where "l0 = (if 0 < ?i then raft_log_applied_to ?i ?l else ?l)"
  have same: "set_storage (rl_storage ?l) ?l = ?l" by (simp add: set_storage_def)
  obtain l1 where l1: "(if rd_entries rd \<noteq> [] then
      raft_log_stable_to (e_index (last (rd_entries rd))) (e_term (last (rd_entries rd))) l0 else Inr l0) = Inr l1"
    and l': "let l' = (if \<not> snapshot_is_empty (rd_snapshot rd) then raft_log_stable_snap_to (snap_index (rd_snapshot rd)) l1 else l1)
     in raft_log_wf l' \<and> raft_log_abs l' = raft_log_abs ?l \<and> rl_committed l' = rl_committed ?l \<and>
        rl_applied l' = (if 0 < ?i then ?i else rl_applied ?l) \<and> u_entries (rl_unstable l') = [] \<and>
        u_snapshot (rl_unstable l') = None \<and> rl_storage l' = rl_storage ?l"
    using advance_log [OF lw raft_log_wfD(1) [OF lw] st _ rd(1), of l0 ?i] none rd(2) by (auto simp: same l0_def)
  define l' where "l' = (if \<not> snapshot_is_empty (rd_snapshot rd)
    then raft_log_stable_snap_to (snap_index (rd_snapshot rd)) l1 else l1)"
  note l' = l' [folded l'_def, unfolded Let_def]
  obtain n2 x where n2: "node_advance rd m = Inr n2" "rn_raft n2 = (rn_raft m)\<lparr>r_log := l', r_read_states := x\<rparr>"
    using node_advance_eq [OF l1 [unfolded l0_def], folded l'_def] by blast
  have sy': "log_synced l'" using l' sy rd(3) none by (simp add: log_synced_def)
  have adv: "raft_advances (rn_raft m) ((rn_raft m)\<lparr>r_log := l'\<rparr>)"
    using l' sy' by (intro raft_advances_log w) (simp add: log_advances_def)
  from ra.rel_trans [OF this raft_grows_advances [OF raft_grows_read_states], of x]
  have g2: "raft_advances (rn_raft m) (rn_raft n2)" using adv by (simp add: n2(2) raft_advances_def)
  moreover have "node_wf n2" using g2 sy' by (simp add: node_wf_def n2(2) raft_advances_def)
  ultimately show ?thesis using n2 l' by (intro exI [of _ n2]) simp
qed

lemma maybe_trigger_snapshot_none:
  assumes "maybe_trigger_snapshot L io s = Inr s'" "sv_snapshot_index s' = sv_snapshot_index s"
  shows "s' = s"
proof (rule ccontr)
  assume n: "s' \<noteq> s"
  from assms(1) n have due: "\<not> sub64 (sv_applied_index s) (sv_snapshot_index s) \<le> sv_snap_count s"
    and "sv_snapshot_index s' = sv_applied_index s"
    by (auto simp: maybe_trigger_snapshot_def server_save_snap_def sv_set_storage_def Let_def case_prod_beta
        elim!: bindr_Inr_E split: if_split_asm)
  then show False using assms(2) by (simp add: sub64_def)
qed

lemma server_publish_frame:
  assumes "node_wf (sv_node s)" "server_publish_ready L rd s = Inr s'"
  shows "server_frame s s'"
  using assms publish_entries_frame [OF assms(1)] sf.rel_refl [OF assms(1)]
  by (auto simp: server_publish_ready_def elim!: bindr_Inr_E bindr_pair_E split: if_split_asm)

text \<open>The steps of a round without a snapshot.\<close>

lemma server_round_eq:
  assumes rd: "node_ready (sv_node s) = Inr (rd, n1)" "ready_contains_updates rd" and snap: "snapshot_is_empty (rd_snapshot rd)"
    and ms: "persist_ready rd (rl_storage (r_log (rn_raft n1))) = Inr ms"
  shows "server_round L io s = bindr (wal_save (vl_wal L) (rd_hard_state rd) (rd_entries rd) (sv_wal s)) (\<lambda>(_, w).
    bindr (server_publish_ready L rd (s\<lparr>sv_node := node_set_storage ms n1, sv_wal := w, sv_sent := sv_sent s @ rd_messages rd\<rparr>)) (\<lambda>s.
    bindr (maybe_trigger_snapshot L (snd io) s) (\<lambda>s. bindr (node_advance rd (sv_node s)) (\<lambda>n. Inr (True, s\<lparr>sv_node := n\<rparr>)))))"
proof -
  let ?s1 = "\<lambda>w. s\<lparr>sv_node := n1, sv_wal := w\<rparr>"
  have app: "(if rd_entries rd \<noteq> [] then
      bindr (storage_append (rd_entries rd) (sv_storage (?s1 w))) (\<lambda>(_, ms). Inr (sv_set_storage ms (?s1 w)))
    else Inr (?s1 w)) = Inr (sv_set_storage ms (?s1 w))" for w
    using ms by (intro server_append_ready snap) simp
  have "(if rd_messages rd \<noteq> [] then (sv_set_storage ms (?s1 w))\<lparr>sv_sent := sv_sent (sv_set_storage ms (?s1 w)) @ rd_messages rd\<rparr>
      else sv_set_storage ms (?s1 w)) =
      s\<lparr>sv_node := node_set_storage ms n1, sv_wal := w, sv_sent := sv_sent s @ rd_messages rd\<rparr>" for w
    by (simp add: sv_set_storage_def)
  then show ?thesis
    unfolding server_round_def rd(1) bindr.simps prod.case Let_def
    using rd(2) app snap by (simp add: server_ready_snapshot_def)
qed

text \<open>
  A round that returns, without a snapshot: either nothing happens, or the new entries and the new
  hard state are saved and the storage then has the whole log.
\<close>

lemma server_round_saves:
  assumes wf: "node_wf (sv_node s)" and none: "u_snapshot (rl_unstable (r_log (rn_raft (sv_node s)))) = None"
    and res: "server_round L io s = Inr (b, s')" and idx: "sv_snapshot_index s' = sv_snapshot_index s"
  defines "n \<equiv> sv_node s" and "l \<equiv> r_log (rn_raft (sv_node s))"
  shows "(\<exists>n1. s' = s\<lparr>sv_node := n1\<rparr> \<and> node_wf n1 \<and> raft_grows (rn_raft n) (rn_raft n1) \<and> r_log (rn_raft n1) = l \<and>
      rn_prev_hard_state n1 = rn_prev_hard_state n \<and> hard_state_is_empty (hard_state_update n)) \<or>
    (\<exists>st. wal_save (vl_wal L) (hard_state_update n) (u_entries (rl_unstable l)) (sv_wal s) = Inr (st, sv_wal s') \<and>
      sv_snap_dir s' = sv_snap_dir s \<and> node_wf (sv_node s') \<and> raft_advances (rn_raft n) (rn_raft (sv_node s')) \<and>
      raft_log_abs (r_log (rn_raft (sv_node s'))) = raft_log_abs l \<and> storage_abs (sv_storage s') = raft_log_abs l \<and>
      rn_prev_hard_state (sv_node s') =
        (if hard_state_is_empty (hard_state_update n) then rn_prev_hard_state n else hard_state_update n))"
proof -
  note wf = wf [folded n_def] and none = none [folded l_def]
  have w: "raft_wf (rn_raft n)" and sy: "log_synced l" using wf by (simp_all add: node_wf_def l_def n_def)
  have lw: "raft_log_wf l" using raft_wfD(1) [OF w] by (simp add: l_def n_def)
  obtain rd n1 where rd: "node_ready n = Inr (rd, n1)" "rd_entries rd = u_entries (rl_unstable l)" "rd_snapshot rd = new_snapshot"
    "raft_log_next_entries l = Inr (rd_committed_entries rd)"
    using node_round_full [OF wf] none unfolding l_def n_def by auto
  note f = node_ready_fields [OF rd(1)] and g = node_ready_grows [OF wf rd(1)]
  have hs: "rd_hard_state rd = hard_state_update n" by (simp add: f(2) hard_state_update_def)
  have snap: "snapshot_is_empty (rd_snapshot rd)" by (simp add: rd(3) snapshot_is_empty_def new_snapshot_def)
  have sn: "rd_snapshot rd = (case u_snapshot (rl_unstable l) of Some s \<Rightarrow> s | None \<Rightarrow> new_snapshot)" using none rd(3) by simp
  have l1: "r_log (rn_raft n1) = l" using f(4) by (simp add: l_def n_def)
  show ?thesis
  proof (cases "ready_contains_updates rd")
    case False
    then have "s' = s\<lparr>sv_node := n1\<rparr>" using res rd(1) by (simp add: server_round_def n_def)
    moreover have "hard_state_is_empty (hard_state_update n)" using False by (simp add: ready_contains_updates_def hs)
    ultimately show ?thesis using g l1 f(9) by blast
  next
    case True
    obtain ms where ms: "persist_ready rd (rl_storage l) = Inr ms" "storage_wf ms" "storage_abs ms = raft_log_abs l"
      "ms_snapshot ms = ms_snapshot (rl_storage l)"
      using persist_ready_total [OF lw _ rd(2) sn] none by auto
    let ?m = "node_set_storage ms n1"
    note m = node_stored [OF g(2), unfolded l1, OF none ms(2-4)]
    let ?s2 = "\<lambda>w. s\<lparr>sv_node := ?m, sv_wal := w, sv_sent := sv_sent s @ rd_messages rd\<rparr>"
    note eq = server_round_eq [OF rd(1) [unfolded n_def] True snap ms(1) [folded l1], of L io, unfolded hs rd(2)]
    obtain st w1 s3 s4 n2 where
      r: "wal_save (vl_wal L) (hard_state_update n) (u_entries (rl_unstable l)) (sv_wal s) = Inr (st, w1)"
      "server_publish_ready L rd (?s2 w1) = Inr s3" "maybe_trigger_snapshot L (snd io) s3 = Inr s4"
      "node_advance rd (sv_node s4) = Inr n2" "s' = s4\<lparr>sv_node := n2\<rparr>"
      using res [unfolded eq] by (auto elim!: bindr_pair_E bindr_Inr_E)
    have fr: "server_frame (?s2 w1) s3" using m(1) by (intro server_publish_frame [OF _ r(2)]) simp
    have "s4 = s3" using maybe_trigger_snapshot_none [OF r(3)] idx fr r(5) by (simp add: server_frame_def)
    note r = r(1,2,4,5) [unfolded this]
    have cr: "conf_rel ?m (sv_node s3)" using fr by (simp add: server_frame_def)
    note c = conf_rel_abs [OF cr, unfolded m(3)] and cw = cr.rel_ok [OF m(1) cr]
    have ml: "rl_unstable (r_log (rn_raft ?m)) = rl_unstable l" "rl_storage (r_log (rn_raft ?m)) = ms" "rl_committed (r_log (rn_raft ?m)) = rl_committed l"
      using l1 by (simp_all add: node_set_storage_def set_storage_def)
    have un: "rl_unstable (r_log (rn_raft (sv_node s3))) = rl_unstable l" using cr ml(1) by (simp add: conf_rel_def)
    have cur: "ready_applied_cursor rd \<le> rl_committed (r_log (rn_raft (sv_node s3)))"
      using ready_cursor_committed [OF lw sy rd(4) sn] c(3) ml(3) by simp
    obtain n2' where n2: "node_advance rd (sv_node s3) = Inr n2'" "node_wf n2'" "raft_advances (rn_raft (sv_node s3)) (rn_raft n2')"
      "raft_log_abs (r_log (rn_raft n2')) = raft_log_abs l" "rl_storage (r_log (rn_raft n2')) = ms"
      using node_advance_stored [OF cw _ _ _ rd(3) cur] un none c(1,2) ml(2) ms(3) rd(2) l1 by auto
    have "n2' = n2" using n2(1) r(3) by simp
    have prev: "rn_prev_hard_state n2 = (if hard_state_is_empty (hard_state_update n) then rn_prev_hard_state n else hard_state_update n)"
      using node_advance_fields(2) [OF r(3)] cr f(9) by (simp add: hs conf_rel_def node_set_storage_def)
    have "raft_advances (rn_raft n) (rn_raft n2)"
      using g(1) m(2) cr n2(3) \<open>n2' = n2\<close> by (auto simp: conf_rel_def dest!: raft_grows_advances intro: ra.rel_trans)
    then show ?thesis using r fr n2(2,4,5) ms(3) prev \<open>n2' = n2\<close> by (simp add: server_frame_def)
  qed
qed

section \<open>Durable servers\<close>

text \<open>
  The log file describes the storage and a hard state that the node has not fallen behind; the
  entries up to its commit index are the same in the storage and in the log of the node.
\<close>

definition server_durable :: "server_lib \<Rightarrow> batch list \<Rightarrow> wal_rec list \<Rightarrow> wal_rec list \<Rightarrow> 'c raft_server \<Rightarrow> bool" where
  "server_durable L bs rs late s \<longleftrightarrow>
     (let n = sv_node s; l = r_log (rn_raft n); D = wal_hs (batch_recs bs) in
      node_wf n \<and> sv_snap_dir s = [] \<and> wal_holds (vl_wal L) (sv_wal s) bs rs late \<and>
      storage_abs (sv_storage s) = batch_log bs empty_log \<and> hs_follows D (raft_hard_state (rn_raft n)) \<and>
      hs_commit D \<le> alog_last (storage_abs (sv_storage s)) \<and>
      (rn_prev_hard_state n = D \<or> rn_prev_hard_state n = new_hard_state) \<and>
      (\<forall>i. log_base l < i \<and> i \<le> hs_commit D \<longrightarrow>
         alog_entry (raft_log_abs l) i = alog_entry (storage_abs (sv_storage s)) i))"

definition disk_of :: "'c raft_server \<Rightarrow> disk" where
  "disk_of s = \<lparr>dk_wal = Some (map (\<lambda>f. (wf_name f, wf_disk f)) (w_files (sv_wal s))), dk_snap = sv_snap_dir s\<rparr>"

lemma disk_of_durable: "server_durable L bs rs late s \<Longrightarrow> disk_of s = wal_disk (sv_wal s)"
  by (simp add: server_durable_def disk_of_def wal_disk_def Let_def)

text \<open>A node whose hard state needs no update has the one of the log file.\<close>

lemma durable_current:
  assumes d: "server_durable L bs rs late s" and h: "hard_state_is_empty h \<or> hard_state_equal h (rn_prev_hard_state (sv_node s))"
    and eq: "h = raft_hard_state (rn_raft (sv_node s))"
  shows "h = wal_hs (batch_recs bs)"
proof (cases "hard_state_is_empty h")
  case True
  then show ?thesis using hs_follows_empty [of "wal_hs (batch_recs bs)" h] d eq by (simp add: server_durable_def Let_def)
next
  case False
  then have "h = rn_prev_hard_state (sv_node s)" "rn_prev_hard_state (sv_node s) \<noteq> new_hard_state"
    using h by (auto simp: hard_state_equal_iff new_hard_state_def hard_state_is_empty_def)
  then show ?thesis using d unfolding server_durable_def Let_def by metis
qed

text \<open>Calls of the raft node.\<close>

lemma durable_call:
  assumes d: "server_durable L bs rs late s" and c: "raft_grows (rn_raft (sv_node s)) (rn_raft n')"
    "node_wf n'" "rn_prev_hard_state n' = rn_prev_hard_state (sv_node s)"
  shows "server_durable L bs rs late (s\<lparr>sv_node := n'\<rparr>)"
proof -
  let ?l = "r_log (rn_raft (sv_node s))" and ?l' = "r_log (rn_raft n')" and ?D = "wal_hs (batch_recs bs)"
  note q = d [unfolded server_durable_def Let_def]
  have st: "rl_storage ?l' = rl_storage ?l" and base: "log_base ?l \<le> log_base ?l'"
    and keep: "\<And>i. log_base ?l' < i \<Longrightarrow> i \<le> rl_committed ?l \<Longrightarrow> alog_entry (raft_log_abs ?l') i = alog_entry (raft_log_abs ?l) i"
    using c(1) by (auto simp: raft_grows_def log_keeps_defs)
  have cm: "hs_commit ?D \<le> rl_committed ?l" using q by (simp add: hs_follows_def raft_hard_state_def)
  have "hs_follows ?D (raft_hard_state (rn_raft n'))"
    using q raft_advances_hs [OF raft_grows_advances [OF c(1)]] by (blast intro: hf.rel_trans)
  moreover have "alog_entry (raft_log_abs ?l') i = alog_entry (storage_abs (rl_storage ?l)) i"
    if "log_base ?l' < i" "i \<le> hs_commit ?D" for i
    using keep [of i] q that base cm by simp
  ultimately show ?thesis using q c(2,3) st by (auto simp: server_durable_def Let_def)
qed

text \<open>Rounds.\<close>

lemma node_batch:
  assumes lw: "raft_log_wf l" and none: "u_snapshot (rl_unstable l) = None" and st: "storage_abs (rl_storage l) = batch_log bs empty_log"
  shows "batches_ok [(hs, u_entries (rl_unstable l))] (batch_log bs empty_log)"
    "batch_log (bs @ [(hs, u_entries (rl_unstable l))]) empty_log = raft_log_abs l" "log_base l = 0"
proof -
  let ?u = "rl_unstable l"
  have abs: "raft_log_abs l = alog_splice (storage_abs (rl_storage l)) (u_offset ?u) (u_entries ?u)"
    using none by (simp add: raft_log_abs_def)
  have j: "al_base (storage_abs (rl_storage l)) < u_offset ?u" "u_offset ?u \<le> Suc (alog_last (storage_abs (rl_storage l)))"
    "u_entries ?u = [] \<longrightarrow> u_offset ?u = Suc (alog_last (storage_abs (rl_storage l)))"
    using raft_log_wfD(3) [OF lw] none by (simp_all add: log_joined_def)
  have u: "contig (u_offset ?u) (u_entries ?u)" "u_offset ?u + length (u_entries ?u) \<le> u64_max"
    using unstable_wfD(1,2) [OF raft_log_wfD(2) [OF lw]] by simp_all
  have hd: "e_index (hd (u_entries ?u)) = u_offset ?u" if "u_entries ?u \<noteq> []"
    using u(1) that by (cases "u_entries ?u") simp_all
  show "batches_ok [(hs, u_entries ?u)] (batch_log bs empty_log)" using j u hd by (simp add: st [symmetric])
  show "batch_log (bs @ [(hs, u_entries ?u)]) empty_log = raft_log_abs l"
    using j hd unfolding batch_log_append st [symmetric] abs
    by (cases "u_entries ?u = []") (simp_all add: alog_splice_def alog_last_def)
  show "log_base l = 0" using batch_log_base [of bs empty_log] by (simp add: abs st)
qed

definition round_fits :: "server_lib \<Rightarrow> 'c raft_server \<Rightarrow> bool" where
  "round_fits L s \<longleftrightarrow>
     (\<forall>r \<in> set (save_recs (hard_state_update (sv_node s)) (u_entries (rl_unstable (r_log (rn_raft (sv_node s)))))). rec_ok (vl_wal L) r)"

lemma durable_round:
  assumes d: "server_durable L bs rs late s" and none: "u_snapshot (rl_unstable (r_log (rn_raft (sv_node s)))) = None"
    and fits: "round_fits L s"
    and res: "server_round L io s = Inr (b, s')" and idx: "sv_snapshot_index s' = sv_snapshot_index s"
  shows "\<exists>bs' rs' late'. server_durable L bs' rs' late' s' \<and> hs_follows (wal_hs rs) (wal_hs rs') \<and>
    same_vote (wal_hs rs') (raft_hard_state (rn_raft (sv_node s))) \<and>
    (\<forall>i \<le> hs_commit (wal_hs rs). alog_entry (storage_abs (sv_storage s')) i = alog_entry (storage_abs (sv_storage s)) i)"
proof -
  let ?n = "sv_node s" and ?D = "wal_hs (batch_recs bs)" and ?hs = "hard_state_update (sv_node s)"
  let ?l = "r_log (rn_raft ?n)"
  let ?es = "u_entries (rl_unstable ?l)"
  note q = d [unfolded server_durable_def Let_def]
  have wf: "node_wf ?n" and wh: "wal_holds (vl_wal L) (sv_wal s) bs rs late" using q by simp_all
  have lw: "raft_log_wf ?l" using wf by (simp add: node_wf_def raft_wfD(1))
  have st: "storage_abs (sv_storage s) = batch_log bs empty_log" and fol: "hs_follows ?D (raft_hard_state (rn_raft ?n))" using q by simp_all
  have "hs_follows (wal_hs rs) ?D" using wh unfolding wal_holds_def by blast
  then have cm: "hs_commit ?D \<le> rl_committed ?l" "rl_committed ?l \<le> log_last ?l" "hs_commit (wal_hs rs) \<le> hs_commit ?D"
    using fol raft_log_wfD(5) [OF lw] by (simp_all add: hs_follows_def raft_hard_state_def)
  have cur: "raft_hard_state (rn_raft ?n) = ?D" if "hard_state_is_empty ?hs"
    using that by (intro durable_current [OF d _ refl]) (auto simp: hard_state_update_def split: if_split_asm)
  have sv: "same_vote (wal_hs rs) ?D" using wh unfolding wal_holds_def by blast
  consider (Nothing) n1 where "s' = s\<lparr>sv_node := n1\<rparr>" "node_wf n1" "raft_grows (rn_raft ?n) (rn_raft n1)" "r_log (rn_raft n1) = ?l"
      "rn_prev_hard_state n1 = rn_prev_hard_state ?n" "hard_state_is_empty ?hs"
    | (Saved) x where "wal_save (vl_wal L) ?hs ?es (sv_wal s) = Inr (x, sv_wal s')" "sv_snap_dir s' = sv_snap_dir s" "node_wf (sv_node s')"
      "raft_advances (rn_raft ?n) (rn_raft (sv_node s'))" "raft_log_abs (r_log (rn_raft (sv_node s'))) = raft_log_abs ?l"
      "storage_abs (sv_storage s') = raft_log_abs ?l"
      "rn_prev_hard_state (sv_node s') = (if hard_state_is_empty ?hs then rn_prev_hard_state ?n else ?hs)"
    using server_round_saves [OF wf none res idx] by blast
  then show ?thesis
  proof cases
    case Nothing
    then have "server_durable L bs rs late s'" using durable_call [OF d Nothing(3,2,5)] by simp
    then show ?thesis using Nothing(1,4) cur [OF Nothing(6)] sv hf.rel_refl by fastforce
  next
    case Saved
    have hs: "hard_state_is_empty ?hs \<or> ?hs = raft_hard_state (rn_raft ?n)"
      by (simp add: hard_state_update_def new_hard_state_def hard_state_is_empty_def)
    have ok: "\<forall>r \<in> set (save_recs ?hs ?es). rec_ok (vl_wal L) r" using fits by (simp add: round_fits_def)
    note nb = node_batch [OF lw none st]
    obtain rs' late' where w': "wal_holds (vl_wal L) (sv_wal s') (bs @ [(?hs, ?es)]) rs' late'" "hs_follows (wal_hs rs) (wal_hs rs')"
      using wal_save_holds [OF wh nb(1) ok] hs fol Saved(1) by auto
    have D': "wal_hs (batch_recs (bs @ [(?hs, ?es)])) = (if hard_state_is_empty ?hs then ?D else ?hs)"
      by (simp add: batch_recs_append replay_hs_append) (simp add: batch_recs_def replay_hs_save)
    have f': "hs_follows (wal_hs (batch_recs (bs @ [(?hs, ?es)]))) (raft_hard_state (rn_raft ?n))"
      "hs_commit (wal_hs (batch_recs (bs @ [(?hs, ?es)]))) \<le> log_last ?l"
      using fol hs cm by (auto simp: D' hf.rel_refl raft_hard_state_def)
    have "server_durable L (bs @ [(?hs, ?es)]) rs' late' s'"
      unfolding server_durable_def Let_def
      using q Saved w'(1) nb(2) f' D' hf.rel_trans [OF f'(1) raft_advances_hs [OF Saved(4)]] by auto
    moreover have "alog_entry (raft_log_abs ?l) i = alog_entry (storage_abs (sv_storage s)) i" if "i \<le> hs_commit (wal_hs rs)" for i
    proof (cases "i = 0")
      case True
      then show ?thesis using nb(3) batch_log_base [of bs empty_log] by (simp add: alog_entry_def st)
    next
      case False
      then show ?thesis using q that cm(3) nb(3) by simp
    qed
    moreover have "same_vote (wal_hs rs') (wal_hs (batch_recs (bs @ [(?hs, ?es)])))" using w'(1) unfolding wal_holds_def by blast
    then have "same_vote (wal_hs rs') (raft_hard_state (rn_raft ?n))"
      using cur hs by (cases "hard_state_is_empty ?hs") (simp_all add: D')
    ultimately show ?thesis using w'(2) Saved(6) by auto
  qed
qed

section \<open>Starting up\<close>

lemma server_config_valid:
  assumes "i \<noteq> 0"
  shows "\<exists>c. config_validate (server_config i ms) = (StatusOK, c) \<and> c_storage c = ms \<and> c_peers c = [] \<and> c_learners c = [] \<and>
    c_applied c = 0 \<and> 2 * c_election_tick c \<le> u32_max \<and> 2 * c_max_inflight_msgs c \<le> u32_max"
  using assms by (simp add: config_validate_def server_config_def new_config_def Let_def u32_max_def)

lemma server_raft_starts:
  assumes "storage_wf ms" "ms_snapshot ms = new_snapshot" "al_base (storage_abs ms) = 0"
    "hs_commit (ms_hard_state ms) \<le> alog_last (storage_abs ms)" "c_storage c = ms" "c_peers c = []" "c_learners c = []"
    "c_applied c = 0" "2 * c_election_tick c \<le> u32_max" "2 * c_max_inflight_msgs c \<le> u32_max"
  shows "\<exists>r. new_raft c draws = Inr r \<and> raft_wf r \<and> log_synced (r_log r) \<and> raft_hard_state r = ms_hard_state ms \<and>
    raft_log_abs (r_log r) = storage_abs ms \<and> rl_storage (r_log r) = ms \<and> u_snapshot (rl_unstable (r_log r)) = None"
proof -
  have cs: "sm_conf_state (snap_metadata (ms_snapshot ms)) = new_conf_state" by (simp add: assms(2) new_snapshot_def)
  have "start_ok c"
    using assms cs by (simp add: start_ok_def Let_def start_members_def new_conf_state_def)
  from new_raft_wf [OF this, of draws] obtain r where r: "new_raft c draws = Inr r" "raft_wf r" "r_term r = hs_term (ms_hard_state ms)"
    "r_vote r = hs_vote (ms_hard_state ms)" "raft_log_abs (r_log r) = storage_abs ms"
    "rl_committed (r_log r) = (if hard_state_is_empty (ms_hard_state ms) then 0 else hs_commit (ms_hard_state ms))"
    "rl_storage (r_log r) = ms" "u_snapshot (rl_unstable (r_log r)) = None" "rl_applied (r_log r) = 0"
    using assms(3,5,8) by auto
  have hs: "raft_hard_state r = ms_hard_state ms"
    using r(3,4,6) by (cases "ms_hard_state ms") (auto simp: raft_hard_state_def hard_state_is_empty_def)
  have "log_synced (r_log r)" using r(7-9) assms(2) by (simp add: log_synced_def new_snapshot_def)
  then show ?thesis using r hs by blast
qed

text \<open>A node that starts with an existing log.\<close>

lemma server_node_restarts:
  assumes ms: "storage_wf ms" "ms_snapshot ms = new_snapshot" "al_base (storage_abs ms) = 0"
    "hs_commit (ms_hard_state ms) \<le> alog_last (storage_abs ms)" and i: "i \<noteq> 0"
  shows "\<exists>n. server_node L i k draws True ms = Inr n \<and> node_wf n \<and> raft_hard_state (rn_raft n) = ms_hard_state ms \<and>
    raft_log_abs (r_log (rn_raft n)) = storage_abs ms \<and> rl_storage (r_log (rn_raft n)) = ms \<and>
    (rn_prev_hard_state n = ms_hard_state ms \<or> rn_prev_hard_state n = new_hard_state)"
proof -
  obtain c where c: "config_validate (server_config i ms) = (StatusOK, c)" "c_storage c = ms" "c_peers c = []" "c_learners c = []"
    "c_applied c = 0" "2 * c_election_tick c \<le> u32_max" "2 * c_max_inflight_msgs c \<le> u32_max"
    using server_config_valid [OF i] by blast
  obtain r where r: "new_raft c draws = Inr r" "raft_wf r" "log_synced (r_log r)" "raft_hard_state r = ms_hard_state ms"
    "raft_log_abs (r_log r) = storage_abs ms" "rl_storage (r_log r) = ms"
    using server_raft_starts [OF ms c(2-7)] by blast
  have "\<exists>n. server_node L i k draws True ms = Inr n \<and> rn_raft n = r \<and>
      (rn_prev_hard_state n = raft_hard_state r \<or> rn_prev_hard_state n = new_hard_state)"
    using c(1,2) r(1) ms.last_law [OF ms(1)] by (simp add: server_node_def restart_node_def)
  then show ?thesis using r by (auto simp: node_wf_def)
qed

text \<open>The server comes back from what the disk of a durable server has.\<close>

lemma durable_restart:
  assumes L: "libs_ok L ext tell" and d: "server_durable L bs rs late s"
    and i: "0 < i" "i \<le> length (split_on CHR '','' cluster)" "transport_start N (split_on CHR '','' cluster ! (i - 1)) = Inr srv"
      "ne_listen N ''0.0.0.0'' port"
  shows "\<exists>s' cs. server_main L ext tell True N i cluster port draws (disk_of s) = Inr (s' :: 'd raft_server) \<and> server_durable L cs rs [] s' \<and>
    storage_abs (sv_storage s') = storage_abs (sv_storage s) \<and> raft_hard_state (rn_raft (sv_node s')) = wal_hs rs \<and>
    raft_log_abs (r_log (rn_raft (sv_node s'))) = storage_abs (sv_storage s)"
proof -
  note q = d [unfolded server_durable_def Let_def]
  have wh: "wal_holds (vl_wal L) (sv_wal s) bs rs late" and st: "storage_abs (sv_storage s) = batch_log bs empty_log" using q by simp_all
  obtain rv cs where rv: "replay_WAL L ext tell True (wal_disk (sv_wal s)) = Inr rv" "storage_wf (rv_storage rv)"
    "storage_abs (rv_storage rv) = batch_log bs empty_log" "ms_hard_state (rv_storage rv) = wal_hs rs"
    "wal_holds (vl_wal L) (rv_wal rv) cs rs []" "batch_log cs empty_log = batch_log bs empty_log"
    "ms_snapshot (rv_storage rv) = new_snapshot" "rv_snap_dir rv = []"
    using wal_holds_recovers [OF L wh] by blast
  have fol: "hs_follows (wal_hs rs) (wal_hs (batch_recs bs))" using wh unfolding wal_holds_def by blast
  have cm: "hs_commit (wal_hs rs) \<le> alog_last (batch_log bs empty_log)"
    using fol q st by (simp add: hs_follows_def)
  obtain n where n: "server_node L i (length (split_on CHR '','' cluster)) draws True (rv_storage rv) = Inr n" "node_wf n"
    "raft_hard_state (rn_raft n) = wal_hs rs" "raft_log_abs (r_log (rn_raft n)) = batch_log bs empty_log"
    "rl_storage (r_log (rn_raft n)) = rv_storage rv" "rn_prev_hard_state n = wal_hs rs \<or> rn_prev_hard_state n = new_hard_state"
    using server_node_restarts [of "rv_storage rv" i L _ draws] rv(2-4,7) i(1) cm batch_log_base [of bs empty_log] by auto
  have "rv_snap_data rv = []"
    by (rule replay_WAL_no_snapshot(2) [OF rv(1) [unfolded wal_disk_def]])
  then obtain store :: "'d redis_store" where store: "new_redis_store (vl_store L) (ne_listen N) i (rv_snap_data rv) port = Inr store"
    using i(4) by (simp add: new_redis_store_def)
  have disk: "dk_wal (disk_of s) \<noteq> None" by (simp add: disk_of_def)
  obtain s' :: "'d raft_server" where s': "server_main L ext tell True N i cluster port draws (disk_of s) = Inr s'" "sv_node s' = n"
    "sv_wal s' = rv_wal rv" "sv_snap_dir s' = []"
    using rv(1,8) n(1) i store disk
    by (simp add: server_main_def server_construct_def disk_of_durable [OF d] server_schedule_def Let_def)
  have recs: "batch_recs cs = rs" using rv(5) by (simp add: wal_holds_def)
  have "server_durable L cs rs [] s'"
    unfolding server_durable_def Let_def s'(2-4) n(5) recs
    using n(2-4,6) rv(3,5,6) cm by (simp add: hf.rel_refl)
  then show ?thesis using s' n(3-5) rv(3) st by auto
qed

subsection \<open>The first start\<close>

lemma raft_add_node_total:
  assumes wf: "raft_wf r"
  shows "\<exists>r'. raft_add_node i r = Inr r' \<and> raft_grows r r'"
proof -
  have mark: "\<exists>r'. raft_mark_active i False r1 = Inr r'" if "map_of (r_prs r1) i \<noteq> None" for r1
    using that by (auto simp: raft_mark_active_def raft_deref_progress_def raft_get_progress_def Let_def)
  have "\<exists>r'. raft_add_node i r = Inr r'"
    using raft_wfD(1) [OF wf]
    by (auto simp: raft_add_node_def raft_add_node_or_learner_def raft_set_progress_def Let_def update_conv'
        split: option.split intro!: mark)
  then show ?thesis using raft_add_node_or_learner_ext [OF wf] by (auto simp: raft_add_node_def)
qed

lemma raft_add_nodes_total:
  "raft_wf r \<Longrightarrow> \<exists>r'. for_each raft_add_node xs r = Inr r' \<and> raft_grows r r'"
proof (induction xs arbitrary: r)
  case Nil
  then show ?case by (simp add: re.rel_refl)
next
  case (Cons i xs)
  obtain r1 where r1: "raft_add_node i r = Inr r1" "raft_grows r r1" using raft_add_node_total [OF Cons.prems] by blast
  then show ?case using Cons.IH [OF raft_grows_wf [OF r1(2)]] by (auto intro: re.rel_trans)
qed

lemma bootstrap_contig: "contig (Suc i) (bootstrap_entries ser i ps) \<and> length (bootstrap_entries ser i ps) = length ps"
  by (induction ps arbitrary: i) simp_all

lemma server_node_boots:
  assumes ms: "storage_wf ms" "ms_snapshot ms = new_snapshot" "storage_abs ms = empty_log" "ms_hard_state ms = new_hard_state"
    and i: "i \<noteq> 0" and k: "0 < k" "k < u64_max"
  shows "\<exists>n. server_node L i k draws False ms = Inr n \<and> node_wf n \<and> rl_storage (r_log (rn_raft n)) = ms \<and> rn_prev_hard_state n = new_hard_state \<and>
    r_vote (rn_raft n) = 0"
proof -
  let ?ps = "map (\<lambda>k. \<lparr>pc_id = k + 1, pc_context = []\<rparr>) [0..<k]"
  let ?es = "bootstrap_entries (mp_pack (vl_conf L)) 0 ?ps"
  have last: "alog_last (storage_abs ms) = 0" "al_base (storage_abs ms) = 0" "hs_commit (ms_hard_state ms) \<le> alog_last (storage_abs ms)"
    by (simp_all add: ms(3,4) alog_last_def new_hard_state_def)
  obtain c where c: "config_validate (server_config i ms) = (StatusOK, c)" "c_storage c = ms" "c_peers c = []" "c_learners c = []"
    "c_applied c = 0" "2 * c_election_tick c \<le> u32_max" "2 * c_max_inflight_msgs c \<le> u32_max"
    using server_config_valid [OF i] by blast
  obtain r where r: "new_raft c draws = Inr r" "raft_wf r" "log_synced (r_log r)"
    "raft_log_abs (r_log r) = storage_abs ms" "rl_storage (r_log r) = ms" "raft_hard_state r = ms_hard_state ms"
    using server_raft_starts [OF ms(1,2) last(2,3) c(2-7)] by blast
  obtain r1 where r1: "raft_become_follower 1 0 r = Inr r1" "raft_wf r1" "r_log r1 = r_log r" "r_vote r1 = 0"
    using raft_become_follower_wf [of r 1 0] r(2,6) by (auto simp: raft_wf_def raft_hard_state_def ms(4) new_hard_state_def)
  have es: "contig 1 ?es" "length ?es = k" "?es \<noteq> []" using bootstrap_contig [of 0 "mp_pack (vl_conf L)" ?ps] k(1) by auto
  have cm: "rl_committed (r_log r) = 0" using r(6) by (simp add: raft_hard_state_def ms(4) new_hard_state_def)
  have ll: "log_last (r_log r) = 0" using r(4) last(1) by simp
  obtain x l where l: "raft_log_append ?es (r_log r1) = Inr (x, l)" "raft_log_wf l" "log_last l = k" "rl_committed l = 0" "rl_storage l = ms"
    "log_keeps (r_log r1) l"
    using raft_log_append_wf [of "r_log r1" 1 ?es] raft_wfD(1) [OF r1(2)] es k cm ll r(4,5) r1(3) last(2)
      raft_log_append_keeps [of "r_log r1" 1 ?es]
    by (auto simp: log_frame_def alog_splice_def alog_last_def)
  define l' where "l' = l\<lparr>rl_committed := length ?es\<rparr>"
  have "raft_log_wf l'" unfolding l'_def using l(2-4) es(2) by (intro raft_log_wf_commit) simp_all
  then have "log_keeps l l'" using l(4) by (intro log_keeps_same_abs) (simp_all add: l'_def log_frame_def)
  then have g: "raft_grows r1 (r1\<lparr>r_log := l'\<rparr>)" using l(6) by (intro raft_grows_log r1(2)) (rule lk.rel_trans)
  obtain r3 where r3: "for_each raft_add_node (map pc_id ?ps) (r1\<lparr>r_log := l'\<rparr>) = Inr r3" "raft_grows (r1\<lparr>r_log := l'\<rparr>) r3"
    using raft_add_nodes_total [OF raft_grows_wf [OF g]] by blast
  have "ballot r3 = ballot (r1\<lparr>r_log := l'\<rparr>)"
    by (rule for_each_ballot [OF r3(1)]) (auto simp: raft_add_node_def dest: raft_add_node_or_learner_ballot)
  then have v: "r_vote r3 = 0" using r1(4) by (auto dest: ballotD)
  have g3: "raft_grows r1 r3" by (rule re.rel_trans [OF g r3(2)])
  have n: "start_node (mp_pack (vl_conf L)) c draws ?ps =
      Inr \<lparr>rn_raft = r3, rn_prev_soft_state = raft_soft_state r3, rn_prev_hard_state = new_hard_state\<rparr>"
    using r(1) r1(1) l(1) r3(1) [unfolded l'_def] ms.last_law [OF ms(1)] last(1) c(2) by (simp add: start_node_def Let_def)
  have "rl_storage (r_log r3) = ms" "log_synced (r_log r3)"
    using g3 r1(3) r(3,5) by (simp_all add: raft_grows_def log_keeps_defs)
  then show ?thesis using n c(1) v raft_grows_wf [OF g3] by (simp add: server_node_def node_wf_def)
qed

lemma split_on_not_Nil: "split_on c xs \<noteq> []"
  by (induction xs) (auto split: list.split)

lemma length_split_on: "length (split_on c xs) \<le> Suc (length xs)"
  by (induction xs) (auto split: list.split)

definition no_disk :: disk where
  "no_disk = \<lparr>dk_wal = None, dk_snap = []\<rparr>"

text \<open>The first start, on an empty disk, creates the log.\<close>

lemma first_replay:
  assumes L: "libs_ok L ext tell"
  shows "\<exists>rv cs. replay_WAL L ext tell True no_disk = Inr rv \<and> storage_wf (rv_storage rv) \<and>
    storage_abs (rv_storage rv) = empty_log \<and> ms_hard_state (rv_storage rv) = new_hard_state \<and>
    wal_holds (vl_wal L) (rv_wal rv) cs [] [] \<and> batch_log cs empty_log = empty_log \<and>
    ms_snapshot (rv_storage rv) = new_snapshot \<and> rv_snap_dir rv = [] \<and> rv_snap_data rv = []"
proof -
  let ?b = "rec_bytes (vl_wal L) first_snap"
  define w where "w = \<lparr>w_state = new_hard_state, w_start = \<lparr>ws_index = 0, ws_term = 0\<rparr>, w_enti = 0,
    w_files = [\<lparr>wf_name = first_name, wf_seq = 0, wf_buffer = [], wf_disk = ?b, wf_size = 0, wf_io_ok = True\<rparr>]\<rparr>"
  have wh: "wal_holds (vl_wal L) w [] [] []"
    using L by (simp add: wal_holds_def w_def libs_ok_def batch_recs_def replay_hs_def hf.rel_refl)
  have create: "wal_create (vl_wal L) tell True [] = Inr [(first_name, ?b)]"
    using wal_create_spec [of tell "vl_wal L"] L by (simp add: libs_ok_def first_snap_def)
  have same: "replay_WAL L ext tell True no_disk = replay_WAL L ext tell True (wal_disk w)"
    by (simp add: replay_WAL_def no_disk_def wal_disk_def w_def open_WAL_def create)
  have "rv_snap_data rv = []" if "replay_WAL L ext tell True no_disk = Inr rv" for rv
    by (rule replay_WAL_no_snapshot(2) [OF that [unfolded no_disk_def]])
  then show ?thesis using wal_holds_recovers [OF L wh] unfolding same by (fastforce simp: replay_hs_def)
qed

lemma durable_boot:
  assumes L: "libs_ok L ext tell" and cl: "length cluster + 1 < u64_max"
    and i: "0 < i" "i \<le> length (split_on CHR '','' cluster)" "transport_start N (split_on CHR '','' cluster ! (i - 1)) = Inr srv"
      "ne_listen N ''0.0.0.0'' port"
  shows "\<exists>s cs. server_main L ext tell True N i cluster port draws no_disk = Inr (s :: 'd raft_server) \<and> server_durable L cs [] [] s \<and>
    r_vote (rn_raft (sv_node s)) = 0"
proof -
  obtain rv cs where rv: "replay_WAL L ext tell True no_disk = Inr rv" "storage_wf (rv_storage rv)"
    "storage_abs (rv_storage rv) = empty_log" "ms_hard_state (rv_storage rv) = new_hard_state"
    "wal_holds (vl_wal L) (rv_wal rv) cs [] []" "batch_log cs empty_log = empty_log"
    "ms_snapshot (rv_storage rv) = new_snapshot" "rv_snap_dir rv = []" "rv_snap_data rv = []"
    using first_replay [OF L] by blast
  let ?k = "length (split_on CHR '','' cluster)"
  have k: "0 < ?k" "?k < u64_max" using split_on_not_Nil length_split_on [of _ cluster] cl by (auto intro: le_less_trans)
  obtain n where n: "server_node L i ?k draws False (rv_storage rv) = Inr n" "node_wf n"
    "rl_storage (r_log (rn_raft n)) = rv_storage rv" "rn_prev_hard_state n = new_hard_state" "r_vote (rn_raft n) = 0"
    using server_node_boots [OF rv(2,7,3,4) _ k] i(1) by blast
  obtain store :: "'d redis_store" where store: "new_redis_store (vl_store L) (ne_listen N) i (rv_snap_data rv) port = Inr store"
    using i(4) rv(9) by (simp add: new_redis_store_def)
  obtain s :: "'d raft_server" where s: "server_main L ext tell True N i cluster port draws no_disk = Inr s" "sv_node s = n"
    "sv_wal s = rv_wal rv" "sv_snap_dir s = []"
    using rv(1,8) n(1) i store by (simp add: server_main_def server_construct_def server_schedule_def Let_def) (simp add: no_disk_def)
  have recs: "batch_recs cs = []" using rv(5) by (simp add: wal_holds_def)
  have "wal_hs [] = new_hard_state" "hs_follows new_hard_state h" for h by (simp_all add: replay_hs_def hs_follows_def new_hard_state_def)
  then have "server_durable L cs [] [] s"
    unfolding server_durable_def Let_def s(2-4) n(3) recs
    using n(2,4) rv(3,5,6) by (simp add: new_hard_state_def)
  then show ?thesis using s(1,2) n(5) by blast
qed

section \<open>Runs with crashes\<close>

text \<open>
  What may happen to a server, in any order: a call of the raft node (a tick, a proposal, a message
  from a peer, ...), a change of the store by a client's request, a round of \<open>pull_ready_events\<close>,
  and a crash followed by a restart with what was written out. Rounds with snapshots are left out,
  and the records of a round fit the format of the log.
\<close>

inductive server_work ::
  "server_lib \<Rightarrow> (string \<Rightarrow> string) \<Rightarrow> (byte list \<Rightarrow> int) \<Rightarrow> 'c raft_server \<Rightarrow> 'c raft_server \<Rightarrow> bool" for L ext tell where
  Store: "server_work L ext tell s (s\<lparr>sv_store := store, sv_answers := out\<rparr>)"
| Round: "u_snapshot (rl_unstable (r_log (rn_raft (sv_node s)))) = None \<Longrightarrow> round_fits L s \<Longrightarrow>
    server_round L io s = Inr (b, s') \<Longrightarrow> sv_snapshot_index s' = sv_snapshot_index s \<Longrightarrow> server_work L ext tell s s'"
| Crash: "server_main L ext tell True N i cluster port draws (disk_of s) = Inr s' \<Longrightarrow> server_work L ext tell s s'"

inductive server_life ::
  "server_lib \<Rightarrow> (string \<Rightarrow> string) \<Rightarrow> (byte list \<Rightarrow> int) \<Rightarrow> 'c raft_server \<Rightarrow> 'c raft_server \<Rightarrow> bool" for L ext tell where
  Call: "node_call (sv_node s) n \<Longrightarrow> server_life L ext tell s (s\<lparr>sv_node := n\<rparr>)"
| Work: "server_work L ext tell s s' \<Longrightarrow> server_life L ext tell s s'"

lemmas server_crash = server_life.Work [OF server_work.Crash]

lemma server_main_args:
  assumes "server_main L ext tell io N i cluster port draws d = Inr s"
  shows "0 < i" "i \<le> length (split_on CHR '','' cluster)" "\<exists>srv. transport_start N (split_on CHR '','' cluster ! (i - 1)) = Inr srv"
    "ne_listen N ''0.0.0.0'' port"
  using assms by (auto simp: server_main_def server_schedule_def new_redis_store_def Let_def elim!: bindr_pair_E bindr_Inr_E split: if_split_asm)

lemma durable_node_call:
  assumes d: "server_durable L bs rs late s" and c: "node_call (sv_node s) n"
  shows "server_durable L bs rs late (s\<lparr>sv_node := n\<rparr>)" "raft_grows (rn_raft (sv_node s)) (rn_raft n)"
    "sv_storage (s\<lparr>sv_node := n\<rparr>) = sv_storage s"
proof -
  have wf: "node_wf (sv_node s)" using d by (simp add: server_durable_def Let_def)
  show g: "raft_grows (rn_raft (sv_node s)) (rn_raft n)" by (rule node_call_grows [OF c wf])
  have "node_wf n" using g wf by (simp add: node_wf_def raft_grows_def log_keeps_defs)
  then show "server_durable L bs rs late (s\<lparr>sv_node := n\<rparr>)" by (rule durable_call [OF d g _ node_call_prev [OF c]])
  show "sv_storage (s\<lparr>sv_node := n\<rparr>) = sv_storage s" using g by (simp add: raft_grows_def log_keeps_defs)
qed

lemma server_life_durable:
  fixes s s' :: "'c raft_server"
  assumes L: "libs_ok L ext tell" and step: "server_life L ext tell s s'" and d: "server_durable L bs rs late s"
  shows "\<exists>bs' rs' late'. server_durable L bs' rs' late' s' \<and> hs_follows (wal_hs rs) (wal_hs rs') \<and>
    (\<forall>j \<le> hs_commit (wal_hs rs). alog_entry (storage_abs (sv_storage s')) j = alog_entry (storage_abs (sv_storage s)) j)"
  using step
proof (cases rule: server_life.cases)
  case (Call n)
  then show ?thesis using durable_node_call [OF d Call(2)] hf.rel_refl by metis
next
  case Work
  then show ?thesis
  proof (cases rule: server_work.cases)
    case (Store store out)
    then have "server_durable L bs rs late s'" "sv_storage s' = sv_storage s" using d by (auto simp: server_durable_def Let_def)
    then show ?thesis using hf.rel_refl by metis
  next
    case (Round io b)
    then show ?thesis using durable_round [OF d Round] by blast
  next
    case (Crash N i cluster port draws)
    obtain cs where "server_durable L cs rs [] s'" "storage_abs (sv_storage s') = storage_abs (sv_storage s)"
      using server_main_args [OF Crash] durable_restart [where ?'d = 'c, OF L d, of i cluster N _ port draws] Crash by auto
    then show ?thesis using hf.rel_refl by metis
  qed
qed

lemma server_life_durable_run:
  assumes L: "libs_ok L ext tell" and run: "(server_life L ext tell)\<^sup>*\<^sup>* s s'" and d: "server_durable L bs rs late s"
  shows "\<exists>bs' rs' late'. server_durable L bs' rs' late' s' \<and> hs_follows (wal_hs rs) (wal_hs rs') \<and>
    (\<forall>j \<le> hs_commit (wal_hs rs). alog_entry (storage_abs (sv_storage s')) j = alog_entry (storage_abs (sv_storage s)) j)"
  using run
proof (induction rule: rtranclp_induct)
  case base
  then show ?case using d hf.rel_refl by blast
next
  case (step t u)
  obtain b1 r1 l1 where t: "server_durable L b1 r1 l1 t" "hs_follows (wal_hs rs) (wal_hs r1)"
    "\<forall>j \<le> hs_commit (wal_hs rs). alog_entry (storage_abs (sv_storage t)) j = alog_entry (storage_abs (sv_storage s)) j"
    using step.IH by blast
  obtain b2 r2 l2 where u: "server_durable L b2 r2 l2 u" "hs_follows (wal_hs r1) (wal_hs r2)"
    "\<forall>j \<le> hs_commit (wal_hs r1). alog_entry (storage_abs (sv_storage u)) j = alog_entry (storage_abs (sv_storage t)) j"
    using server_life_durable [OF L step.hyps(2) t(1)] by blast
  have "hs_commit (wal_hs rs) \<le> hs_commit (wal_hs r1)" using t(2) by (simp add: hs_follows_def)
  then have "\<forall>j \<le> hs_commit (wal_hs rs). alog_entry (storage_abs (sv_storage u)) j = alog_entry (storage_abs (sv_storage s)) j"
    using t(3) u(3) by simp
  then show ?case using u(1) hf.rel_trans [OF t(2) u(2)] by blast
qed

lemma durable_recovers:
  assumes "libs_ok L ext tell" "server_durable L bs rs late s"
  shows "\<exists>rv. replay_WAL L ext tell True (disk_of s) = Inr rv \<and> storage_abs (rv_storage rv) = storage_abs (sv_storage s) \<and>
    ms_hard_state (rv_storage rv) = wal_hs rs"
  using wal_holds_recovers [OF assms(1), of "sv_wal s" bs rs late] assms(2) disk_of_durable [OF assms(2)]
  by (auto simp: server_durable_def Let_def)

text \<open>When the node has nothing ready, the disk has its whole log, its term and its vote.\<close>

lemma durable_at_rest:
  assumes d: "server_durable L bs rs late s" and rest: "node_has_ready (sv_node s) = Inr False"
  shows "storage_abs (sv_storage s) = raft_log_abs (r_log (rn_raft (sv_node s)))"
    "same_vote (wal_hs rs) (raft_hard_state (rn_raft (sv_node s)))"
proof -
  let ?n = "sv_node s" and ?D = "wal_hs (batch_recs bs)"
  let ?l = "r_log (rn_raft ?n)" and ?h = "raft_hard_state (rn_raft ?n)"
  note q = d [unfolded server_durable_def Let_def]
  have lw: "raft_log_wf ?l" and sy: "log_synced ?l" using q by (simp_all add: node_wf_def raft_wfD(1))
  have none: "u_snapshot (rl_unstable ?l) = None"
    using rest sy snapshot_not_empty by (force simp: node_has_ready_def Let_def log_synced_def split: option.splits if_splits)
  have u: "raft_log_unstable_entries ?l = []" and h: "hard_state_is_empty ?h \<or> hard_state_equal ?h (rn_prev_hard_state ?n)"
    using rest none by (auto simp: node_has_ready_def Let_def split: if_splits)
  show "storage_abs (sv_storage s) = raft_log_abs ?l"
    using raft_log_wfD(3) [OF lw] none u
    by (simp add: raft_log_abs_def log_joined_def raft_log_unstable_entries_def alog_splice_def alog_last_def)
  have "?h = ?D" by (rule durable_current [OF d h refl])
  moreover have "same_vote (wal_hs rs) ?D" using q unfolding wal_holds_def by blast
  ultimately show "same_vote (wal_hs rs) ?h" by simp
qed

end
