(* ===== verification/Raft_KV.thy ===== *)
theory Raft_KV
  imports Server_Crash
begin

text \<open>
  The program: \<open>main\<close> of \<open>src/raft-kv/raft-kv.cpp\<close>, and the handler of the signals that stop it in
  \<open>raft_node.cpp\<close>.
\<close>

section \<open>Options\<close>

text \<open>
  What glib finds on the command line. The 64-bit integer goes to \<open>g_id\<close>; \<open>g_cluster\<close> is a null pointer
  and \<open>g_port\<close> is 0 when their options are missing.
\<close>

record options =
  op_id :: int
  op_cluster :: "string option"
  op_port :: "int option"

text \<open>
  \<open>G_OPTION_ARG_INT\<close> stores four bytes at \<open>&g_port\<close>, a variable of two bytes. \<open>slack\<close>: no other object
  lives in the two bytes behind it. Then \<open>g_port\<close> has the lower half of the number.
\<close>

definition g_port_of :: "bool \<Rightarrow> int option \<Rightarrow> nat res" where
  "g_port_of slack port =
     (case port of
        None \<Rightarrow> Inr 0
      | Some p \<Rightarrow> if slack then Inr (nat (p mod 2 ^ 16)) else Inl (Undefined ''int stored in a uint16_t''))"

definition g_id_of :: "int \<Rightarrow> u64" where
  "g_id_of i = nat (i mod 2 ^ 64)"

section \<open>The program\<close>

datatype 'c outcome =
    Exits nat
  | Runs "'c raft_server"

text \<open>
  \<open>main\<close>: \<open>parse\<close> is \<open>g_option_context_parse\<close>. The options are printed before they are checked, also a
  null pointer for the cluster.
\<close>

definition program_main ::
  "server_lib \<Rightarrow> (string \<Rightarrow> string) \<Rightarrow> (byte list \<Rightarrow> int) \<Rightarrow> bool \<Rightarrow> net \<Rightarrow> (string list \<Rightarrow> options option) \<Rightarrow> bool \<Rightarrow>
   string list \<Rightarrow> nat list \<Rightarrow> disk \<Rightarrow> 'c outcome res" where
  "program_main L ext tell io N parse slack argv draws d =
     (case parse argv of
        None \<Rightarrow> Inr (Exits 1)
      | Some opt \<Rightarrow>
          bindr (g_port_of slack (op_port opt)) (\<lambda>port.
          case op_cluster opt of
            None \<Rightarrow> Inl (Undefined ''null pointer for %s'')
          | Some cluster \<Rightarrow>
              let i = g_id_of (op_id opt) in
              if i = 0 \<or> port = 0 then Inr (Exits 1)
              else bindr (server_main L ext tell io N i cluster port draws d) (\<lambda>s. Inr (Runs s))))"

section \<open>Signals\<close>

text \<open>
  What \<open>g_node\<close> points to: nothing until the constructor has returned, then a node without a
  \<open>redis_server_\<close> until \<open>schedule\<close> has created it, then a running one; \<open>stop\<close> ends the loops of all
  three \<open>io_service\<close>s, after which \<open>main\<close> returns.
\<close>

datatype 'c g_node =
    NoNode
  | Starting
  | Running "'c raft_server"
  | Stopped

definition raft_node_stop :: "'c g_node \<Rightarrow> 'c g_node res" where
  "raft_node_stop g =
     (case g of
        NoNode \<Rightarrow> Inl (Undefined ''null g_node'')
      | Starting \<Rightarrow> Inl (Undefined ''null redis_server_'')
      | Running s \<Rightarrow> Inr Stopped
      | Stopped \<Rightarrow> Inr Stopped)"

definition on_signal :: "'c g_node \<Rightarrow> 'c g_node res" where
  "on_signal g = (case g of NoNode \<Rightarrow> Inr NoNode | Starting \<Rightarrow> raft_node_stop g | Running s \<Rightarrow> raft_node_stop g | Stopped \<Rightarrow> raft_node_stop g)"

section \<open>Starting the program\<close>

lemma g_port_in_range: "0 \<le> p \<Longrightarrow> p < 2 ^ 16 \<Longrightarrow> g_port_of True (Some p) = Inr (nat p)"
  by (simp add: g_port_of_def)

lemma g_id_in_range: "0 \<le> i \<Longrightarrow> i < 2 ^ 64 \<Longrightarrow> g_id_of i = nat i"
  by (simp add: g_id_of_def)

text \<open>A program that got to run has usable options, and starts the same way from any disk.\<close>

lemma program_runs:
  fixes s :: "'d raft_server"
  assumes "program_main L ext tell io N parse slack argv draws d = Inr (Runs s)"
  shows "\<exists>opt cluster i port. parse argv = Some opt \<and> op_cluster opt = Some cluster \<and>
    server_main L ext tell io N i cluster port draws d = Inr s \<and>
    (\<forall>draws d. program_main L ext tell io N parse slack argv draws d =
       bindr (server_main L ext tell io N i cluster port draws d) (\<lambda>s. Inr (Runs s :: 'd outcome)))"
proof -
  obtain opt where opt: "parse argv = Some opt" using assms by (auto simp: program_main_def split: option.split_asm)
  obtain port where port: "g_port_of slack (op_port opt) = Inr port"
    using assms by (auto simp: program_main_def opt elim: bindr_Inr_E)
  obtain cluster where cl: "op_cluster opt = Some cluster" "g_id_of (op_id opt) \<noteq> 0" "port \<noteq> 0"
    using assms by (auto simp: program_main_def opt port Let_def split: option.split_asm if_split_asm)
  have "program_main L ext tell io N parse slack argv draws d =
      bindr (server_main L ext tell io N (g_id_of (op_id opt)) cluster port draws d) (\<lambda>s. Inr (Runs s :: 'd outcome))" for draws d
    using cl by (simp add: program_main_def opt port)
  then show ?thesis using assms opt cl by (auto elim!: bindr_Inr_E)
qed

text \<open>A port whose lower half is 0, as 65536, is taken for a missing one.\<close>

theorem program_refuses_multiple:
  assumes "parse argv = Some opt" "op_cluster opt = Some cluster" "op_port opt = Some p" "2 ^ 16 dvd p"
  shows "program_main L ext tell io N parse True argv draws d = Inr (Exits 1)"
  using assms by (simp add: program_main_def g_port_of_def dvd_eq_mod_eq_0)

text \<open>
  The first start of the program with sensible options, and every start of it after a crash, leads
  to a running server.
\<close>

theorem program_starts:
  assumes L: "libs_ok L ext tell" and opt: "parse argv = Some \<lparr>op_id = int i, op_cluster = Some cluster, op_port = Some (int port)\<rparr>"
    and ok: "0 < i" "i \<le> length (split_on CHR '','' cluster)" "length cluster + 1 < u64_max" "0 < port" "port < 2 ^ 16"
    and net: "transport_start N (split_on CHR '','' cluster ! (i - 1)) = Inr srv" "ne_listen N ''0.0.0.0'' port"
  shows "\<exists>s0 :: 'd raft_server. program_main L ext tell True N parse True argv draws no_disk = Inr (Runs s0) \<and> node_wf (sv_node s0) \<and>
    (\<forall>s draws'. (server_life L ext tell)\<^sup>*\<^sup>* s0 s \<longrightarrow>
       (\<exists>s' :: 'd raft_server. program_main L ext tell True N parse True argv draws' (disk_of s) = Inr (Runs s') \<and> server_life L ext tell s s'))"
proof -
  have "i < 2 ^ 64"
    using ok(2,3) length_split_on [of "CHR '',''" cluster] by (simp add: u64_max_def)
  then have main: "program_main L ext tell True N parse True argv draws d =
      bindr (server_main L ext tell True N i cluster port draws d) (\<lambda>s. Inr (Runs s :: 'd outcome))" for draws d
    using ok(1,4,5) by (simp add: program_main_def opt g_port_in_range g_id_in_range)
  obtain s0 :: "'d raft_server" and cs where s0: "server_main L ext tell True N i cluster port draws no_disk = Inr s0"
    "server_durable L cs [] [] s0"
    using durable_boot [where ?'d = 'd, OF L ok(3,1,2) net] by blast
  have "\<exists>s' :: 'd raft_server. program_main L ext tell True N parse True argv draws' (disk_of s) = Inr (Runs s') \<and> server_life L ext tell s s'"
    if run: "(server_life L ext tell)\<^sup>*\<^sup>* s0 s" for s draws'
  proof -
    obtain bs rs late where d: "server_durable L bs rs late s" using server_life_durable_run [OF L run s0(2)] by blast
    obtain s' :: "'d raft_server" where s': "server_main L ext tell True N i cluster port draws' (disk_of s) = Inr s'"
      using durable_restart [where ?'d = 'd, OF L d ok(1,2) net] by blast
    then show ?thesis using server_crash [OF s'] by (intro exI [of _ s']) (simp add: main)
  qed
  moreover have "node_wf (sv_node s0)" using s0(2) by (simp add: server_durable_def Let_def)
  ultimately show ?thesis using s0(1) by (intro exI [of _ s0]) (simp add: main)
qed

text \<open>A signal stops a running server; one that arrives before the store exists crashes the program.\<close>

theorem signal_while_starting:
  "on_signal (Running s) = Inr Stopped" "on_signal Stopped = Inr Stopped" "on_signal NoNode = Inr NoNode"
  "on_signal Starting = Inl (Undefined ''null redis_server_'')"
  by (simp_all add: on_signal_def raft_node_stop_def)

end
