(* ===== verification/Server_Properties.thy ===== *)
theory Server_Properties
  imports Disk_Properties Raft_KV Demo
begin

text \<open>Properties of the server around the raft node: rounds, snapshots, restarts.\<close>

section \<open>Rounds\<close>

definition demo_wal :: wal where
  "demo_wal = \<lparr>w_state = new_hard_state, w_start = \<lparr>ws_index = 0, ws_term = 0\<rparr>, w_enti = 0,
     w_files = [\<lparr>wf_name = first_name, wf_seq = 0, wf_buffer = [], wf_disk = rec_bytes demo_wal_lib first_snap, wf_size = 0, wf_io_ok = True\<rparr>]\<rparr>"

definition demo_server :: "nat raft_server" where
  "demo_server = \<lparr>sv_id = 1, sv_last_index = 0, sv_conf_state = new_conf_state, sv_snapshot_index = 0, sv_applied_index = 0,
     sv_snap_count = defaultSnapCount, sv_node = demo_node Follower, sv_wal = demo_wal, sv_snap_dir = [],
     sv_store = \<lparr>rs_node_id = 1, rs_kv = Map.empty, rs_next_request_id = 0, rs_pending = Map.empty\<rparr>,
     sv_sent = [], sv_answers = [], sv_peers = [],
     sv_io = \<lparr>io_endpoint = (''h'', 1), io_accepting = True, io_sessions = []\<rparr>\<rparr>"

lemma demo_server_steady: "server_steady demo_lib demo_server"
  by (simp add: server_steady_def demo_server_def demo_raft_def to_apply_def alog_slice_def plain_entry_def demo_wal_def
      defaultSnapCount_def)



section \<open>Snapshots\<close>


text \<open>A log of \<open>n\<close> entries after the dummy entry.\<close>

definition demo_long_storage :: "nat \<Rightarrow> memory_storage" where
  "demo_long_storage n = \<lparr>ms_hard_state = new_hard_state, ms_snapshot = new_snapshot, ms_entries = map (demo_entry 1) [0..<Suc n]\<rparr>"

lemma contig_demo: "contig a (map (demo_entry t) [a..<b])"
proof (induction "b - a" arbitrary: a)
  case (Suc k)
  then have "[a..<b] = a # [Suc a..<b]" by (simp add: upt_conv_Cons)
  then show ?case using Suc.hyps(1) [of "Suc a"] Suc.hyps(2) by simp
qed simp

lemma demo_long_storage_wf:
  assumes "n < u64_max"
  shows "storage_wf (demo_long_storage n)" "al_base (storage_abs (demo_long_storage n)) = 0"
    "alog_last (storage_abs (demo_long_storage n)) = n" "0 < n \<Longrightarrow> alog_term_at (storage_abs (demo_long_storage n)) n = 1"
proof -
  have up: "map (demo_entry 1) [0..<Suc n] = demo_entry 1 0 # map (demo_entry 1) [1..<Suc n]"
    by (simp only: upt_conv_Cons [of 0 "Suc n"] zero_less_Suc list.map One_nat_def)
  have abs: "storage_abs (demo_long_storage n) = \<lparr>al_base = 0, al_bterm = 1, al_ents = map (demo_entry 1) [1..<Suc n]\<rparr>"
    unfolding storage_abs_def demo_long_storage_def by (simp only: up memory_storage.simps list.sel demo_entry_sel)
  show "al_base (storage_abs (demo_long_storage n)) = 0" "alog_last (storage_abs (demo_long_storage n)) = n"
    by (simp_all add: abs del: upt_Suc)
  show "storage_wf (demo_long_storage n)"
  proof -
    have "ms_entries (demo_long_storage n) \<noteq> []" by (simp add: demo_long_storage_def)
    then show ?thesis using assms contig_demo [of 1 1 "Suc n"] by (simp add: storage_wf_def abs alog_wf_def del: upt_Suc)
  qed
  show "alog_term_at (storage_abs (demo_long_storage n)) n = 1" if "0 < n"
    using that by (simp add: abs alog_term_at_def alog_entry_def del: upt_Suc)
qed


section \<open>Crashes\<close>

definition demo_net :: net where
  "demo_net = \<lparr>ne_address = (\<lambda>_. True), ne_listen = (\<lambda>_ _. True)\<rparr>"


lemma demo_libs_ok: "libs_ok demo_lib demo_ext (\<lambda>b. 0)"
  using demo_wal_lib_ok demo_ext_ok demo_recs_ok [of first_snap] by (simp add: libs_ok_def)

lemma demo_start: "transport_start demo_net (split_on CHR '','' ''h:1,h:2'' ! (1 - 1)) = Inr \<lparr>io_endpoint = (''h'', 1), io_accepting = True, io_sessions = []\<rparr>"
  by (simp add: transport_start_def io_server_create_def endpoint_of_def demo_net_def c_atoi_def is_space_def is_digit_def
      dec_value_def io_server_start_def)

lemma demo_port: "ne_listen demo_net ''0.0.0.0'' port"
  by (simp add: demo_net_def)



text \<open>The options of node 1 of a cluster of two, whose client port is 6379.\<close>

definition demo_parse :: "string list \<Rightarrow> options option" where
  "demo_parse argv = (if argv = [''raft-kv''] then Some \<lparr>op_id = int 1, op_cluster = Some ''h:1,h:2'', op_port = Some (int 6379)\<rparr> else None)"


section \<open>Restarts\<close>

text \<open>A disk with a snapshot at index 3 that holds one byte of data, and a log with entry 4.\<close>

definition demo_snap_file :: "byte list" where
  "demo_snap_file = le32 14 @ le32 1 @ nats_pack [3, 1, 7]"

definition demo_disk :: disk where
  "demo_disk = \<lparr>dk_wal = Some [(first_name, concat (map (rec_bytes demo_wal_lib) [first_snap, RecEntry (demo_entry 1 4)]))],
     dk_snap = snap_files [((1, 3), demo_snap_file)]\<rparr>"

definition demo_snapshot :: snapshot where
  "demo_snapshot = snapshot_convert ([7], 3, 1) new_snapshot"

lemma demo_load: "snapshotter_load demo_snap_lib demo_ext new_snapshot (dk_snap demo_disk) = Inr (StatusOK, demo_snapshot, dk_snap demo_disk)"
proof -
  have un: "mp_unpack (sl_snapshot demo_snap_lib) (nats_pack [3, 1, 7]) = Some ([7], 3, 1)"
    by (simp add: demo_snap_lib_def nats_of_unary del: nats_pack_Cons)
  have content: "snap_file_data demo_snap_lib demo_snap_file = Some (nats_pack [3, 1, 7])"
    by (simp add: snap_file_data_def u32_max_def demo_snap_lib_def demo_snap_file_def Let_def length_nats_pack del: nats_pack_Cons)
  have "u64_pairs (map fst [((1 :: nat, 3 :: nat), demo_snap_file)])" by (simp add: u64_pairs_def u64_max_def)
  from snap_files_names(1) [OF demo_ext_ok this] have "get_snap_names demo_ext (dk_snap demo_disk) = [snap_name 1 3]"
    by (simp add: get_snap_names_def demo_disk_def snap_files_def)
  moreover have "load_snap demo_snap_lib (snap_name 1 3) new_snapshot (dk_snap demo_disk) = Inr (StatusOK, demo_snapshot, dk_snap demo_disk)"
    by (simp add: load_snap_def demo_disk_def snap_files_def content un demo_snapshot_def del: nats_pack_Cons One_nat_def)
  ultimately show ?thesis by (simp add: snapshotter_load_def)
qed

lemma demo_recover:
  "\<exists>rv. replay_WAL demo_lib demo_ext (\<lambda>b. 0) True demo_disk = Inr rv \<and> rv_last_index rv = 4 \<and>
    rv_storage rv = \<lparr>ms_hard_state = new_hard_state, ms_snapshot = demo_snapshot, ms_entries = [demo_entry 1 3, demo_entry 1 4]\<rparr>"
proof -
  let ?rs = "[first_snap, RecEntry (demo_entry 1 4)]" and ?start = "\<lparr>ws_index = 3, ws_term = 1\<rparr>"
  have ok: "\<forall>r \<in> set ?rs. rec_ok demo_wal_lib r \<and> rec_agrees ?start r"
    by (simp add: first_snap_def rec_ok_def demo_wal_lib_def length_nats_pack entry_nats_def MAX_WAL_RECORD_LEN_def
        entry_fits_def entry_type_fits_def wal_snapshot_fits_def u64_max_def del: nats_pack_Cons)
  let ?b = "concat (map (rec_bytes demo_wal_lib) ?rs)"
  obtain n w where n: "n \<le> length ?rs" "n < length ?rs \<longrightarrow> length ?b < length (concat (map (rec_bytes demo_wal_lib) (take (Suc n) ?rs)))"
    and rd: "bindr (wal_open demo_ext (\<lambda>b. 0) True [(first_name, take (length ?b) ?b)] ?start) (wal_read_all demo_wal_lib new_hard_state []) =
      Inr (StatusOK, replay_hs (take n ?rs) new_hard_state, replay_ents (ws_index ?start) (take n ?rs) [], w)"
    using wal_reopen [OF demo_wal_lib_ok demo_ext_ok _ ok, of "\<lambda>b. 0" "\<lparr>ws_index = 0, ws_term = 0\<rparr>" "[RecEntry (demo_entry 1 4)]" "length ?b"]
    by (auto simp: first_snap_def)
  have "n = 2" using n by (cases n) (auto simp: less_Suc_eq_le split: nat.splits)
  then have all: "take n ?rs = ?rs" by simp
  have ents: "replay_ents 3 ?rs [] = [Some (demo_entry 1 4)]" "replay_hs ?rs new_hard_state = new_hard_state"
    by (simp_all add: replay_ents_def replay_hs_def first_snap_def put_entry_def resize_ptrs_def)
  have ms: "snd (storage_apply_snapshot demo_snapshot new_memory_storage) =
      new_memory_storage\<lparr>ms_snapshot := demo_snapshot, ms_entries := [demo_entry 1 3]\<rparr>"
    by (simp add: storage_apply_snapshot_def demo_snapshot_def snapshot_convert_def new_snapshot_def new_memory_storage_def
        demo_entry_def new_entry_def)
  have "storage_append [demo_entry 1 4] (new_memory_storage\<lparr>ms_snapshot := demo_snapshot, ms_entries := [demo_entry 1 3], ms_hard_state := new_hard_state\<rparr>) =
      Inr (StatusOK, \<lparr>ms_hard_state = new_hard_state, ms_snapshot = demo_snapshot, ms_entries = [demo_entry 1 3, demo_entry 1 4]\<rparr>)"
    by (simp add: storage_append_def storage_first_index_impl_def vec_at_def new_memory_storage_def u64_max_def Let_def)
  moreover obtain w0 where "open_WAL demo_lib demo_ext (\<lambda>b. 0) True (dk_wal demo_disk) demo_snapshot = Inr w0"
    "wal_read_all demo_wal_lib new_hard_state [] w0 = Inr (StatusOK, new_hard_state, [Some (demo_entry 1 4)], w)"
    using rd all ents by (auto simp: open_WAL_def demo_disk_def demo_snapshot_def snapshot_convert_def new_snapshot_def elim!: bindr_Inr_E)
  ultimately show ?thesis using demo_load
    by (simp add: replay_WAL_def ms deref_entries_def storage_set_hard_state_def)
qed

text \<open>C37.
  A restart that finds a snapshot and entries of the log after it: the server counts everything up
  to the snapshot as applied, but the store starts empty; the data of the snapshot is dropped.\<close>

theorem restart_drops_snapshot_data:
  assumes load: "snapshotter_load (vl_snap L) ext new_snapshot (dk_snap d) = Inr (StatusOK, snap, sdir)" "0 < snap_index snap"
    and rv: "replay_WAL L ext tell io d = Inr rv" "rv_last_index rv \<noteq> 0" and port: "ne_listen N ''0.0.0.0'' port"
  shows "\<exists>s. server_schedule L N i port srv peers rv n = Inr s \<and> rs_kv (sv_store s) = Map.empty \<and> sv_applied_index s = snap_index snap"
proof -
  have "rv_snap_data rv = []" "ms_snapshot (rv_storage rv) = snap"
    using load rv(2) by (rule_tac replay_WAL_cases [OF rv(1)],
      auto simp: storage_apply_snapshot_def new_memory_storage_def new_snapshot_def split: if_splits)+
  then show ?thesis using port by (simp add: server_schedule_def new_redis_store_def)
qed

theorem restart_drops_snapshot_data_witness:
  "\<exists>rv s. replay_WAL demo_lib demo_ext (\<lambda>b. 0) True demo_disk = Inr rv \<and>
    server_schedule demo_lib demo_net 1 6379 (sv_io demo_server) [] rv (demo_node Follower) = Inr (s :: nat raft_server) \<and> snap_data demo_snapshot = [7] \<and>
    rs_kv (sv_store s) = Map.empty \<and> sv_applied_index s = 3"
proof -
  obtain rv where rv: "replay_WAL demo_lib demo_ext (\<lambda>b. 0) True demo_disk = Inr rv" "rv_last_index rv \<noteq> 0"
    using demo_recover by auto
  have snap: "snap_index demo_snapshot = 3" "snap_data demo_snapshot = [7]" by (simp_all add: demo_snapshot_def snapshot_convert_def)
  show ?thesis
    using restart_drops_snapshot_data [OF demo_load [folded demo_lib_sel(2)] _ rv demo_port, of 1 6379 "sv_io demo_server" "[]" "demo_node Follower", where ?'a = nat] rv(1) snap by auto
qed

text \<open>C36.
  A restart with an existing log: whatever snapshot is loaded, it has no configuration, so the raft
  node starts without any members, is not promotable and can never start an election by itself
  until configuration changes are applied again.\<close>

theorem restart_forgets_configuration:
  assumes L: "snap_lib_ok (vl_snap L)" and wal: "dk_wal d = Some files"
    and start: "server_construct L ext tell io i cluster draws d = Inr (rv, n)"
  shows "snapshot_conf (ms_snapshot (rv_storage rv)) = new_conf_state \<and> raft_nodes (rn_raft n) = [] \<and>
    raft_learner_nodes (rn_raft n) = [] \<and> \<not> raft_promotable (rn_raft n)"
proof -
  from start obtain rv: "replay_WAL L ext tell io d = Inr rv"
    and n: "server_node L i (length (split_on CHR '','' cluster)) draws True (rv_storage rv) = Inr n"
    using wal by (auto simp: server_construct_def elim!: bindr_Inr_E)
  note conf = replay_WAL_conf [OF L rv]
  have c: "c_peers (snd (config_validate (server_config i ms))) = []" "c_learners (snd (config_validate (server_config i ms))) = []"
    "c_storage (snd (config_validate (server_config i ms))) = ms" for ms
    by (simp_all add: config_validate_def server_config_def new_config_def Let_def)
  obtain r where r: "new_raft (snd (config_validate (server_config i (rv_storage rv)))) draws = Inr r" "rn_raft n = r"
    using n by (auto simp: server_node_def restart_node_def case_prod_beta Let_def elim!: bindr_Inr_E split: if_split_asm)
  have "r_prs r = []" "r_learner_prs r = []" using new_raft_no_members [OF r(1)] c conf by simp_all
  then show ?thesis using conf r(2) by (simp add: raft_nodes_def raft_learner_nodes_def raft_promotable_def)
qed

theorem restart_forgets_configuration_witness:
  "\<exists>rv n. server_construct demo_lib demo_ext (\<lambda>b. 0) True 1 ''h:1,h:2'' [3] demo_disk = Inr (rv, n) \<and>
    raft_log_abs (r_log (rn_raft n)) = \<lparr>al_base = 3, al_bterm = 1, al_ents = [demo_entry 1 4]\<rparr> \<and> \<not> raft_promotable (rn_raft n)"
proof -
  obtain rv where rv: "replay_WAL demo_lib demo_ext (\<lambda>b. 0) True demo_disk = Inr rv"
    "rv_storage rv = \<lparr>ms_hard_state = new_hard_state, ms_snapshot = demo_snapshot, ms_entries = [demo_entry 1 3, demo_entry 1 4]\<rparr>"
    using demo_recover by auto
  define c where "c = snd (config_validate (server_config 1 (rv_storage rv)))"
  have cv: "config_validate (server_config 1 (rv_storage rv)) = (StatusOK, c)"
    by (simp add: c_def config_validate_def server_config_def new_config_def Let_def)
  have abs: "storage_abs (rv_storage rv) = \<lparr>al_base = 3, al_bterm = 1, al_ents = [demo_entry 1 4]\<rparr>"
    by (simp add: storage_abs_def rv(2))
  have cs: "c_storage c = rv_storage rv" "start_ok c"
    by (simp_all add: c_def start_ok_def start_members_def config_validate_def server_config_def new_config_def Let_def u32_max_def
        storage_wf_def abs alog_wf_def u64_max_def) (simp_all add: rv(2) demo_snapshot_def snapshot_convert_def new_snapshot_def
        new_conf_state_def new_hard_state_def hard_state_is_empty_def)
  obtain r where r: "new_raft c [3] = Inr r" "raft_log_abs (r_log r) = storage_abs (rv_storage rv)"
    using new_raft_wf [OF cs(2), of "[3]"] cs(1) by auto
  have "storage_last_index (rv_storage rv) = Inr (StatusOK, 4)"
    by (simp add: storage_last_index_def storage_last_index_impl_def rv(2) vec_at_def u64_max_def)
  moreover have wal: "dk_wal demo_disk \<noteq> None" by (simp add: demo_disk_def)
  ultimately obtain n where n: "server_construct demo_lib demo_ext (\<lambda>b. 0) True 1 ''h:1,h:2'' [3] demo_disk = Inr (rv, n)" "rn_raft n = r"
    using rv(1) r(1) cs(1) cv by (simp add: server_construct_def server_node_def restart_node_def del: One_nat_def not_None_eq)
  have "dk_wal demo_disk = Some [(first_name, concat (map (rec_bytes demo_wal_lib) [first_snap, RecEntry (demo_entry 1 4)]))]"
    by (simp add: demo_disk_def)
  from restart_forgets_configuration [OF _ this n(1)] show ?thesis using n r(2) abs demo_snap_lib_ok by auto
qed

end
