(* ===== verification/Votes.thy ===== *)
theory Votes
  imports Election
begin

text \<open>
  The votes of a cluster, as history: for every node the votes it has cast, each with its term and
  its candidate. \<open>D\<close> are the votes that a node cannot forget any more, \<open>C\<close> those that its memory
  knows of. What a node sends, counts and concludes is justified by them, and no node ever votes
  twice in a term.
\<close>

section \<open>History\<close>

type_synonym votes = "(u64 \<times> u64) set"

text \<open>The votes cast are one for a term and agree with the current term and the current vote.\<close>

definition votes_follow :: "votes \<Rightarrow> u64 \<Rightarrow> u64 \<Rightarrow> bool" where
  "votes_follow C t v \<longleftrightarrow>
     single_valued C \<and> (\<forall>(t', c) \<in> C. c \<noteq> 0 \<and> t' \<le> t \<and> (t' = t \<longrightarrow> c = v)) \<and> (v \<noteq> 0 \<longrightarrow> (t, v) \<in> C)"

lemma votes_followD:
  "votes_follow C t v \<Longrightarrow> (k, c) \<in> C \<Longrightarrow> c \<noteq> 0 \<and> k \<le> t \<and> (k = t \<longrightarrow> c = v)"
  by (auto simp: votes_follow_def)

text \<open>A request is backed by the vote of its sender for itself, a granted answer by that vote.\<close>

definition backed_msg :: "(u64 \<Rightarrow> votes) \<Rightarrow> message \<Rightarrow> bool" where
  "backed_msg D m \<longleftrightarrow>
     (m_type m = MsgVote \<longrightarrow> (m_term m, m_from m) \<in> D (m_from m)) \<and>
     (m_type m = MsgVoteResp \<and> \<not> m_reject m \<longrightarrow> m_term m \<noteq> 0 \<and> (m_term m, m_to m) \<in> D (m_from m))"

text \<open>Votes for others answer requests, so the candidate has voted for itself for good.\<close>

definition backed_votes :: "(u64 \<Rightarrow> votes) \<Rightarrow> u64 \<Rightarrow> votes \<Rightarrow> bool" where
  "backed_votes D i C \<longleftrightarrow> (\<forall>(t, c) \<in> C. c \<noteq> i \<longrightarrow> (t, c) \<in> D c)"

definition majority :: "u64 list \<Rightarrow> u64 set \<Rightarrow> bool" where
  "majority V Q \<longleftrightarrow> Q \<subseteq> set V \<and> length V < 2 * card Q"

definition has_majority :: "u64 list \<Rightarrow> (u64 \<Rightarrow> votes) \<Rightarrow> u64 \<Rightarrow> u64 \<Rightarrow> bool" where
  "has_majority V D t i \<longleftrightarrow> length V \<le> 1 \<or> (\<exists>Q. majority V Q \<and> (\<forall>v \<in> Q. (t, i) \<in> D v))"

definition tally_ok :: "u64 list \<Rightarrow> (u64 \<Rightarrow> votes) \<Rightarrow> raft \<Rightarrow> bool" where
  "tally_ok V D r \<longleftrightarrow>
     (r_state r = Candidate \<longrightarrow> r_vote r = r_id r \<and> distinct (map fst (r_votes r)) \<and>
        (\<forall>v. (v, True) \<in> set (r_votes r) \<and> v \<noteq> r_id r \<longrightarrow> v \<in> set V \<and> (r_term r, r_id r) \<in> D v)) \<and>
     (r_state r = Leader \<longrightarrow> has_majority V D (r_term r) (r_id r))"

text \<open>A node, the votes in its memory and what it is about to send.\<close>

definition voter_ok :: "u64 list \<Rightarrow> (u64 \<Rightarrow> votes) \<Rightarrow> votes \<Rightarrow> raft \<Rightarrow> bool" where
  "voter_ok V D C r \<longleftrightarrow>
     r_id r \<in> set V \<and> votes_follow C (r_term r) (r_vote r) \<and> backed_votes D (r_id r) C \<and> tally_ok V D r \<and>
     (\<forall>m \<in> set (ballot_msgs r). m_from m = r_id r \<and> backed_msg (D(r_id r := C)) m)"

interpretation majority_quorums: quorum_system "remdups V" "majority V" for V
proof
  fix Q assume "majority V Q"
  then show "Q \<subseteq> set (remdups V) \<and> length (remdups V) < 2 * card Q"
    by (auto simp: majority_def intro: le_less_trans [OF length_remdups_leq])
qed simp

section \<open>More history\<close>

lemma has_majority_mono: "has_majority V D t i \<Longrightarrow> \<forall>v. D v \<subseteq> D' v \<Longrightarrow> has_majority V D' t i"
  unfolding has_majority_def by blast

lemma tally_ok_mono: "tally_ok V D r \<Longrightarrow> \<forall>v. D v \<subseteq> D' v \<Longrightarrow> tally_ok V D' r"
  unfolding tally_ok_def by (blast intro: has_majority_mono)

lemma backed_msg_mono: "backed_msg D m \<Longrightarrow> \<forall>v. D v \<subseteq> D' v \<Longrightarrow> backed_msg D' m"
  unfolding backed_msg_def by blast

lemma backed_votes_mono: "backed_votes D i C \<Longrightarrow> \<forall>v. D v \<subseteq> D' v \<Longrightarrow> backed_votes D' i C"
  unfolding backed_votes_def by blast

lemma voter_ok_mono:
  assumes "voter_ok V D C r" "\<forall>v. D v \<subseteq> D' v"
  shows "voter_ok V D' C r"
proof -
  have "\<forall>v. (D(r_id r := C)) v \<subseteq> (D'(r_id r := C)) v" using assms(2) by simp
  then show ?thesis using assms unfolding voter_ok_def by (blast intro: tally_ok_mono backed_msg_mono backed_votes_mono)
qed

section \<open>Steps\<close>

text \<open>The new vote, if there is one.\<close>

definition votes_after :: "votes \<Rightarrow> raft \<Rightarrow> votes" where
  "votes_after C r = (if r_vote r = 0 then C else insert (r_term r, r_vote r) C)"

lemma votes_after_follow:
  assumes "votes_follow C (r_term r) (r_vote r)" "r_term r \<le> r_term r'"
    "r_term r' = r_term r \<and> r_vote r \<noteq> 0 \<longrightarrow> r_vote r' = r_vote r"
  shows "votes_follow (votes_after C r') (r_term r') (r_vote r')"
proof -
  have "c \<noteq> 0 \<and> k \<le> r_term r' \<and> (k = r_term r' \<longrightarrow> c = r_vote r')" if "(k, c) \<in> C" for k c
    using votes_followD [OF assms(1) that] assms(2,3) by auto
  moreover have "single_valued C" using assms(1) by (simp add: votes_follow_def)
  ultimately show ?thesis by (auto simp: votes_follow_def votes_after_def single_valued_def)
qed

text \<open>What is left to check after a step.\<close>

lemma voter_ok_step:
  assumes ok: "voter_ok V D C r" and r: "r_id r' = r_id r" "r_term r \<le> r_term r'"
      "r_term r' = r_term r \<and> r_vote r \<noteq> 0 \<longrightarrow> r_vote r' = r_vote r"
    and new: "r_vote r' \<notin> {0, r_id r} \<Longrightarrow> (r_term r', r_vote r') \<noteq> (r_term r, r_vote r) \<Longrightarrow> (r_term r', r_vote r') \<in> D (r_vote r')"
    and tally: "tally_ok V D r'"
    and msgs: "ballot_msgs r' = ballot_msgs r @ ms"
      "\<And>m. m \<in> set ms \<Longrightarrow> m_from m = r_id r \<and> backed_msg (D(r_id r := votes_after C r')) m"
  shows "voter_ok V D (votes_after C r') r'"
proof -
  note q = ok [unfolded voter_ok_def]
  have sub: "\<forall>v. (D(r_id r := C)) v \<subseteq> (D(r_id r := votes_after C r')) v" by (auto simp: votes_after_def)
  have "(k, c) \<in> D c" if "(k, c) \<in> votes_after C r'" "c \<noteq> r_id r" for k c
  proof (cases "(k, c) \<in> C")
    case True
    then show ?thesis using q that(2) by (auto simp: backed_votes_def)
  next
    case False
    then have v: "r_vote r' \<noteq> 0" "k = r_term r'" "c = r_vote r'" using that(1) by (auto simp: votes_after_def split: if_split_asm)
    have "(r_term r', r_vote r') \<noteq> (r_term r, r_vote r)" using False q v unfolding votes_follow_def by (metis prod.inject)
    then show ?thesis using new v that(2) by simp
  qed
  then have "backed_votes D (r_id r') (votes_after C r')" using r(1) by (auto simp: backed_votes_def)
  moreover have "\<forall>m \<in> set (ballot_msgs r'). m_from m = r_id r' \<and> backed_msg (D(r_id r' := votes_after C r')) m"
    unfolding msgs(1) r(1) set_append ball_Un using q msgs(2) backed_msg_mono [OF _ sub] by blast
  ultimately show ?thesis using q r tally votes_after_follow [of C r r'] by (simp add: voter_ok_def)
qed

lemma voter_ok_down:
  assumes "voter_ok V D C r" "steps_down r r'" "r_term r \<le> r_term r'"
  shows "voter_ok V D (votes_after C r') r'"
  using assms by (intro voter_ok_step [where ms = "[]" and r = r]) (auto simp: steps_down_def tally_ok_def)

lemma votes_after_same: "voter_ok V D C r \<Longrightarrow> votes_after C r = C"
  by (auto simp: voter_ok_def votes_follow_def votes_after_def)

text \<open>The members that count are the voters of the cluster, unless the node is a follower.\<close>

definition knows_voters :: "u64 list \<Rightarrow> raft \<Rightarrow> bool" where
  "knows_voters V r \<longleftrightarrow> r_state r \<noteq> Follower \<longrightarrow> map fst (r_prs r) = V"

lemma knows_quorum:
  assumes "knows_voters V r" "r_state r \<noteq> Follower" "length V \<le> u32_max"
  shows "raft_quorum r = length V div 2 + 1"
proof -
  have "length (r_prs r) = length V" using assms(1,2) unfolding knows_voters_def by (metis length_map)
  then show ?thesis using raft_quorum_majority [of r] assms(3) by simp
qed

lemma add64_one_neq: "add64 x 1 \<noteq> x"
proof
  assume eq: "add64 x 1 = x"
  then have "x < u64_max + 1" unfolding add64_def by (metis mod_less_divisor zero_less_Suc Suc_eq_plus1)
  with eq show False by (cases "x = u64_max") (auto simp: add64_def u64_max_def)
qed

lemma own_step_ok:
  assumes ok: "voter_ok V D C r" and step: "own_step r r'" and g: "r_term r \<le> r_term r'"
    and V: "knows_voters V r'" "length V \<le> u32_max" "0 \<notin> set V"
  shows "voter_ok V D (votes_after C r') r'"
proof -
  note q = ok [unfolded voter_ok_def]
  have "r_id r \<in> set V" using q by simp
  then have id: "r_id r \<noteq> 0" using V(3) by metis
  have up: "r_term r < r_term r'" if "r_term r' = add64 (r_term r) 1"
    using g that add64_one_neq [of "r_term r"] by (simp add: le_less)
  consider "ballot r' = ballot r" | "steps_down r r'" | "pre_campaigns r r'" | "campaigns r r'" | "leads_alone r r'"
    using step by (auto simp: own_step_def)
  then show ?thesis
  proof cases
    case 1
    then show ?thesis using q ballotD [OF 1] by (intro voter_ok_step [OF ok, where ms = "[]"]) (simp_all add: tally_ok_def)
  next
    case 2
    then show ?thesis by (rule voter_ok_down [OF ok _ g])
  next
    case 3
    then show ?thesis by (intro voter_ok_step [OF ok, where ms = "[]"]) (simp_all add: pre_campaigns_def tally_ok_def)
  next
    case 4
    then obtain ms where ms: "ballot_msgs r' = ballot_msgs r @ ms" "\<forall>m \<in> set ms. m_type m = MsgVote \<and> m_from m = r_id r \<and> m_term m = r_term r'"
      unfolding campaigns_def by blast
    have c: "r_id r' = r_id r" "r_state r' = Candidate" "r_term r' = add64 (r_term r) 1" "r_vote r' = r_id r" "r_votes r' = [(r_id r, True)]"
      using 4 by (simp_all add: campaigns_def)
    show ?thesis
    proof (rule voter_ok_step [OF ok c(1) g _ _ _ ms(1)])
      fix m assume "m \<in> set ms"
      then show "m_from m = r_id r \<and> backed_msg (D(r_id r := votes_after C r')) m"
        using ms(2) c(4) id by (simp add: backed_msg_def votes_after_def)
    qed (use c up in \<open>simp_all add: tally_ok_def\<close>)
  next
    case 5
    then have l: "r_id r' = r_id r" "r_state r' = Leader" "r_term r' = add64 (r_term r) 1" "r_vote r' = r_id r"
      "ballot_msgs r' = ballot_msgs r" "raft_quorum r' = 1" by (simp_all add: leads_alone_def)
    have "length V \<le> 1" using knows_quorum [OF V(1) _ V(2)] l by simp
    then have "has_majority V D (r_term r') (r_id r')" by (simp add: has_majority_def)
    then show ?thesis using l up by (intro voter_ok_step [OF ok, where ms = "[]"]) (simp_all add: tally_ok_def)
  qed
qed

text \<open>Counting a granted vote: the grants are distinct voters with a vote for this node.\<close>

lemma recorded_True:
  assumes "(v, True) \<in> set (recorded i b r)"
  shows "(v, True) \<in> set (r_votes r) \<or> v = i \<and> b"
proof -
  have "set (AList.update k x al) \<subseteq> insert (k, x) (set al)" for k x and al :: "(u64 \<times> bool) list"
    by (induction al) auto
  then show ?thesis using assms by (auto simp: recorded_def split: if_split_asm)
qed

lemma recorded_distinct: "distinct (map fst (r_votes r)) \<Longrightarrow> distinct (map fst (recorded i b r))"
  by (simp add: recorded_def distinct_update)

lemma card_granted:
  assumes "distinct (map fst xs)"
  shows "card {v. (v, True) \<in> set xs} = length (filter snd xs)"
proof -
  have "{v. (v, True) \<in> set xs} = set (map fst (filter snd xs))" by force
  moreover have "distinct (map fst (filter snd xs))" using assms by (rule distinct_map_filter)
  ultimately show ?thesis by (metis distinct_card length_map)
qed

lemma counted_ok:
  assumes ok: "voter_ok V D C r" and st: "r_state r = Candidate" and m: "m_to msg = r_id r" "backed_msg D msg" "ballot_type (m_type msg) \<longrightarrow> m_from msg \<in> set V"
    and ty: "m_type msg \<in> {MsgVoteResp, MsgPreVoteResp}" "m_type msg = MsgPreVoteResp \<longrightarrow> m_reject msg"
    and t: "m_type msg = MsgVoteResp \<longrightarrow> m_term msg \<in> {0, r_term r}"
    and v: "(v, True) \<in> set (recorded (m_from msg) (\<not> m_reject msg) r)" "v \<noteq> r_id r"
  shows "v \<in> set V \<and> (r_term r, r_id r) \<in> D v"
proof -
  have "(v, True) \<in> set (r_votes r) \<or> v = m_from msg \<and> \<not> m_reject msg" using recorded_True [OF v(1)] by simp
  then show ?thesis
  proof
    assume "(v, True) \<in> set (r_votes r)"
    then show ?thesis using ok st v(2) by (simp add: voter_ok_def tally_ok_def)
  next
    assume "v = m_from msg \<and> \<not> m_reject msg"
    then show ?thesis using m ty t by (auto simp: backed_msg_def ballot_type_def)
  qed
qed

lemma elected_majority:
  assumes ok: "voter_ok V D C r" and st: "r_state r = Candidate" and m: "m_to msg = r_id r" "backed_msg D msg" "ballot_type (m_type msg) \<longrightarrow> m_from msg \<in> set V"
    and ty: "m_type msg \<in> {MsgVoteResp, MsgPreVoteResp}" "m_type msg = MsgPreVoteResp \<longrightarrow> m_reject msg"
    and t: "m_type msg = MsgVoteResp \<longrightarrow> m_term msg \<in> {0, r_term r}"
    and w: "wins msg r" and V: "knows_voters V r" "length V \<le> u32_max" and D: "\<And>v. v \<in> set V \<Longrightarrow> backed_votes D v (D v)"
  shows "has_majority V D (r_term r) (r_id r)"
proof (cases "length V \<le> 1")
  case False
  let ?xs = "recorded (m_from msg) (\<not> m_reject msg) r"
  let ?Q = "{v. (v, True) \<in> set ?xs}"
  note q = ok [unfolded voter_ok_def]
  have "raft_quorum r = length V div 2 + 1" using knows_quorum [OF V(1) _ V(2)] st by simp
  then have "length V div 2 + 1 = cast32 (length (filter snd ?xs))" using w by (simp add: wins_def)
  moreover have "cast32 n \<le> n" for n by (simp add: cast32_def)
  moreover have "card ?Q = length (filter snd ?xs)"
    using q st by (intro card_granted recorded_distinct) (simp add: tally_ok_def)
  ultimately have card: "length V div 2 + 1 \<le> card ?Q" by (metis)
  have other: "v \<in> set V \<and> (r_term r, r_id r) \<in> D v" if "v \<in> ?Q" "v \<noteq> r_id r" for v
    using counted_ok [OF ok st m ty t] that by simp
  have "\<not> ?Q \<subseteq> {r_id r}" using card card_mono [of "{r_id r}" ?Q] False by auto
  then obtain v where v: "v \<in> ?Q" "v \<noteq> r_id r" by blast
  then have "(r_term r, r_id r) \<in> D (r_id r)"
    using other [OF v] D [of v] by (auto simp: backed_votes_def)
  then have all: "v \<in> set V \<and> (r_term r, r_id r) \<in> D v" if "v \<in> ?Q" for v
    using other [OF that] q by (cases "v = r_id r") simp_all
  have "length V < 2 * card ?Q" using card by presburger
  then have "majority V ?Q" using all unfolding majority_def by blast
  then show ?thesis using all unfolding has_majority_def by blast
qed (simp add: has_majority_def)

section \<open>Messages from the network\<close>

lemma answer_ok:
  assumes ok: "voter_ok V D C r" and a: "answers msg grant r r'" and m: "backed_msg D msg" "m_from msg \<in> set V"
    and t: "m_term msg \<in> {0, r_term r}" and V: "0 \<notin> set V"
  shows "voter_ok V D (votes_after C r') r'"
proof -
  note q = ok [unfolded voter_ok_def]
  obtain a where a': "m_type msg = MsgVote" "r_id r' = r_id r" "r_state r' = r_state r" "r_term r' = r_term r" "r_votes r' = r_votes r"
    "if grant then r_vote r' = m_from msg \<and> (r_vote r = m_from msg \<or> r_vote r = 0) else r_vote r' = r_vote r"
    "ballot_msgs r' = ballot_msgs r @ [a]" "m_type a = MsgVoteResp" "m_from a = r_id r" "m_reject a \<longleftrightarrow> \<not> grant"
    "grant \<longrightarrow> m_to a = m_from msg \<and> m_term a = m_term msg \<and> m_term msg \<noteq> 0"
    using a unfolding answers_def by blast
  have nz: "m_from msg \<noteq> 0" "r_id r \<noteq> 0" using m(2) q V by metis+
  have same: "r_vote r \<noteq> 0 \<longrightarrow> r_vote r' = r_vote r" using a'(6) by (auto split: if_split_asm)
  have req: "(m_term msg, m_from msg) \<in> D (m_from msg)" using m(1) a'(1) by (simp add: backed_msg_def)
  show ?thesis
  proof (rule voter_ok_step [OF ok a'(2) _ _ _ _ a'(7)])
    show "tally_ok V D r'" using q nz(2) same a'(2-5) by (auto simp: tally_ok_def)
    show "(r_term r', r_vote r') \<in> D (r_vote r')" if "r_vote r' \<notin> {0, r_id r}" "(r_term r', r_vote r') \<noteq> (r_term r, r_vote r)"
      using that a'(4,6,11) req t by (auto split: if_split_asm)
    fix b assume "b \<in> set [a]"
    then show "m_from b = r_id r \<and> backed_msg (D(r_id r := votes_after C r')) b"
      using a'(4,6,8-11) t nz by (auto simp: backed_msg_def votes_after_def split: if_split_asm)
  qed (use a'(4) same in simp_all)
qed

text \<open>
  A message of another node arrives. A candidate does not get the granted answer to a request for a
  pre-vote, which it would count like a vote.
\<close>

definition stale_pre_vote :: "message \<Rightarrow> raft \<Rightarrow> bool" where
  "stale_pre_vote msg r \<longleftrightarrow> r_state r = Candidate \<and> m_type msg = MsgPreVoteResp \<and> \<not> m_reject msg"

lemma receive_ok:
  assumes ok: "voter_ok V D C r" and wf: "raft_wf r" "step_ok msg r" and res: "raft_step msg r = Inr (s, r')"
    and m: "m_to msg = r_id r" "backed_msg D msg" "ballot_type (m_type msg) \<longrightarrow> m_from msg \<in> set V" "\<not> stale_pre_vote msg r"
    and V: "knows_voters V r" "knows_voters V r'" "length V \<le> u32_max" "0 \<notin> set V" and D: "\<And>v. v \<in> set V \<Longrightarrow> backed_votes D v (D v)"
  shows "\<exists>C'. C \<subseteq> C' \<and> voter_ok V D C' r'"
proof -
  obtain q where q: "q = r \<or> steps_down r q \<and> r_term r \<le> r_term q" "r_term q \<le> r_term r'" "ballot_step msg q r'"
    "m_type msg \<in> {MsgVote, MsgVoteResp} \<and> ballot r' \<noteq> ballot q \<longrightarrow> m_term msg \<in> {0, r_term q}"
    using raft_step_ballot [OF wf res] by blast
  have sub: "B \<subseteq> votes_after B p" for B p by (auto simp: votes_after_def)
  obtain B where B: "C \<subseteq> B" "voter_ok V D B q" using q(1) ok voter_ok_down [OF ok, of q] sub by blast
  have here: "q = r" if "r_state q = Candidate" using q(1) that by (auto simp: steps_down_def)
  have plain: "\<not> own_step q r' \<Longrightarrow> ballot r' \<noteq> ballot q" by (auto simp: own_step_def)
  have "voter_ok V D (votes_after B r') r'"
  proof (cases "own_step q r'")
    case True
    then show ?thesis by (rule own_step_ok [OF B(2) _ q(2) V(2,3,4)])
  next
    case False
    note t = q(4) [rule_format, OF conjI, OF _ plain [OF False]]
    consider "counts msg q r'" | "elected msg q r'" | grant where "answers msg grant q r'"
      using q(3) False by (auto simp: ballot_step_def)
    then show ?thesis
    proof cases
      case 1
      then have c: "r_state q = Candidate" "m_type msg \<in> {MsgVoteResp, MsgPreVoteResp}" "r_state r' = Candidate" "r_id r' = r_id q"
        "r_term r' = r_term q" "r_vote r' = r_vote q" "ballot_msgs r' = ballot_msgs q" "r_votes r' = recorded (m_from msg) (\<not> m_reject msg) q"
        by (simp_all add: counts_def)
      note eq = here [OF c(1)]
      have ty: "m_type msg = MsgPreVoteResp \<longrightarrow> m_reject msg" using m(4) c(1) eq by (simp add: stale_pre_vote_def)
      have "tally_ok V D r'"
        using counted_ok [OF B(2) c(1) _ m(2,3) c(2) ty] B(2) m(1) t c recorded_distinct [of q] eq
        by (auto simp: tally_ok_def voter_ok_def)
      then show ?thesis using c by (intro voter_ok_step [OF B(2), where ms = "[]"]) simp_all
    next
      case 2
      then have c: "r_state q = Candidate" "m_type msg \<in> {MsgVoteResp, MsgPreVoteResp}" "r_state r' = Leader" "r_id r' = r_id q"
        "r_term r' = r_term q" "r_vote r' = r_vote q" "ballot_msgs r' = ballot_msgs q" "wins msg q"
        by (simp_all add: elected_def)
      note eq = here [OF c(1)]
      have ty: "m_type msg = MsgPreVoteResp \<longrightarrow> m_reject msg" using m(4) c(1) eq by (simp add: stale_pre_vote_def)
      have "has_majority V D (r_term q) (r_id q)"
        using elected_majority [OF B(2) c(1) _ m(2,3) c(2) ty _ c(8) _ V(3) D] m(1) V(1) t eq by auto
      then show ?thesis using c by (intro voter_ok_step [OF B(2), where ms = "[]"]) (simp_all add: tally_ok_def)
    next
      case (3 grant)
      then have "m_type msg = MsgVote" by (simp add: answers_def)
      then show ?thesis using answer_ok [OF B(2) 3 m(2) _ _ V(4)] t m(3) by (simp add: ballot_type_def)
    qed
  qed
  then show ?thesis using B(1) sub by blast
qed

end
