(* ===== verification/Cluster.thy ===== *)
theory Cluster
  imports Server_Crash Votes
begin

text \<open>
  A cluster of servers: each is a server with its disk as in \<open>Server_Crash\<close>, all send into one
  network, which may lose, reorder and repeat messages. Servers crash and restart at any time. The
  invariant says that the votes a node has to stand by are on its disk before anything that relies
  on them is sent; it follows that no term has two leaders.
\<close>

section \<open>Rounds and the ballot\<close>

text \<open>What a part of a round keeps: the ballot of the node and the messages sent so far.\<close>

definition server_ballot :: "'c raft_server \<Rightarrow> (u64 \<times> raft_state \<times> u64 \<times> u64 \<times> (u64 \<times> bool) list \<times> message list) \<times> message list" where
  "server_ballot s = (ballot (rn_raft (sv_node s)), sv_sent s)"

lemma server_ballot_upd [simp]:
  "server_ballot (s\<lparr>sv_wal := w\<rparr>) = server_ballot s" "server_ballot (s\<lparr>sv_snap_dir := d\<rparr>) = server_ballot s"
  "server_ballot (s\<lparr>sv_store := st\<rparr>) = server_ballot s" "server_ballot (s\<lparr>sv_conf_state := cs\<rparr>) = server_ballot s"
  "server_ballot (s\<lparr>sv_snapshot_index := i\<rparr>) = server_ballot s" "server_ballot (s\<lparr>sv_applied_index := i\<rparr>) = server_ballot s"
  "server_ballot (s\<lparr>sv_answers := out\<rparr>) = server_ballot s" "server_ballot (s\<lparr>sv_peers := ps\<rparr>) = server_ballot s"
  by (simp_all add: server_ballot_def)

lemma sv_set_storage_ballot [simp]: "server_ballot (sv_set_storage ms s) = server_ballot s"
  by (simp add: server_ballot_def sv_set_storage_def node_set_storage_def)

lemma server_save_snap_ballot: "server_save_snap L io snap s = Inr (st, s') \<Longrightarrow> server_ballot s' = server_ballot s"
  unfolding server_save_snap_def Let_def case_prod_beta by (auto elim!: bindr_Inr_E split: if_split_asm)

lemma publish_snapshot_ballot: "publish_snapshot L snap s = Inr s' \<Longrightarrow> server_ballot s' = server_ballot s"
  unfolding publish_snapshot_def Let_def case_prod_beta by (auto elim!: bindr_Inr_E split: if_split_asm)

lemma server_ready_snapshot_ballot: "server_ready_snapshot L io rd s = Inr s' \<Longrightarrow> server_ballot s' = server_ballot s"
  unfolding server_ready_snapshot_def
  by (auto elim!: bindr_pair_E dest!: server_save_snap_ballot publish_snapshot_ballot split: if_split_asm)

lemma maybe_trigger_snapshot_ballot: "maybe_trigger_snapshot L io s = Inr s' \<Longrightarrow> server_ballot s' = server_ballot s"
  unfolding maybe_trigger_snapshot_def Let_def case_prod_beta
  by (auto elim!: bindr_Inr_E dest!: server_save_snap_ballot split: if_split_asm)

lemma publish_entries_ballot: "publish_entries L es s = Inr (b, s') \<Longrightarrow> server_ballot s' = server_ballot s"
proof (induction es arbitrary: s)
  case (Cons e es)
  have n: "server_ballot s1 = server_ballot s" if "publish_normal L e s = Inr s1" for s1
    using that by (auto simp: publish_normal_def elim!: bindr_pair_E split: if_split_asm)
  have c: "server_ballot (s\<lparr>sv_node := n\<rparr>) = server_ballot s" if "node_apply_conf_change cc (sv_node s) = Inr (cs, n)" for cc cs n
    using node_apply_conf_change_ballot [OF that] by (simp add: server_ballot_def)
  show ?case
    using Cons.prems Cons.IH n c
    by (auto simp: Let_def elim!: bindr_Inr_E bindr_pair_E split: entry_type.split_asm option.split_asm if_split_asm)
qed simp

lemma server_publish_ready_ballot: "server_publish_ready L rd s = Inr s' \<Longrightarrow> server_ballot s' = server_ballot s"
  unfolding server_publish_ready_def
  by (auto elim!: bindr_Inr_E bindr_pair_E dest!: publish_entries_ballot split: if_split_asm)

lemma node_advance_ballot: "node_advance rd n = Inr n' \<Longrightarrow> ballot (rn_raft n') = ballot (rn_raft n)"
  unfolding node_advance_def Let_def by (auto elim!: bindr_Inr_E split: option.split_asm if_split_asm)

lemma node_ready_ballot:
  assumes "node_ready n = Inr (rd, n')"
  shows "ballot (rn_raft n') = ballot ((rn_raft n)\<lparr>r_msgs := []\<rparr>)" "rd_messages rd = r_msgs (rn_raft n)"
  using assms unfolding node_ready_def new_ready_def raft_reduce_uncommitted_size_def Let_def
  by (auto elim!: bindr_Inr_E bindr_pair_E)

text \<open>A round hands all messages over and leaves no vote message behind.\<close>

lemma server_round_ballot:
  assumes "server_round L io s = Inr (b, s')"
  shows "ballot (rn_raft (sv_node s')) = ballot ((rn_raft (sv_node s))\<lparr>r_msgs := []\<rparr>)"
    "set (sv_sent s') \<subseteq> set (sv_sent s) \<union> set (r_msgs (rn_raft (sv_node s)))"
proof -
  obtain rd n where rd: "node_ready (sv_node s) = Inr (rd, n)"
    using assms unfolding server_round_def by (auto elim!: bindr_pair_E)
  note b = node_ready_ballot [OF rd]
  have "ballot (rn_raft (sv_node s')) = ballot (rn_raft n) \<and> set (sv_sent s') \<subseteq> set (sv_sent s) \<union> set (rd_messages rd)"
  proof (cases "ready_contains_updates rd")
    case False
    then show ?thesis using assms by (auto simp: server_round_def rd)
  next
    case True
    let ?s0 = "s\<lparr>sv_node := n\<rparr>"
    obtain w s1 s2 s3 s4 n' where
      s1: "server_ready_snapshot L (fst io) rd (?s0\<lparr>sv_wal := w\<rparr>) = Inr s1"
      and s2: "(if rd_entries rd \<noteq> [] then
                bindr (storage_append (rd_entries rd) (sv_storage s1)) (\<lambda>(_, ms). Inr (sv_set_storage ms s1))
              else Inr s1) = Inr s2"
      and s3: "server_publish_ready L rd (if rd_messages rd \<noteq> [] then s2\<lparr>sv_sent := sv_sent s2 @ rd_messages rd\<rparr> else s2) = Inr s3"
      and s4: "maybe_trigger_snapshot L (snd io) s3 = Inr s4" "node_advance rd (sv_node s4) = Inr n'" "s' = s4\<lparr>sv_node := n'\<rparr>"
      using assms True unfolding server_round_def rd Let_def by (auto elim!: bindr_Inr_E bindr_pair_E)
    have "server_ballot s1 = server_ballot ?s0" using server_ready_snapshot_ballot [OF s1] by simp
    moreover have "server_ballot s2 = server_ballot s1" using s2 by (auto elim!: bindr_pair_E split: if_split_asm)
    moreover have "server_ballot s4 = server_ballot (if rd_messages rd \<noteq> [] then s2\<lparr>sv_sent := sv_sent s2 @ rd_messages rd\<rparr> else s2)"
      using server_publish_ready_ballot [OF s3] maybe_trigger_snapshot_ballot [OF s4(1)] by simp
    ultimately show ?thesis
      using node_advance_ballot [OF s4(2)] s4(3) by (auto simp: server_ballot_def split: if_split_asm)
  qed
  with b show "ballot (rn_raft (sv_node s')) = ballot ((rn_raft (sv_node s))\<lparr>r_msgs := []\<rparr>)"
    "set (sv_sent s') \<subseteq> set (sv_sent s) \<union> set (r_msgs (rn_raft (sv_node s)))"
    by simp_all
qed

section \<open>Starting up\<close>

text \<open>A server that starts is a follower that has neither counted nor sent anything.\<close>

definition at_start :: "u64 \<Rightarrow> raft \<Rightarrow> bool" where
  "at_start i r \<longleftrightarrow> r_id r = i \<and> r_state r = Follower \<and> ballot_msgs r = []"

lemma at_start_cong: "ballot r' = ballot r \<Longrightarrow> at_start i r' = at_start i r"
  by (auto simp: at_start_def dest: ballotD)

lemma new_raft_start:
  assumes "new_raft c draws = Inr r"
  shows "at_start (c_id c) r"
proof -
  obtain st hs cs where init: "storage_initial_state (c_storage c) = (st, hs, cs)" by (rule prod_cases3)
  from assms show ?thesis
    unfolding new_raft_def Let_def init prod.case
  proof (elim bindr_pair_E bindr_Inr_E if_Inl_E)
    fix l peers learners and r1 r2 r3 r4 :: raft
    let ?r3 = "if c_applied c > 0 then r3\<lparr>r_log := raft_log_applied_to (c_applied c) (r_log r3)\<rparr> else r3"
    assume r1: "for_each raft_init_peer peers (raft_initial c draws l) = Inr r1" and r2: "for_each raft_init_learner learners r1 = Inr r2"
      and r3: "(if \<not> hard_state_is_empty hs then raft_load_state hs r2 else Inr r2) = Inr r3"
      and r4: "raft_become_follower (r_term ?r3) 0 ?r3 = Inr r4" "Inr r4 = (Inr r :: raft res)"
    have "ballot r1 = ballot (raft_initial c draws l)" by (rule for_each_ballot [OF r1]) (auto simp: raft_init_peer_def)
    moreover have "ballot r2 = ballot r1"
      by (rule for_each_ballot [OF r2]) (auto simp: raft_init_learner_def split: if_split_asm)
    ultimately have "r_id r2 = c_id c" "ballot_msgs r2 = []" by (simp_all add: raft_initial_def ballot_def ballot_msgs_def)
    moreover have "r_id r3 = r_id r2" "ballot_msgs r3 = ballot_msgs r2"
      using r3 by (auto simp: raft_load_state_def ballot_msgs_def elim!: bindr_Inr_E split: if_split_asm)
    ultimately show ?thesis
      using raft_become_follower_ballot [OF r4(1)] r4(2) by (simp add: at_start_def steps_down_def ballot_msgs_def)
  qed
qed

lemma start_node_start:
  assumes "start_node ser c draws ps = Inr n"
  shows "at_start (c_id c) (rn_raft n)"
  using assms unfolding start_node_def
proof (elim bindr_pair_E bindr_Inr_E if_Inl_E)
  fix r li r'
  assume r: "new_raft c draws = Inr r" "Inr \<lparr>rn_raft = r', rn_prev_soft_state = raft_soft_state r',
      rn_prev_hard_state = (if li = 0 then new_hard_state else raft_hard_state r')\<rparr> = (Inr n :: raw_node res)"
    and r': "(if li = 0 then
            bindr (raft_become_follower 1 0 r) (\<lambda>r.
            let entries = bootstrap_entries ser 0 ps in
            bindr (raft_log_append entries (r_log r)) (\<lambda>(_, l).
            for_each raft_add_node (map pc_id ps) (r\<lparr>r_log := l\<lparr>rl_committed := length entries\<rparr>\<rparr>)))
          else Inr r) = Inr r'"
  have n: "rn_raft n = r'" using r(2) by auto
  note a = new_raft_start [OF r(1)]
  show ?thesis
  proof (cases "li = 0")
    case False
    then show ?thesis using r' n a by simp
  next
    case True
    then obtain r1 l where r1: "raft_become_follower 1 0 r = Inr r1" "for_each raft_add_node (map pc_id ps) (r1\<lparr>r_log := l\<rparr>) = Inr r'"
      using r' by (auto simp: Let_def elim!: bindr_Inr_E bindr_pair_E)
    have "ballot r' = ballot (r1\<lparr>r_log := l\<rparr>)"
      by (rule for_each_ballot [OF r1(2)]) (auto simp: raft_add_node_def dest: raft_add_node_or_learner_ballot)
    then have "at_start (c_id c) r' = at_start (c_id c) r1" by (intro at_start_cong) simp
    then show ?thesis using raft_become_follower_ballot [OF r1(1)] a n by (simp add: at_start_def steps_down_def)
  qed
qed

lemma server_main_start:
  assumes "server_main L ext tell io N i cluster port draws d = Inr s"
  shows "at_start i (rn_raft (sv_node s))" "sv_sent s = []"
proof -
  obtain rv n srv where c: "server_node L i (length (split_on CHR '','' cluster)) draws (dk_wal d \<noteq> None) (rv_storage rv) = Inr n"
    and s: "server_schedule L N i port srv (server_peers i (split_on CHR '','' cluster)) rv n = Inr s"
    using assms unfolding server_main_def server_construct_def Let_def
    by (auto elim!: bindr_Inr_E bindr_pair_E split: if_split_asm)
  have sn: "sv_node s = n" "sv_sent s = []"
    using s by (auto simp: server_schedule_def Let_def elim!: bindr_Inr_E)
  obtain st cf where cf: "config_validate (server_config i (rv_storage rv)) = (st, cf)" by fastforce
  then have i: "c_id cf = i" by (auto simp: config_validate_def server_config_def Let_def split: if_split_asm)
  have "at_start i (rn_raft n)"
    using c start_node_start [of _ cf draws _ n] new_raft_start [of cf draws] i
    by (auto simp: server_node_def cf restart_node_def elim!: bindr_Inr_E bindr_pair_E split: if_split_asm)
  then show "at_start i (rn_raft (sv_node s))" "sv_sent s = []" using sn by simp_all
qed

section \<open>The cluster\<close>

record 'c cluster =
  cl_servers :: "u64 \<Rightarrow> 'c raft_server"
  cl_net :: "message set"

abbreviation cl_raft :: "'c cluster \<Rightarrow> u64 \<Rightarrow> raft" where
  "cl_raft c i \<equiv> rn_raft (sv_node (cl_servers c i))"

text \<open>
  The steps of server \<open>i\<close>. It takes a message out of the network, does something on its own, runs a
  round, which puts its messages into the network, or crashes and restarts. Messages stay in the
  network, so they may be delivered late, repeatedly or never. Two restrictions: who campaigns or
  leads knows all voters, and no candidate receives a granted pre-vote.
\<close>

definition set_node :: "u64 \<Rightarrow> raw_node \<Rightarrow> 'c cluster \<Rightarrow> 'c cluster" where
  "set_node i n c = c\<lparr>cl_servers := (cl_servers c)(i := (cl_servers c i)\<lparr>sv_node := n\<rparr>)\<rparr>"

inductive cluster_step ::
  "server_lib \<Rightarrow> (string \<Rightarrow> string) \<Rightarrow> (byte list \<Rightarrow> int) \<Rightarrow> u64 list \<Rightarrow> 'c cluster \<Rightarrow> 'c cluster \<Rightarrow> bool" for L ext tell V where
  Local: "i \<in> set V \<Longrightarrow> node_local (sv_node (cl_servers c i)) n \<Longrightarrow> knows_voters V (rn_raft n) \<Longrightarrow>
    cluster_step L ext tell V c (set_node i n c)"
| Receive: "i \<in> set V \<Longrightarrow> m \<in> cl_net c \<Longrightarrow> m_to m = i \<Longrightarrow> \<not> stale_pre_vote m (cl_raft c i) \<Longrightarrow> step_ok m (cl_raft c i) \<Longrightarrow>
    node_step m (sv_node (cl_servers c i)) = Inr (st, n) \<Longrightarrow> knows_voters V (rn_raft n) \<Longrightarrow>
    cluster_step L ext tell V c (set_node i n c)"
| Work: "i \<in> set V \<Longrightarrow> server_work L ext tell (cl_servers c i) s \<Longrightarrow> r_id (rn_raft (sv_node s)) = i \<Longrightarrow>
    knows_voters V (rn_raft (sv_node s)) \<Longrightarrow>
    cluster_step L ext tell V c (c\<lparr>cl_servers := (cl_servers c)(i := s), cl_net := cl_net c \<union> set (sv_sent s)\<rparr>)"

section \<open>The invariant of the cluster\<close>

text \<open>
  One server: what its memory knows of votes is at least what it stands by, and this is what its
  disk says.
\<close>

definition server_ok :: "server_lib \<Rightarrow> u64 list \<Rightarrow> (u64 \<Rightarrow> votes) \<Rightarrow> votes \<Rightarrow> message set \<Rightarrow> u64 \<Rightarrow> 'c raft_server \<Rightarrow> bool" where
  "server_ok L V D C net i s \<longleftrightarrow>
     (let r = rn_raft (sv_node s) in
      r_id r = i \<and> voter_ok V D C r \<and> D i \<subseteq> C \<and> knows_voters V r \<and> set (sv_sent s) \<subseteq> net \<and>
      (\<exists>bs rs late. server_durable L bs rs late s \<and> votes_follow (D i) (hs_term (wal_hs rs)) (hs_vote (wal_hs rs))))"

definition net_ok :: "u64 list \<Rightarrow> (u64 \<Rightarrow> votes) \<Rightarrow> message set \<Rightarrow> bool" where
  "net_ok V D net \<longleftrightarrow> (\<forall>m \<in> net. ballot_type (m_type m) \<longrightarrow> m_from m \<in> set V \<and> backed_msg D m)"

definition cluster_ok :: "server_lib \<Rightarrow> u64 list \<Rightarrow> (u64 \<Rightarrow> votes) \<Rightarrow> (u64 \<Rightarrow> votes) \<Rightarrow> 'c cluster \<Rightarrow> bool" where
  "cluster_ok L V D U c \<longleftrightarrow>
     net_ok V D (cl_net c) \<and> (\<forall>i \<in> set V. server_ok L V D (U i) (cl_net c) i (cl_servers c i))"

lemma server_okD:
  assumes "server_ok L V D C net i s"
  shows "r_id (rn_raft (sv_node s)) = i" "voter_ok V D C (rn_raft (sv_node s))" "D i \<subseteq> C" "knows_voters V (rn_raft (sv_node s))"
    "set (sv_sent s) \<subseteq> net"
  using assms by (simp_all add: server_ok_def Let_def)

lemma server_ok_mono:
  assumes "server_ok L V D C net i s" "\<forall>v. D v \<subseteq> D' v" "D' i = D i" "net \<subseteq> net'"
  shows "server_ok L V D' C net' i s"
  using assms voter_ok_mono [OF server_okD(2) [OF assms(1)] assms(2)] by (auto simp: server_ok_def Let_def)

lemma cluster_ok_upd:
  assumes inv: "cluster_ok L V D U c" and s: "server_ok L V D' C net' i s"
    and D: "\<forall>v. D v \<subseteq> D' v" "\<And>v. v \<noteq> i \<Longrightarrow> D' v = D v" and net: "cl_net c \<subseteq> net'" "net_ok V D' (net' - cl_net c)"
  shows "cluster_ok L V D' (U(i := C)) (c\<lparr>cl_servers := (cl_servers c)(i := s), cl_net := net'\<rparr>)"
proof -
  have "net_ok V D' net'"
    using inv net backed_msg_mono [OF _ D(1)] unfolding cluster_ok_def net_ok_def by blast
  moreover have "server_ok L V D' (U j) net' j (cl_servers c j)" if "j \<in> set V" "j \<noteq> i" for j
  proof -
    have "server_ok L V D (U j) (cl_net c) j (cl_servers c j)" using inv that(1) by (simp add: cluster_ok_def)
    then show ?thesis by (rule server_ok_mono [OF _ D(1) D(2) [OF that(2)] net(1)])
  qed
  ultimately show ?thesis using s by (simp add: cluster_ok_def)
qed

lemma cluster_backed:
  assumes "cluster_ok L V D U c" "v \<in> set V"
  shows "backed_votes D v (D v)"
proof -
  have "server_ok L V D (U v) (cl_net c) v (cl_servers c v)" using assms by (simp add: cluster_ok_def)
  note o = server_okD [OF this]
  have "backed_votes D v (U v)" using o(1,2) by (simp add: voter_ok_def)
  then show ?thesis using o(3) by (auto simp: backed_votes_def)
qed

text \<open>A call of the raft node: the disk stays, the memory may know one more vote.\<close>

lemma cluster_ok_call:
  assumes inv: "cluster_ok L V D U c" and i: "i \<in> set V" and call: "node_call (sv_node (cl_servers c i)) n"
    and C: "U i \<subseteq> C" "voter_ok V D C (rn_raft n)" and k: "knows_voters V (rn_raft n)"
  shows "cluster_ok L V D (U(i := C)) (set_node i n c)"
proof -
  let ?s = "cl_servers c i"
  have ok: "server_ok L V D (U i) (cl_net c) i ?s" using inv i by (simp add: cluster_ok_def)
  then obtain bs rs late where d: "server_durable L bs rs late ?s" "votes_follow (D i) (hs_term (wal_hs rs)) (hs_vote (wal_hs rs))"
    by (auto simp: server_ok_def Let_def)
  note n = durable_node_call [OF d(1) call]
  have "r_id (rn_raft n) = i" using n(2) server_okD(1) [OF ok] by (simp add: raft_grows_def)
  then have "server_ok L V D C (cl_net c) i (?s\<lparr>sv_node := n\<rparr>)"
    using n(1) d(2) C k server_okD(3,5) [OF ok] by (auto simp: server_ok_def Let_def)
  then have "cluster_ok L V D (U(i := C)) (c\<lparr>cl_servers := (cl_servers c)(i := ?s\<lparr>sv_node := n\<rparr>), cl_net := cl_net c\<rparr>)"
    by (intro cluster_ok_upd [OF inv]) (simp_all add: net_ok_def)
  then show ?thesis by (simp add: set_node_def)
qed

lemma server_ok_wf: "server_ok L V D C net i s \<Longrightarrow> node_wf (sv_node s)"
  by (auto simp: server_ok_def server_durable_def Let_def)

lemma cluster_ok_local:
  assumes inv: "cluster_ok L V D U c" and i: "i \<in> set V" and l: "node_local (sv_node (cl_servers c i)) n"
    and k: "knows_voters V (rn_raft n)" and V: "length V \<le> u32_max" "0 \<notin> set V"
  shows "\<exists>C. cluster_ok L V D (U(i := C)) (set_node i n c)"
proof -
  let ?r = "cl_raft c i" and ?C = "votes_after (U i) (rn_raft n)"
  have ok: "server_ok L V D (U i) (cl_net c) i (cl_servers c i)" using inv i by (simp add: cluster_ok_def)
  note wf = server_ok_wf [OF ok]
  have "r_term ?r \<le> r_term (rn_raft n)" using node_local_grows [OF l wf] by (simp add: raft_grows_def)
  then have "voter_ok V D ?C (rn_raft n)"
    by (rule own_step_ok [OF server_okD(2) [OF ok] node_local_ballot [OF l wf] _ k V])
  moreover have "U i \<subseteq> ?C" by (auto simp: votes_after_def)
  ultimately show ?thesis using cluster_ok_call [OF inv i node_call.Local [OF l] _ _ k] by blast
qed

lemma cluster_ok_receive:
  assumes inv: "cluster_ok L V D U c" and i: "i \<in> set V" and m: "m \<in> cl_net c" "m_to m = i" "\<not> stale_pre_vote m (cl_raft c i)"
      "step_ok m (cl_raft c i)" "node_step m (sv_node (cl_servers c i)) = Inr (st, n)"
    and k: "knows_voters V (rn_raft n)" and V: "length V \<le> u32_max" "0 \<notin> set V"
  shows "\<exists>C. cluster_ok L V D (U(i := C)) (set_node i n c)"
proof -
  let ?n = "sv_node (cl_servers c i)"
  have ok: "server_ok L V D (U i) (cl_net c) i (cl_servers c i)" using inv i by (simp add: cluster_ok_def)
  note o = server_okD [OF ok]
  have wf: "raft_wf (rn_raft ?n)" using server_ok_wf [OF ok] by (simp add: node_wf_def)
  have net: "ballot_type (m_type m) \<longrightarrow> m_from m \<in> set V" "backed_msg D m"
    using inv m(1) by (auto simp: cluster_ok_def net_ok_def backed_msg_def ballot_type_def)
  have "n = ?n \<or> raft_step m (rn_raft ?n) = Inr (st, rn_raft n)"
    using m(5) by (auto simp: node_step_def node_raft_step_def elim!: bindr_pair_E split: if_split_asm)
  moreover have "\<exists>C. U i \<subseteq> C \<and> voter_ok V D C (rn_raft n)" if "raft_step m (rn_raft ?n) = Inr (st, rn_raft n)"
    by (rule receive_ok [OF o(2) wf m(4) that _ net(2,1) m(3) o(4) k V cluster_backed [OF inv]]) (use o(1) m(2) in simp_all)
  ultimately obtain C where "U i \<subseteq> C" "voter_ok V D C (rn_raft n)" using o(2) by blast
  then show ?thesis using cluster_ok_call [OF inv i node_call.Step [OF m(4,5)] _ _ k] by blast
qed

text \<open>A round: everything the node knows of is now on the disk, and only then sent.\<close>

lemma voter_ok_silent:
  assumes "voter_ok V D C r" "ballot r' = ballot (r\<lparr>r_msgs := []\<rparr>)"
  shows "voter_ok V D C r'"
  using assms(1) ballotD [OF assms(2)] by (simp add: voter_ok_def tally_ok_def ballot_msgs_def)

lemma cluster_ok_round:
  assumes inv: "cluster_ok L V D U c" and i: "i \<in> set V"
    and rd: "u_snapshot (rl_unstable (r_log (cl_raft c i))) = None" "round_fits L (cl_servers c i)"
      "server_round L io (cl_servers c i) = Inr (b, s)" "sv_snapshot_index s = sv_snapshot_index (cl_servers c i)"
    and k: "knows_voters V (rn_raft (sv_node s))"
  shows "cluster_ok L V (D(i := U i)) U (c\<lparr>cl_servers := (cl_servers c)(i := s), cl_net := cl_net c \<union> set (sv_sent s)\<rparr>)"
proof -
  let ?s = "cl_servers c i" and ?r = "cl_raft c i" and ?D = "D(i := U i)"
  have ok: "server_ok L V D (U i) (cl_net c) i ?s" using inv i by (simp add: cluster_ok_def)
  note o = server_okD [OF ok] and bl = server_round_ballot [OF rd(3)]
  have D: "\<forall>v. D v \<subseteq> ?D v" using o(3) by simp
  obtain bs rs late where d: "server_durable L bs rs late ?s" using ok by (auto simp: server_ok_def Let_def)
  obtain bs' rs' late' where d': "server_durable L bs' rs' late' s" "same_vote (wal_hs rs') (raft_hard_state ?r)"
    using durable_round [OF d rd] by blast
  have vo: "votes_follow (U i) (r_term ?r) (r_vote ?r)" using o(2) by (simp add: voter_ok_def)
  then have vf: "votes_follow (?D i) (hs_term (wal_hs rs')) (hs_vote (wal_hs rs'))"
    using d'(2) by (simp add: same_vote_def raft_hard_state_def)
  have "voter_ok V ?D (U i) (rn_raft (sv_node s))" by (rule voter_ok_silent [OF voter_ok_mono [OF o(2) D] bl(1)])
  moreover have "r_id (rn_raft (sv_node s)) = i" using ballotD(1) [OF bl(1)] o(1) by simp
  ultimately have "server_ok L V ?D (U i) (cl_net c \<union> set (sv_sent s)) i s"
    using d'(1) vf k by (auto simp: server_ok_def Let_def)
  moreover have "net_ok V ?D (cl_net c \<union> set (sv_sent s) - cl_net c)"
    unfolding net_ok_def
  proof (intro ballI impI)
    fix m assume m: "m \<in> cl_net c \<union> set (sv_sent s) - cl_net c" "ballot_type (m_type m)"
    then have "m \<in> set (ballot_msgs ?r)" using bl(2) o(5) by (auto simp: ballot_msgs_def)
    then have "m_from m = i" "backed_msg ?D m" using o(1,2) by (simp_all add: voter_ok_def)
    then show "m_from m \<in> set V \<and> backed_msg ?D m" using i by simp
  qed
  ultimately have "cluster_ok L V ?D (U(i := U i)) (c\<lparr>cl_servers := (cl_servers c)(i := s), cl_net := cl_net c \<union> set (sv_sent s)\<rparr>)"
    using D by (intro cluster_ok_upd [OF inv]) simp_all
  then show ?thesis by simp
qed

text \<open>A crash: what only the memory knew of is forgotten.\<close>

lemma cluster_ok_crash:
  fixes c :: "'c cluster"
  assumes L: "libs_ok L ext tell" and inv: "cluster_ok L V D U c" and i: "i \<in> set V"
    and main: "server_main L ext tell True N j cl port draws (disk_of (cl_servers c i)) = Inr s" "r_id (rn_raft (sv_node s)) = i"
    and k: "knows_voters V (rn_raft (sv_node s))"
  shows "cluster_ok L V D (U(i := D i)) (c\<lparr>cl_servers := (cl_servers c)(i := s), cl_net := cl_net c \<union> set (sv_sent s)\<rparr>)"
proof -
  let ?s = "cl_servers c i" and ?r = "rn_raft (sv_node s)"
  have ok: "server_ok L V D (U i) (cl_net c) i ?s" using inv i by (simp add: cluster_ok_def)
  note o = server_okD [OF ok] and st = server_main_start [OF main(1)]
  obtain bs rs late where d: "server_durable L bs rs late ?s" "votes_follow (D i) (hs_term (wal_hs rs)) (hs_vote (wal_hs rs))"
    using ok by (auto simp: server_ok_def Let_def)
  obtain cs where d': "server_durable L cs rs [] s" "raft_hard_state ?r = wal_hs rs"
    using server_main_args [OF main(1)] durable_restart [where ?'d = 'c, OF L d(1), of j cl N _ port draws] main(1) by auto
  have r: "r_id ?r = i" "r_state ?r = Follower" "ballot_msgs ?r = []" using st(1) main(2) by (simp_all add: at_start_def)
  have "votes_follow (D i) (r_term ?r) (r_vote ?r)" using d(2) d'(2) [symmetric] by (simp add: raft_hard_state_def)
  then have "voter_ok V D (D i) ?r" using r i cluster_backed [OF inv i] by (simp add: voter_ok_def tally_ok_def)
  then have "server_ok L V D (D i) (cl_net c \<union> set (sv_sent s)) i s" using r(1) k d(2) d'(1) by (auto simp: server_ok_def Let_def)
  then show ?thesis using st(2) by (intro cluster_ok_upd [OF inv]) (simp_all add: net_ok_def)
qed

theorem cluster_step_ok:
  fixes c c' :: "'c cluster"
  assumes L: "libs_ok L ext tell" and V: "length V \<le> u32_max" "0 \<notin> set V"
    and step: "cluster_step L ext tell V c c'" and inv: "cluster_ok L V D U c"
  shows "\<exists>D' U'. cluster_ok L V D' U' c' \<and> (\<forall>v. D v \<subseteq> D' v)"
  using step
proof (cases rule: cluster_step.cases)
  case (Local i n)
  then show ?thesis using cluster_ok_local [OF inv Local(2-4) V] by blast
next
  case (Receive i m st n)
  then show ?thesis using cluster_ok_receive [OF inv Receive(2-8) V] by blast
next
  case (Work i s)
  let ?c = "c\<lparr>cl_servers := (cl_servers c)(i := s), cl_net := cl_net c \<union> set (sv_sent s)\<rparr>"
  have ok: "server_ok L V D (U i) (cl_net c) i (cl_servers c i)" using inv Work(2) by (simp add: cluster_ok_def)
  from Work(3) have "\<exists>D' U'. cluster_ok L V D' U' ?c \<and> (\<forall>v. D v \<subseteq> D' v)"
  proof (cases rule: server_work.cases)
    case (Store store out)
    have "server_ok L V D (U i) (cl_net c \<union> set (sv_sent s)) i s"
      using ok Store by (auto simp: server_ok_def server_durable_def Let_def)
    then have "cluster_ok L V D (U(i := U i)) ?c"
      using server_okD(5) [OF ok] Store by (intro cluster_ok_upd [OF inv]) (auto simp: net_ok_def)
    then show ?thesis by auto
  next
    case (Round io b)
    have "\<forall>v. D v \<subseteq> (D(i := U i)) v" using server_okD(3) [OF ok] by simp
    then show ?thesis using cluster_ok_round [OF inv Work(2) Round Work(5)] by blast
  next
    case (Crash N j cl port draws)
    then show ?thesis using cluster_ok_crash [OF L inv Work(2) Crash Work(4,5)] by blast
  qed
  then show ?thesis by (simp add: Work(1))
qed

section \<open>Runs of a cluster\<close>

text \<open>
  The servers of the cluster \<open>h1,h2,...\<close> are numbered from 1. Each of them starts for the first time, on an
  empty disk, and nothing has been sent.
\<close>

definition cluster_voters :: "string \<Rightarrow> u64 list" where
  "cluster_voters cl = [1..<Suc (length (split_on CHR '','' cl))]"

definition cluster_starts :: "server_lib \<Rightarrow> (string \<Rightarrow> string) \<Rightarrow> (byte list \<Rightarrow> int) \<Rightarrow> string \<Rightarrow> 'c cluster \<Rightarrow> bool" where
  "cluster_starts L ext tell cl c \<longleftrightarrow>
     (\<forall>i \<in> set (cluster_voters cl). \<exists>N port draws. server_main L ext tell True N i cl port draws no_disk = Inr (cl_servers c i)) \<and>
     cl_net c = {}"

lemma cluster_voters_fit:
  assumes "length cl < u32_max"
  shows "length (cluster_voters cl) \<le> u32_max" "0 \<notin> set (cluster_voters cl)" "length cl + 1 < u64_max"
  using assms length_split_on [of "CHR '',''" cl] by (auto simp: cluster_voters_def u32_max_def u64_max_def)

lemma cluster_starts_ok:
  fixes c :: "'c cluster"
  assumes L: "libs_ok L ext tell" and cl: "length cl < u32_max" and st: "cluster_starts L ext tell cl c"
  shows "cluster_ok L (cluster_voters cl) (\<lambda>_. {}) (\<lambda>_. {}) c"
proof -
  have "server_ok L (cluster_voters cl) (\<lambda>_. {}) {} {} i (cl_servers c i)" if i: "i \<in> set (cluster_voters cl)" for i
  proof -
    let ?r = "cl_raft c i"
    obtain N port draws where m: "server_main L ext tell True N i cl port draws no_disk = Inr (cl_servers c i)"
      using st i by (auto simp: cluster_starts_def)
    obtain cs where d: "server_durable L cs [] [] (cl_servers c i)" "r_vote ?r = 0"
      using server_main_args [OF m] durable_boot [where ?'d = 'c, OF L cluster_voters_fit(3) [OF cl], of i N _ port draws] m by auto
    have "votes_follow {} t 0" for t by (simp add: votes_follow_def)
    moreover have "hs_vote (wal_hs []) = 0" by (simp add: replay_hs_def new_hard_state_def)
    ultimately show ?thesis
      using server_main_start [OF m] d i unfolding server_ok_def Let_def
      by (intro conjI exI [of _ cs] exI [of _ "[]"])
        (simp_all add: voter_ok_def at_start_def tally_ok_def backed_votes_def knows_voters_def)
  qed
  then show ?thesis using st by (simp add: cluster_ok_def net_ok_def cluster_starts_def)
qed

lemma cluster_run_ok:
  assumes L: "libs_ok L ext tell" and V: "length V \<le> u32_max" "0 \<notin> set V"
    and run: "(cluster_step L ext tell V)\<^sup>*\<^sup>* c c'" and inv: "cluster_ok L V D U c"
  shows "\<exists>D' U'. cluster_ok L V D' U' c' \<and> (\<forall>v. D v \<subseteq> D' v)"
  using run
proof (induction rule: rtranclp_induct)
  case base
  then show ?case using inv by blast
next
  case (step c1 c2)
  then obtain D1 U1 where "cluster_ok L V D1 U1 c1" "\<forall>v. D v \<subseteq> D1 v" by blast
  then show ?case using cluster_step_ok [OF L V step.hyps(2)] by (meson subset_trans)
qed

lemma cluster_leader:
  assumes "cluster_ok L V D U c" "i \<in> set V" "r_state (cl_raft c i) = Leader"
  shows "has_majority V D (r_term (cl_raft c i)) i"
proof -
  have "server_ok L V D (U i) (cl_net c) i (cl_servers c i)" using assms(1,2) by (simp add: cluster_ok_def)
  note o = server_okD [OF this]
  then show ?thesis using assms(3) by (simp add: voter_ok_def tally_ok_def)
qed

text \<open>Two majorities have a voter in common, and it has one vote in a term.\<close>

lemma majorities_agree:
  assumes inv: "cluster_ok L V D U c" and V: "i \<in> set V" "j \<in> set V" and m: "has_majority V D t i" "has_majority V D t j"
  shows "i = j"
proof (cases "length V \<le> 1")
  case True
  then show ?thesis using V by (cases V) auto
next
  case False
  then obtain P Q where p: "majority V P" "\<forall>v \<in> P. (t, i) \<in> D v" and q: "majority V Q" "\<forall>v \<in> Q. (t, j) \<in> D v"
    using m by (auto simp: has_majority_def)
  obtain v where v: "v \<in> P" "v \<in> Q" using majority_quorums.quorum_intersect [OF p(1) q(1)] by blast
  then have "v \<in> set V" using p(1) by (auto simp: majority_def)
  then have "single_valued (D v)" using inv by (auto simp: cluster_ok_def server_ok_def votes_follow_def Let_def)
  then show ?thesis using p(2) q(2) v by (auto dest: single_valuedD)
qed

end
