(* ===== verification/Demo_Cluster.thy ===== *)
theory Demo_Cluster
  imports Server_Properties Cluster
begin

text \<open>
  A cluster of three servers that starts on empty disks and elects server 1: the servers apply the
  initial configuration, server 1 asks for pre-votes and for votes, server 2 answers, and every
  message is sent by a round after the disk has been written.
\<close>

section \<open>Evaluation\<close>

text \<open>The arguments are evaluated first; the continuations stay as they are.\<close>

lemma bindr_weak: "m = m' \<Longrightarrow> bindr m f = bindr m' f"
  by simp

lemma case_option_weak: "x = y \<Longrightarrow> case_option a f x = case_option a f y"
  by simp

lemmas eval_congs = bindr_weak case_option_weak if_weak_cong

lemmas evals =
  storage_initial_state_def storage_last_index_impl_def storage_first_index_impl_def storage_last_index_def
  storage_first_index_def storage_entries_def storage_term_def storage_append_def new_unstable_def
  unstable_maybe_first_index_def unstable_maybe_last_index_def unstable_maybe_term_def unstable_stable_to_def
  unstable_slice_def unstable_truncate_and_append_def new_raft_log_def raft_log_first_index_def
  raft_log_last_index_def raft_log_term_def raft_log_last_term_def raft_log_is_up_to_date_def raft_log_append_def
  raft_log_must_check_out_of_bounds_def raft_log_slice_def raft_log_entries_def raft_log_next_entries_def
  raft_log_maybe_commit_def raft_log_applied_to_def raft_log_stable_to_def raft_log_unstable_entries_def
  new_config_def config_validate_def random_device_gen_def raft_quorum_def raft_get_progress_def
  raft_deref_progress_def raft_put_progress_def raft_set_progress_def raft_progress_ids_def raft_promotable_def
  raft_soft_state_def raft_hard_state_def raft_abort_leader_transfer_def raft_log_line_def
  raft_reset_randomized_election_timeout_def raft_reset_progress_def raft_reset_def raft_become_follower_def
  raft_become_candidate_def raft_become_pre_candidate_def raft_send_def raft_track_entries_def
  raft_maybe_send_append_def raft_send_append_def raft_bcast_append_def raft_maybe_commit_def raft_payload_def
  raft_increase_uncommitted_size_def raft_reduce_uncommitted_size_def raft_append_entry_def raft_become_leader_def
  kCampaignTransfer_bytes_def num_of_pending_conf_def raft_poll_def raft_request_vote_def raft_campaign_election_def
  raft_campaign_def with_ok_def raft_candidate_vote_resp_def raft_step_candidate_def raft_step_follower_def
  raft_call_step_def raft_step_hup_def raft_can_vote_def raft_step_vote_def raft_step_type_def raft_in_lease_def
  raft_step_higher_def raft_step_def raft_mark_active_def raft_add_node_or_learner_def raft_add_node_def
  raft_initial_def new_raft_def new_ready_def ready_contains_updates_def ready_applied_cursor_def start_node_def
  node_ready_def node_advance_def is_ok_def new_entry_def new_conf_state_def new_snapshot_def snapshot_is_empty_def
  new_message_def new_hard_state_def hard_state_is_empty_def u8_serialize_size_def u64_serialize_size_def
  data_serialize_size_def serialize_size_def payload_size_def entry_limit_size_def total_size_def new_progress_def
  progress_maybe_update_def progress_become_replicate_def progress_is_paused_def progress_set_pause_def
  progress_reset_state_def progress_resume_def add64_def sub64_def add32_def cast32_def assertr_def u32_max_def
  u64_max_def Let_def

section \<open>The members\<close>

text \<open>The initial configuration, in the log of a member that has just started and of one that has applied it.\<close>

definition trio_conf :: "u64 \<Rightarrow> entry" where
  "trio_conf j = \<lparr>e_type = EntryConfChange, e_term = 1, e_index = j, e_data = []\<rparr>"

definition trio_storage :: "entry list \<Rightarrow> memory_storage" where
  "trio_storage es = \<lparr>ms_hard_state = new_hard_state, ms_snapshot = new_snapshot, ms_entries = es\<rparr>"

definition trio_boot_log :: "entry \<Rightarrow> raft_log" where
  "trio_boot_log e = \<lparr>rl_storage = trio_storage [e],
     rl_unstable = \<lparr>u_snapshot = None, u_entries = [trio_conf 1, trio_conf 2, trio_conf 3], u_offset = 1\<rparr>,
     rl_committed = 3, rl_applied = 0, rl_max_next_ents_size = 1048576\<rparr>"

definition trio_log :: "entry \<Rightarrow> raft_log" where
  "trio_log e = \<lparr>rl_storage = trio_storage [e, trio_conf 1, trio_conf 2, trio_conf 3],
     rl_unstable = \<lparr>u_snapshot = None, u_entries = [], u_offset = 4\<rparr>,
     rl_committed = 3, rl_applied = 3, rl_max_next_ents_size = 1048576\<rparr>"

definition trio_raft :: "u64 \<Rightarrow> raft_log \<Rightarrow> raft" where
  "trio_raft i l =
     \<lparr>r_id = i, r_term = 1, r_vote = 0, r_read_states = [], r_log = l, r_max_msg_size = 1048576,
      r_max_uncommitted_size = 1073741824, r_max_inflight = 256,
      r_prs = map (\<lambda>j. (j, (new_progress 256)\<lparr>pr_next := 4, pr_match := 0, pr_recent_active := True\<rparr>)) [1, 2, 3],
      r_learner_prs = [], r_match_buf = [], r_state = Follower, r_is_learner = False, r_votes = [], r_msgs = [],
      r_lead = 0, r_lead_transferee = 0, r_pending_conf_index = 0, r_uncommitted_size = 0,
      r_read_only = (new_read_only ReadOnlySafe)\<lparr>ro_pending := [], ro_queue := []\<rparr>, r_election_elapsed = 0,
      r_heartbeat_elapsed = 0, r_check_quorum = True, r_pre_vote = True, r_heartbeat_timeout = 1,
      r_election_timeout = 10, r_randomized_election_timeout = 10, r_disable_proposal_forwarding = False,
      r_tick = Some TickElection, r_step = Some StepFollower,
      r_random_device = \<lparr>rd_min = 0, rd_max = 10, rd_draws = []\<rparr>\<rparr>"

text \<open>The progress of the members after a change of the term.\<close>

definition trio_prs :: "u64 \<Rightarrow> (u64 \<times> progress) list" where
  "trio_prs i = map (\<lambda>j. (j, let p = (new_progress 256)\<lparr>pr_next := 4\<rparr> in if j = i then p\<lparr>pr_match := 3\<rparr> else p)) [1, 2, 3]"

definition trio_pre :: "entry \<Rightarrow> raft" where
  "trio_pre e = (trio_raft 1 (trio_log e))\<lparr>r_state := PreCandidate, r_votes := [(1, True)], r_step := Some StepCandidate\<rparr>"

definition trio_candidate :: "entry \<Rightarrow> raft" where
  "trio_candidate e = (trio_raft 1 (trio_log e))\<lparr>r_state := Candidate, r_term := 2, r_vote := 1, r_votes := [(1, True)],
     r_prs := trio_prs 1, r_step := Some StepCandidate\<rparr>"

definition trio_voter :: "entry \<Rightarrow> raft" where
  "trio_voter e = (trio_raft 2 (trio_log e))\<lparr>r_term := 2, r_vote := 1, r_prs := trio_prs 2\<rparr>"

definition trio_request :: "message_type \<Rightarrow> u64 \<Rightarrow> message" where
  "trio_request ty j = new_message\<lparr>m_type := ty, m_from := 1, m_to := j, m_term := 2, m_index := 3, m_log_term := 1\<rparr>"

definition trio_answer :: "message_type \<Rightarrow> message" where
  "trio_answer ty = new_message\<lparr>m_type := ty, m_from := 2, m_to := 1, m_term := 2\<rparr>"

definition trio_base :: "entry \<Rightarrow> bool" where
  "trio_base e \<longleftrightarrow> e_index e = 0 \<and> e_term e = 0"

lemmas trio_defs = trio_base_def trio_raft_def trio_log_def trio_boot_log_def trio_storage_def trio_conf_def trio_prs_def
  trio_pre_def trio_candidate_def trio_voter_def trio_request_def trio_answer_def

section \<open>The steps of the members\<close>

lemma trio_node:
  assumes "trio_base e" "i \<in> {1, 2, 3}"
  shows "server_node demo_lib i 3 [] False (trio_storage [e]) = Inr \<lparr>rn_raft = trio_raft i (trio_boot_log e),
    rn_prev_soft_state = \<lparr>ss_lead = 0, ss_state = Follower\<rparr>, rn_prev_hard_state = new_hard_state\<rparr>"
proof -
  have "mp_pack (vl_conf demo_lib) c = []" for c by (simp add: demo_lib_def)
  with assms show ?thesis
    by (elim insertE emptyE; simp add: server_node_def server_config_def trio_defs evals upt_rec cong: eval_congs)
qed

lemma trio_campaign:
  assumes "trio_base e"
  shows "raft_step (new_message\<lparr>m_type := MsgHup\<rparr>) (trio_raft 1 (trio_log e)) =
    Inr (StatusOK, (trio_pre e)\<lparr>r_msgs := [trio_request MsgPreVote 2, trio_request MsgPreVote 3]\<rparr>)"
  using assms by (simp add: trio_defs evals cong: eval_congs)

lemma trio_pre_vote:
  assumes "trio_base e"
  shows "raft_step (trio_request MsgPreVote 2) (trio_raft 2 (trio_log e)) =
    Inr (StatusOK, (trio_raft 2 (trio_log e))\<lparr>r_msgs := [trio_answer MsgPreVoteResp]\<rparr>)"
  using assms by (simp add: trio_defs evals cong: eval_congs)

lemma trio_pre_elected:
  assumes "trio_base e"
  shows "raft_step (trio_answer MsgPreVoteResp) (trio_pre e) =
    Inr (StatusOK, (trio_candidate e)\<lparr>r_msgs := [trio_request MsgVote 2, trio_request MsgVote 3]\<rparr>)"
  using assms by (simp add: trio_defs evals cong: eval_congs)

lemma trio_vote:
  assumes "trio_base e"
  shows "raft_step (trio_request MsgVote 2) (trio_raft 2 (trio_log e)) =
    Inr (StatusOK, (trio_voter e)\<lparr>r_msgs := [trio_answer MsgVoteResp]\<rparr>)"
  using assms by (simp add: trio_defs evals cong: eval_congs)

lemma trio_elected:
  assumes "trio_base e"
  shows "\<exists>r. raft_step (trio_answer MsgVoteResp) (trio_candidate e) = Inr (StatusOK, r) \<and> r_state r = Leader \<and> r_term r = 2 \<and>
    map fst (r_prs r) = [1, 2, 3]"
  using assms by (simp add: trio_defs evals cong: eval_congs)

text \<open>The round in which a member applies the initial configuration.\<close>

lemma trio_first_round:
  assumes "trio_base e" "rn_raft n = trio_raft i (trio_boot_log e)"
  shows "\<exists>rd n1 n2. node_ready n = Inr (rd, n1) \<and> ready_contains_updates rd \<and> rd_committed_entries rd = [trio_conf 1, trio_conf 2, trio_conf 3] \<and>
    rd_messages rd = [] \<and> persist_ready rd (rl_storage (r_log (rn_raft n1))) = Inr (trio_storage [e, trio_conf 1, trio_conf 2, trio_conf 3]) \<and>
    node_advance rd (node_set_storage (trio_storage [e, trio_conf 1, trio_conf 2, trio_conf 3]) n1) = Inr n2 \<and>
    rn_raft n2 = trio_raft i (trio_log e)"
  using assms
  by (cases "soft_state_equal \<lparr>ss_lead = 0, ss_state = Follower\<rparr> (rn_prev_soft_state n)";
      cases "hard_state_equal \<lparr>hs_term = 1, hs_vote = 0, hs_commit = 3\<rparr> (rn_prev_hard_state n)";
      simp add: trio_defs persist_ready_def node_set_storage_def set_storage_def evals cong: eval_congs)

section \<open>Rounds\<close>

text \<open>A round that has something to write or to send but nothing to publish.\<close>

lemma server_round_done:
  fixes s :: "'c raft_server"
  assumes d: "server_durable L bs rs late s" and none: "u_snapshot (rl_unstable (r_log (rn_raft (sv_node s)))) = None"
    and fits: "round_fits L s"
    and rd: "node_ready (sv_node s) = Inr (rd, n1)" "ready_contains_updates rd" "persist_ready rd (rl_storage (r_log (rn_raft n1))) = Inr ms"
      "node_advance rd (node_set_storage ms n1) = Inr n2"
    and pub: "\<And>t :: 'c raft_server. sv_applied_index t = sv_applied_index s \<Longrightarrow> server_publish_ready L rd t = Inr t"
    and due: "sub64 (sv_applied_index s) (sv_snapshot_index s) \<le> sv_snap_count s"
  shows "\<exists>w. server_round L io s = Inr (True, s\<lparr>sv_node := n2, sv_wal := w, sv_sent := sv_sent s @ rd_messages rd\<rparr>)"
proof -
  let ?n = "sv_node s" and ?hs = "hard_state_update (sv_node s)"
  let ?l = "r_log (rn_raft ?n)"
  let ?es = "u_entries (rl_unstable ?l)"
  note q = d [unfolded server_durable_def Let_def]
  have wf: "node_wf ?n" and wh: "wal_holds (vl_wal L) (sv_wal s) bs rs late" using q by simp_all
  have lw: "raft_log_wf ?l" using wf by (simp add: node_wf_def raft_wfD(1))
  have st: "storage_abs (sv_storage s) = batch_log bs empty_log" and fol: "hs_follows (wal_hs (batch_recs bs)) (raft_hard_state (rn_raft ?n))"
    using q by simp_all
  have e: "rd_entries rd = ?es" "snapshot_is_empty (rd_snapshot rd)"
    using node_round_full [OF wf] rd(1) none by (auto simp: snapshot_is_empty_def new_snapshot_def)
  have hs: "rd_hard_state rd = ?hs" by (simp add: node_ready_fields(2) [OF rd(1)] hard_state_update_def)
  have "hard_state_is_empty ?hs \<or> ?hs = raft_hard_state (rn_raft ?n)"
    by (simp add: hard_state_update_def new_hard_state_def hard_state_is_empty_def)
  then obtain w where w: "wal_save (vl_wal L) ?hs ?es (sv_wal s) = Inr (StatusOK, w)"
    using wal_save_holds [OF wh node_batch(1) [OF lw none st], of ?hs] fits fol by (auto simp: round_fits_def)
  show ?thesis
    unfolding server_round_eq [OF rd(1,2) e(2) rd(3)] using w hs e(1) due rd(4)
    by (intro exI [of _ w]) (simp add: pub maybe_trigger_snapshot_def)
qed

text \<open>A node that only has messages to send.\<close>

lemma node_round_quiet:
  assumes n: "rn_raft n = r" "r_msgs r \<noteq> []" "r_read_states r = []" "raft_log_next_entries (r_log r) = Inr []"
    "u_snapshot (rl_unstable (r_log r)) = None" "u_entries (rl_unstable (r_log r)) = []"
    "r_uncommitted_size r = 0"
  shows "\<exists>rd n1 n2. node_ready n = Inr (rd, n1) \<and> ready_contains_updates rd \<and> rd_committed_entries rd = [] \<and>
    rd_messages rd = r_msgs r \<and> persist_ready rd (rl_storage (r_log (rn_raft n1))) = Inr (rl_storage (r_log r)) \<and>
    node_advance rd (node_set_storage (rl_storage (r_log r)) n1) = Inr n2 \<and> rn_raft n2 = r\<lparr>r_msgs := []\<rparr>"
  using n by (simp add: node_ready_def new_ready_def Let_def ready_contains_updates_def persist_ready_def snapshot_is_empty_def
      new_snapshot_def node_advance_def node_set_storage_def set_storage_def ready_applied_cursor_def raft_reduce_uncommitted_size_def
      raft_log_unstable_entries_def storage_append_def split: option.split)

section \<open>The cluster\<close>

text \<open>A server whose raft node is in a given state and whose disk is in order.\<close>

definition stands :: "raft \<Rightarrow> nat raft_server \<Rightarrow> bool" where
  "stands r s \<longleftrightarrow> (\<exists>bs rs late. server_durable demo_lib bs rs late s) \<and> rn_raft (sv_node s) = r \<and>
     sv_applied_index s = 0 \<and> sv_snapshot_index s = 0"

abbreviation trio_work :: "nat raft_server \<Rightarrow> nat raft_server \<Rightarrow> bool" where
  "trio_work \<equiv> server_work demo_lib demo_ext (\<lambda>b. 0)"

abbreviation trio_step :: "nat cluster \<Rightarrow> nat cluster \<Rightarrow> bool" where
  "trio_step \<equiv> cluster_step demo_lib demo_ext (\<lambda>b. 0) (cluster_voters ''h:1,h:2,h:3'')"

lemma trio_voters: "cluster_voters ''h:1,h:2,h:3'' = [1, 2, 3]"
  by (simp add: cluster_voters_def upt_rec)

lemma small_rec_ok:
  "hs_term hs \<le> 2 \<Longrightarrow> hs_vote hs \<le> 2 \<Longrightarrow> hs_commit hs \<le> 3 \<Longrightarrow> rec_ok (vl_wal demo_lib) (RecState hs)"
  "j \<le> 3 \<Longrightarrow> rec_ok (vl_wal demo_lib) (RecEntry (trio_conf j))"
  by (auto simp: rec_ok_def demo_wal_lib_def trio_conf_def length_nats_pack entry_nats_def MAX_WAL_RECORD_LEN_def entry_fits_def
      entry_type_fits_def hard_state_fits_def u64_max_def simp del: nats_pack_Cons)

lemma stands_round:
  assumes s: "stands r s" and none: "u_snapshot (rl_unstable (r_log r)) = None" and r: "r_term r \<le> 2" "r_vote r \<le> 2" "rl_committed (r_log r) \<le> 3"
    and es: "u_entries (rl_unstable (r_log r)) \<in> {[], [trio_conf 1, trio_conf 2, trio_conf 3]}"
    and rd: "node_ready (sv_node s) = Inr (rd, n1)" "ready_contains_updates rd" "persist_ready rd (rl_storage (r_log (rn_raft n1))) = Inr ms"
      "node_advance rd (node_set_storage ms n1) = Inr n2" "rd_committed_entries rd \<in> {[], [trio_conf 1, trio_conf 2, trio_conf 3]}"
  shows "\<exists>s'. trio_work s s' \<and> stands (rn_raft n2) s' \<and> set (rd_messages rd) \<subseteq> set (sv_sent s')"
proof -
  obtain bs rs late where d: "server_durable demo_lib bs rs late s" using s by (auto simp: stands_def)
  have sel: "rn_raft (sv_node s) = r" "sv_applied_index s = 0" "sv_snapshot_index s = 0" using s by (simp_all add: stands_def)
  have fits: "round_fits demo_lib s"
    using r es small_rec_ok
    by (auto simp: round_fits_def sel save_recs_def hard_state_update_def raft_hard_state_def new_hard_state_def)
  have "mp_unpack (vl_conf demo_lib) d = None" for d by (simp add: demo_lib_def)
  then have pub: "server_publish_ready demo_lib rd t = Inr t" if "sv_applied_index t = sv_applied_index s" for t :: "nat raft_server"
    using rd(5) that sel
    by (auto simp: server_publish_ready_def entries_to_apply_def trio_conf_def vec_range_def add64_def sub64_def u64_max_def)
  obtain w where w: "server_round demo_lib (Writes 0 [], Writes 0 []) s = Inr (True, s\<lparr>sv_node := n2, sv_wal := w, sv_sent := sv_sent s @ rd_messages rd\<rparr>)"
    using server_round_done [OF d _ fits rd(1-4) pub] none sel by (auto simp: sub64_def)
  let ?s = "s\<lparr>sv_node := n2, sv_wal := w, sv_sent := sv_sent s @ rd_messages rd\<rparr>"
  have "trio_work s ?s" using none fits w sel by (intro server_work.Round) simp_all
  moreover have "\<exists>bs rs late. server_durable demo_lib bs rs late ?s"
    using durable_round [OF d _ fits w] none sel by auto
  ultimately show ?thesis using sel by (intro exI [of _ ?s]) (simp add: stands_def)
qed


text \<open>What the first two members and the network can come to.\<close>

definition trio_reach :: "nat cluster \<Rightarrow> (u64 \<Rightarrow> raft) \<Rightarrow> message set \<Rightarrow> bool" where
  "trio_reach c0 R M \<longleftrightarrow>
     (\<exists>c. trio_step\<^sup>*\<^sup>* c0 c \<and> (\<forall>i \<in> {1, 2}. stands (R i) (cl_servers c i)) \<and> M \<subseteq> cl_net c)"

lemma reach_work:
  assumes reach: "trio_reach c0 R M" and i: "i \<in> {1, 2}" "r_id r = i" "knows_voters [1, 2, 3] r"
    and work: "\<And>s. stands (R i) s \<Longrightarrow> \<exists>s'. trio_work s s' \<and> stands r s' \<and> N \<subseteq> set (sv_sent s')"
  shows "trio_reach c0 (R(i := r)) (M \<union> N)"
proof -
  obtain c where c: "trio_step\<^sup>*\<^sup>* c0 c" "\<forall>j \<in> {1, 2}. stands (R j) (cl_servers c j)" "M \<subseteq> cl_net c"
    using reach by (auto simp: trio_reach_def)
  obtain s' where s': "trio_work (cl_servers c i) s'" "stands r s'" "N \<subseteq> set (sv_sent s')" using work c(2) i(1) by blast
  let ?c = "c\<lparr>cl_servers := (cl_servers c)(i := s'), cl_net := cl_net c \<union> set (sv_sent s')\<rparr>"
  have "trio_step c ?c" using i s'(1,2) unfolding trio_voters by (intro cluster_step.Work) (auto simp: stands_def)
  then have "trio_step\<^sup>*\<^sup>* c0 ?c" using c(1) by (rule rtranclp.rtrancl_into_rtrancl [rotated])
  then show ?thesis using c(2,3) s'(2,3) unfolding trio_reach_def by (intro exI [of _ ?c]) auto
qed

lemma stands_call:
  assumes "stands r s" "node_call (sv_node s) n"
  shows "stands (rn_raft n) (s\<lparr>sv_node := n\<rparr>)"
proof -
  obtain bs rs late where "server_durable demo_lib bs rs late s" using assms(1) by (auto simp: stands_def)
  from durable_node_call(1) [OF this assms(2)] show ?thesis using assms(1) by (auto simp: stands_def)
qed

text \<open>A call of the raft node of member \<open>i\<close>.\<close>

lemma reach_call:
  assumes reach: "trio_reach c0 R M" and i: "i \<in> {1, 2}"
    and call: "\<And>c. stands (R i) (cl_servers c i) \<Longrightarrow> M \<subseteq> cl_net c \<Longrightarrow>
      \<exists>n. trio_step c (set_node i n c) \<and> node_call (sv_node (cl_servers c i)) n \<and> rn_raft n = r"
  shows "trio_reach c0 (R(i := r)) M"
proof -
  obtain c where c: "trio_step\<^sup>*\<^sup>* c0 c" "\<forall>j \<in> {1, 2}. stands (R j) (cl_servers c j)" "M \<subseteq> cl_net c"
    using reach by (auto simp: trio_reach_def)
  obtain n where n: "trio_step c (set_node i n c)" "node_call (sv_node (cl_servers c i)) n" "rn_raft n = r"
    using call [of c] c(2,3) i by blast
  have "trio_step\<^sup>*\<^sup>* c0 (set_node i n c)" using c(1) n(1) by (rule rtranclp.rtrancl_into_rtrancl)
  moreover have "stands r ((cl_servers c i)\<lparr>sv_node := n\<rparr>)" using stands_call [OF _ n(2)] c(2) i n(3) by blast
  ultimately show ?thesis
    using c(2,3) unfolding trio_reach_def by (intro exI [of _ "set_node i n c"]) (auto simp: set_node_def)
qed

definition trio_fits :: "raft \<Rightarrow> bool" where
  "trio_fits r \<longleftrightarrow> knows_voters [1, 2, 3] r \<and> r_term r < 3 \<and> log_last (r_log r) = 3"

lemma reach_receive:
  assumes reach: "trio_reach c0 R M" and i: "i \<in> {1, 2}" and m: "m \<in> M" "m_to m = i" "\<not> stale_pre_vote m (R i)" "\<not> message_is_local_msg m"
    and r: "raft_get_progress (m_from m) (R i) \<noteq> None" "raft_step m (R i) = Inr (st, r)" "trio_fits (R i)" "msg_wf m" "m_entries m = []"
      "knows_voters [1, 2, 3] r"
  shows "trio_reach c0 (R(i := r)) M"
proof (rule reach_call [OF reach i])
  fix c :: "nat cluster" assume c: "stands (R i) (cl_servers c i)" "M \<subseteq> cl_net c"
  let ?n = "sv_node (cl_servers c i)"
  have q: "rn_raft ?n = R i" using c(1) by (simp add: stands_def)
  have ok: "step_ok m (rn_raft ?n)" using r(3-5) q by (simp add: step_ok_def trio_fits_def u64_max_def)
  have step: "node_step m ?n = Inr (st, ?n\<lparr>rn_raft := r\<rparr>)" using q m(4) r(1,2) by (simp add: node_step_def node_raft_step_def)
  have "trio_step c (set_node i (?n\<lparr>rn_raft := r\<rparr>) c)"
    using i m c(2) q ok step r(6) unfolding trio_voters by (intro cluster_step.Receive [where m = m]) auto
  moreover have "node_call ?n (?n\<lparr>rn_raft := r\<rparr>)" by (rule node_call.Step [OF ok step])
  ultimately show "\<exists>n. trio_step c (set_node i n c) \<and> node_call ?n n \<and> rn_raft n = r" by force
qed

lemma reach_campaign:
  assumes reach: "trio_reach c0 R M" and i: "i \<in> {1, 2}"
    and r: "raft_step (new_message\<lparr>m_type := MsgHup\<rparr>) (R i) = Inr (st, r)" "trio_fits (R i)" "knows_voters [1, 2, 3] r"
  shows "trio_reach c0 (R(i := r)) M"
proof (rule reach_call [OF reach i])
  fix c :: "nat cluster" assume c: "stands (R i) (cl_servers c i)" "M \<subseteq> cl_net c"
  let ?n = "sv_node (cl_servers c i)"
  have q: "rn_raft ?n = R i" using c(1) by (simp add: stands_def)
  have "node_room ?n" using r(2) q by (simp add: node_room_def trio_fits_def u64_max_def)
  then have l: "node_local ?n (?n\<lparr>rn_raft := r\<rparr>)"
    using r(1) q by (intro node_local.Campaign) (simp_all add: node_campaign_def node_raft_step_def)
  then have "trio_step c (set_node i (?n\<lparr>rn_raft := r\<rparr>) c)"
    using i r(3) unfolding trio_voters by (intro cluster_step.Local) auto
  then show "\<exists>n. trio_step c (set_node i n c) \<and> node_call ?n n \<and> rn_raft n = r" using node_call.Local [OF l] by force
qed

text \<open>A round that sends what the member has to send.\<close>

lemma trio_log_rest: "trio_base e \<Longrightarrow> raft_log_next_entries (trio_log e) = Inr []" "trio_base e \<Longrightarrow> log_last (trio_log e) = 3"
  by (simp_all add: trio_defs evals raft_log_abs_def storage_abs_def alog_splice_def alog_last_def cong: eval_congs)

lemma reach_round:
  assumes reach: "trio_reach c0 R M" and i: "i \<in> {1, 2}" "r_id (R i) = i" "knows_voters [1, 2, 3] (R i)"
    and e: "trio_base e" "r_log (R i) = trio_log e" "r_msgs (R i) \<noteq> []" "r_read_states (R i) = []" "r_uncommitted_size (R i) = 0"
      "r_term (R i) \<le> 2" "r_vote (R i) \<le> 2"
  shows "trio_reach c0 (R(i := (R i)\<lparr>r_msgs := []\<rparr>)) (M \<union> set (r_msgs (R i)))"
proof (rule reach_work [OF reach i(1)])
  fix s assume s: "stands (R i) s"
  have u: "u_snapshot (rl_unstable (trio_log e)) = None" "u_entries (rl_unstable (trio_log e)) = []" "rl_committed (trio_log e) = 3"
    by (simp_all add: trio_log_def)
  obtain rd n1 n2 where rd: "node_ready (sv_node s) = Inr (rd, n1)" "ready_contains_updates rd" "rd_committed_entries rd = []"
    "rd_messages rd = r_msgs (R i)" "persist_ready rd (rl_storage (r_log (rn_raft n1))) = Inr (rl_storage (r_log (R i)))"
    "node_advance rd (node_set_storage (rl_storage (r_log (R i))) n1) = Inr n2" "rn_raft n2 = (R i)\<lparr>r_msgs := []\<rparr>"
    using node_round_quiet [of "sv_node s" "R i"] s e u trio_log_rest [OF e(1)] by (auto simp: stands_def)
  show "\<exists>s'. trio_work s s' \<and> stands ((R i)\<lparr>r_msgs := []\<rparr>) s' \<and> set (r_msgs (R i)) \<subseteq> set (sv_sent s')"
    using stands_round [OF s _ _ _ _ _ rd(1,2,5,6)] rd(3,4,7) e u by simp
qed (use i in \<open>simp_all add: knows_voters_def\<close>)

text \<open>The start on empty disks.\<close>

lemma empty_storage:
  assumes "storage_wf ms" "storage_abs ms = empty_log" "ms_hard_state ms = new_hard_state" "ms_snapshot ms = new_snapshot"
  shows "\<exists>e. trio_base e \<and> ms = trio_storage [e]"
proof -
  have "ms_entries ms \<noteq> []" "tl (ms_entries ms) = []" "e_index (hd (ms_entries ms)) = 0" "e_term (hd (ms_entries ms)) = 0"
    using assms(1,2) by (simp_all add: storage_wf_def storage_abs_def)
  then have "ms_entries ms = [hd (ms_entries ms)]" "trio_base (hd (ms_entries ms))" by (auto simp: trio_base_def neq_Nil_conv)
  then show ?thesis using assms(3,4) by (intro exI [of _ "hd (ms_entries ms)"]) (simp add: trio_storage_def memory_storage.equality)
qed

lemma trio_address: "j < 3 \<Longrightarrow> \<exists>srv. transport_start demo_net (split_on CHR '','' ''h:1,h:2,h:3'' ! j) = Inr srv"
  by (auto simp: transport_start_def io_server_create_def endpoint_of_def demo_net_def c_atoi_def is_space_def is_digit_def
      dec_value_def io_server_start_def less_Suc_eq numeral_3_eq_3)

lemma trio_boots:
  "\<exists>c0 e. cluster_starts demo_lib demo_ext (\<lambda>b. 0) ''h:1,h:2,h:3'' c0 \<and> trio_base e \<and>
    trio_reach c0 (\<lambda>i. trio_raft i (trio_boot_log e)) {}"
proof -
  let ?main = "\<lambda>i. server_main demo_lib demo_ext (\<lambda>b. 0) True demo_net i ''h:1,h:2,h:3'' 6379 [] no_disk :: nat raft_server res"
  obtain rv where rv: "replay_WAL demo_lib demo_ext (\<lambda>b. 0) True no_disk = Inr rv" "storage_wf (rv_storage rv)"
    "storage_abs (rv_storage rv) = empty_log" "ms_hard_state (rv_storage rv) = new_hard_state" "ms_snapshot (rv_storage rv) = new_snapshot"
    using first_replay [OF demo_libs_ok] by blast
  obtain e where e: "trio_base e" "rv_storage rv = trio_storage [e]" using empty_storage [OF rv(2-5)] by blast
  have boot: "\<exists>s. ?main i = Inr s \<and> stands (trio_raft i (trio_boot_log e)) s" if i: "i \<in> {1, 2, 3}" for i
  proof -
    obtain srv where "transport_start demo_net (split_on CHR '','' ''h:1,h:2,h:3'' ! (i - 1)) = Inr srv"
      using trio_address [of "i - 1"] i by auto
    then obtain s cs where s: "?main i = Inr s" "server_durable demo_lib cs [] [] s"
      using durable_boot [where ?'d = nat, OF demo_libs_ok, of "''h:1,h:2,h:3''" i demo_net srv 6379 "[]"] i
      by (auto simp: u64_max_def demo_port)
    have "rn_raft (sv_node s) = trio_raft i (trio_boot_log e) \<and> sv_applied_index s = 0 \<and> sv_snapshot_index s = 0"
      using s(1) rv(1,5) e trio_node [OF e(1) i, unfolded numeral_3_eq_3]
      by (auto simp: server_main_def server_construct_def server_schedule_def Let_def no_disk_def new_snapshot_def
          elim!: bindr_pair_E bindr_Inr_E split: if_split_asm)
    then show ?thesis using s by (auto simp: stands_def)
  qed
  then obtain S where S: "\<And>i. i \<in> {1, 2, 3} \<Longrightarrow> ?main i = Inr (S i) \<and> stands (trio_raft i (trio_boot_log e)) (S i)" by metis
  have "cluster_starts demo_lib demo_ext (\<lambda>b. 0) ''h:1,h:2,h:3'' \<lparr>cl_servers = S, cl_net = {}\<rparr>"
    unfolding cluster_starts_def trio_voters using S by (auto intro!: exI)
  moreover have "trio_reach \<lparr>cl_servers = S, cl_net = {}\<rparr> (\<lambda>i. trio_raft i (trio_boot_log e)) {}"
    unfolding trio_reach_def using S by (intro exI [of _ "\<lparr>cl_servers = S, cl_net = {}\<rparr>"]) auto
  ultimately show ?thesis using e(1) by blast
qed

lemma reach_first_round:
  assumes reach: "trio_reach c0 R M" and i: "i \<in> {1, 2}" "R i = trio_raft i (trio_boot_log e)" and e: "trio_base e"
  shows "trio_reach c0 (R(i := trio_raft i (trio_log e))) M"
proof -
  have "trio_reach c0 (R(i := trio_raft i (trio_log e))) (M \<union> {})"
  proof (rule reach_work [OF reach i(1)])
    fix s assume s: "stands (R i) s"
    then have "rn_raft (sv_node s) = trio_raft i (trio_boot_log e)" using i(2) by (simp add: stands_def)
    from trio_first_round [OF e this] obtain rd n1 n2 where rd: "node_ready (sv_node s) = Inr (rd, n1)" "ready_contains_updates rd"
      "rd_committed_entries rd = [trio_conf 1, trio_conf 2, trio_conf 3]"
      "persist_ready rd (rl_storage (r_log (rn_raft n1))) = Inr (trio_storage [e, trio_conf 1, trio_conf 2, trio_conf 3])"
      "node_advance rd (node_set_storage (trio_storage [e, trio_conf 1, trio_conf 2, trio_conf 3]) n1) = Inr n2"
      "rn_raft n2 = trio_raft i (trio_log e)" by blast
    show "\<exists>s'. trio_work s s' \<and> stands (trio_raft i (trio_log e)) s' \<and> {} \<subseteq> set (sv_sent s')"
      using stands_round [OF s _ _ _ _ _ rd(1,2,4,5)] rd(3,6) i(2) by (auto simp: trio_raft_def trio_boot_log_def)
  qed (simp_all add: trio_raft_def knows_voters_def)
  then show ?thesis by simp
qed

text \<open>The election of member 1.\<close>

lemma trio_sels:
  "r_id (trio_raft i l) = i" "r_log (trio_raft i l) = l" "r_state (trio_raft i l) = Follower" "r_term (trio_raft i l) = 1"
  "r_read_states (trio_raft i l) = []" "r_uncommitted_size (trio_raft i l) = 0" "r_vote (trio_raft i l) = 0" "r_msgs (trio_raft i l) = []"
  "map fst (r_prs (trio_raft i l)) = [1, 2, 3]" "map fst (trio_prs i) = [1, 2, 3]"
  by (simp_all add: trio_raft_def trio_prs_def)

lemma trio_member:
  assumes "map fst (r_prs r) = [1, 2, 3]"
  shows "knows_voters [1, 2, 3] r" "j \<in> {1, 2} \<Longrightarrow> raft_get_progress j r \<noteq> None"
proof -
  show "knows_voters [1, 2, 3] r" using assms by (simp add: knows_voters_def)
  have "fst ` set (r_prs r) = {1, 2, 3}" using assms by (metis list.set(1,2) set_map)
  then show "raft_get_progress j r \<noteq> None" if "j \<in> {1, 2}"
    using that by (auto simp: raft_get_progress_def map_of_eq_None_iff split: option.split)
qed

lemma trio_messages:
  "msg_wf (trio_request ty j) \<or> ty \<in> {MsgApp, MsgHeartbeat, MsgSnap}" "msg_wf (trio_answer ty) \<or> ty \<in> {MsgApp, MsgHeartbeat, MsgSnap}"
  "m_to (trio_request ty j) = j" "m_to (trio_answer ty) = 1" "m_from (trio_request ty j) = 1" "m_from (trio_answer ty) = 2"
  "m_type (trio_request ty j) = ty" "m_type (trio_answer ty) = ty" "m_entries (trio_request ty j) = []" "m_entries (trio_answer ty) = []"
  "m_reject (trio_answer ty) = False"
  by (simp_all add: trio_request_def trio_answer_def new_message_def msg_wf_def u64_max_def new_snapshot_def)

text \<open>The states between the steps: the members agree on the voters and have sent everything.\<close>

definition trio_phase :: "entry \<Rightarrow> u64 \<Rightarrow> raft \<Rightarrow> bool" where
  "trio_phase e i r \<longleftrightarrow>
     r_id r = i \<and> r_log r = trio_log e \<and> r_read_states r = [] \<and> r_uncommitted_size r = 0 \<and> r_term r \<le> 2 \<and> r_vote r \<le> 2 \<and>
     map fst (r_prs r) = [1, 2, 3] \<and> r\<lparr>r_msgs := []\<rparr> = r"

lemma trio_phases:
  "trio_phase e i (trio_raft i (trio_log e))" "trio_phase e 1 (trio_pre e)" "trio_phase e 1 (trio_candidate e)" "trio_phase e 2 (trio_voter e)"
  by (simp_all add: trio_phase_def trio_sels trio_pre_def trio_candidate_def trio_voter_def)

text \<open>In such a state a member takes a step, which leaves messages, and a round sends them.\<close>

lemma phase_send:
  assumes reach: "trio_reach c0 (R(i := q\<lparr>r_msgs := ms\<rparr>)) M" and i: "i \<in> {1, 2}" and e: "trio_base e" and q: "trio_phase e i q" and ms: "ms \<noteq> []"
  shows "trio_reach c0 (R(i := q)) (set ms)"
proof -
  have "q\<lparr>r_msgs := []\<rparr> = q" using q by (simp add: trio_phase_def)
  moreover have "knows_voters [1, 2, 3] (q\<lparr>r_msgs := ms\<rparr>)" using q by (simp add: trio_phase_def knows_voters_def)
  ultimately have "trio_reach c0 (R(i := q)) (M \<union> set ms)"
    using reach_round [OF reach i _ _ e] q ms by (simp add: trio_phase_def)
  then show ?thesis unfolding trio_reach_def by blast
qed

lemma phase_fits: "trio_base e \<Longrightarrow> trio_phase e i r \<Longrightarrow> trio_fits r"
  using trio_log_rest(2) by (simp add: trio_phase_def trio_fits_def knows_voters_def)

lemma phase_receive:
  assumes reach: "trio_reach c0 R M" and i: "i \<in> {1, 2}" and e: "trio_base e" and q: "trio_phase e i (R i)"
    and m: "m \<in> M" "m = trio_request ty i \<and> ty \<in> {MsgPreVote, MsgVote} \<or> m = trio_answer ty \<and> i = 1 \<and> ty \<in> {MsgPreVoteResp, MsgVoteResp}"
      "r_state (R i) = Candidate \<longrightarrow> ty \<noteq> MsgPreVoteResp"
    and r: "raft_step m (R i) = Inr (st, r)" "map fst (r_prs r) = [1, 2, 3]"
  shows "trio_reach c0 (R(i := r)) M"
proof (rule reach_receive [OF reach i m(1) _ _ _ _ r(1) phase_fits [OF e q] _ _ trio_member(1) [OF r(2)]])
  show "m_to m = i" "\<not> stale_pre_vote m (R i)" "\<not> message_is_local_msg m" "msg_wf m" "m_entries m = []"
    using m(2,3) trio_messages(1) [of ty i] trio_messages(2) [of ty] by (auto simp: trio_messages(3-) stale_pre_vote_def message_is_local_msg_def)
  have "m_from m \<in> {1, 2}" using m(2) by (auto simp: trio_messages)
  then show "raft_get_progress (m_from m) (R i) \<noteq> None" using q by (intro trio_member(2)) (simp_all add: trio_phase_def)
qed

lemma trio_elects:
  "\<exists>c0 c. cluster_starts demo_lib demo_ext (\<lambda>b. 0) ''h:1,h:2,h:3'' c0 \<and> trio_step\<^sup>*\<^sup>* c0 c \<and>
    r_state (cl_raft c 1) = Leader \<and> r_term (cl_raft c 1) = 2"
proof -
  obtain c0 e where c0: "cluster_starts demo_lib demo_ext (\<lambda>b. 0) ''h:1,h:2,h:3'' c0" and e: "trio_base e"
    and boot: "trio_reach c0 (\<lambda>i. trio_raft i (trio_boot_log e)) {}" using trio_boots by blast
  define R where "R = (\<lambda>i. trio_raft i (trio_boot_log e))"
  obtain r where r: "raft_step (trio_answer MsgVoteResp) (trio_candidate e) = Inr (StatusOK, r)" "r_state r = Leader" "r_term r = 2"
    "map fst (r_prs r) = [1, 2, 3]" using trio_elected [OF e] by (elim exE conjE) (rule that)
  let ?m1 = "trio_raft 1 (trio_log e)" and ?m2 = "trio_raft 2 (trio_log e)"
  let ?q1 = "[trio_request MsgPreVote 2, trio_request MsgPreVote 3]" and ?q2 = "[trio_request MsgVote 2, trio_request MsgVote 3]"
  let ?a1 = "[trio_answer MsgPreVoteResp]" and ?a2 = "[trio_answer MsgVoteResp]"
  note ph = trio_phases [of e]
  have keys: "map fst (r_prs q) = [1, 2, 3]" if "trio_phase e i q" for i q using that by (simp add: trio_phase_def)
  have "trio_reach c0 (R(1 := ?m1)) {}"
    using reach_first_round [OF boot, folded R_def, of 1 e] e by (simp add: R_def)
  then have s0: "trio_reach c0 (R(1 := ?m1, 2 := ?m2)) {}" using reach_first_round [of _ "R(1 := ?m1)" _ 2 e] e by (simp add: R_def)
  have "trio_reach c0 (R(1 := ?m1, 2 := ?m2, 1 := (trio_pre e)\<lparr>r_msgs := ?q1\<rparr>)) {}"
    by (rule reach_campaign [OF s0])
      (use trio_campaign [OF e] phase_fits [OF e ph(1)] trio_member(1) [of "(trio_pre e)\<lparr>r_msgs := ?q1\<rparr>"] keys [OF ph(2)]
        in \<open>simp_all del: One_nat_def\<close>)
  from phase_send [OF this _ e ph(2)] have s1: "trio_reach c0 (R(2 := ?m2, 1 := trio_pre e)) (set ?q1)" by (simp del: One_nat_def)
  have "trio_reach c0 (R(2 := ?m2, 1 := trio_pre e, 2 := ?m2\<lparr>r_msgs := ?a1\<rparr>)) (set ?q1)"
    by (rule phase_receive [OF s1 _ e, where m = "trio_request MsgPreVote 2" and ty = MsgPreVote])
      (use trio_pre_vote [OF e] ph(1) [of 2] keys [OF ph(1)] in \<open>simp_all del: One_nat_def\<close>)
  from phase_send [OF this _ e ph(1)] have s2: "trio_reach c0 (R(1 := trio_pre e, 2 := ?m2)) (set ?a1)" by (simp del: One_nat_def)
  have "trio_reach c0 (R(1 := trio_pre e, 2 := ?m2, 1 := (trio_candidate e)\<lparr>r_msgs := ?q2\<rparr>)) (set ?a1)"
    by (rule phase_receive [OF s2 _ e, where m = "trio_answer MsgPreVoteResp" and ty = MsgPreVoteResp])
      (use trio_pre_elected [OF e] ph(2) keys [OF ph(3)] in \<open>simp_all del: One_nat_def add: trio_pre_def\<close>)
  from phase_send [OF this _ e ph(3)] have s3: "trio_reach c0 (R(2 := ?m2, 1 := trio_candidate e)) (set ?q2)" by (simp del: One_nat_def)
  have "trio_reach c0 (R(2 := ?m2, 1 := trio_candidate e, 2 := (trio_voter e)\<lparr>r_msgs := ?a2\<rparr>)) (set ?q2)"
    by (rule phase_receive [OF s3 _ e, where m = "trio_request MsgVote 2" and ty = MsgVote])
      (use trio_vote [OF e] ph(1) [of 2] keys [OF ph(4)] in \<open>simp_all del: One_nat_def\<close>)
  from phase_send [OF this _ e ph(4)] have s4: "trio_reach c0 (R(1 := trio_candidate e, 2 := trio_voter e)) (set ?a2)" by (simp del: One_nat_def)
  have "trio_reach c0 (R(1 := trio_candidate e, 2 := trio_voter e, 1 := r)) (set ?a2)"
    by (rule phase_receive [OF s4 _ e, where m = "trio_answer MsgVoteResp" and ty = MsgVoteResp])
      (use r(1,4) ph(3) in \<open>simp_all del: One_nat_def\<close>)
  then obtain c where "trio_step\<^sup>*\<^sup>* c0 c" "stands r (cl_servers c 1)" by (auto simp: trio_reach_def)
  then show ?thesis using c0 r(2,3) by (auto simp: stands_def)
qed

end
