(* ===== verification/Cluster_Properties.thy ===== *)
theory Cluster_Properties
  imports Demo_Cluster
begin

text \<open>
  The cluster: servers with their disks, connected by a network that loses, delays, reorders and
  repeats messages, with crashes and restarts at any time.
\<close>

section \<open>Elections\<close>



end
