(* ===== verification/Spec2Isabelle.thy ===== *)
theory Spec2Isabelle
  imports Log_Properties Flow_Properties Raft_Properties Client_Properties Cluster_Properties
begin

text \<open>
  A verification library for \<^emph>\<open>raft-kv\<close>, a replicated key-value store: a C++ port of the etcd
  raft library (\<open>src/raft-kv/raft\<close>) with its write-ahead log, snapshots, transport and server.

  \<^bold>\<open>Conventions.\<close> An operation of the program is a function on explicit states. \<open>'a res\<close>
  (theory \<open>Prelude\<close>) is the result of code that may not return: \<open>Inl\<close> tells whether it throws
  (\<open>LOG_FATAL\<close>), fails an assertion, is undefined (out of range, null, uninitialised) or
  diverges; every such place of the source is a branch. \<open>Status\<close> results are values. Integers
  are natural numbers with the wrap-around of 64-bit and 32-bit arithmetic written out
  (\<open>add64\<close>, \<open>sub64\<close>, \<open>add32\<close>, \<open>cast32\<close>); bytes are 8-bit words. \<open>std::unordered_map\<close> is an
  association list in iteration order.

  \<^bold>\<open>The raft library.\<close>
  \<^item> \<open>Proto\<close>: \<open>raft/proto\<close>, \<open>raft/util\<close>, \<open>common/status.h\<close>: messages, entries, sizes.
  \<^item> \<open>Abstract_Log\<close>: the log as base point and consecutive entries, and the locale
    \<open>log_provider\<close>, the contract of the interface \<open>Storage\<close>. \<open>Storage\<close> models \<open>MemoryStorage\<close>
    and interprets the locale.
  \<^item> \<open>Unstable\<close>, \<open>RaftLog\<close>: \<open>raft/unstable\<close>, \<open>raft/raft_log\<close>. \<open>RaftLog_Refine\<close> and
    \<open>RaftLog_Update\<close> show that reads and updates of the two-part log are those of the abstract
    log, and that committed entries are never changed.
  \<^item> \<open>Config\<close>, \<open>Progress\<close> (locale \<open>window\<close>: the ring buffer of a follower's messages in flight is a
    bounded queue), \<open>ReadOnly\<close>: \<open>raft/config\<close>, \<open>raft/progress\<close>, \<open>raft/readonly\<close>.
  \<^item> \<open>Raft_State\<close>, \<open>Raft\<close>: \<open>raft/raft.h\<close> and \<open>raft/raft.cpp\<close>: the state of a node, role changes,
    sending, committing, and all message handlers, \<open>step\<close>, \<open>tick\<close>, configuration changes and the
    constructor. \<open>Raft_Invariant\<close> and \<open>Raft_Steps\<close>: the invariant \<open>raft_wf\<close>, the relation
    \<open>raft_grows\<close> (the term grows, votes stay, committed entries stay, the storage is not touched)
    and that every handler keeps both. \<open>Raft_Quorum\<close>: majorities (locale \<open>quorum_system\<close>). \<open>Raft_Behaviour\<close>: what single
    handlers compute on each branch. \<open>Election\<close>: what every step may do to term, vote, role, counted
    votes and vote messages.
  \<^item> \<open>Node\<close>, \<open>Node_Run\<close>: \<open>raft/ready\<close>, \<open>raft/node\<close> and all interleavings of the calls of an
    application, as the step relation \<open>node_trans\<close>.

  \<^bold>\<open>Fuel.\<close> The only loop of the raft library whose end is not obvious from its text is the one in
  \<open>step_leader\<close> that sends while \<open>maybe_send_append\<close> sends. \<open>raft_send_all\<close> has fuel
  \<open>raft_send_fuel\<close>, the free places of the follower's window plus two; a property shows that this
  is always enough.

  \<^bold>\<open>Persistence.\<close>
  \<^item> \<open>Codec\<close>: \<open>msgpack\<close> as a pair of functions and what is relied on (what was packed unpacks again),
    little- and big-endian numbers, decimal numbers. \<open>Demo_Codec\<close> is a concrete instance for
    witnesses.
  \<^item> \<open>File_Names\<close>, \<open>Wal\<close>: \<open>wal/wal\<close>: names, record headers, buffering, reading with truncation,
    saving. \<open>Wal_Recovery\<close>: what is written is what is read, also after a torn or damaged record.
  \<^item> \<open>Snapshotter\<close>: \<open>snap/snapshotter\<close>: saving with partial writes, loading, broken files.

  \<^bold>\<open>Network.\<close>
  \<^item> \<open>ByteBuffer\<close> (locale \<open>byte_queue\<close>: a queue of bytes): \<open>common/bytebuffer\<close>, \<open>common/slice\<close>.
  \<^item> \<open>Transport\<close>: \<open>transport\<close>: frames, addresses, client sessions, peers, accepting and server
    sessions, each handler one step. \<open>Transport_Stream\<close>: the bytes of a connection are the frames in
    order, and it does not matter in which pieces they arrive.

  \<^bold>\<open>Clients.\<close>
  \<^item> \<open>Glob\<close>: \<open>string_match_len\<close> with bounds-checked accesses, and a reference definition.
    \<open>Status_Rep\<close>: the packed \<open>Status\<close> and its text. \<open>Redis_Store\<close>, \<open>Redis_Session\<close>:
    \<open>server/redis_store\<close>, \<open>server/redis_session\<close>: commands, pending answers, commits; reading and
    answering. \<open>Redis_Spec\<close>: what they compute.

  \<^bold>\<open>The server.\<close>
  \<^item> \<open>Raft_Server\<close>: \<open>server/raft_node\<close>: start-up and replay, rounds of \<open>pull_ready_events\<close>,
    publishing, snapshots, \<open>propose\<close>, \<open>process\<close> and \<open>main\<close>. It puts the raft node, the log, the
    snapshot files, the store and the transport together. \<open>Server_Spec\<close>: what its parts compute.
    \<open>Server_Run\<close>: the rounds of the steady state complete. \<open>Server_Restart\<close>: what a restart loses.
  \<^item> \<open>Server_Crash\<close>: runs with crashes. \<open>server_life\<close> is the step relation of calls, client requests,
    rounds and crashes with restarts; \<open>server_durable\<close> is its invariant: the log file describes the
    storage and a hard state behind which the node never falls.
  \<^item> \<open>Votes\<close>, \<open>Cluster\<close>: many servers and a network (\<open>cluster_step\<close>). The history of votes is kept
    beside the state: those on disk and those only in memory. The invariant \<open>cluster_ok\<close> says that every
    vote message in the network, every vote counted from another server and every leader is backed by
    votes on disk, because a round writes the disk before it sends. Left out are snapshots, a candidate that
    receives a late pre-vote answer, which the code counts like a vote (a property shows this), and
    nodes that campaign or lead with other voters than the servers started with.
  \<^item> \<open>Raft_KV\<close>: \<open>raft-kv.cpp\<close> and the signal handler: options, the start of the server, stopping.

  The loop of \<open>pull_ready_events\<close> runs as long as outcomes of file operations are given; a property
  shows that one more than there are committed entries to apply is enough. The positions of the
  byte buffer are 32-bit numbers; properties that mention \<open>bytebuffer_limit\<close> (a gigabyte through one
  buffer) are about the range in which they do not wrap. What was handed to \<open>fwrite\<close> counts as written:
  the source neither flushes nor syncs, and the model does not look into the C library's buffer.

  \<^bold>\<open>Properties.\<close> They are in \<open>Log_Properties\<close>, \<open>Flow_Properties\<close>, \<open>Raft_Properties\<close> (raft),
  \<open>Disk_Properties\<close> (log and snapshot files), \<open>Client_Properties\<close> (network and clients),
  \<open>Server_Properties\<close> (server, crashes, restarts), \<open>Cluster_Properties\<close> (many servers) and, for runs of
  the raft node, below. Each is followed by a witness on concrete states (theories \<open>Demo\<close>,
  \<open>Demo_Codec\<close> and \<open>Demo_Cluster\<close>, where three servers start on empty disks and elect a leader).

  \<^bold>\<open>Not modelled.\<close> The threads themselves and their stopping, log output and the text
  form of \<open>Progress\<close>. \<open>boost::asio\<close>, threads and timers appear as the order in which handlers run;
  \<open>boost::filesystem\<close>, \<open>boost::crc\<close>, \<open>msgpack\<close>, \<open>hiredis\<close> and the option parser of
  \<open>glib\<close> are parameters of the definitions that
  use them. Functions that only log (\<open>remove_peer\<close>, \<open>send_snap\<close>, \<open>is_id_removed\<close>, the reports of
  \<open>RaftNode\<close>) have nothing to model.
\<close>

section \<open>Properties that span components\<close>



text \<open>C14. One round of the application: taking a ready, writing its snapshot and entries to storage and
  calling advance always completes. The messages are handed out exactly once, storage then
  holds the whole log, no entry is left unstable, the log as a whole is unchanged, and the
  invariant holds again.\<close>

theorem ready_round_completes:
  assumes "node_wf n"
  shows "\<exists>rd n1 st n2. node_ready n = Inr (rd, n1) \<and>
    persist_ready rd (rl_storage (r_log (rn_raft n1))) = Inr st \<and>
    node_advance rd (node_set_storage st n1) = Inr n2 \<and>
    node_wf n2 \<and> raft_advances (rn_raft n) (rn_raft n2) \<and>
    raft_log_abs (r_log (rn_raft n2)) = raft_log_abs (r_log (rn_raft n)) \<and>
    storage_abs st = raft_log_abs (r_log (rn_raft n)) \<and>
    raft_log_unstable_entries (r_log (rn_raft n2)) = [] \<and>
    rd_messages rd = r_msgs (rn_raft n) \<and> r_msgs (rn_raft n2) = [] \<and>
    rl_storage (r_log (rn_raft n2)) = st"
  by (rule node_round_total [OF assms])

theorem ready_round_completes_witness:
  "\<exists>rd n1 st n2. node_ready (demo_node Leader) = Inr (rd, n1) \<and>
     persist_ready rd (rl_storage (r_log (rn_raft n1))) = Inr st \<and>
     node_advance rd (node_set_storage st n1) = Inr n2 \<and>
     al_ents (storage_abs st) = [demo_entry 1 1, demo_entry 1 2]"
  using ready_round_completes [OF demo_node_wf, of Leader] by auto

end
